(* ===== verification/Prelude.thy ===== *)
theory Prelude
  imports Main "HOL-Library.Word"
begin

unbundle bit_operations_syntax

text \<open>
  The vocabulary shared by every theory of the development.

  \<^item> Bytes and C integers: \<open>uint8_t\<close>, \<open>uint16_t\<close> and \<open>uint32_t\<close> are words of that width, so
    that increments and decrements wrap as they do in the program.
  \<^item> Failure: a failed \<open>assert\<close>, a call of \<open>abort\<close>, an access outside the object it names, a NULL
    dereference, a read of the inactive member of a union and the use of an uninitialised variable
    are values of \<open>c_error\<close>; a fallible C function returns a value of \<open>'a res\<close> and \<open>rbind\<close> runs one after another.
  \<^item> Memory: an array, struct or union accessed bytewise is a byte list; \<open>mem_set\<close> and \<open>mem_get\<close>
    check the index against the extent of that object.
  \<^item> The parts of \<open>string.h\<close> and \<open>arpa/inet.h\<close> the program calls.
\<close>

section \<open>Integers, bytes and failure\<close>

type_synonym byte = "8 word"
type_synonym u16 = "16 word"
type_synonym u32 = "32 word"
type_synonym fd = int

datatype c_error = Assert_fail | Abort_call | Out_of_bounds | Null_deref | Bad_union | Uninit_read

type_synonym 'a res = "c_error + 'a"

named_theorems res_simps \<open>equations that run fallible computations\<close>

definition rbind :: "'a res \<Rightarrow> ('a \<Rightarrow> 'b res) \<Rightarrow> 'b res" where
  "rbind m f = (case m of Inl e \<Rightarrow> Inl e | Inr x \<Rightarrow> f x)"

definition c_assert :: "bool \<Rightarrow> unit res" where
  "c_assert b = (if b then Inr () else Inl Assert_fail)"

section \<open>Memory accessed bytewise\<close>

definition mem_get :: "'a list \<Rightarrow> int \<Rightarrow> 'a res" where
  "mem_get xs i = (if 0 \<le> i \<and> i < int (length xs) then Inr (xs ! nat i) else Inl Out_of_bounds)"

definition mem_set :: "'a list \<Rightarrow> int \<Rightarrow> 'a \<Rightarrow> 'a list res" where
  "mem_set xs i v =
     (if 0 \<le> i \<and> i < int (length xs) then Inr (xs[nat i := v]) else Inl Out_of_bounds)"

text \<open>\<open>overwrite xs off ys\<close> stores the block \<open>ys\<close> at offset \<open>off\<close>: the effect of \<open>memcpy\<close>,
  \<open>memmove\<close> and of the kernel filling a receive buffer.\<close>

definition overwrite :: "'a list \<Rightarrow> nat \<Rightarrow> 'a list \<Rightarrow> 'a list" where
  "overwrite xs off ys = take off xs @ ys @ drop (off + length ys) xs"

section \<open>C strings\<close>

text \<open>The string a pointer denotes: the bytes before the first NUL. \<open>read_cstr\<close> faults when there is
  no NUL in the object, where C would run past its end.\<close>

definition cstr :: "byte list \<Rightarrow> byte list" where
  "cstr xs = takeWhile (\<lambda>c. c \<noteq> 0) xs"

definition read_cstr :: "byte list \<Rightarrow> byte list res" where
  "read_cstr xs = (if 0 \<in> set xs then Inr (cstr xs) else Inl Out_of_bounds)"

text \<open>The \<open>n\<close> bytes that \<open>strncpy (dst, s, n)\<close> stores for the string \<open>s\<close>: its first \<open>n\<close> bytes,
  padded with NULs. A string of \<open>n\<close> bytes or more is stored without a terminator.\<close>

definition strncpy_bytes :: "nat \<Rightarrow> byte list \<Rightarrow> byte list" where
  "strncpy_bytes n s = take n s @ replicate (n - length s) 0"

text \<open>\<open>strncmp (a, b, n) == 0\<close> on two arrays of at least \<open>n\<close> bytes.\<close>

definition strncmp_eq :: "nat \<Rightarrow> byte list \<Rightarrow> byte list \<Rightarrow> bool" where
  "strncmp_eq n a b \<longleftrightarrow> cstr (take n a) = cstr (take n b)"

definition bytes_of :: "string \<Rightarrow> byte list" where
  "bytes_of s = map of_char s"

section \<open>Network byte order\<close>

definition be16 :: "u16 \<Rightarrow> byte list" where
  "be16 w = [ucast (drop_bit 8 w), ucast w]"

definition be32 :: "u32 \<Rightarrow> byte list" where
  "be32 w = [ucast (drop_bit 24 w), ucast (drop_bit 16 w), ucast (drop_bit 8 w), ucast w]"

fun be16_dec :: "byte list \<Rightarrow> u16" where
  "be16_dec (a # b # _) = push_bit 8 (ucast a) OR ucast b"
| "be16_dec _ = 0"

fun be32_dec :: "byte list \<Rightarrow> u32" where
  "be32_dec (a # b # c # d # _) =
     push_bit 24 (ucast a) OR push_bit 16 (ucast b) OR push_bit 8 (ucast c) OR ucast d"
| "be32_dec _ = 0"

section \<open>Lemmas on fallible computations\<close>

lemma rbind_simps [simp, res_simps]:
  "rbind (Inl e) f = Inl e"
  "rbind (Inr x) f = f x"
  by (simp_all add: rbind_def)

lemma rbind_Inr_iff: "rbind m f = Inr y \<longleftrightarrow> (\<exists>x. m = Inr x \<and> f x = Inr y)"
  by (cases m) simp_all

lemma rbind_Inl_iff: "rbind m f = Inl e \<longleftrightarrow> m = Inl e \<or> (\<exists>x. m = Inr x \<and> f x = Inl e)"
  by (cases m) auto

lemma rbind_InrE [elim!]:
  assumes "rbind m f = Inr y"
  obtains x where "m = Inr x" "f x = Inr y"
  using assms by (auto simp: rbind_Inr_iff)

lemma rbind_cong [fundef_cong]:
  "m = m' \<Longrightarrow> (\<And>x. m' = Inr x \<Longrightarrow> f x = g x) \<Longrightarrow> rbind m f = rbind m' g"
  by (cases m') simp_all

lemma rbind_assoc: "rbind (rbind m f) g = rbind m (\<lambda>x. rbind (f x) g)"
  by (cases m) simp_all

lemma rbind_return [simp]: "rbind m Inr = m"
  by (cases m) simp_all

lemma c_assert_simps [simp, res_simps]:
  "c_assert True = Inr ()"
  "c_assert False = Inl Assert_fail"
  by (simp_all add: c_assert_def)

lemma c_assert_Inr_iff [simp]: "c_assert b = Inr u \<longleftrightarrow> b"
  by (simp add: c_assert_def)

section \<open>Lemmas on memory\<close>

lemma mem_set_nat [simp]:
  "i < length xs \<Longrightarrow> mem_set xs (int i) v = Inr (xs[i := v])"
  by (simp add: mem_set_def)

lemma mem_set_uint [simp]:
  "unat i < length xs \<Longrightarrow> mem_set xs (uint i) v = Inr (xs[unat i := v])"
  by (metis mem_set_nat uint_nat)

lemma mem_get_nat [simp]: "i < length xs \<Longrightarrow> mem_get xs (int i) = Inr (xs ! i)"
  by (simp add: mem_get_def)

lemma mem_set_Inr_iff:
  "mem_set xs i v = Inr ys \<longleftrightarrow> 0 \<le> i \<and> i < int (length xs) \<and> ys = xs[nat i := v]"
  by (auto simp: mem_set_def)

lemma mem_set_Inl_iff:
  "mem_set xs i v = Inl e \<longleftrightarrow> e = Out_of_bounds \<and> \<not> (0 \<le> i \<and> i < int (length xs))"
  by (auto simp: mem_set_def)

lemma length_overwrite [simp]:
  "off + length ys \<le> length xs \<Longrightarrow> length (overwrite xs off ys) = length xs"
  by (simp add: overwrite_def)

lemma take_overwrite [simp]:
  "off + length ys \<le> length xs \<Longrightarrow> take off (overwrite xs off ys) = take off xs"
  by (simp add: overwrite_def)

lemma overwrite_block:
  "off + length ys \<le> length xs \<Longrightarrow> take (length ys) (drop off (overwrite xs off ys)) = ys"
  by (simp add: overwrite_def)

lemma overwrite_below:
  "n \<le> off \<Longrightarrow> off \<le> length xs \<Longrightarrow> take n (overwrite xs off ys) = take n xs"
  by (simp add: overwrite_def min_absorb1)

lemma drop_take_below:
  "m \<le> n \<Longrightarrow> n \<le> off \<Longrightarrow> off \<le> length xs \<Longrightarrow>
   take (n - m) (drop m (overwrite xs off ys)) = take (n - m) (drop m xs)"
  by (simp add: overwrite_def take_drop)

lemma overwrite_Nil [simp]: "overwrite xs k [] = xs"
  by (simp add: overwrite_def)

lemma overwrite_update:
  "k < length xs \<Longrightarrow> overwrite (xs[k := c]) (Suc k) cs = overwrite xs k (c # cs)"
  by (simp add: overwrite_def take_Suc_conv_app_nth drop_update_cancel)

lemma overwrite_zero_block:
  "length ys \<le> n \<Longrightarrow> overwrite (replicate n z) 0 ys = ys @ replicate (n - length ys) z"
  by (simp add: overwrite_def)

lemma take_drop_split:
  assumes "m \<le> n" "n \<le> k"
  shows "take (k - m) (drop m xs) = take (n - m) (drop m xs) @ take (k - n) (drop n xs)"
proof -
  have "k - m = (n - m) + (k - n)" "drop n xs = drop (n - m) (drop m xs)"
    using assms by simp_all
  then show ?thesis by (simp add: take_add)
qed

section \<open>Lemmas on C strings\<close>

lemma cstr_Nil [simp]: "cstr [] = []"
  by (simp add: cstr_def)

lemma cstr_Cons [simp]: "cstr (x # xs) = (if x = 0 then [] else x # cstr xs)"
  by (simp add: cstr_def)

lemma cstr_append_zero [simp]: "cstr (xs @ 0 # ys) = cstr xs"
  by (induction xs) auto

lemma cstr_no_zero [simp]: "0 \<notin> set xs \<Longrightarrow> cstr xs = xs"
  by (induction xs) auto

lemma zero_notin_cstr [simp]: "0 \<notin> set (cstr xs)"
  by (induction xs) auto

lemma cstr_append: "cstr (xs @ ys) = (if 0 \<in> set xs then cstr xs else xs @ cstr ys)"
  by (induction xs) auto

lemma cstr_replicate_zero [simp]: "cstr (replicate n 0) = []"
  by (cases n) auto

lemma length_cstr_le: "length (cstr xs) \<le> length xs"
  by (simp add: cstr_def length_takeWhile_le)

lemma cstr_take_le: "length (cstr xs) \<le> n \<Longrightarrow> cstr (take n xs) = cstr xs"
proof (induction xs arbitrary: n)
  case (Cons x xs)
  then show ?case by (cases n) (auto split: if_splits)
qed simp

lemma length_strncpy_bytes [simp]: "length (strncpy_bytes n s) = n"
  by (simp add: strncpy_bytes_def)

lemma zero_in_strncpy: "length s < n \<Longrightarrow> 0 \<in> set (strncpy_bytes n s)"
  by (simp add: strncpy_bytes_def)

lemma cstr_strncpy: "0 \<notin> set s \<Longrightarrow> length s \<le> n \<Longrightarrow> cstr (strncpy_bytes n s) = s"
  by (simp add: strncpy_bytes_def cstr_append)

lemma zero_notin_strncpy: "0 \<notin> set s \<Longrightarrow> n \<le> length s \<Longrightarrow> 0 \<notin> set (strncpy_bytes n s)"
  by (auto simp: strncpy_bytes_def dest: in_set_takeD)

section \<open>Lemmas on counters\<close>

lemma unat_of_nat_byte [simp]: "n < 256 \<Longrightarrow> unat (of_nat n :: byte) = n"
  by (simp add: unat_of_nat)

lemma byte_of_nat_eq_0: "n < 256 \<Longrightarrow> (of_nat n :: byte) = 0 \<longleftrightarrow> n = 0"
  using unat_of_nat_byte [of n] by (auto simp flip: unat_0_iff)

lemma unat_byte_less [simp]: "unat (b :: byte) < 256"
  using unsigned_less [of b] by simp

lemma unat_byte_le: "unat (b :: byte) \<le> 255"
  using unat_byte_less [of b] by linarith

lemma byte_less_2: "(b :: byte) < 2 \<longleftrightarrow> b = 0 \<or> b = 1"
  by (auto simp: word_less_nat_alt word_unat_eq_iff)

lemma unat_byte_Suc: "unat (b :: byte) < 255 \<Longrightarrow> unat (b + 1) = Suc (unat b)"
  by (simp add: unat_word_ariths)

lemma unat_u16_less [simp]: "unat (w :: u16) < 65536"
  using unsigned_less [of w] by simp

lemma unat_u16_Suc: "unat (w :: u16) < 65535 \<Longrightarrow> unat (w + 1) = Suc (unat w)"
  by (simp add: unat_word_ariths)

section \<open>Lemmas on network byte order\<close>

lemma length_be16 [simp]: "length (be16 w) = 2"
  by (simp add: be16_def)

lemma length_be32 [simp]: "length (be32 w) = 4"
  by (simp add: be32_def)

lemma be16_dec_be16 [simp]: "be16_dec (be16 w @ xs) = w"
  unfolding be16_def append.simps be16_dec.simps
  by (rule bit_word_eqI) (auto simp: bit_simps)

lemma be32_dec_be32 [simp]: "be32_dec (be32 w @ xs) = w"
  unfolding be32_def append.simps be32_dec.simps
proof (rule bit_word_eqI)
  fix n
  assume "n < LENGTH(32)"
  then have "n < 8 \<or> 8 \<le> n \<and> n < 16 \<or> 16 \<le> n \<and> n < 24 \<or> 24 \<le> n \<and> n < 32" by auto
  then show "bit (push_bit 24 (ucast (ucast (drop_bit 24 w) :: byte)) OR
      push_bit 16 (ucast (ucast (drop_bit 16 w) :: byte)) OR
      push_bit 8 (ucast (ucast (drop_bit 8 w) :: byte)) OR ucast (ucast w :: byte) :: u32) n = bit w n"
    by (elim disjE) (auto simp: bit_simps)
qed

lemma be16_inj [simp]: "be16 v = be16 w \<longleftrightarrow> v = w"
  by (metis append_Nil2 be16_dec_be16)

lemma be32_inj [simp]: "be32 v = be32 w \<longleftrightarrow> v = w"
  by (metis append_Nil2 be32_dec_be32)

end
