(* ===== verification/Buffer.thy ===== *)
theory Buffer
  imports Prelude
begin

text \<open>
  Model of \<open>src/server/buffer.c\<close>: the direct-access I/O buffer every connection owns two of.

  The struct holds four pointers into one array. The model keeps the array itself (\<open>bdata\<close>) and
  the three other pointers as offsets from \<open>data\<close>. The invariant \<open>R \<le> W \<le> limit\<close> of
  \<open>buffer.h\<close> is \<open>wf_buffer\<close>. What the buffer promises its clients is a bounded FIFO of bytes:
  \<open>buffer_bytes\<close> is the abstraction, the locale \<open>byte_queue\<close> the contract, and its
  interpretation at the end of the theory the refinement proof.
\<close>

section \<open>The struct and its operations\<close>

record buffer =
  bdata :: "byte list"
  blimit :: nat
  bread :: nat
  bwrite :: nat

definition buffer_reset :: "buffer \<Rightarrow> buffer" where
  "buffer_reset b = b\<lparr>bread := 0, bwrite := 0\<rparr>"

definition buffer_init :: "nat \<Rightarrow> byte list \<Rightarrow> buffer" where
  "buffer_init n data =
     (buffer_reset \<lparr>bdata = data, blimit = 0, bread = 0, bwrite = 0\<rparr>)\<lparr>blimit := n\<rparr>"

definition buffer_can_write :: "buffer \<Rightarrow> bool" where
  "buffer_can_write b \<longleftrightarrow> int (blimit b) - int (bwrite b) > 0"

text \<open>\<open>buffer_write_ptr\<close> and \<open>buffer_read_ptr\<close> return the offset of the pointer and \<open>*nbyte\<close>.\<close>

definition buffer_write_ptr :: "buffer \<Rightarrow> (nat \<times> nat) res" where
  "buffer_write_ptr b =
     rbind (c_assert (bwrite b \<le> blimit b)) (\<lambda>_. Inr (bwrite b, blimit b - bwrite b))"

definition buffer_can_read :: "buffer \<Rightarrow> bool" where
  "buffer_can_read b \<longleftrightarrow> int (bwrite b) - int (bread b) > 0"

definition buffer_read_ptr :: "buffer \<Rightarrow> (nat \<times> nat) res" where
  "buffer_read_ptr b =
     rbind (c_assert (bread b \<le> bwrite b)) (\<lambda>_. Inr (bread b, bwrite b - bread b))"

definition buffer_write_adv :: "buffer \<Rightarrow> int \<Rightarrow> buffer res" where
  "buffer_write_adv b bytes =
     (if bytes > -1 then
        let b' = b\<lparr>bwrite := bwrite b + nat bytes\<rparr>
        in rbind (c_assert (bwrite b' \<le> blimit b')) (\<lambda>_. Inr b')
      else Inr b)"

definition buffer_compact :: "buffer \<Rightarrow> buffer" where
  "buffer_compact b =
     (if 0 = bread b then b
      else if bread b = bwrite b then b\<lparr>bread := 0, bwrite := 0\<rparr>
      else let n = bwrite b - bread b
           in b\<lparr>bdata := overwrite (bdata b) 0 (take n (drop (bread b) (bdata b))),
                bread := 0, bwrite := n\<rparr>)"

definition buffer_read_adv :: "buffer \<Rightarrow> int \<Rightarrow> buffer res" where
  "buffer_read_adv b bytes =
     (if bytes > -1 then
        let b' = b\<lparr>bread := bread b + nat bytes\<rparr>
        in rbind (c_assert (bread b' \<le> bwrite b'))
             (\<lambda>_. Inr (if bread b' = bwrite b' then buffer_compact b' else b'))
      else Inr b)"

definition buffer_read :: "buffer \<Rightarrow> (byte \<times> buffer) res" where
  "buffer_read b =
     (if buffer_can_read b then
        rbind (mem_get (bdata b) (int (bread b)))
          (\<lambda>ret. rbind (buffer_read_adv b 1) (\<lambda>b'. Inr (ret, b')))
      else Inr (0, b))"

definition buffer_write :: "buffer \<Rightarrow> byte \<Rightarrow> buffer res" where
  "buffer_write b c =
     (if buffer_can_write b then
        rbind (mem_set (bdata b) (int (bwrite b)) c)
          (\<lambda>d. buffer_write_adv (b\<lparr>bdata := d\<rparr>) 1)
      else Inr b)"

text \<open>Stores made through the pointer \<open>buffer_write_ptr\<close> returned, by the program (the
  \<open>buff[k] = ...\<close> of the marshalling functions) or by \<open>recv\<close>: the block \<open>xs\<close> lands at the write
  pointer. Bytes past the array are a fault.\<close>

definition buffer_poke :: "buffer \<Rightarrow> byte list \<Rightarrow> buffer res" where
  "buffer_poke b xs =
     (if bwrite b + length xs \<le> length (bdata b)
      then Inr (b\<lparr>bdata := overwrite (bdata b) (bwrite b) xs\<rparr>)
      else Inl Out_of_bounds)"

section \<open>Invariant and abstraction\<close>

definition wf_buffer :: "buffer \<Rightarrow> bool" where
  "wf_buffer b \<longleftrightarrow> bread b \<le> bwrite b \<and> bwrite b \<le> blimit b \<and> blimit b = length (bdata b)"

definition buffer_bytes :: "buffer \<Rightarrow> byte list" where
  "buffer_bytes b = take (bwrite b - bread b) (drop (bread b) (bdata b))"

definition buffer_space :: "buffer \<Rightarrow> nat" where
  "buffer_space b = blimit b - bwrite b"

fun buffer_write_all :: "buffer \<Rightarrow> byte list \<Rightarrow> buffer res" where
  "buffer_write_all b [] = Inr b"
| "buffer_write_all b (c # cs) = rbind (buffer_write b c) (\<lambda>b'. buffer_write_all b' cs)"

section \<open>The kernel on the other side of the buffer\<close>

text \<open>
  \<open>recv (fd, ptr, count, 0)\<close> and \<open>send (fd, ptr, count, MSG_NOSIGNAL)\<close> are the environment of the
  program: what a call returns is an argument of the model. \<open>Recv_data xs\<close> says that \<open>xs\<close> is ready
  on the socket, of which the call takes at most \<open>count\<close> bytes (so a call with \<open>count = 0\<close>
  returns 0, as end of file does); \<open>Send_ok k\<close> says that the socket has room for \<open>k\<close> bytes.
\<close>

datatype recv_result = Recv_data "byte list" | Recv_eof | Recv_err

datatype send_result = Send_ok nat | Send_err

fun recv_bytes :: "nat \<Rightarrow> recv_result \<Rightarrow> byte list" where
  "recv_bytes count (Recv_data xs) = take count xs"
| "recv_bytes count Recv_eof = []"
| "recv_bytes count Recv_err = []"

fun recv_ret :: "nat \<Rightarrow> recv_result \<Rightarrow> int" where
  "recv_ret count (Recv_data xs) = int (length (take count xs))"
| "recv_ret count Recv_eof = 0"
| "recv_ret count Recv_err = -1"

fun send_ret :: "nat \<Rightarrow> send_result \<Rightarrow> int" where
  "send_ret count (Send_ok k) = int (min k count)"
| "send_ret count Send_err = -1"

text \<open>\<open>ptr = buffer_write_ptr (b, &count); n = recv (fd, ptr, count, 0)\<close>: the value \<open>n\<close> and the
  buffer with the received bytes stored, its write pointer not yet advanced.\<close>

definition buffer_recv :: "buffer \<Rightarrow> recv_result \<Rightarrow> (int \<times> buffer) res" where
  "buffer_recv b r =
     rbind (buffer_write_ptr b) (\<lambda>(ptr, count).
     rbind (buffer_poke b (recv_bytes count r)) (\<lambda>b'. Inr (recv_ret count r, b')))"

text \<open>\<open>ptr = buffer_read_ptr (b, &count); n = send (fd, ptr, count, MSG_NOSIGNAL)\<close>: the value \<open>n\<close>
  and the bytes put on the wire.\<close>

definition buffer_send :: "buffer \<Rightarrow> send_result \<Rightarrow> (int \<times> byte list) res" where
  "buffer_send b r =
     rbind (buffer_read_ptr b) (\<lambda>(ptr, count).
       let n = send_ret count r in Inr (n, take (nat n) (drop ptr (bdata b))))"

text \<open>Running a buffer: blocks are received into it and prefixes of its contents sent out of it.
  The result holds everything received, everything sent and the final buffer.\<close>

datatype queue_op = Op_put "byte list" | Op_take nat

fun queue_run ::
  "('q \<Rightarrow> byte list \<Rightarrow> 'q res) \<Rightarrow> ('q \<Rightarrow> nat \<Rightarrow> (byte list \<times> 'q) res) \<Rightarrow> 'q \<Rightarrow> queue_op list
    \<Rightarrow> (byte list \<times> byte list \<times> 'q) res" where
  "queue_run put get q [] = Inr ([], [], q)"
| "queue_run put get q (Op_put xs # ops) =
     rbind (put q xs) (\<lambda>q'. rbind (queue_run put get q' ops)
       (\<lambda>(rcvd, sent, q''). Inr (xs @ rcvd, sent, q'')))"
| "queue_run put get q (Op_take n # ops) =
     rbind (get q n) (\<lambda>(ys, q'). rbind (queue_run put get q' ops)
       (\<lambda>(rcvd, sent, q''). Inr (rcvd, ys @ sent, q'')))"

definition buffer_put :: "buffer \<Rightarrow> byte list \<Rightarrow> buffer res" where
  "buffer_put b xs = rbind (buffer_poke b xs) (\<lambda>b'. buffer_write_adv b' (int (length xs)))"

definition buffer_take :: "buffer \<Rightarrow> nat \<Rightarrow> (byte list \<times> buffer) res" where
  "buffer_take b n =
     rbind (buffer_read_ptr b) (\<lambda>(ptr, count).
     rbind (buffer_read_adv b (int n)) (\<lambda>b'. Inr (take n (drop ptr (bdata b)), b')))"

section \<open>Lemmas on single operations\<close>

named_theorems buf_simps \<open>what each operation does to a well-formed buffer\<close>

lemma length_buffer_bytes: "wf_buffer b \<Longrightarrow> length (buffer_bytes b) = bwrite b - bread b"
  by (auto simp: wf_buffer_def buffer_bytes_def)

lemma bytes_space_bound: "wf_buffer b \<Longrightarrow> length (buffer_bytes b) + buffer_space b \<le> blimit b"
  by (auto simp: length_buffer_bytes buffer_space_def wf_buffer_def)

lemma wf_buffer_init [simp, intro]: "length data = n \<Longrightarrow> wf_buffer (buffer_init n data)"
  by (simp add: wf_buffer_def buffer_init_def buffer_reset_def)

lemma buffer_init_simps [simp]:
  "buffer_bytes (buffer_init n data) = []"
  "buffer_space (buffer_init n data) = n"
  "blimit (buffer_init n data) = n"
  by (simp_all add: buffer_bytes_def buffer_space_def buffer_init_def buffer_reset_def)

lemma buffer_reset_wf: "wf_buffer b \<Longrightarrow> wf_buffer (buffer_reset b)"
  by (simp add: wf_buffer_def buffer_reset_def)

lemma buffer_can_read_iff: "wf_buffer b \<Longrightarrow> buffer_can_read b \<longleftrightarrow> buffer_bytes b \<noteq> []"
  by (auto simp: buffer_can_read_def wf_buffer_def buffer_bytes_def)

lemma buffer_can_write_iff: "buffer_can_write b \<longleftrightarrow> 0 < buffer_space b"
  by (auto simp: buffer_can_write_def buffer_space_def)

lemma buffer_write_ptr_eq: "wf_buffer b \<Longrightarrow> buffer_write_ptr b = Inr (bwrite b, buffer_space b)"
  by (simp add: buffer_write_ptr_def wf_buffer_def buffer_space_def)

lemma buffer_read_ptr_eq:
  "wf_buffer b \<Longrightarrow> buffer_read_ptr b = Inr (bread b, length (buffer_bytes b))"
  by (simp add: buffer_read_ptr_def length_buffer_bytes) (simp add: wf_buffer_def)

lemma buffer_compact_wf [simp]: "wf_buffer b \<Longrightarrow> wf_buffer (buffer_compact b)"
  by (auto simp: wf_buffer_def buffer_compact_def Let_def)

lemma buffer_compact_bytes [simp]: "wf_buffer b \<Longrightarrow> buffer_bytes (buffer_compact b) = buffer_bytes b"
  by (auto simp: wf_buffer_def buffer_compact_def buffer_bytes_def Let_def overwrite_def)

lemma buffer_compact_limit [simp]: "blimit (buffer_compact b) = blimit b"
  by (simp add: buffer_compact_def Let_def)

lemma buffer_compact_space:
  "wf_buffer b \<Longrightarrow> buffer_space (buffer_compact b) = blimit b - length (buffer_bytes b)"
  by (auto simp: wf_buffer_def buffer_compact_def buffer_space_def buffer_bytes_def Let_def)

lemma buffer_put_ok:
  assumes "wf_buffer b" "length xs \<le> buffer_space b"
  shows "\<exists>b'. buffer_put b xs = Inr b' \<and> wf_buffer b' \<and> buffer_bytes b' = buffer_bytes b @ xs \<and>
              buffer_space b' = buffer_space b - length xs \<and> blimit b' = blimit b"
proof -
  let ?b' = "b\<lparr>bdata := overwrite (bdata b) (bwrite b) xs, bwrite := bwrite b + length xs\<rparr>"
  have fits: "bwrite b + length xs \<le> length (bdata b)" "bread b \<le> bwrite b"
    "blimit b = length (bdata b)"
    using assms by (auto simp: wf_buffer_def buffer_space_def)
  then have "buffer_put b xs = Inr ?b'" "wf_buffer ?b'" "buffer_space ?b' = buffer_space b - length xs"
    by (simp_all add: buffer_put_def buffer_poke_def buffer_write_adv_def wf_buffer_def
        buffer_space_def Let_def)
  moreover have "buffer_bytes ?b' = buffer_bytes b @ xs"
    using fits by (simp add: buffer_bytes_def overwrite_def drop_take)
  ultimately show ?thesis by auto
qed

lemma buffer_read_adv_ok:
  assumes "wf_buffer b" "n \<le> length (buffer_bytes b)"
  shows "\<exists>b'. buffer_read_adv b (int n) = Inr b' \<and> wf_buffer b' \<and>
              buffer_bytes b' = drop n (buffer_bytes b) \<and> blimit b' = blimit b \<and>
              buffer_space b \<le> buffer_space b'"
proof -
  let ?b' = "b\<lparr>bread := bread b + n\<rparr>"
  have le: "bread b + n \<le> bwrite b"
    using assms by (auto simp: length_buffer_bytes) (auto simp: wf_buffer_def)
  then have wf: "wf_buffer ?b'" using assms by (simp add: wf_buffer_def)
  have bytes: "buffer_bytes ?b' = drop n (buffer_bytes b)"
    by (simp add: buffer_bytes_def drop_take add.commute)
  have "buffer_space ?b' = buffer_space b" by (simp add: buffer_space_def)
  moreover have "buffer_space ?b' \<le> buffer_space (buffer_compact ?b')"
    using buffer_compact_space [OF wf] bytes_space_bound [OF wf] by simp
  ultimately show ?thesis
    using le wf bytes buffer_compact_wf [OF wf] buffer_compact_bytes [OF wf]
    by (auto simp: buffer_read_adv_def Let_def)
qed

lemma buffer_read_adv_neg: "n < 0 \<Longrightarrow> buffer_read_adv b n = Inr b"
  by (simp add: buffer_read_adv_def)

lemma buffer_write_adv_neg: "n < 0 \<Longrightarrow> buffer_write_adv b n = Inr b"
  by (simp add: buffer_write_adv_def)

lemma buffer_read_adv_overrun:
  "wf_buffer b \<Longrightarrow> length (buffer_bytes b) < n \<Longrightarrow> buffer_read_adv b (int n) = Inl Assert_fail"
  by (auto simp: length_buffer_bytes buffer_read_adv_def Let_def wf_buffer_def c_assert_def)

lemma buffer_write_adv_overrun:
  "wf_buffer b \<Longrightarrow> buffer_space b < n \<Longrightarrow> buffer_write_adv b (int n) = Inl Assert_fail"
  by (auto simp: buffer_space_def buffer_write_adv_def Let_def wf_buffer_def c_assert_def)

lemma buffer_take_ok:
  assumes "wf_buffer b" "n \<le> length (buffer_bytes b)"
  shows "\<exists>b'. buffer_take b n = Inr (take n (buffer_bytes b), b') \<and> wf_buffer b' \<and>
              buffer_bytes b' = drop n (buffer_bytes b) \<and> blimit b' = blimit b"
proof -
  have "take n (drop (bread b) (bdata b)) = take n (buffer_bytes b)"
    using assms by (simp add: length_buffer_bytes) (simp add: buffer_bytes_def)
  with buffer_read_adv_ok [OF assms] show ?thesis
    by (auto simp: buffer_take_def buffer_read_ptr_eq assms(1))
qed

lemma buffer_read_ok:
  assumes "wf_buffer b" "buffer_bytes b = c # cs"
  shows "\<exists>b'. buffer_read b = Inr (c, b') \<and> wf_buffer b' \<and> buffer_bytes b' = cs \<and> blimit b' = blimit b"
proof -
  have lt: "bread b < bwrite b" "bwrite b \<le> length (bdata b)"
    using assms by (auto simp: wf_buffer_def buffer_bytes_def) (metis diff_is_0_eq list.simps(3) not_le take_0)
  have "buffer_bytes b ! 0 = bdata b ! bread b"
    using lt by (simp add: buffer_bytes_def)
  then have "mem_get (bdata b) (int (bread b)) = Inr c" using lt assms by simp
  moreover obtain b' where "buffer_read_adv b 1 = Inr b'" "wf_buffer b'" "buffer_bytes b' = cs"
    "blimit b' = blimit b"
    using buffer_read_adv_ok [OF assms(1), of 1] assms(2) by auto
  ultimately show ?thesis
    using assms by (simp add: buffer_read_def buffer_can_read_iff)
qed

lemma buffer_read_empty: "wf_buffer b \<Longrightarrow> buffer_bytes b = [] \<Longrightarrow> buffer_read b = Inr (0, b)"
  by (simp add: buffer_read_def buffer_can_read_iff)

lemma buffer_write_put:
  assumes "wf_buffer b" "0 < buffer_space b"
  shows "buffer_write b c = buffer_put b [c]"
proof -
  have "bwrite b < length (bdata b)" using assms by (auto simp: wf_buffer_def buffer_space_def)
  then show ?thesis
    using assms
    by (simp add: buffer_write_def buffer_can_write_iff buffer_put_def buffer_poke_def overwrite_def
        upd_conv_take_nth_drop)
qed

lemma buffer_write_full: "buffer_space b = 0 \<Longrightarrow> buffer_write b c = Inr b"
  by (simp add: buffer_write_def buffer_can_write_iff)

lemma buffer_write_all_ok:
  assumes "wf_buffer b" "length xs \<le> buffer_space b"
  shows "\<exists>b'. buffer_write_all b xs = Inr b' \<and> wf_buffer b' \<and> buffer_bytes b' = buffer_bytes b @ xs \<and>
              buffer_space b' = buffer_space b - length xs \<and> blimit b' = blimit b"
  using assms
proof (induction xs arbitrary: b)
  case (Cons c cs)
  then obtain b1 where b1: "buffer_write b c = Inr b1" "wf_buffer b1"
    "buffer_bytes b1 = buffer_bytes b @ [c]" "buffer_space b1 = buffer_space b - 1" "blimit b1 = blimit b"
    using buffer_put_ok [of b "[c]"] by (auto simp: buffer_write_put)
  moreover from this have "length cs \<le> buffer_space b1" using Cons.prems by simp
  ultimately show ?case using Cons.IH [of b1] by auto
qed simp

lemma buffer_recv_ok:
  assumes "wf_buffer b"
  obtains b1 b2 where "buffer_recv b r = Inr (recv_ret (buffer_space b) r, b1)"
    "buffer_write_adv b1 (recv_ret (buffer_space b) r) = Inr b2"
    "wf_buffer b1" "wf_buffer b2" "buffer_bytes b1 = buffer_bytes b"
    "buffer_bytes b2 = buffer_bytes b @ recv_bytes (buffer_space b) r"
    "blimit b1 = blimit b" "blimit b2 = blimit b"
proof -
  let ?xs = "recv_bytes (buffer_space b) r"
  let ?b1 = "b\<lparr>bdata := overwrite (bdata b) (bwrite b) ?xs\<rparr>"
  have len: "length ?xs \<le> buffer_space b" by (cases r) auto
  then have "bwrite b + length ?xs \<le> length (bdata b)" "bread b \<le> bwrite b"
    using assms by (auto simp: wf_buffer_def buffer_space_def)
  then have poke: "buffer_poke b ?xs = Inr ?b1" and wf1: "wf_buffer ?b1"
    and by1: "buffer_bytes ?b1 = buffer_bytes b"
    using assms by (auto simp: buffer_poke_def wf_buffer_def buffer_bytes_def drop_take_below)
  obtain b2 where b2: "buffer_put b ?xs = Inr b2" "wf_buffer b2"
    "buffer_bytes b2 = buffer_bytes b @ ?xs" "blimit b2 = blimit b"
    using buffer_put_ok [OF assms len] by auto
  have adv: "buffer_write_adv ?b1 (int (length ?xs)) = Inr b2"
    using b2(1) poke by (simp add: buffer_put_def)
  show thesis
  proof (cases r)
    case (Recv_data xs)
    with adv b2 wf1 by1 poke show thesis
      by (intro that [of ?b1 b2]) (simp_all add: buffer_recv_def buffer_write_ptr_eq assms)
  next
    case Recv_eof
    with adv b2 wf1 by1 poke show thesis
      by (intro that [of ?b1 b2]) (simp_all add: buffer_recv_def buffer_write_ptr_eq assms)
  next
    case Recv_err
    with wf1 by1 poke show thesis
      by (intro that [of ?b1 ?b1])
        (simp_all add: buffer_recv_def buffer_write_ptr_eq assms buffer_write_adv_neg)
  qed
qed

section \<open>The contract: a FIFO of bytes\<close>

text \<open>
  What the rest of the program relies on. \<open>bytes\<close> is the abstraction to a list, \<open>put\<close> appends a
  block that fits into the free space, \<open>get\<close> removes and returns a prefix of the contents.
\<close>

locale byte_queue =
  fixes inv :: "'q \<Rightarrow> bool"
    and bytes :: "'q \<Rightarrow> byte list"
    and space :: "'q \<Rightarrow> nat"
    and put :: "'q \<Rightarrow> byte list \<Rightarrow> 'q res"
    and get :: "'q \<Rightarrow> nat \<Rightarrow> (byte list \<times> 'q) res"
  assumes put_law: "inv q \<Longrightarrow> length xs \<le> space q \<Longrightarrow>
      \<exists>q'. put q xs = Inr q' \<and> inv q' \<and> bytes q' = bytes q @ xs"
    and get_law: "inv q \<Longrightarrow> n \<le> length (bytes q) \<Longrightarrow>
      \<exists>q'. get q n = Inr (take n (bytes q), q') \<and> inv q' \<and> bytes q' = drop n (bytes q)"
    and put_full: "inv q \<Longrightarrow> space q < length xs \<Longrightarrow> \<exists>e. put q xs = Inl e"
    and get_short: "inv q \<Longrightarrow> length (bytes q) < n \<Longrightarrow> \<exists>e. get q n = Inl e"
begin

lemma put_InrD: "inv q \<Longrightarrow> put q xs = Inr q' \<Longrightarrow> inv q' \<and> bytes q' = bytes q @ xs"
  by (metis Inl_Inr_False Inr_inject not_le put_full put_law)

lemma get_InrD:
  "inv q \<Longrightarrow> get q n = Inr (ys, q') \<Longrightarrow>
   inv q' \<and> n \<le> length (bytes q) \<and> ys = take n (bytes q) \<and> bytes q' = drop n (bytes q)"
  by (metis Inl_Inr_False Inr_inject Pair_inject get_law get_short not_le)

lemma fifo:
  "inv q \<Longrightarrow> queue_run put get q ops = Inr (rcvd, sent, q') \<Longrightarrow>
   inv q' \<and> bytes q @ rcvd = sent @ bytes q'"
proof (induction ops arbitrary: q rcvd sent)
  case (Cons op ops)
  show ?case
  proof (cases op)
    case (Op_put xs)
    with Cons.prems obtain q1 r where q1: "put q xs = Inr q1"
      and run: "queue_run put get q1 ops = Inr (r, sent, q')" "rcvd = xs @ r"
      by (auto split: prod.splits)
    with put_InrD [OF Cons.prems(1) q1] Cons.IH [OF _ run(1)] show ?thesis by simp
  next
    case (Op_take n)
    with Cons.prems obtain ys q1 s where q1: "get q n = Inr (ys, q1)"
      and run: "queue_run put get q1 ops = Inr (rcvd, s, q')" "sent = ys @ s"
      by (auto split: prod.splits)
    have g: "inv q1" "ys = take n (bytes q)" "bytes q1 = drop n (bytes q)"
      using get_InrD [OF Cons.prems(1) q1] by auto
    have "bytes q1 @ rcvd = s @ bytes q'" "inv q'" using Cons.IH [OF g(1) run(1)] by auto
    moreover have "bytes q = ys @ bytes q1" by (simp add: g(2,3))
    ultimately show ?thesis using run(2) by simp
  qed
qed simp

end

lemma buffer_put_too_long:
  assumes "wf_buffer b" "buffer_space b < length xs"
  shows "buffer_put b xs = Inl Out_of_bounds"
  using assms by (auto simp: buffer_put_def buffer_poke_def wf_buffer_def buffer_space_def)

lemma buffer_take_too_many:
  assumes "wf_buffer b" "length (buffer_bytes b) < n"
  shows "buffer_take b n = Inl Assert_fail"
  using assms by (simp add: buffer_take_def buffer_read_ptr_eq buffer_read_adv_overrun)

interpretation bq: byte_queue wf_buffer buffer_bytes buffer_space buffer_put buffer_take
proof unfold_locales
  fix b :: buffer and xs :: "byte list" and n :: nat
  assume wf: "wf_buffer b"
  show "length xs \<le> buffer_space b \<Longrightarrow>
      \<exists>b'. buffer_put b xs = Inr b' \<and> wf_buffer b' \<and> buffer_bytes b' = buffer_bytes b @ xs"
    using buffer_put_ok [OF wf] by blast
  show "n \<le> length (buffer_bytes b) \<Longrightarrow> \<exists>b'. buffer_take b n = Inr (take n (buffer_bytes b), b') \<and>
      wf_buffer b' \<and> buffer_bytes b' = drop n (buffer_bytes b)"
    using buffer_take_ok [OF wf] by blast
  show "buffer_space b < length xs \<Longrightarrow> \<exists>e. buffer_put b xs = Inl e"
    using buffer_put_too_long [OF wf] by blast
  show "length (buffer_bytes b) < n \<Longrightarrow> \<exists>e. buffer_take b n = Inl e"
    using buffer_take_too_many [OF wf] by blast
qed

section \<open>Properties\<close>

text \<open>The way the handlers use a buffer: \<open>recv\<close> into the free space and \<open>buffer_write_adv\<close>, \<open>send\<close>
  from the contents and \<open>buffer_read_adv\<close>, and \<open>buffer_compact\<close>. The result holds the bytes that
  entered, the bytes that left and the final buffer.\<close>

datatype io_event = Io_recv recv_result | Io_send send_result | Io_compact

fun buffer_io :: "buffer \<Rightarrow> io_event list \<Rightarrow> (byte list \<times> byte list \<times> buffer) res" where
  "buffer_io b [] = Inr ([], [], b)"
| "buffer_io b (Io_recv r # evs) =
     rbind (buffer_recv b r) (\<lambda>(n, b1). rbind (buffer_write_adv b1 n) (\<lambda>b2.
     rbind (buffer_io b2 evs) (\<lambda>(rcvd, sent, b').
       Inr (recv_bytes (buffer_space b) r @ rcvd, sent, b'))))"
| "buffer_io b (Io_send r # evs) =
     rbind (buffer_send b r) (\<lambda>(n, out). rbind (buffer_read_adv b n) (\<lambda>b1.
     rbind (buffer_io b1 evs) (\<lambda>(rcvd, sent, b'). Inr (rcvd, out @ sent, b'))))"
| "buffer_io b (Io_compact # evs) = buffer_io (buffer_compact b) evs"

lemma buffer_send_ok:
  assumes "wf_buffer b"
  obtains n out b1 where "buffer_send b r = Inr (n, out)" "buffer_read_adv b n = Inr b1"
    "wf_buffer b1" "buffer_bytes b = out @ buffer_bytes b1" "blimit b1 = blimit b"
    "n = send_ret (length (buffer_bytes b)) r" "out = take (nat n) (buffer_bytes b)"
proof -
  let ?n = "send_ret (length (buffer_bytes b)) r"
  let ?out = "take (nat ?n) (buffer_bytes b)"
  have le: "nat ?n \<le> length (buffer_bytes b)" by (cases r) auto
  then have snd: "buffer_send b r = Inr (?n, ?out)"
    using assms length_buffer_bytes [OF assms]
    by (simp add: buffer_send_def buffer_read_ptr_eq Let_def) (simp add: buffer_bytes_def)
  show thesis
  proof (cases r)
    case (Send_ok k)
    then have "?n = int (nat ?n)" by simp
    with buffer_read_adv_ok [OF assms le] obtain b1 where "buffer_read_adv b ?n = Inr b1"
      "wf_buffer b1" "buffer_bytes b1 = drop (nat ?n) (buffer_bytes b)" "blimit b1 = blimit b"
      by auto
    with snd show thesis by (intro that [of ?n ?out b1]) simp_all
  next
    case Send_err
    with snd assms show thesis by (intro that [of ?n ?out b]) (simp_all add: buffer_read_adv_neg)
  qed
qed

lemma buffer_io_stream:
  "wf_buffer b \<Longrightarrow>
   \<exists>rcvd sent b'. buffer_io b evs = Inr (rcvd, sent, b') \<and> wf_buffer b' \<and> blimit b' = blimit b \<and>
     buffer_bytes b @ rcvd = sent @ buffer_bytes b'"
proof (induction evs arbitrary: b)
  case (Cons ev evs)
  show ?case
  proof (cases ev)
    case (Io_recv r)
    obtain b1 b2 where "buffer_recv b r = Inr (recv_ret (buffer_space b) r, b1)"
      "buffer_write_adv b1 (recv_ret (buffer_space b) r) = Inr b2" and wf: "wf_buffer b2"
      and "buffer_bytes b2 = buffer_bytes b @ recv_bytes (buffer_space b) r" "blimit b2 = blimit b"
      by (rule buffer_recv_ok [OF Cons.prems])
    then show ?thesis using Cons.IH [OF wf] Io_recv by auto
  next
    case (Io_send r)
    obtain n out b1 where "buffer_send b r = Inr (n, out)" "buffer_read_adv b n = Inr b1"
      and wf: "wf_buffer b1" and "buffer_bytes b = out @ buffer_bytes b1" "blimit b1 = blimit b"
      by (rule buffer_send_ok [OF Cons.prems])
    then show ?thesis using Cons.IH [OF wf] Io_send by auto
  next
    case Io_compact
    then show ?thesis using Cons.IH [OF buffer_compact_wf [OF Cons.prems]] Cons.prems by simp
  qed
qed simp

text \<open>C8. A buffer is a lossless channel: for every sequence of receives, sends and compactions and
  whatever \<open>recv\<close> and \<open>send\<close> return, no assertion fails, no byte is stored outside the array, and the
  bytes that left followed by the bytes still held are the bytes that were held followed by the
  bytes that entered, in order.\<close>

theorem buffer_lossless:
  assumes "wf_buffer b"
  shows "\<exists>rcvd sent b'. buffer_io b evs = Inr (rcvd, sent, b') \<and> wf_buffer b' \<and> blimit b' = blimit b \<and>
     buffer_bytes b @ rcvd = sent @ buffer_bytes b'"
  by (rule buffer_io_stream [OF assms])

theorem buffer_lossless_witness:
  "\<exists>rcvd sent b'. buffer_io (buffer_init 3 [0, 0, 0])
      [Io_recv (Recv_data [7, 8]), Io_send (Send_ok 1), Io_compact, Io_recv (Recv_data [9, 9, 9])] =
      Inr (rcvd, sent, b') \<and> rcvd = sent @ buffer_bytes b'"
  using buffer_lossless [of "buffer_init 3 [0, 0, 0]"
      "[Io_recv (Recv_data [7, 8]), Io_send (Send_ok 1), Io_compact, Io_recv (Recv_data [9, 9, 9])]"]
  by fastforce

text \<open>Refinement: every successful run of stores into and removals from the array buffer is a run
  of a FIFO queue of bytes, and keeps \<open>data \<le> R \<le> W \<le> limit\<close>.\<close>

theorem buffer_fifo:
  assumes "wf_buffer b" "queue_run buffer_put buffer_take b ops = Inr (rcvd, sent, b')"
  shows "wf_buffer b' \<and> buffer_bytes b @ rcvd = sent @ buffer_bytes b'"
  by (rule bq.fifo [OF assms])

theorem buffer_fifo_witness:
  "\<exists>b'. queue_run buffer_put buffer_take (buffer_init 2 [0, 0])
      [Op_put [7, 8], Op_take 1, Op_take 1, Op_put [9]] = Inr ([7, 8, 9], [7, 8], b') \<and>
      wf_buffer b' \<and> [7, 8, 9] = [7, 8] @ buffer_bytes b'"
proof -
  have "wf_buffer (buffer_init 2 [0, 0])" by (rule wf_buffer_init) simp
  moreover obtain b' where run: "queue_run buffer_put buffer_take (buffer_init 2 [0, 0])
      [Op_put [7, 8], Op_take 1, Op_take 1, Op_put [9]] = Inr ([7, 8, 9], [7, 8], b')"
    by (simp add: buffer_put_def buffer_take_def buffer_poke_def buffer_write_adv_def Let_def
        buffer_read_adv_def buffer_read_ptr_def buffer_init_def buffer_reset_def buffer_compact_def
        overwrite_def)
  ultimately have "wf_buffer b'" "buffer_bytes (buffer_init 2 [0, 0]) @ [7, 8, 9] = [7, 8] @ buffer_bytes b'"
    using buffer_fifo by blast+
  with run show ?thesis by simp
qed

end
