(* ===== verification/Consume.thy ===== *)
theory Consume
  imports Buffer
begin

text \<open>
  The loop that \<open>hello_consume\<close>, \<open>auth_consume\<close>, \<open>request_consume\<close> and \<open>monitor_consume\<close> share:
  while the buffer holds bytes, read one, feed it to the parser, stop when the parser is done.

  \<open>parse_loop\<close> is that loop over the buffer; \<open>parse_list\<close> is its meaning on the bytes the buffer
  holds. The locale \<open>byte_parser\<close> states what a parser promises (final states absorb input, an
  invariant is kept) and derives the facts a non-blocking server needs: how the bytes are cut into
  \<open>recv\<close> chunks does not matter. \<open>total_parser\<close> adds that feeding never faults.
\<close>

section \<open>The loop and its meaning on lists\<close>

text \<open>A \<open>fin\<close> argument is the parser's \<open>*_is_done\<close> function: whether the state is final, and the new
  value of the \<open>errored\<close> output parameter.\<close>

lemma buffer_read_decreases:
  assumes "buffer_can_read b" "buffer_read b = Inr (c, b')"
  shows "bwrite b' - bread b' < bwrite b - bread b"
  using assms
  by (auto simp: buffer_read_def buffer_read_adv_def buffer_can_read_def Let_def buffer_compact_def
      split: if_splits)

function parse_loop ::
  "('p \<Rightarrow> byte \<Rightarrow> 'p res) \<Rightarrow> ('p \<Rightarrow> 'e \<Rightarrow> bool \<times> 'e) \<Rightarrow> buffer \<Rightarrow> 'p \<Rightarrow> 'e \<Rightarrow> (buffer \<times> 'p \<times> 'e) res"
where
  "parse_loop feed fin b p e =
     (if buffer_can_read b then
        rbind (buffer_read b) (\<lambda>(c, b').
        rbind (feed p c) (\<lambda>p'.
          case fin p' e of (d, e') \<Rightarrow>
            if d then Inr (b', p', e') else parse_loop feed fin b' p' e'))
      else Inr (b, p, e))"
  by pat_completeness auto
termination
  by (relation "measure (\<lambda>(feed, fin, b, p, e). bwrite b - bread b)")
    (auto dest: buffer_read_decreases)

declare parse_loop.simps [simp del]

fun parse_list ::
  "('p \<Rightarrow> byte \<Rightarrow> 'p res) \<Rightarrow> ('p \<Rightarrow> 'e \<Rightarrow> bool \<times> 'e) \<Rightarrow> 'p \<Rightarrow> 'e \<Rightarrow> byte list \<Rightarrow> (byte list \<times> 'p \<times> 'e) res"
where
  "parse_list feed fin p e [] = Inr ([], p, e)"
| "parse_list feed fin p e (c # cs) =
     rbind (feed p c) (\<lambda>p'.
       case fin p' e of (d, e') \<Rightarrow>
         if d then Inr (cs, p', e') else parse_list feed fin p' e' cs)"

text \<open>A sequence of \<open>recv\<close> calls: each chunk is parsed in turn until the parser is done.\<close>

fun parse_chunks ::
  "('p \<Rightarrow> byte \<Rightarrow> 'p res) \<Rightarrow> ('p \<Rightarrow> 'e \<Rightarrow> bool \<times> 'e) \<Rightarrow> 'p \<Rightarrow> 'e \<Rightarrow> byte list list
    \<Rightarrow> (byte list \<times> 'p \<times> 'e) res"
where
  "parse_chunks feed fin p e [] = Inr ([], p, e)"
| "parse_chunks feed fin p e (xs # xss) =
     rbind (parse_list feed fin p e xs) (\<lambda>(rest, p', e').
       if fst (fin p' e') then Inr (rest @ concat xss, p', e') else parse_chunks feed fin p' e' xss)"

lemma parse_loop_list:
  assumes "wf_buffer b"
  shows "case parse_list feed fin p e (buffer_bytes b) of
           Inl err \<Rightarrow> parse_loop feed fin b p e = Inl err
         | Inr (rest, p', e') \<Rightarrow> \<exists>b'. parse_loop feed fin b p e = Inr (b', p', e') \<and> wf_buffer b' \<and>
             buffer_bytes b' = rest \<and> blimit b' = blimit b"
  using assms
proof (induction "buffer_bytes b" arbitrary: b p e)
  case Nil
  have "buffer_bytes b = []" using Nil.hyps by simp
  then show ?case using Nil.prems by (simp add: parse_loop.simps buffer_can_read_iff)
next
  case (Cons c cs)
  obtain b1 where b1: "buffer_read b = Inr (c, b1)" "wf_buffer b1" "buffer_bytes b1 = cs"
    "blimit b1 = blimit b"
    using buffer_read_ok [OF Cons.prems Cons.hyps(2) [symmetric]] by blast
  have bs: "buffer_bytes b = c # cs" using Cons.hyps(2) by simp
  then have can: "buffer_can_read b" using Cons.prems by (simp add: buffer_can_read_iff)
  have unfold: "parse_loop feed fin b p e = rbind (feed p c) (\<lambda>p'. case fin p' e of (d, e') \<Rightarrow>
      if d then Inr (b1, p', e') else parse_loop feed fin b1 p' e')"
    by (subst parse_loop.simps) (simp add: can b1(1))
  show ?case
  proof (cases "feed p c")
    case (Inr p1)
    obtain d e1 where d: "fin p1 e = (d, e1)" by force
    show ?thesis
      using Cons.hyps(1) [OF b1(3) [symmetric] b1(2), of p1 e1] b1
      by (cases d) (auto simp: unfold bs Inr d split: sum.splits prod.splits)
  qed (simp add: unfold bs)
qed

lemma parse_loop_InrI:
  assumes "wf_buffer b" "parse_list feed fin p e (buffer_bytes b) = Inr (rest, p', e')"
  obtains b' where "parse_loop feed fin b p e = Inr (b', p', e')" "wf_buffer b'"
    "buffer_bytes b' = rest" "blimit b' = blimit b"
  using parse_loop_list [OF assms(1), of feed fin p e] assms(2) by auto

section \<open>The contract of a parser\<close>

locale byte_parser =
  fixes feed :: "'p \<Rightarrow> byte \<Rightarrow> 'p res"
    and fin :: "'p \<Rightarrow> 'e \<Rightarrow> bool \<times> 'e"
    and final :: "'p \<Rightarrow> bool"
    and inv :: "'p \<Rightarrow> bool"
  assumes fin_final: "fst (fin p e) = final p"
    and feed_inv: "inv p \<Longrightarrow> feed p c = Inr p' \<Longrightarrow> inv p'"
    and final_absorbs: "inv p \<Longrightarrow> final p \<Longrightarrow> feed p c = Inr p"
begin

lemma parse_list_rest:
  "parse_list feed fin p e xs = Inr (rest, p', e') \<Longrightarrow>
   \<exists>used. xs = used @ rest \<and> (\<not> final p' \<longrightarrow> rest = [])"
proof (induction xs arbitrary: p e)
  case (Cons c cs)
  show ?case
  proof (cases "parse_list feed fin p e (c # cs)")
    case (Inr r)
    with Cons.prems obtain p1 d e1 where 1: "feed p c = Inr p1" "fin p1 e = (d, e1)"
      "(if d then Inr (cs, p1, e1) else parse_list feed fin p1 e1 cs) = Inr (rest, p', e')"
      by (auto split: prod.splits)
    show ?thesis
    proof (cases d)
      case True
      with 1 fin_final [of p1 e] show ?thesis by (auto intro: exI [of _ "[c]"])
    next
      case False
      with 1 Cons.IH [of p1 e1] obtain used where "cs = used @ rest" "\<not> final p' \<longrightarrow> rest = []" by auto
      then show ?thesis by (auto intro: exI [of _ "c # used"])
    qed
  qed (use Cons.prems in simp)
qed simp

lemma parse_list_append:
  "\<not> final p \<Longrightarrow>
   parse_list feed fin p e (xs @ ys) =
     rbind (parse_list feed fin p e xs) (\<lambda>(rest, p', e').
       if final p' then Inr (rest @ ys, p', e') else parse_list feed fin p' e' ys)"
proof (induction xs arbitrary: p e)
  case (Cons c cs)
  show ?case
  proof (cases "feed p c")
    case (Inr p1)
    obtain d e1 where d: "fin p1 e = (d, e1)" by force
    with fin_final [of p1 e] have "final p1 = d" by simp
    then show ?thesis using Inr d Cons.IH [of p1 e1] by (cases d) simp_all
  qed simp
qed simp

lemma parse_chunks_concat:
  "\<not> final p \<Longrightarrow> parse_chunks feed fin p e xss = parse_list feed fin p e (concat xss)"
proof (induction xss arbitrary: p e)
  case (Cons xs xss)
  show ?case
    unfolding parse_chunks.simps concat.simps parse_list_append [OF Cons.prems]
    by (rule rbind_cong) (auto simp: fin_final Cons.IH)
qed simp

lemma parse_list_inv:
  "inv p \<Longrightarrow> parse_list feed fin p e xs = Inr (rest, p', e') \<Longrightarrow> inv p'"
proof (induction xs arbitrary: p e)
  case (Cons c cs)
  then obtain p1 d e1 where 1: "feed p c = Inr p1" "fin p1 e = (d, e1)"
    "(if d then Inr (cs, p1, e1) else parse_list feed fin p1 e1 cs) = Inr (rest, p', e')"
    by (auto split: prod.splits)
  with Cons.IH [of p1 e1] feed_inv [OF Cons.prems(1) 1(1)] show ?case by (auto split: if_splits)
qed simp

lemma final_stays:
  "inv p \<Longrightarrow> final p \<Longrightarrow> parse_list feed fin p e (c # cs) = Inr (cs, p, snd (fin p e))"
  using fin_final [of p e] by (auto simp: final_absorbs split: prod.splits)

end

locale total_parser = byte_parser +
  assumes feed_total: "inv p \<Longrightarrow> \<exists>p'. feed p c = Inr p'"
begin

lemma parse_list_total: "inv p \<Longrightarrow> \<exists>r. parse_list feed fin p e xs = Inr r"
proof (induction xs arbitrary: p e)
  case (Cons c cs)
  then obtain p1 where p1: "feed p c = Inr p1" using feed_total by blast
  with Cons.prems have "inv p1" by (rule feed_inv)
  with p1 Cons.IH show ?case by (auto split: prod.splits)
qed simp

lemma parse_loop_total:
  assumes "wf_buffer b" "inv p"
  shows "\<exists>b' p' e'. parse_loop feed fin b p e = Inr (b', p', e') \<and> wf_buffer b' \<and> inv p' \<and>
           (final p' \<or> buffer_bytes b' = []) \<and> blimit b' = blimit b"
proof -
  obtain rest p' e' where r: "parse_list feed fin p e (buffer_bytes b) = Inr (rest, p', e')"
    using parse_list_total [OF assms(2)] by (metis prod_cases3)
  moreover from this obtain b' where "parse_loop feed fin b p e = Inr (b', p', e')" "wf_buffer b'"
    "buffer_bytes b' = rest" "blimit b' = blimit b"
    by (rule parse_loop_InrI [OF assms(1)])
  ultimately show ?thesis
    using parse_list_rest [OF r] parse_list_inv [OF assms(2) r] by blast
qed

end

end
