(* ===== verification/Hello.thy ===== *)
theory Hello
  imports Consume
begin

text \<open>
  Model of \<open>src/server/hello.c\<close>: the parser of the SOCKS5 version/method message and the
  marshalling of its reply.

  The callback \<open>on_authentication_method\<close> of \<open>struct hello_parser\<close> is the argument \<open>cb\<close> of the
  feed function (\<open>None\<close> for a NULL pointer); it maps the byte that \<open>data\<close> points to and the offered
  method to the new value of that byte, which is the field \<open>hp_data\<close>.
\<close>

section \<open>The parser\<close>

datatype hello_state =
    hello_version
  | hello_nmethods
  | hello_methods
  | hello_done
  | hello_error_unsupported_version

record hello_parser =
  hp_data :: byte
  hp_state :: hello_state
  hp_remaining :: byte

type_synonym method_callback = "(byte \<Rightarrow> byte \<Rightarrow> byte) option"

definition hello_parser_init :: "hello_parser \<Rightarrow> hello_parser" where
  "hello_parser_init p = p\<lparr>hp_state := hello_version, hp_remaining := 0\<rparr>"

definition hello_parser_feed :: "method_callback \<Rightarrow> hello_parser \<Rightarrow> byte \<Rightarrow> hello_parser res" where
  "hello_parser_feed cb p b =
     (case hp_state p of
        hello_version \<Rightarrow>
          Inr (p\<lparr>hp_state := if 0x05 = b then hello_nmethods else hello_error_unsupported_version\<rparr>)
      | hello_nmethods \<Rightarrow>
          let p1 = p\<lparr>hp_remaining := b, hp_state := hello_methods\<rparr>
          in Inr (if hp_remaining p1 \<le> 0 then p1\<lparr>hp_state := hello_done\<rparr> else p1)
      | hello_methods \<Rightarrow>
          let p1 = (case cb of None \<Rightarrow> p | Some f \<Rightarrow> p\<lparr>hp_data := f (hp_data p) b\<rparr>);
              p2 = p1\<lparr>hp_remaining := hp_remaining p1 - 1\<rparr>
          in Inr (if hp_remaining p2 \<le> 0 then p2\<lparr>hp_state := hello_done\<rparr> else p2)
      | hello_done \<Rightarrow> Inr p
      | hello_error_unsupported_version \<Rightarrow> Inr p)"

text \<open>The \<open>errored\<close> output parameter is \<open>None\<close> where the caller passes a NULL pointer.\<close>

definition hello_is_done :: "hello_state \<Rightarrow> bool option \<Rightarrow> bool \<times> bool option" where
  "hello_is_done st errored =
     (case st of
        hello_error_unsupported_version \<Rightarrow>
          (True, case errored of None \<Rightarrow> None | Some _ \<Rightarrow> Some True)
      | hello_done \<Rightarrow> (True, errored)
      | _ \<Rightarrow> (False, errored))"

definition hello_error :: "hello_parser \<Rightarrow> string" where
  "hello_error p =
     (case hp_state p of hello_error_unsupported_version \<Rightarrow> ''unsupported version'' | _ \<Rightarrow> '''')"

definition hello_parser_close :: "hello_parser \<Rightarrow> hello_parser" where
  "hello_parser_close p = p"

abbreviation hello_fin :: "hello_parser \<Rightarrow> bool option \<Rightarrow> bool \<times> bool option" where
  "hello_fin p e \<equiv> hello_is_done (hp_state p) e"

definition hello_consume ::
  "method_callback \<Rightarrow> buffer \<Rightarrow> hello_parser \<Rightarrow> bool option
    \<Rightarrow> (hello_state \<times> buffer \<times> hello_parser \<times> bool option) res" where
  "hello_consume cb b p errored =
     rbind (parse_loop (hello_parser_feed cb) hello_fin b p errored)
       (\<lambda>(b', p', e'). Inr (hp_state p', b', p', e'))"

section \<open>The reply\<close>

definition SOCKS_HELLO_NO_AUTHENTICATION_REQUIRED :: byte where
  "SOCKS_HELLO_NO_AUTHENTICATION_REQUIRED = 0x00"

definition SOCKS_HELLO_USERNAME_PASSWORD :: byte where
  "SOCKS_HELLO_USERNAME_PASSWORD = 0x02"

definition SOCKS_HELLO_NO_ACCEPTABLE_METHODS :: byte where
  "SOCKS_HELLO_NO_ACCEPTABLE_METHODS = 0xFF"

definition hello_marshall :: "buffer \<Rightarrow> byte \<Rightarrow> (int \<times> buffer) res" where
  "hello_marshall b method =
     rbind (buffer_write_ptr b) (\<lambda>(buff, n).
       if n < 2 then Inr (-1, b)
       else rbind (buffer_poke b [0x05, method]) (\<lambda>b1.
            rbind (buffer_write_adv b1 2) (\<lambda>b2. Inr (2, b2))))"

section \<open>The wire format\<close>

text \<open>The message of RFC 1928, section 3: \<open>VER NMETHODS METHODS\<close>.\<close>

definition hello_message :: "byte list \<Rightarrow> byte list" where
  "hello_message ms = 0x05 # of_nat (length ms) # ms"

text \<open>What the callback makes of a list of offered methods.\<close>

definition select_methods :: "method_callback \<Rightarrow> byte list \<Rightarrow> byte \<Rightarrow> byte" where
  "select_methods cb ms d = (case cb of None \<Rightarrow> d | Some f \<Rightarrow> foldl f d ms)"

section \<open>Lemmas\<close>

definition hello_final :: "hello_parser \<Rightarrow> bool" where
  "hello_final p \<longleftrightarrow> hp_state p = hello_done \<or> hp_state p = hello_error_unsupported_version"

lemma hello_is_done_simps [simp]:
  "hello_is_done hello_version e = (False, e)"
  "hello_is_done hello_nmethods e = (False, e)"
  "hello_is_done hello_methods e = (False, e)"
  "hello_is_done hello_done e = (True, e)"
  "hello_is_done hello_error_unsupported_version e = (True, map_option (\<lambda>_. True) e)"
  by (auto simp: hello_is_done_def split: option.splits)

interpretation hello: total_parser "hello_parser_feed cb" hello_fin hello_final "\<lambda>_. True" for cb
  by unfold_locales
    (auto simp: hello_is_done_def hello_final_def hello_parser_feed_def Let_def split: hello_state.splits)

lemma hello_feed_methods:
  "ms \<noteq> [] \<Longrightarrow> length ms < 256 \<Longrightarrow> hp_state p = hello_methods \<Longrightarrow>
   hp_remaining p = of_nat (length ms) \<Longrightarrow>
   parse_list (hello_parser_feed cb) hello_fin p e (ms @ rest) =
     Inr (rest, p\<lparr>hp_data := select_methods cb ms (hp_data p), hp_state := hello_done,
                  hp_remaining := 0\<rparr>, e)"
proof (induction ms arbitrary: p)
  case (Cons m ms)
  let ?d = "select_methods cb [m] (hp_data p)"
  let ?p = "p\<lparr>hp_data := ?d, hp_remaining := of_nat (length ms)\<rparr>"
  have feed: "hello_parser_feed cb p m =
      Inr (if length ms = 0 then ?p\<lparr>hp_state := hello_done\<rparr> else ?p)"
    using Cons.prems
    by (auto simp: hello_parser_feed_def Let_def select_methods_def byte_of_nat_eq_0 split: option.splits)
  show ?case
  proof (cases "ms = []")
    case True
    with feed show ?thesis by simp
  next
    case False
    have "parse_list (hello_parser_feed cb) hello_fin p e ((m # ms) @ rest) =
        parse_list (hello_parser_feed cb) hello_fin ?p e (ms @ rest)"
      using feed False Cons.prems(3) by simp
    also have "\<dots> = Inr (rest, ?p\<lparr>hp_data := select_methods cb ms ?d, hp_state := hello_done,
        hp_remaining := 0\<rparr>, e)"
      using Cons.IH [of ?p] Cons.prems False by simp
    finally show ?thesis by (simp add: select_methods_def split: option.splits)
  qed
qed simp

lemma hello_feed_message:
  assumes "length ms < 256" "hp_state p = hello_version"
  shows "parse_list (hello_parser_feed cb) hello_fin p e (hello_message ms @ rest) =
     Inr (rest, p\<lparr>hp_data := select_methods cb ms (hp_data p), hp_state := hello_done,
                  hp_remaining := 0\<rparr>, e)"
proof (cases "ms = []")
  case True
  with assms show ?thesis
    by (simp add: hello_message_def hello_parser_feed_def Let_def select_methods_def
        split: option.splits)
next
  case False
  let ?p = "p\<lparr>hp_remaining := of_nat (length ms), hp_state := hello_methods\<rparr>"
  have "parse_list (hello_parser_feed cb) hello_fin p e (hello_message ms @ rest) =
      parse_list (hello_parser_feed cb) hello_fin ?p e (ms @ rest)"
    using assms False
    by (simp add: hello_message_def hello_parser_feed_def Let_def byte_of_nat_eq_0)
  also have "\<dots> = Inr (rest, ?p\<lparr>hp_data := select_methods cb ms (hp_data ?p), hp_state := hello_done,
      hp_remaining := 0\<rparr>, e)"
    using assms False by (intro hello_feed_methods) simp_all
  finally show ?thesis by simp
qed

lemma hello_marshall_ok:
  assumes "wf_buffer b" "2 \<le> buffer_space b"
  shows "\<exists>b'. hello_marshall b m = Inr (2, b') \<and> wf_buffer b' \<and>
     buffer_bytes b' = buffer_bytes b @ [0x05, m] \<and> blimit b' = blimit b"
proof -
  have "hello_marshall b m = rbind (buffer_put b [0x05, m]) (\<lambda>b'. Inr (2, b'))"
    using assms by (simp add: hello_marshall_def buffer_write_ptr_eq buffer_put_def rbind_assoc)
  with buffer_put_ok [OF assms(1), of "[0x05, m]"] assms(2) show ?thesis by auto
qed

lemma hello_marshall_short:
  "wf_buffer b \<Longrightarrow> buffer_space b < 2 \<Longrightarrow> hello_marshall b m = Inr (-1, b)"
  by (simp add: hello_marshall_def buffer_write_ptr_eq)

section \<open>Properties\<close>

text \<open>A complete version/method message is recognised whatever it is followed by: the parser
  ends in \<open>hello_done\<close> with \<open>errored\<close> untouched, exactly the message is consumed, and the callback
  has seen the offered methods in their order.\<close>

theorem hello_consume_message:
  assumes "wf_buffer b" "buffer_bytes b = hello_message ms @ rest" "length ms < 256"
    "hp_state p = hello_version"
  shows "\<exists>b' p'. hello_consume cb b p e = Inr (hello_done, b', p', e) \<and> wf_buffer b' \<and>
     buffer_bytes b' = rest \<and> hp_data p' = select_methods cb ms (hp_data p)"
proof -
  obtain b' where "parse_loop (hello_parser_feed cb) hello_fin b p e =
      Inr (b', p\<lparr>hp_data := select_methods cb ms (hp_data p), hp_state := hello_done,
                  hp_remaining := 0\<rparr>, e)" "wf_buffer b'" "buffer_bytes b' = rest"
    using parse_loop_InrI [OF assms(1)] hello_feed_message [OF assms(3,4)] assms(2) by metis
  then show ?thesis by (simp add: hello_consume_def)
qed

theorem hello_consume_message_witness:
  "\<exists>b' p'. hello_consume None (buffer_init 4 [5, 1, 0, 9]\<lparr>bwrite := 4\<rparr>)
      \<lparr>hp_data = 255, hp_state = hello_version, hp_remaining = 7\<rparr> (Some False) =
      Inr (hello_done, b', p', Some False) \<and> buffer_bytes b' = [9] \<and> hp_data p' = 255"
proof -
  have "wf_buffer (buffer_init 4 [5, 1, 0, 9]\<lparr>bwrite := 4\<rparr>)"
    by (simp add: wf_buffer_def buffer_init_def buffer_reset_def)
  moreover have "buffer_bytes (buffer_init 4 [5, 1, 0, 9]\<lparr>bwrite := 4\<rparr>) = hello_message [0] @ [9]"
    by (simp add: buffer_bytes_def buffer_init_def buffer_reset_def hello_message_def)
  ultimately show ?thesis
    using hello_consume_message [of "buffer_init 4 [5, 1, 0, 9]\<lparr>bwrite := 4\<rparr>" "[0]" "[9]"
        "\<lparr>hp_data = 255, hp_state = hello_version, hp_remaining = 7\<rparr>" None "Some False"]
    by (auto simp: select_methods_def)
qed

end
