(* ===== verification/Auth.thy ===== *)
theory Auth
  imports Consume
begin

text \<open>
  Model of \<open>src/server/auth.c\<close>: the parser of the username/password message of RFC 1929 and the
  marshalling of its reply.

  \<open>struct auth\<close> has two arrays of 255 bytes, written through the counter \<open>i\<close>; the length byte of
  the message bounds the counter. A write outside the array is a fault of the model, and
  \<open>auth_inv\<close> is the invariant that excludes it.
\<close>

section \<open>The parser\<close>

datatype auth_state =
    auth_version
  | auth_ulen
  | auth_uname
  | auth_plen
  | auth_passwd
  | auth_done
  | auth_error
  | auth_error_unsupported_version
  | auth_error_invalid

fun auth_state_num :: "auth_state \<Rightarrow> nat" where
  "auth_state_num auth_version = 0"
| "auth_state_num auth_ulen = 1"
| "auth_state_num auth_uname = 2"
| "auth_state_num auth_plen = 3"
| "auth_state_num auth_passwd = 4"
| "auth_state_num auth_done = 5"
| "auth_state_num auth_error = 6"
| "auth_state_num auth_error_unsupported_version = 7"
| "auth_state_num auth_error_invalid = 8"

lemma auth_state_num_inj: "auth_state_num x = auth_state_num y \<Longrightarrow> x = y"
  by (cases x; cases y) simp_all

instantiation auth_state :: linorder
begin

definition less_eq_auth_state :: "auth_state \<Rightarrow> auth_state \<Rightarrow> bool" where
  "x \<le> y \<longleftrightarrow> auth_state_num x \<le> auth_state_num y"

definition less_auth_state :: "auth_state \<Rightarrow> auth_state \<Rightarrow> bool" where
  "x < y \<longleftrightarrow> auth_state_num x < auth_state_num y"

instance
  by standard (auto simp: less_eq_auth_state_def less_auth_state_def intro: auth_state_num_inj)

end

datatype auth_response_status = auth_status_succeeded | auth_status_failure

fun auth_status_byte :: "auth_response_status \<Rightarrow> byte" where
  "auth_status_byte auth_status_succeeded = 0x00"
| "auth_status_byte auth_status_failure = 0x01"

record auth =
  a_uname :: "byte list"
  a_passwd :: "byte list"

record auth_parser =
  ap_auth :: auth
  ap_state :: auth_state
  ap_len :: byte
  ap_i :: byte

definition remaining_set_auth :: "auth_parser \<Rightarrow> int \<Rightarrow> auth_parser" where
  "remaining_set_auth p len = p\<lparr>ap_i := 0, ap_len := word_of_int len\<rparr>"

definition remaining_is_done_auth :: "auth_parser \<Rightarrow> bool" where
  "remaining_is_done_auth p \<longleftrightarrow> ap_i p \<ge> ap_len p"

definition auth_parser_init :: "auth_parser \<Rightarrow> auth_parser" where
  "auth_parser_init p =
     p\<lparr>ap_state := auth_version,
       ap_auth := \<lparr>a_uname = replicate 0xFF 0, a_passwd = replicate 0xFF 0\<rparr>\<rparr>"

definition version_auth :: "byte \<Rightarrow> auth_state" where
  "version_auth c = (if c = 0x01 then auth_ulen else auth_error_unsupported_version)"

definition ulen_auth :: "byte \<Rightarrow> auth_parser \<Rightarrow> auth_state \<times> auth_parser" where
  "ulen_auth c p = (auth_uname, remaining_set_auth p (uint c))"

definition uname_auth :: "byte \<Rightarrow> auth_parser \<Rightarrow> (auth_state \<times> auth_parser) res" where
  "uname_auth c p =
     rbind (mem_set (a_uname (ap_auth p)) (uint (ap_i p)) c) (\<lambda>m.
       let p1 = p\<lparr>ap_auth := (ap_auth p)\<lparr>a_uname := m\<rparr>, ap_i := ap_i p + 1\<rparr>
       in Inr (if remaining_is_done_auth p1 then auth_plen else auth_uname, p1))"

definition plen_auth :: "byte \<Rightarrow> auth_parser \<Rightarrow> auth_state \<times> auth_parser" where
  "plen_auth c p = (auth_passwd, remaining_set_auth p (uint c))"

definition passwd_auth :: "byte \<Rightarrow> auth_parser \<Rightarrow> (auth_state \<times> auth_parser) res" where
  "passwd_auth c p =
     rbind (mem_set (a_passwd (ap_auth p)) (uint (ap_i p)) c) (\<lambda>m.
       let p1 = p\<lparr>ap_auth := (ap_auth p)\<lparr>a_passwd := m\<rparr>, ap_i := ap_i p + 1\<rparr>
       in Inr (if remaining_is_done_auth p1 then auth_done else auth_passwd, p1))"

definition auth_parser_feed :: "auth_parser \<Rightarrow> byte \<Rightarrow> auth_parser res" where
  "auth_parser_feed p c =
     rbind
       (case ap_state p of
          auth_version \<Rightarrow> Inr (version_auth c, p)
        | auth_ulen \<Rightarrow> Inr (ulen_auth c p)
        | auth_uname \<Rightarrow> uname_auth c p
        | auth_plen \<Rightarrow> Inr (plen_auth c p)
        | auth_passwd \<Rightarrow> passwd_auth c p
        | auth_done \<Rightarrow> Inr (ap_state p, p)
        | auth_error \<Rightarrow> Inr (ap_state p, p)
        | auth_error_unsupported_version \<Rightarrow> Inr (ap_state p, p)
        | _ \<Rightarrow> Inr (auth_error, p))
       (\<lambda>(nxt, p'). Inr (p'\<lparr>ap_state := nxt\<rparr>))"

definition auth_is_done :: "auth_state \<Rightarrow> bool option \<Rightarrow> bool \<times> bool option" where
  "auth_is_done st errored =
     (st \<ge> auth_done,
      if st \<ge> auth_error \<and> errored \<noteq> None then Some True else errored)"

abbreviation auth_fin :: "auth_parser \<Rightarrow> bool option \<Rightarrow> bool \<times> bool option" where
  "auth_fin p e \<equiv> auth_is_done (ap_state p) e"

definition auth_consume ::
  "buffer \<Rightarrow> auth_parser \<Rightarrow> bool option \<Rightarrow> (auth_state \<times> buffer \<times> auth_parser \<times> bool option) res"
where
  "auth_consume b p errored =
     rbind (parse_loop auth_parser_feed auth_fin b p errored)
       (\<lambda>(b', p', e'). Inr (ap_state p', b', p', e'))"

definition auth_close :: "auth_parser \<Rightarrow> auth_parser" where
  "auth_close p = p"

definition auth_marshall :: "buffer \<Rightarrow> auth_response_status \<Rightarrow> (int \<times> buffer) res" where
  "auth_marshall b status =
     rbind (buffer_write_ptr b) (\<lambda>(_, n).
       if n < 2 then Inr (-1, b)
       else rbind (buffer_write b 0x01) (\<lambda>b1.
            rbind (buffer_write b1 (auth_status_byte status)) (\<lambda>b2. Inr (2, b2))))"

section \<open>The wire format\<close>

text \<open>The message of RFC 1929: \<open>VER ULEN UNAME PLEN PASSWD\<close>, both fields of 1 to 255 bytes.\<close>

definition auth_message :: "byte list \<Rightarrow> byte list \<Rightarrow> byte list" where
  "auth_message u p = 0x01 # of_nat (length u) # u @ of_nat (length p) # p"

section \<open>Invariant\<close>

definition auth_inv :: "auth_parser \<Rightarrow> bool" where
  "auth_inv p \<longleftrightarrow>
     length (a_uname (ap_auth p)) = 0xFF \<and> length (a_passwd (ap_auth p)) = 0xFF \<and>
     ap_state p \<noteq> auth_error_invalid \<and>
     (ap_state p = auth_uname \<or> ap_state p = auth_passwd \<longrightarrow> ap_i p = 0 \<or> ap_i p < ap_len p)"

definition auth_final :: "auth_parser \<Rightarrow> bool" where
  "auth_final p \<longleftrightarrow> ap_state p \<ge> auth_done"

lemma auth_is_done_simps [simp]:
  "auth_is_done auth_version e = (False, e)"
  "auth_is_done auth_ulen e = (False, e)"
  "auth_is_done auth_uname e = (False, e)"
  "auth_is_done auth_plen e = (False, e)"
  "auth_is_done auth_passwd e = (False, e)"
  "auth_is_done auth_done e = (True, e)"
  "auth_is_done auth_error e = (True, map_option (\<lambda>_. True) e)"
  "auth_is_done auth_error_unsupported_version e = (True, map_option (\<lambda>_. True) e)"
  "auth_is_done auth_error_invalid e = (True, map_option (\<lambda>_. True) e)"
  by (auto simp: auth_is_done_def less_eq_auth_state_def)

lemma auth_counter_bound: "(i :: byte) = 0 \<or> i < len \<Longrightarrow> unat i < 255"
  using unat_byte_le [of len] by (auto simp: word_less_nat_alt)

lemma auth_inv_feed:
  assumes "auth_inv p"
  shows "\<exists>p'. auth_parser_feed p c = Inr p' \<and> auth_inv p'"
proof -
  have i: "ap_state p = auth_uname \<or> ap_state p = auth_passwd \<Longrightarrow> unat (ap_i p) < 255"
    using assms auth_counter_bound by (auto simp: auth_inv_def)
  then show ?thesis
    using assms
    by (cases "ap_state p")
      (auto simp: auth_parser_feed_def auth_inv_def version_auth_def ulen_auth_def uname_auth_def
        plen_auth_def passwd_auth_def remaining_set_auth_def remaining_is_done_auth_def Let_def)
qed

interpretation auth: total_parser auth_parser_feed auth_fin auth_final auth_inv
proof unfold_locales
  fix p p' :: auth_parser and c :: byte and e :: "bool option"
  show "fst (auth_fin p e) = auth_final p" by (simp add: auth_is_done_def auth_final_def)
  show "auth_inv p \<Longrightarrow> auth_parser_feed p c = Inr p' \<Longrightarrow> auth_inv p'"
    using auth_inv_feed [of p c] by auto
  show "auth_inv p \<Longrightarrow> auth_final p \<Longrightarrow> auth_parser_feed p c = Inr p"
    by (cases "ap_state p")
      (auto simp: auth_inv_def auth_final_def auth_parser_feed_def less_eq_auth_state_def)
  show "auth_inv p \<Longrightarrow> \<exists>p'. auth_parser_feed p c = Inr p'"
    using auth_inv_feed [of p c] by auto
qed

section \<open>Functional lemmas\<close>

lemma auth_feed_uname_step:
  assumes "ap_state p = auth_uname" "ap_i p = of_nat k" "k < 255"
    "ap_len p = of_nat n" "n \<le> 255" "length (a_uname (ap_auth p)) = 255"
  shows "auth_parser_feed p c =
     Inr (p\<lparr>ap_auth := (ap_auth p)\<lparr>a_uname := (a_uname (ap_auth p))[k := c]\<rparr>,
            ap_i := of_nat (Suc k), ap_state := if n \<le> Suc k then auth_plen else auth_uname\<rparr>)"
proof -
  have "(of_nat n \<le> (of_nat (Suc k) :: byte)) = (n \<le> Suc k)"
    using assms by (simp add: word_le_nat_alt del: of_nat_Suc)
  moreover have "mem_set (a_uname (ap_auth p)) (uint (ap_i p)) c = Inr ((a_uname (ap_auth p))[k := c])"
    using assms by simp
  ultimately show ?thesis
    using assms by (simp add: auth_parser_feed_def uname_auth_def remaining_is_done_auth_def Let_def add.commute)
qed

lemma auth_feed_passwd_step:
  assumes "ap_state p = auth_passwd" "ap_i p = of_nat k" "k < 255"
    "ap_len p = of_nat n" "n \<le> 255" "length (a_passwd (ap_auth p)) = 255"
  shows "auth_parser_feed p c =
     Inr (p\<lparr>ap_auth := (ap_auth p)\<lparr>a_passwd := (a_passwd (ap_auth p))[k := c]\<rparr>,
            ap_i := of_nat (Suc k), ap_state := if n \<le> Suc k then auth_done else auth_passwd\<rparr>)"
proof -
  have "(of_nat n \<le> (of_nat (Suc k) :: byte)) = (n \<le> Suc k)"
    using assms by (simp add: word_le_nat_alt del: of_nat_Suc)
  moreover have "mem_set (a_passwd (ap_auth p)) (uint (ap_i p)) c = Inr ((a_passwd (ap_auth p))[k := c])"
    using assms by simp
  ultimately show ?thesis
    using assms by (simp add: auth_parser_feed_def passwd_auth_def remaining_is_done_auth_def Let_def add.commute)
qed

lemma auth_feed_uname:
  assumes "us \<noteq> []" "k + length us = n" "n \<le> 255" "ap_state p = auth_uname" "ap_i p = of_nat k"
    "ap_len p = of_nat n" "length (a_uname (ap_auth p)) = 255"
  shows "parse_list auth_parser_feed auth_fin p e (us @ rest) =
     parse_list auth_parser_feed auth_fin
       (p\<lparr>ap_auth := (ap_auth p)\<lparr>a_uname := overwrite (a_uname (ap_auth p)) k us\<rparr>,
          ap_i := of_nat n, ap_state := auth_plen\<rparr>) e rest"
  using assms
proof (induction us arbitrary: p k)
  case (Cons u us)
  have k: "k < 255" using Cons.prems by simp
  note step = auth_feed_uname_step [OF Cons.prems(4,5) k Cons.prems(6,3,7), of u]
  show ?case
  proof (cases "us = []")
    case True
    with Cons.prems show ?thesis
      by (simp add: step flip: overwrite_update)
  next
    case False
    then have "\<not> n \<le> Suc k" using Cons.prems(2) by (cases us) auto
    then show ?thesis
      using Cons.prems False
      by (simp add: step Cons.IH [where k = "Suc k"] overwrite_update)
  qed
qed simp

lemma auth_feed_passwd:
  assumes "us \<noteq> []" "k + length us = n" "n \<le> 255" "ap_state p = auth_passwd" "ap_i p = of_nat k"
    "ap_len p = of_nat n" "length (a_passwd (ap_auth p)) = 255"
  shows "parse_list auth_parser_feed auth_fin p e (us @ rest) =
     Inr (rest, p\<lparr>ap_auth := (ap_auth p)\<lparr>a_passwd := overwrite (a_passwd (ap_auth p)) k us\<rparr>,
          ap_i := of_nat n, ap_state := auth_done\<rparr>, e)"
  using assms
proof (induction us arbitrary: p k)
  case (Cons u us)
  have k: "k < 255" using Cons.prems by simp
  note step = auth_feed_passwd_step [OF Cons.prems(4,5) k Cons.prems(6,3,7), of u]
  show ?case
  proof (cases "us = []")
    case True
    with Cons.prems show ?thesis
      by (simp add: step flip: overwrite_update)
  next
    case False
    then have "\<not> n \<le> Suc k" using Cons.prems(2) by (cases us) auto
    then show ?thesis
      using Cons.prems False
      by (simp add: step Cons.IH [where k = "Suc k"] overwrite_update)
  qed
qed simp

lemma auth_feed_message:
  fixes p0 :: auth_parser
  assumes "u \<noteq> []" "length u \<le> 255" "pw \<noteq> []" "length pw \<le> 255"
  defines "p \<equiv> auth_parser_init p0"
  shows "\<exists>p'. parse_list auth_parser_feed auth_fin p e (auth_message u pw @ rest) = Inr (rest, p', e) \<and>
     ap_state p' = auth_done \<and>
     a_uname (ap_auth p') = strncpy_bytes 0xFF u \<and> a_passwd (ap_auth p') = strncpy_bytes 0xFF pw"
proof -
  let ?z = "replicate 255 (0 :: byte)"
  let ?p1 = "p\<lparr>ap_i := 0, ap_len := of_nat (length u), ap_state := auth_uname\<rparr>"
  let ?p2 = "?p1\<lparr>ap_auth := (ap_auth p)\<lparr>a_uname := overwrite ?z 0 u\<rparr>,
      ap_i := of_nat (length u), ap_state := auth_plen\<rparr>"
  let ?p3 = "?p2\<lparr>ap_i := 0, ap_len := of_nat (length pw), ap_state := auth_passwd\<rparr>"
  let ?p4 = "?p3\<lparr>ap_auth := (ap_auth ?p2)\<lparr>a_passwd := overwrite ?z 0 pw\<rparr>,
      ap_i := of_nat (length pw), ap_state := auth_done\<rparr>"
  let ?run = "parse_list auth_parser_feed auth_fin"
  have p: "ap_state p = auth_version" "a_uname (ap_auth p) = ?z" "a_passwd (ap_auth p) = ?z"
    by (simp_all add: p_def auth_parser_init_def)
  have "?run p e (auth_message u pw @ rest) = ?run ?p1 e (u @ (of_nat (length pw) # pw) @ rest)"
    using p(1) by (simp add: auth_message_def auth_parser_feed_def version_auth_def ulen_auth_def
        remaining_set_auth_def)
  also have "\<dots> = ?run ?p2 e (of_nat (length pw) # pw @ rest)"
    using auth_feed_uname [where p = ?p1 and us = u and k = 0 and n = "length u" and
        rest = "of_nat (length pw) # pw @ rest"] assms(1,2) p(2) by simp
  also have "\<dots> = ?run ?p3 e (pw @ rest)"
    by (simp add: auth_parser_feed_def plen_auth_def remaining_set_auth_def)
  also have "\<dots> = Inr (rest, ?p4, e)"
    using auth_feed_passwd [where p = ?p3 and us = pw and k = 0 and n = "length pw"] assms(3,4) p(3)
    by simp
  finally show ?thesis
    using assms(2,4) by (intro exI [of _ ?p4]) (simp add: overwrite_zero_block strncpy_bytes_def)
qed

lemma auth_marshall_ok:
  assumes "wf_buffer b" "2 \<le> buffer_space b"
  shows "\<exists>b'. auth_marshall b st = Inr (2, b') \<and> wf_buffer b' \<and>
     buffer_bytes b' = buffer_bytes b @ [0x01, auth_status_byte st] \<and> blimit b' = blimit b"
  using buffer_write_all_ok [OF assms(1), of "[0x01, auth_status_byte st]"] assms
  by (auto simp: auth_marshall_def buffer_write_ptr_eq)

lemma auth_marshall_short:
  "wf_buffer b \<Longrightarrow> buffer_space b < 2 \<Longrightarrow> auth_marshall b st = Inr (-1, b)"
  by (simp add: auth_marshall_def buffer_write_ptr_eq)

section \<open>Properties\<close>

lemma auth_init_inv: "auth_inv (auth_parser_init p)"
  by (simp add: auth_inv_def auth_parser_init_def)

text \<open>C24. A complete username/password message is recognised whatever follows it: the parser ends in
  \<open>auth_done\<close>, consumes exactly the message, and the two fields of \<open>struct auth\<close> hold the
  credentials padded with NUL bytes.\<close>

theorem auth_consume_message:
  assumes "wf_buffer b" "buffer_bytes b = auth_message u pw @ rest"
    "u \<noteq> []" "length u \<le> 255" "pw \<noteq> []" "length pw \<le> 255"
  shows "\<exists>b' p'. auth_consume b (auth_parser_init p) e = Inr (auth_done, b', p', e) \<and> wf_buffer b' \<and>
     buffer_bytes b' = rest \<and> a_uname (ap_auth p') = strncpy_bytes 0xFF u \<and>
     a_passwd (ap_auth p') = strncpy_bytes 0xFF pw"
proof -
  obtain p' where run: "parse_list auth_parser_feed auth_fin (auth_parser_init p) e (buffer_bytes b) =
      Inr (rest, p', e)" and p': "ap_state p' = auth_done" "a_uname (ap_auth p') = strncpy_bytes 0xFF u"
    "a_passwd (ap_auth p') = strncpy_bytes 0xFF pw"
    using auth_feed_message [OF assms(3-6), of p e rest] unfolding assms(2) by blast
  obtain b' where "parse_loop auth_parser_feed auth_fin b (auth_parser_init p) e = Inr (b', p', e)"
    "wf_buffer b'" "buffer_bytes b' = rest"
    by (rule parse_loop_InrI [OF assms(1) run])
  with p' show ?thesis by (simp add: auth_consume_def)
qed

theorem auth_consume_message_witness:
  "\<exists>b' p'. auth_consume (buffer_init 7 [1, 1, 97, 2, 98, 99, 77]\<lparr>bwrite := 7\<rparr>)
      (auth_parser_init \<lparr>ap_auth = \<lparr>a_uname = [], a_passwd = []\<rparr>, ap_state = auth_done, ap_len = 0, ap_i = 0\<rparr>)
      (Some False) = Inr (auth_done, b', p', Some False) \<and> buffer_bytes b' = [77] \<and>
      a_uname (ap_auth p') = strncpy_bytes 0xFF [97] \<and> a_passwd (ap_auth p') = strncpy_bytes 0xFF [98, 99]"
proof -
  let ?b = "buffer_init 7 [1, 1, 97, 2, 98, 99, 77]\<lparr>bwrite := 7\<rparr> :: buffer"
  have "wf_buffer ?b" "buffer_bytes ?b = auth_message [97] [98, 99] @ [77]"
    by (simp_all add: wf_buffer_def buffer_init_def buffer_reset_def buffer_bytes_def auth_message_def)
  from auth_consume_message [OF this] show ?thesis by fastforce
qed

text \<open>Whatever bytes arrive, the authentication parser terminates without storing outside
  \<open>uname\<close> and \<open>passwd\<close> and without failing an assertion: the length bytes of the message cannot
  drive the counter past the arrays. It stops at a final state or with the buffer empty.\<close>

theorem auth_consume_safe:
  assumes "wf_buffer b"
  shows "\<exists>b' p' e'. auth_consume b (auth_parser_init p) e = Inr (ap_state p', b', p', e') \<and>
     wf_buffer b' \<and> auth_inv p' \<and> (auth_final p' \<or> buffer_bytes b' = [])"
proof -
  obtain b' p' e' where "parse_loop auth_parser_feed auth_fin b (auth_parser_init p) e = Inr (b', p', e')"
    "wf_buffer b'" "auth_inv p'" "auth_final p' \<or> buffer_bytes b' = []"
    using auth.parse_loop_total [OF assms auth_init_inv] by blast
  then show ?thesis by (simp add: auth_consume_def)
qed

theorem auth_consume_safe_witness:
  "\<exists>b' p' e'. auth_consume (buffer_init 3 [1, 0, 97]\<lparr>bwrite := 3\<rparr>)
      (auth_parser_init \<lparr>ap_auth = \<lparr>a_uname = [], a_passwd = []\<rparr>, ap_state = auth_done, ap_len = 0, ap_i = 0\<rparr>)
      (Some False) = Inr (ap_state p', b', p', e') \<and> auth_inv p'"
proof -
  have "wf_buffer (buffer_init 3 [1, 0, 97]\<lparr>bwrite := 3\<rparr>)"
    by (simp add: wf_buffer_def buffer_init_def buffer_reset_def)
  from auth_consume_safe [OF this] show ?thesis by blast
qed

end
