(* ===== verification/Request.thy ===== *)
theory Request
  imports Consume
begin

text \<open>
  Model of \<open>src/server/request.c\<close>: the parser of the SOCKS5 request of RFC 1928, section 4, the
  marshalling of its reply and the translation of \<open>errno\<close> values.

  \<open>cmd\<close> and \<open>dest_addr_type\<close> are C enums assigned from an input byte, so they hold any byte. The
  union \<open>dest_addr\<close> is its 256 bytes (a 255 byte name, rounded up to the alignment of the socket
  addresses): \<open>fqdn\<close> starts at offset 0, the family of both socket addresses is the 16 bit word at
  offset 0 in host order (little endian), their port the two bytes at offset 2, and the address starts
  at offset 4 (\<open>sin_addr\<close>) or 8 (\<open>sin6_addr\<close>). A store outside the union is a fault.
\<close>

section \<open>The parser\<close>

definition socks_req_cmd_connect :: byte where "socks_req_cmd_connect = 0x01"

definition socks_req_cmd_bind :: byte where "socks_req_cmd_bind = 0x02"

definition socks_req_cmd_associate :: byte where "socks_req_cmd_associate = 0x03"

definition socks_req_addrtype_ipv4 :: byte where "socks_req_addrtype_ipv4 = 0x01"

definition socks_req_addrtype_domain :: byte where "socks_req_addrtype_domain = 0x03"

definition socks_req_addrtype_ipv6 :: byte where "socks_req_addrtype_ipv6 = 0x04"

lemmas addrtype_defs =
  socks_req_addrtype_ipv4_def socks_req_addrtype_domain_def socks_req_addrtype_ipv6_def

text \<open>\<open>AF_INET\<close> and \<open>AF_INET6\<close> as stored in \<open>sin_family\<close>, and the layout of the union.\<close>

definition AF_INET_bytes :: "byte list" where "AF_INET_bytes = [2, 0]"

definition AF_INET6_bytes :: "byte list" where "AF_INET6_bytes = [10, 0]"

definition sizeof_sockaddr_in :: nat where "sizeof_sockaddr_in = 16"

definition sizeof_sockaddr_in6 :: nat where "sizeof_sockaddr_in6 = 28"

definition sizeof_socks_addr :: nat where "sizeof_socks_addr = 256"

definition sin_addr_off :: int where "sin_addr_off = 4"

definition sin6_addr_off :: int where "sin6_addr_off = 8"

record request =
  r_cmd :: byte
  r_dest_addr_type :: byte
  r_dest_addr :: "byte list"
  r_dest_port :: "byte list"

datatype request_state =
    request_version
  | request_cmd
  | request_rsv
  | request_atyp
  | request_dstaddr_fqdn
  | request_dstaddr
  | request_dstport
  | request_done
  | request_error
  | request_error_unsupported_version
  | request_error_unsupported_atyp

fun request_state_num :: "request_state \<Rightarrow> nat" where
  "request_state_num request_version = 0"
| "request_state_num request_cmd = 1"
| "request_state_num request_rsv = 2"
| "request_state_num request_atyp = 3"
| "request_state_num request_dstaddr_fqdn = 4"
| "request_state_num request_dstaddr = 5"
| "request_state_num request_dstport = 6"
| "request_state_num request_done = 7"
| "request_state_num request_error = 8"
| "request_state_num request_error_unsupported_version = 9"
| "request_state_num request_error_unsupported_atyp = 10"

lemma request_state_num_inj: "request_state_num x = request_state_num y \<Longrightarrow> x = y"
  by (cases x; cases y) simp_all

instantiation request_state :: linorder
begin

definition less_eq_request_state :: "request_state \<Rightarrow> request_state \<Rightarrow> bool" where
  "x \<le> y \<longleftrightarrow> request_state_num x \<le> request_state_num y"

definition less_request_state :: "request_state \<Rightarrow> request_state \<Rightarrow> bool" where
  "x < y \<longleftrightarrow> request_state_num x < request_state_num y"

instance
  by standard
    (auto simp: less_eq_request_state_def less_request_state_def intro: request_state_num_inj)

end

record request_parser =
  rp_request :: request
  rp_state :: request_state
  rp_n :: byte
  rp_i :: byte

abbreviation upd_request :: "(request \<Rightarrow> request) \<Rightarrow> request_parser \<Rightarrow> request_parser" where
  "upd_request f p \<equiv> p\<lparr>rp_request := f (rp_request p)\<rparr>"

definition remaining_set_request :: "request_parser \<Rightarrow> int \<Rightarrow> request_parser" where
  "remaining_set_request p n = p\<lparr>rp_i := 0, rp_n := word_of_int n\<rparr>"

definition remaining_is_done_request :: "request_parser \<Rightarrow> bool" where
  "remaining_is_done_request p \<longleftrightarrow> rp_i p \<ge> rp_n p"

definition version_request :: "byte \<Rightarrow> request_state" where
  "version_request c = (if c = 0x05 then request_cmd else request_error_unsupported_version)"

definition cmd_request :: "byte \<Rightarrow> request_parser \<Rightarrow> request_state \<times> request_parser" where
  "cmd_request c p = (request_rsv, upd_request (\<lambda>r. r\<lparr>r_cmd := c\<rparr>) p)"

definition rsv_request :: "byte \<Rightarrow> request_parser \<Rightarrow> request_state \<times> request_parser" where
  "rsv_request c p = (request_atyp, p)"

definition atyp_request :: "byte \<Rightarrow> request_parser \<Rightarrow> request_state \<times> request_parser" where
  "atyp_request c p =
     (let p1 = upd_request (\<lambda>r. r\<lparr>r_dest_addr_type := c\<rparr>) p;
          m = r_dest_addr (rp_request p1)
      in if c = socks_req_addrtype_ipv4 then
           (request_dstaddr,
            upd_request (\<lambda>r. r\<lparr>r_dest_addr :=
                overwrite (overwrite m 0 (replicate sizeof_sockaddr_in 0)) 0 AF_INET_bytes\<rparr>)
              (remaining_set_request p1 4))
         else if c = socks_req_addrtype_ipv6 then
           (request_dstaddr,
            upd_request (\<lambda>r. r\<lparr>r_dest_addr :=
                overwrite (overwrite m 0 (replicate sizeof_sockaddr_in6 0)) 0 AF_INET6_bytes\<rparr>)
              (remaining_set_request p1 16))
         else if c = socks_req_addrtype_domain then (request_dstaddr_fqdn, p1)
         else (request_error_unsupported_atyp, p1))"

definition dstaddr_fqdn_request :: "byte \<Rightarrow> request_parser \<Rightarrow> (request_state \<times> request_parser) res" where
  "dstaddr_fqdn_request c p =
     (let p1 = remaining_set_request p (uint c)
      in rbind (mem_set (r_dest_addr (rp_request p1)) (uint (rp_n p1) - 1) 0) (\<lambda>m.
           Inr (request_dstaddr, upd_request (\<lambda>r. r\<lparr>r_dest_addr := m\<rparr>) p1)))"

definition dstaddr_request :: "byte \<Rightarrow> request_parser \<Rightarrow> (request_state \<times> request_parser) res" where
  "dstaddr_request c p =
     rbind
       (let store = (\<lambda>off. rbind (mem_set (r_dest_addr (rp_request p)) (off + uint (rp_i p)) c) (\<lambda>m.
              Inr ((upd_request (\<lambda>r. r\<lparr>r_dest_addr := m\<rparr>) p)\<lparr>rp_i := rp_i p + 1\<rparr>)));
            ty = r_dest_addr_type (rp_request p)
        in if ty = socks_req_addrtype_ipv4 then store sin_addr_off
           else if ty = socks_req_addrtype_ipv6 then store sin6_addr_off
           else if ty = socks_req_addrtype_domain then store 0
           else Inr p)
       (\<lambda>p1. Inr (if remaining_is_done_request p1
                  then (request_dstport,
                        upd_request (\<lambda>r. r\<lparr>r_dest_port := [0, 0]\<rparr>) (remaining_set_request p1 2))
                  else (request_dstaddr, p1)))"

definition dstport_request :: "byte \<Rightarrow> request_parser \<Rightarrow> (request_state \<times> request_parser) res" where
  "dstport_request c p =
     rbind (mem_set (r_dest_port (rp_request p)) (uint (rp_i p)) c) (\<lambda>m.
       let p1 = (upd_request (\<lambda>r. r\<lparr>r_dest_port := m\<rparr>) p)\<lparr>rp_i := rp_i p + 1\<rparr>
       in Inr (if rp_i p1 \<ge> rp_n p1 then request_done else request_dstport, p1))"

definition request_zero :: request where
  "request_zero =
     \<lparr>r_cmd = 0, r_dest_addr_type = 0, r_dest_addr = replicate sizeof_socks_addr 0,
      r_dest_port = [0, 0]\<rparr>"

definition request_parser_init :: "request_parser \<Rightarrow> request_parser" where
  "request_parser_init p = p\<lparr>rp_state := request_version, rp_request := request_zero\<rparr>"

definition request_parser_feed :: "request_parser \<Rightarrow> byte \<Rightarrow> request_parser res" where
  "request_parser_feed p c =
     rbind
       (case rp_state p of
          request_version \<Rightarrow> Inr (version_request c, p)
        | request_cmd \<Rightarrow> Inr (cmd_request c p)
        | request_rsv \<Rightarrow> Inr (rsv_request c p)
        | request_atyp \<Rightarrow> Inr (atyp_request c p)
        | request_dstaddr_fqdn \<Rightarrow> dstaddr_fqdn_request c p
        | request_dstaddr \<Rightarrow> dstaddr_request c p
        | request_dstport \<Rightarrow> dstport_request c p
        | request_done \<Rightarrow> Inr (rp_state p, p)
        | request_error \<Rightarrow> Inr (rp_state p, p)
        | request_error_unsupported_version \<Rightarrow> Inr (rp_state p, p)
        | request_error_unsupported_atyp \<Rightarrow> Inr (rp_state p, p))
       (\<lambda>(nxt, p'). Inr (p'\<lparr>rp_state := nxt\<rparr>))"

definition request_is_done :: "request_state \<Rightarrow> bool option \<Rightarrow> bool \<times> bool option" where
  "request_is_done st errored =
     (st \<ge> request_done,
      if st \<ge> request_error \<and> errored \<noteq> None then Some True else errored)"

abbreviation request_fin :: "request_parser \<Rightarrow> bool option \<Rightarrow> bool \<times> bool option" where
  "request_fin p e \<equiv> request_is_done (rp_state p) e"

definition request_consume ::
  "buffer \<Rightarrow> request_parser \<Rightarrow> bool option
    \<Rightarrow> (request_state \<times> buffer \<times> request_parser \<times> bool option) res" where
  "request_consume b p errored =
     rbind (parse_loop request_parser_feed request_fin b p errored)
       (\<lambda>(b', p', e'). Inr (rp_state p', b', p', e'))"

definition request_close :: "request_parser \<Rightarrow> request_parser" where
  "request_close p = p"

section \<open>The reply\<close>

datatype socks_response_status =
    status_succeeded
  | status_general_SOCKS_server_failure
  | status_connection_not_allowed_by_ruleset
  | status_network_unreachable
  | status_host_unreachable
  | status_connection_refused
  | status_ttl_expired
  | status_command_not_supported
  | status_address_type_not_supported

fun socks_status_byte :: "socks_response_status \<Rightarrow> byte" where
  "socks_status_byte status_succeeded = 0x00"
| "socks_status_byte status_general_SOCKS_server_failure = 0x01"
| "socks_status_byte status_connection_not_allowed_by_ruleset = 0x02"
| "socks_status_byte status_network_unreachable = 0x03"
| "socks_status_byte status_host_unreachable = 0x04"
| "socks_status_byte status_connection_refused = 0x05"
| "socks_status_byte status_ttl_expired = 0x06"
| "socks_status_byte status_command_not_supported = 0x07"
| "socks_status_byte status_address_type_not_supported = 0x08"

definition request_marshall :: "buffer \<Rightarrow> socks_response_status \<Rightarrow> (int \<times> buffer) res" where
  "request_marshall b status =
     rbind (buffer_write_ptr b) (\<lambda>(buff, n).
       if n < 10 then Inr (-1, b)
       else rbind (buffer_poke b [0x05, socks_status_byte status, 0x00, socks_req_addrtype_ipv4,
                                  0x00, 0x00, 0x00, 0x00, 0x00, 0x00]) (\<lambda>b1.
            rbind (buffer_write_adv b1 10) (\<lambda>b2. Inr (10, b2))))"

text \<open>The \<open>errno\<close> values of the Linux ABI.\<close>

definition ECONNREFUSED :: int where "ECONNREFUSED = 111"

definition EHOSTUNREACH :: int where "EHOSTUNREACH = 113"

definition ENETUNREACH :: int where "ENETUNREACH = 101"

definition ETIMEDOUT :: int where "ETIMEDOUT = 110"

definition errno_to_socks :: "int \<Rightarrow> socks_response_status" where
  "errno_to_socks e =
     (if e = 0 then status_succeeded
      else if e = ECONNREFUSED then status_connection_refused
      else if e = EHOSTUNREACH then status_host_unreachable
      else if e = ENETUNREACH then status_network_unreachable
      else if e = ETIMEDOUT then status_ttl_expired
      else status_general_SOCKS_server_failure)"

section \<open>The wire format\<close>

text \<open>The message of RFC 1928, section 4: \<open>VER CMD RSV ATYP DST.ADDR DST.PORT\<close>.\<close>

datatype socks_dest = Dest_ipv4 "byte list" | Dest_ipv6 "byte list" | Dest_fqdn "byte list"

fun dest_atyp :: "socks_dest \<Rightarrow> byte" where
  "dest_atyp (Dest_ipv4 a) = socks_req_addrtype_ipv4"
| "dest_atyp (Dest_ipv6 a) = socks_req_addrtype_ipv6"
| "dest_atyp (Dest_fqdn a) = socks_req_addrtype_domain"

fun dest_bytes :: "socks_dest \<Rightarrow> byte list" where
  "dest_bytes (Dest_ipv4 a) = a"
| "dest_bytes (Dest_ipv6 a) = a"
| "dest_bytes (Dest_fqdn a) = of_nat (length a) # a"

fun valid_dest :: "socks_dest \<Rightarrow> bool" where
  "valid_dest (Dest_ipv4 a) \<longleftrightarrow> length a = 4"
| "valid_dest (Dest_ipv6 a) \<longleftrightarrow> length a = 16"
| "valid_dest (Dest_fqdn a) \<longleftrightarrow> a \<noteq> [] \<and> length a \<le> 255"

definition request_message :: "byte \<Rightarrow> byte \<Rightarrow> socks_dest \<Rightarrow> byte list \<Rightarrow> byte list" where
  "request_message cmd rsv d port = 0x05 # cmd # rsv # dest_atyp d # dest_bytes d @ port"

text \<open>The union \<open>dest_addr\<close> a request with destination \<open>d\<close> leaves behind.\<close>

fun dest_memory :: "socks_dest \<Rightarrow> byte list" where
  "dest_memory (Dest_ipv4 a) = AF_INET_bytes @ replicate 2 0 @ a @ replicate 248 0"
| "dest_memory (Dest_ipv6 a) = AF_INET6_bytes @ replicate 6 0 @ a @ replicate 232 0"
| "dest_memory (Dest_fqdn a) = a @ replicate (256 - length a) 0"

section \<open>Invariant\<close>

definition addr_off :: "byte \<Rightarrow> nat" where
  "addr_off ty = (if ty = socks_req_addrtype_ipv4 then 4 else if ty = socks_req_addrtype_ipv6 then 8 else 0)"

definition known_addrtype :: "byte \<Rightarrow> bool" where
  "known_addrtype ty \<longleftrightarrow>
     ty = socks_req_addrtype_ipv4 \<or> ty = socks_req_addrtype_ipv6 \<or> ty = socks_req_addrtype_domain"

definition request_inv :: "request_parser \<Rightarrow> bool" where
  "request_inv p \<longleftrightarrow>
     length (r_dest_addr (rp_request p)) = 256 \<and> length (r_dest_port (rp_request p)) = 2 \<and>
     r_dest_addr (rp_request p) ! 255 = 0 \<and>
     (rp_state p = request_dstaddr_fqdn \<longrightarrow> r_dest_addr_type (rp_request p) = socks_req_addrtype_domain) \<and>
     (rp_state p = request_dstaddr \<longrightarrow> rp_i p < rp_n p \<and>
        (r_dest_addr_type (rp_request p) = socks_req_addrtype_ipv4 \<and> rp_n p = 4 \<or>
         r_dest_addr_type (rp_request p) = socks_req_addrtype_ipv6 \<and> rp_n p = 16 \<or>
         r_dest_addr_type (rp_request p) = socks_req_addrtype_domain)) \<and>
     (rp_state p = request_dstport \<longrightarrow> rp_n p = 2 \<and> rp_i p < 2)"

definition request_final :: "request_parser \<Rightarrow> bool" where
  "request_final p \<longleftrightarrow> rp_state p \<ge> request_done"

lemma request_is_done_simps [simp]:
  "request_is_done request_version e = (False, e)"
  "request_is_done request_cmd e = (False, e)"
  "request_is_done request_rsv e = (False, e)"
  "request_is_done request_atyp e = (False, e)"
  "request_is_done request_dstaddr_fqdn e = (False, e)"
  "request_is_done request_dstaddr e = (False, e)"
  "request_is_done request_dstport e = (False, e)"
  "request_is_done request_done e = (True, e)"
  "request_is_done request_error e = (True, map_option (\<lambda>_. True) e)"
  "request_is_done request_error_unsupported_version e = (True, map_option (\<lambda>_. True) e)"
  "request_is_done request_error_unsupported_atyp e = (True, map_option (\<lambda>_. True) e)"
  by (auto simp: request_is_done_def less_eq_request_state_def)

lemma request_init_inv: "request_inv (request_parser_init p)"
  by (simp add: request_inv_def request_parser_init_def request_zero_def sizeof_socks_addr_def)

lemma dstaddr_request_eq:
  assumes "known_addrtype (r_dest_addr_type (rp_request p))"
  defines "off \<equiv> addr_off (r_dest_addr_type (rp_request p))"
  shows "dstaddr_request c p =
     rbind (mem_set (r_dest_addr (rp_request p)) (int off + uint (rp_i p)) c) (\<lambda>m.
       let p1 = (upd_request (\<lambda>r. r\<lparr>r_dest_addr := m\<rparr>) p)\<lparr>rp_i := rp_i p + 1\<rparr>
       in Inr (if remaining_is_done_request p1
               then (request_dstport,
                     upd_request (\<lambda>r. r\<lparr>r_dest_port := [0, 0]\<rparr>) (remaining_set_request p1 2))
               else (request_dstaddr, p1)))"
  using assms
  by (auto simp: dstaddr_request_def Let_def known_addrtype_def addr_off_def sin_addr_off_def
      sin6_addr_off_def rbind_assoc addrtype_defs)

text \<open>One byte of the address, with the counter and the length as natural numbers.\<close>

lemma request_feed_dstaddr:
  fixes c :: byte
  assumes "rp_state p = request_dstaddr" "known_addrtype (r_dest_addr_type (rp_request p))"
    "rp_i p = of_nat k" "rp_n p = of_nat n" "k < n" "n < 256"
    "addr_off (r_dest_addr_type (rp_request p)) + n \<le> length (r_dest_addr (rp_request p))"
  defines "m \<equiv> (r_dest_addr (rp_request p))[addr_off (r_dest_addr_type (rp_request p)) + k := c]"
  shows "request_parser_feed p c =
     Inr (if n \<le> Suc k
          then p\<lparr>rp_request := (rp_request p)\<lparr>r_dest_addr := m, r_dest_port := [0, 0]\<rparr>, rp_i := 0,
                 rp_n := 2, rp_state := request_dstport\<rparr>
          else p\<lparr>rp_request := (rp_request p)\<lparr>r_dest_addr := m\<rparr>, rp_i := of_nat (Suc k),
                 rp_state := request_dstaddr\<rparr>)"
proof -
  let ?off = "addr_off (r_dest_addr_type (rp_request p))"
  have "uint (rp_i p) = int k" using assms by (metis less_trans of_nat_unat unat_of_nat_byte)
  then have "mem_set (r_dest_addr (rp_request p)) (int ?off + uint (rp_i p)) c = Inr m"
    using assms mem_set_nat [of "?off + k" "r_dest_addr (rp_request p)" c] by (simp add: m_def)
  moreover have "(of_nat n \<le> (of_nat (Suc k) :: byte)) = (n \<le> Suc k)"
    using assms by (simp add: word_le_nat_alt del: of_nat_Suc)
  ultimately show ?thesis
    using assms(1-4)
    by (simp add: request_parser_feed_def dstaddr_request_eq remaining_is_done_request_def
        remaining_set_request_def Let_def add.commute)
qed

lemma request_feed_dstport:
  assumes "rp_state p = request_dstport" "rp_n p = 2" "r_dest_port (rp_request p) = [x, y]"
  shows "rp_i p = 0 \<Longrightarrow> request_parser_feed p c =
      Inr (p\<lparr>rp_request := (rp_request p)\<lparr>r_dest_port := [c, y]\<rparr>, rp_i := 1, rp_state := request_dstport\<rparr>)"
    and "rp_i p = 1 \<Longrightarrow> request_parser_feed p c =
      Inr (p\<lparr>rp_request := (rp_request p)\<lparr>r_dest_port := [x, c]\<rparr>, rp_i := 2, rp_state := request_done\<rparr>)"
  using assms
  by (simp_all add: request_parser_feed_def dstport_request_def Let_def mem_set_def word_le_nat_alt)

lemma request_inv_dstaddr:
  assumes "request_inv p" "rp_state p = request_dstaddr"
  shows "\<exists>p'. request_parser_feed p c = Inr p' \<and> request_inv p'"
proof -
  let ?ty = "r_dest_addr_type (rp_request p)"
  define k n where "k = unat (rp_i p)" and "n = unat (rp_n p)"
  have kn: "rp_i p = of_nat k" "rp_n p = of_nat n" "k < n" "n < 256"
    using assms by (simp_all add: k_def n_def request_inv_def word_less_nat_alt)
  have ty: "known_addrtype ?ty" "addr_off ?ty + n \<le> 255"
    using assms unat_byte_le [of "rp_n p"]
    by (auto simp: request_inv_def known_addrtype_def addr_off_def n_def addrtype_defs)
  have le: "addr_off ?ty + n \<le> length (r_dest_addr (rp_request p))"
    using assms ty by (simp add: request_inv_def)
  have "\<not> n \<le> Suc k \<Longrightarrow> (of_nat (Suc k) :: byte) < of_nat n"
    using kn by (simp add: word_less_nat_alt del: of_nat_Suc)
  then show ?thesis
    using assms ty kn(3) request_feed_dstaddr [OF assms(2) ty(1) kn le, of c]
    by (auto simp: request_inv_def kn(2) nth_list_update)
qed

lemma request_inv_feed:
  assumes "request_inv p" "\<not> (rp_state p = request_dstaddr_fqdn \<and> c = 0)"
  shows "\<exists>p'. request_parser_feed p c = Inr p' \<and> request_inv p'"
proof (cases "rp_state p")
  case request_dstaddr_fqdn
  let ?m = "(r_dest_addr (rp_request p))[unat c - 1 := 0]"
  have c: "1 \<le> unat c" "unat c \<le> 255" using assms request_dstaddr_fqdn unat_byte_le [of c]
    by (auto simp: unat_0_iff Suc_le_eq simp flip: neq0_conv)
  then have "mem_set (r_dest_addr (rp_request p)) (uint c - 1) 0 = Inr ?m"
    using assms mem_set_nat [of "unat c - 1" "r_dest_addr (rp_request p)" 0]
    by (simp add: request_inv_def uint_nat of_nat_diff del: of_nat_unat)
  then show ?thesis
    using assms request_dstaddr_fqdn c
    by (simp add: request_parser_feed_def dstaddr_fqdn_request_def remaining_set_request_def
        request_inv_def Let_def nth_list_update word_neq_0_conv)
next
  case request_dstport
  have "rp_i p = 0 \<or> rp_i p = 1"
    using assms(1) request_dstport by (simp add: request_inv_def byte_less_2)
  moreover obtain x y where "r_dest_port (rp_request p) = [x, y]" "rp_n p = 2"
    using assms(1) request_dstport
    by (auto simp: request_inv_def numeral_2_eq_2 length_Suc_conv)
  ultimately show ?thesis
    using assms(1) request_dstport request_feed_dstport [OF request_dstport]
    by (auto simp: request_inv_def byte_less_2)
qed (use assms request_inv_dstaddr in
    \<open>auto simp: request_parser_feed_def request_inv_def version_request_def cmd_request_def
      rsv_request_def atyp_request_def remaining_set_request_def sizeof_sockaddr_in_def
      sizeof_sockaddr_in6_def AF_INET_bytes_def AF_INET6_bytes_def Let_def overwrite_def nth_append
      addrtype_defs\<close>)

lemma request_feed_empty_fqdn:
  "rp_state p = request_dstaddr_fqdn \<Longrightarrow> request_parser_feed p 0 = Inl Out_of_bounds"
  by (simp add: request_parser_feed_def dstaddr_fqdn_request_def remaining_set_request_def mem_set_def)

interpretation request: byte_parser request_parser_feed request_fin request_final request_inv
proof unfold_locales
  fix p p' :: request_parser and c :: byte and e :: "bool option"
  show "fst (request_fin p e) = request_final p" by (simp add: request_is_done_def request_final_def)
  show "request_inv p \<Longrightarrow> request_parser_feed p c = Inr p' \<Longrightarrow> request_inv p'"
    using request_inv_feed [of p c] request_feed_empty_fqdn [of p]
    by (cases "rp_state p = request_dstaddr_fqdn \<and> c = 0") auto
  show "request_inv p \<Longrightarrow> request_final p \<Longrightarrow> request_parser_feed p c = Inr p"
    by (cases "rp_state p") (auto simp: request_final_def request_parser_feed_def less_eq_request_state_def)
qed

section \<open>Functional lemmas\<close>

lemma request_feed_addr:
  assumes "as \<noteq> []" "k + length as = n" "n < 256" "rp_state p = request_dstaddr"
    "r_dest_addr_type (rp_request p) = ty" "known_addrtype ty" "rp_i p = of_nat k" "rp_n p = of_nat n"
    "r_dest_addr (rp_request p) = m" "addr_off ty + n \<le> length m"
  shows "parse_list request_parser_feed request_fin p e (as @ rest) =
     parse_list request_parser_feed request_fin
       (p\<lparr>rp_request := (rp_request p)\<lparr>r_dest_addr := overwrite m (addr_off ty + k) as,
          r_dest_port := [0, 0]\<rparr>, rp_i := 0, rp_n := 2, rp_state := request_dstport\<rparr>) e rest"
  using assms
proof (induction as arbitrary: p k m)
  case (Cons a as)
  let ?off = "addr_off ty"
  have k: "k < n" "?off + k < length m" using Cons.prems by simp_all
  have step: "request_parser_feed p a =
      Inr (if n \<le> Suc k
          then p\<lparr>rp_request := (rp_request p)\<lparr>r_dest_addr := m[?off + k := a], r_dest_port := [0, 0]\<rparr>,
                 rp_i := 0, rp_n := 2, rp_state := request_dstport\<rparr>
          else p\<lparr>rp_request := (rp_request p)\<lparr>r_dest_addr := m[?off + k := a]\<rparr>, rp_i := of_nat (Suc k),
                 rp_state := request_dstaddr\<rparr>)"
    using request_feed_dstaddr [where p = p and k = k and n = n and c = a] Cons.prems k by simp
  show ?case
  proof (cases "as = []")
    case True
    with Cons.prems k show ?thesis
      using overwrite_update [of "?off + k" m a "[]"] by (simp add: step)
  next
    case False
    then have "\<not> n \<le> Suc k" using Cons.prems(2) by (cases as) auto
    then show ?thesis
      using Cons.prems False k overwrite_update [OF k(2), of a as]
      by (simp add: step Cons.IH [where k = "Suc k"])
  qed
qed simp

lemma request_feed_port:
  assumes "rp_state p = request_dstport" "rp_n p = 2" "rp_i p = 0" "r_dest_port (rp_request p) = [0, 0]"
  shows "parse_list request_parser_feed request_fin p e (x # y # rest) =
     Inr (rest, p\<lparr>rp_request := (rp_request p)\<lparr>r_dest_port := [x, y]\<rparr>, rp_i := 2,
                  rp_state := request_done\<rparr>, e)"
  using assms by (simp add: request_feed_dstport(1) request_feed_dstport(2) [where x = x and y = 0])

lemma request_feed_header:
  assumes "rp_state p = request_version"
  shows "parse_list request_parser_feed request_fin p e (0x05 # cmd # rsv # bs) =
     parse_list request_parser_feed request_fin
       (p\<lparr>rp_request := (rp_request p)\<lparr>r_cmd := cmd\<rparr>, rp_state := request_atyp\<rparr>) e bs"
  using assms
  by (simp add: request_parser_feed_def version_request_def cmd_request_def rsv_request_def)

text \<open>After the address type (and the length of a name) the parser stands at the start of the
  address, over the memory the address will be written into.\<close>

fun dest_blank :: "socks_dest \<Rightarrow> byte list" where
  "dest_blank (Dest_ipv4 a) = AF_INET_bytes @ replicate 254 0"
| "dest_blank (Dest_ipv6 a) = AF_INET6_bytes @ replicate 254 0"
| "dest_blank (Dest_fqdn a) = replicate 256 0"

fun dest_addr_bytes :: "socks_dest \<Rightarrow> byte list" where
  "dest_addr_bytes (Dest_ipv4 a) = a"
| "dest_addr_bytes (Dest_ipv6 a) = a"
| "dest_addr_bytes (Dest_fqdn a) = a"

lemma request_feed_atyp:
  assumes "rp_state p = request_atyp" "r_dest_addr (rp_request p) = replicate 256 0" "valid_dest d"
  shows "\<exists>p'. parse_list request_parser_feed request_fin p e (dest_atyp d # dest_bytes d @ bs) =
      parse_list request_parser_feed request_fin p' e (dest_addr_bytes d @ bs) \<and>
      rp_state p' = request_dstaddr \<and> rp_i p' = 0 \<and> rp_n p' = of_nat (length (dest_addr_bytes d)) \<and>
      r_dest_addr_type (rp_request p') = dest_atyp d \<and> r_dest_addr (rp_request p') = dest_blank d \<and>
      r_cmd (rp_request p') = r_cmd (rp_request p)"
proof (cases d)
  case (Dest_fqdn a)
  have len: "length a < 256" "a \<noteq> []" using assms(3) Dest_fqdn by auto
  then have "mem_set (replicate 256 (0 :: byte)) (uint (of_nat (length a) :: byte) - 1) 0 =
      Inr (replicate 256 0)"
    using mem_set_nat [of "length a - 1" "replicate 256 (0 :: byte)" 0]
    by (simp add: uint_nat of_nat_diff Suc_le_eq list_update_same_conv del: of_nat_unat)
  then show ?thesis
    using assms Dest_fqdn
    by (simp add: request_parser_feed_def atyp_request_def dstaddr_fqdn_request_def addrtype_defs
        remaining_set_request_def Let_def) (rule exI, rule conjI, rule refl, simp)
next
  case (Dest_ipv4 a)
  then show ?thesis
    using assms
    by (simp add: request_parser_feed_def atyp_request_def addrtype_defs remaining_set_request_def Let_def
        sizeof_sockaddr_in_def overwrite_def AF_INET_bytes_def flip: replicate_add)
      (rule exI, rule conjI, rule refl, simp)
next
  case (Dest_ipv6 a)
  then show ?thesis
    using assms
    by (simp add: request_parser_feed_def atyp_request_def addrtype_defs remaining_set_request_def Let_def
        sizeof_sockaddr_in6_def overwrite_def AF_INET6_bytes_def flip: replicate_add)
      (rule exI, rule conjI, rule refl, simp)
qed

lemma dest_memory_eq:
  "valid_dest d \<Longrightarrow> overwrite (dest_blank d) (addr_off (dest_atyp d)) (dest_addr_bytes d) = dest_memory d"
  by (cases d)
    (auto simp: overwrite_def addr_off_def addrtype_defs AF_INET_bytes_def AF_INET6_bytes_def)

lemma request_feed_message:
  assumes "valid_dest d" "length port = 2"
  shows "\<exists>p'. parse_list request_parser_feed request_fin (request_parser_init p0) e
       (request_message cmd rsv d port @ rest) = Inr (rest, p', e) \<and>
     rp_state p' = request_done \<and>
     rp_request p' = \<lparr>r_cmd = cmd, r_dest_addr_type = dest_atyp d, r_dest_addr = dest_memory d,
                      r_dest_port = port\<rparr>"
proof -
  let ?run = "parse_list request_parser_feed request_fin"
  let ?p = "request_parser_init p0"
  let ?p1 = "?p\<lparr>rp_request := (rp_request ?p)\<lparr>r_cmd := cmd\<rparr>, rp_state := request_atyp\<rparr>"
  obtain x y where port: "port = [x, y]" using assms(2) by (auto simp: numeral_2_eq_2 length_Suc_conv)
  have "?run ?p e (request_message cmd rsv d port @ rest) =
      ?run ?p1 e (dest_atyp d # dest_bytes d @ port @ rest)"
    by (simp add: request_message_def request_feed_header request_parser_init_def del: parse_list.simps)
  moreover have "rp_state ?p1 = request_atyp" "r_dest_addr (rp_request ?p1) = replicate 256 0"
    by (simp_all add: request_parser_init_def request_zero_def sizeof_socks_addr_def)
  from request_feed_atyp [OF this assms(1), of e "port @ rest"] obtain p2 where
    "?run ?p1 e (dest_atyp d # dest_bytes d @ port @ rest) = ?run p2 e (dest_addr_bytes d @ port @ rest)"
    "rp_state p2 = request_dstaddr" "rp_i p2 = 0" "rp_n p2 = of_nat (length (dest_addr_bytes d))"
    "r_dest_addr_type (rp_request p2) = dest_atyp d" "r_dest_addr (rp_request p2) = dest_blank d"
    "r_cmd (rp_request p2) = cmd"
    by auto
  moreover have "dest_addr_bytes d \<noteq> []" "length (dest_addr_bytes d) < 256" "known_addrtype (dest_atyp d)"
    "addr_off (dest_atyp d) + length (dest_addr_bytes d) \<le> length (dest_blank d)"
    using assms(1)
    by (cases d; auto simp: known_addrtype_def addr_off_def addrtype_defs AF_INET_bytes_def AF_INET6_bytes_def)+
  ultimately show ?thesis
    using request_feed_addr [of "dest_addr_bytes d" 0 "length (dest_addr_bytes d)" p2 "dest_atyp d"
        "dest_blank d" e "port @ rest"] dest_memory_eq [OF assms(1)]
    by (simp add: port request_feed_port del: parse_list.simps)
qed

lemma request_marshall_ok:
  assumes "wf_buffer b" "10 \<le> buffer_space b"
  shows "\<exists>b'. request_marshall b st = Inr (10, b') \<and> wf_buffer b' \<and>
     buffer_bytes b' = buffer_bytes b @ [0x05, socks_status_byte st, 0, 1, 0, 0, 0, 0, 0, 0] \<and>
     blimit b' = blimit b"
proof -
  let ?xs = "[0x05, socks_status_byte st, 0, 1, 0, 0, 0, 0, 0, 0]"
  have "request_marshall b st = rbind (buffer_put b ?xs) (\<lambda>b'. Inr (10, b'))"
    using assms
    by (simp add: request_marshall_def buffer_write_ptr_eq buffer_put_def rbind_assoc addrtype_defs)
  with buffer_put_ok [OF assms(1), of ?xs] assms(2) show ?thesis by auto
qed

lemma request_marshall_short:
  "wf_buffer b \<Longrightarrow> buffer_space b < 10 \<Longrightarrow> request_marshall b st = Inr (-1, b)"
  by (simp add: request_marshall_def buffer_write_ptr_eq)

section \<open>Where the parser faults\<close>

text \<open>Once the address type and the length of a name are behind it the parser is total.\<close>

definition request_tail_inv :: "request_parser \<Rightarrow> bool" where
  "request_tail_inv p \<longleftrightarrow> request_inv p \<and> rp_state p \<ge> request_dstaddr"

lemma request_tail_feed:
  assumes "request_tail_inv p"
  shows "\<exists>p'. request_parser_feed p c = Inr p' \<and> request_tail_inv p'"
proof -
  have "rp_state p \<noteq> request_dstaddr_fqdn"
    using assms by (auto simp: request_tail_inv_def less_eq_request_state_def)
  then obtain p' where p': "request_parser_feed p c = Inr p'" "request_inv p'"
    using assms request_inv_feed [of p c] by (auto simp: request_tail_inv_def)
  moreover have "rp_state p' \<ge> request_dstaddr"
    using assms p'(1)
    by (cases "rp_state p")
      (auto simp: request_tail_inv_def less_eq_request_state_def request_parser_feed_def
        dstaddr_request_def dstport_request_def Let_def split: if_splits)
  ultimately show ?thesis by (simp add: request_tail_inv_def)
qed

interpretation request_tail: total_parser request_parser_feed request_fin request_final request_tail_inv
proof unfold_locales
  fix p p' :: request_parser and c :: byte and e :: "bool option"
  show "fst (request_fin p e) = request_final p" by (rule request.fin_final)
  show "request_tail_inv p \<Longrightarrow> request_parser_feed p c = Inr p' \<Longrightarrow> request_tail_inv p'"
    using request_tail_feed [of p c] by auto
  show "request_tail_inv p \<Longrightarrow> request_final p \<Longrightarrow> request_parser_feed p c = Inr p"
    by (simp add: request_tail_inv_def request.final_absorbs)
  show "request_tail_inv p \<Longrightarrow> \<exists>p'. request_parser_feed p c = Inr p'"
    using request_tail_feed [of p c] by auto
qed

lemma request_feed_inv_state:
  assumes "request_inv p" "rp_state p = request_atyp"
  obtains p' where "request_parser_feed p c = Inr p'" "request_inv p'"
    "c = 3 \<and> rp_state p' = request_dstaddr_fqdn \<or> c \<noteq> 3 \<and> request_tail_inv p'"
proof -
  obtain p' where p': "request_parser_feed p c = Inr p'" "request_inv p'"
    using assms request_inv_feed [of p c] by auto
  moreover have "c = 3 \<and> rp_state p' = request_dstaddr_fqdn \<or> c \<noteq> 3 \<and> rp_state p' \<ge> request_dstaddr"
    using assms(2) p'(1)
    by (auto simp: request_parser_feed_def atyp_request_def Let_def addrtype_defs
        less_eq_request_state_def split: if_splits)
  ultimately show thesis using that by (auto simp: request_tail_inv_def)
qed

lemma parse_fqdn_fault:
  assumes "request_inv p" "rp_state p = request_dstaddr_fqdn"
  shows "parse_list request_parser_feed request_fin p e xs = Inl err \<longleftrightarrow>
     err = Out_of_bounds \<and> (\<exists>rest. xs = 0 # rest)"
proof (cases xs)
  case (Cons c cs)
  show ?thesis
  proof (cases "c = 0")
    case True
    with assms Cons show ?thesis by (auto simp: request_feed_empty_fqdn)
  next
    case False
    obtain p' where p': "request_parser_feed p c = Inr p'" "request_inv p'"
      using request_inv_feed [OF assms(1), of c] False by auto
    then have "rp_state p' = request_dstaddr"
      using assms(2) by (auto simp: request_parser_feed_def dstaddr_fqdn_request_def Let_def)
    with p' have "request_tail_inv p'" "rp_state p' = request_dstaddr"
      by (simp_all add: request_tail_inv_def)
    moreover from this(1) obtain r where "parse_list request_parser_feed request_fin p' e cs = Inr r"
      using request_tail.parse_list_total by blast
    ultimately show ?thesis using Cons p'(1) False by simp
  qed
qed simp

lemma parse_atyp_fault:
  assumes "request_inv p" "rp_state p = request_atyp"
  shows "parse_list request_parser_feed request_fin p e xs = Inl err \<longleftrightarrow>
     err = Out_of_bounds \<and> (\<exists>rest. xs = 3 # 0 # rest)"
proof (cases xs)
  case (Cons c cs)
  obtain p' where p': "request_parser_feed p c = Inr p'" "request_inv p'"
    "c = 3 \<and> rp_state p' = request_dstaddr_fqdn \<or> c \<noteq> 3 \<and> request_tail_inv p'"
    by (rule request_feed_inv_state [OF assms])
  show ?thesis
  proof (cases "c = 3")
    case True
    with p' Cons parse_fqdn_fault [of p' e cs err] show ?thesis by auto
  next
    case False
    then obtain r where "parse_list request_parser_feed request_fin p' (snd (request_fin p' e)) cs = Inr r"
      using p' request_tail.parse_list_total by blast
    then show ?thesis using Cons p'(1) False by (auto split: prod.splits)
  qed
qed simp

lemma parse_request_fault:
  "parse_list request_parser_feed request_fin (request_parser_init p) e xs = Inl err \<longleftrightarrow>
   err = Out_of_bounds \<and> (\<exists>cmd rsv rest. xs = [5, cmd, rsv, 3, 0] @ rest)"
proof (cases "\<exists>cmd rsv ys. xs = 5 # cmd # rsv # ys")
  case True
  then obtain cmd rsv ys where xs: "xs = 5 # cmd # rsv # ys" by blast
  let ?p = "request_parser_init p"
  let ?p1 = "?p\<lparr>rp_request := (rp_request ?p)\<lparr>r_cmd := cmd\<rparr>, rp_state := request_atyp\<rparr>"
  have "request_inv ?p1" using request_init_inv [of p] by (simp add: request_inv_def)
  moreover have "parse_list request_parser_feed request_fin ?p e xs =
      parse_list request_parser_feed request_fin ?p1 e ys"
    unfolding xs by (rule request_feed_header) (simp add: request_parser_init_def)
  ultimately show ?thesis using parse_atyp_fault [of ?p1 e ys err] xs by simp
next
  case False
  have "xs = [] \<or> (\<exists>x. xs = [x]) \<or> (\<exists>x y. xs = [x, y]) \<or> (\<exists>x y z ys. xs = x # y # z # ys \<and> x \<noteq> 5)"
    using False by (metis list.exhaust)
  then show ?thesis
    using False
    by (auto simp: request_parser_init_def request_parser_feed_def version_request_def cmd_request_def
        split: if_splits)
qed

section \<open>Properties\<close>

text \<open>C12. A complete request, for each of the three address types, is recognised whatever follows
  it: the parser ends in \<open>request_done\<close>, consumes exactly the message, and \<open>struct request\<close> holds the
  command, the address type, the port in network order and the address in the layout of its socket
  address or as a NUL terminated name.\<close>

theorem request_consume_message:
  assumes "wf_buffer b" "buffer_bytes b = request_message cmd rsv d port @ rest"
    "valid_dest d" "length port = 2"
  shows "\<exists>b' p'. request_consume b (request_parser_init p) e = Inr (request_done, b', p', e) \<and>
     wf_buffer b' \<and> buffer_bytes b' = rest \<and>
     rp_request p' = \<lparr>r_cmd = cmd, r_dest_addr_type = dest_atyp d, r_dest_addr = dest_memory d,
                      r_dest_port = port\<rparr>"
proof -
  obtain p' where run: "parse_list request_parser_feed request_fin (request_parser_init p) e
      (buffer_bytes b) = Inr (rest, p', e)" and p': "rp_state p' = request_done"
    "rp_request p' = \<lparr>r_cmd = cmd, r_dest_addr_type = dest_atyp d, r_dest_addr = dest_memory d,
                      r_dest_port = port\<rparr>"
    using request_feed_message [OF assms(3,4), of p e cmd rsv rest] unfolding assms(2) by blast
  obtain b' where "parse_loop request_parser_feed request_fin b (request_parser_init p) e = Inr (b', p', e)"
    "wf_buffer b'" "buffer_bytes b' = rest"
    by (rule parse_loop_InrI [OF assms(1) run])
  with p' show ?thesis by (simp add: request_consume_def)
qed

theorem request_consume_message_witness:
  "\<exists>b' p'. request_consume (buffer_init 10 [5, 1, 0, 3, 2, 97, 98, 0, 80, 7]\<lparr>bwrite := 10\<rparr>)
      (request_parser_init \<lparr>rp_request = request_zero, rp_state = request_error, rp_n = 0, rp_i = 0\<rparr>)
      (Some False) = Inr (request_done, b', p', Some False) \<and> buffer_bytes b' = [7] \<and>
      r_dest_addr (rp_request p') = [97, 98] @ replicate 254 0 \<and> r_dest_port (rp_request p') = [0, 80]"
proof -
  let ?b = "buffer_init 10 [5, 1, 0, 3, 2, 97, 98, 0, 80, 7]\<lparr>bwrite := 10\<rparr> :: buffer"
  have "wf_buffer ?b" "buffer_bytes ?b = request_message 1 0 (Dest_fqdn [97, 98]) [0, 80] @ [7]"
    by (simp_all add: wf_buffer_def buffer_init_def buffer_reset_def buffer_bytes_def
        request_message_def socks_req_addrtype_domain_def)
  from request_consume_message [OF this] show ?thesis by fastforce
qed

text \<open>C25. Exactly one kind of input drives the request parser out of bounds: a request of version 5
  with a domain name of length zero, whose terminator is stored at \<open>fqdn[-1]\<close>. On every other input
  the parser terminates without a fault.\<close>

theorem request_consume_fault_iff:
  assumes "wf_buffer b"
  shows "request_consume b (request_parser_init p) e = Inl err \<longleftrightarrow>
     err = Out_of_bounds \<and> (\<exists>cmd rsv rest. buffer_bytes b = [5, cmd, rsv, 3, 0] @ rest)"
proof -
  have "request_consume b (request_parser_init p) e = Inl err \<longleftrightarrow>
      parse_list request_parser_feed request_fin (request_parser_init p) e (buffer_bytes b) = Inl err"
    using parse_loop_list [OF assms, of request_parser_feed request_fin "request_parser_init p" e]
    by (auto simp: request_consume_def rbind_Inl_iff split: sum.splits prod.splits)
  then show ?thesis by (simp add: parse_request_fault)
qed

theorem request_consume_fault_iff_witness:
  "request_consume (buffer_init 5 [5, 1, 0, 3, 0]\<lparr>bwrite := 5\<rparr>)
      (request_parser_init \<lparr>rp_request = request_zero, rp_state = request_error, rp_n = 0, rp_i = 0\<rparr>)
      (Some False) = Inl Out_of_bounds"
proof -
  let ?b = "buffer_init 5 [5, 1, 0, 3, 0]\<lparr>bwrite := 5\<rparr> :: buffer"
  have "wf_buffer ?b" "buffer_bytes ?b = [5, 1, 0, 3, 0] @ []"
    by (simp_all add: wf_buffer_def buffer_init_def buffer_reset_def buffer_bytes_def)
  with request_consume_fault_iff show ?thesis by blast
qed

end
