(* ===== verification/Disector.thy ===== *)
theory Disector
  imports Prelude
begin

text \<open>
  Model of \<open>src/server/disector.c\<close>: the sniffer that looks for POP3 credentials in relayed traffic.

  \<open>struct disector\<close> is its 513 bytes, with \<open>user\<close> at offset 0, \<open>pass\<close> at offset 255 and
  \<open>status\<close> at offset 510. The counter \<open>i\<close> is a \<open>uint8_t\<close> and wraps; a store outside the
  struct is a fault.
\<close>

section \<open>The parser\<close>

datatype disector_state =
    disector_wait_pop
  | disector_user
  | disector_user_copy
  | disector_password
  | disector_password_copy
  | disector_response
  | disector_done
  | disector_restart
  | disector_incompatible

fun disector_state_num :: "disector_state \<Rightarrow> nat" where
  "disector_state_num disector_wait_pop = 0"
| "disector_state_num disector_user = 1"
| "disector_state_num disector_user_copy = 2"
| "disector_state_num disector_password = 3"
| "disector_state_num disector_password_copy = 4"
| "disector_state_num disector_response = 5"
| "disector_state_num disector_done = 6"
| "disector_state_num disector_restart = 7"
| "disector_state_num disector_incompatible = 8"

lemma disector_state_num_inj: "disector_state_num x = disector_state_num y \<Longrightarrow> x = y"
  by (cases x; cases y) simp_all

instantiation disector_state :: linorder
begin

definition less_eq_disector_state :: "disector_state \<Rightarrow> disector_state \<Rightarrow> bool" where
  "x \<le> y \<longleftrightarrow> disector_state_num x \<le> disector_state_num y"

definition less_disector_state :: "disector_state \<Rightarrow> disector_state \<Rightarrow> bool" where
  "x < y \<longleftrightarrow> disector_state_num x < disector_state_num y"

instance
  by standard
    (auto simp: less_eq_disector_state_def less_disector_state_def intro: disector_state_num_inj)

end

definition sizeof_disector :: nat where "sizeof_disector = 513"

definition disector_pass_off :: int where "disector_pass_off = 255"

record disector_parser =
  dp_disector :: "byte list"
  dp_state :: disector_state
  dp_i :: byte
  dp_user_carry :: bool

text \<open>The string argument \<open>dp->disector.user\<close> and \<open>dp->disector.pass\<close> denote for \<open>printf\<close>.\<close>

definition disector_user_str :: "disector_parser \<Rightarrow> byte list res" where
  "disector_user_str p = read_cstr (dp_disector p)"

definition disector_pass_str :: "disector_parser \<Rightarrow> byte list res" where
  "disector_pass_str p = read_cstr (drop (nat disector_pass_off) (dp_disector p))"

definition to_upper :: "byte \<Rightarrow> byte" where
  "to_upper c = (if c \<ge> 97 then c - (97 - 65) else c)"

definition search_strs :: "byte list list" where
  "search_strs = [bytes_of ''+OK'', bytes_of ''USER '', bytes_of ''PASS '', bytes_of ''+OK'']"

text \<open>\<open>search[k][i]\<close>, the terminating NUL included.\<close>

definition search_at :: "nat \<Rightarrow> byte \<Rightarrow> byte res" where
  "search_at k i = mem_get (search_strs ! k @ [0]) (uint i)"

definition disector_parser_reset :: "disector_parser \<Rightarrow> disector_parser" where
  "disector_parser_reset p =
     p\<lparr>dp_state := disector_user, dp_i := (if dp_user_carry p then 1 else 0), dp_user_carry := False\<rparr>"

definition disector_parser_init :: "disector_parser \<Rightarrow> disector_parser" where
  "disector_parser_init p =
     p\<lparr>dp_state := disector_wait_pop, dp_i := 0, dp_user_carry := False,
       dp_disector := replicate sizeof_disector 0\<rparr>"

definition remaining_is_done_disector :: "disector_parser \<Rightarrow> nat \<Rightarrow> bool" where
  "remaining_is_done_disector p k \<longleftrightarrow> unat (dp_i p) \<ge> length (search_strs ! k) - 1"

definition wait_pop_disector :: "byte \<Rightarrow> disector_parser \<Rightarrow> (disector_state \<times> disector_parser) res" where
  "wait_pop_disector c p =
     rbind (search_at 0 (dp_i p)) (\<lambda>s.
       if c = s then
         let p1 = p\<lparr>dp_i := dp_i p + 1\<rparr>
         in Inr (if remaining_is_done_disector p1 0 then disector_user else disector_wait_pop, p1)
       else Inr (disector_incompatible, p))"

definition user_disector :: "byte \<Rightarrow> disector_parser \<Rightarrow> (disector_state \<times> disector_parser) res" where
  "user_disector c p =
     rbind (search_at 1 (dp_i p)) (\<lambda>s.
       if to_upper c = s then
         let p1 = p\<lparr>dp_i := dp_i p + 1\<rparr>
         in Inr (if remaining_is_done_disector p1 1 then disector_user_copy else disector_user, p1)
       else Inr (disector_restart, p))"

definition user_copy_disector :: "byte \<Rightarrow> disector_parser \<Rightarrow> (disector_state \<times> disector_parser) res" where
  "user_copy_disector c p =
     (if c = 10 then
        rbind (mem_set (dp_disector p) (uint (dp_i p) - 1) 0)
          (\<lambda>m. Inr (disector_password, p\<lparr>dp_disector := m\<rparr>))
      else
        rbind (mem_set (dp_disector p) (uint (dp_i p)) c)
          (\<lambda>m. Inr (disector_user_copy, p\<lparr>dp_disector := m, dp_i := dp_i p + 1\<rparr>)))"

definition password_disector :: "byte \<Rightarrow> disector_parser \<Rightarrow> (disector_state \<times> disector_parser) res" where
  "password_disector c p =
     rbind (search_at 2 (dp_i p)) (\<lambda>s.
       if to_upper c = s then
         let p1 = p\<lparr>dp_i := dp_i p + 1\<rparr>
         in Inr (if remaining_is_done_disector p1 2 then disector_password_copy
                 else disector_password, p1)
       else rbind (search_at 1 0) (\<lambda>u.
         Inr (disector_restart, if to_upper c = u then p\<lparr>dp_user_carry := True\<rparr> else p)))"

definition password_copy_disector :: "byte \<Rightarrow> disector_parser \<Rightarrow> (disector_state \<times> disector_parser) res" where
  "password_copy_disector c p =
     (if c = 10 then
        rbind (mem_set (dp_disector p) (disector_pass_off + (uint (dp_i p) - 1)) 0)
          (\<lambda>m. Inr (disector_response, p\<lparr>dp_disector := m\<rparr>))
      else
        rbind (mem_set (dp_disector p) (disector_pass_off + uint (dp_i p)) c)
          (\<lambda>m. Inr (disector_password_copy, p\<lparr>dp_disector := m, dp_i := dp_i p + 1\<rparr>)))"

definition response_disector :: "byte \<Rightarrow> disector_parser \<Rightarrow> (disector_state \<times> disector_parser) res" where
  "response_disector c p =
     rbind (search_at 3 (dp_i p)) (\<lambda>s.
       if c = s then
         let p1 = p\<lparr>dp_i := dp_i p + 1\<rparr>
         in Inr (if remaining_is_done_disector p1 3 then disector_done else disector_response, p1)
       else Inr (disector_restart, p))"

definition disector_parser_feed :: "disector_parser \<Rightarrow> byte \<Rightarrow> disector_parser res" where
  "disector_parser_feed p c =
     rbind
       (case dp_state p of
          disector_wait_pop \<Rightarrow> wait_pop_disector c p
        | disector_user \<Rightarrow> user_disector c p
        | disector_user_copy \<Rightarrow> user_copy_disector c p
        | disector_password \<Rightarrow> password_disector c p
        | disector_password_copy \<Rightarrow> password_copy_disector c p
        | disector_response \<Rightarrow> response_disector c p
        | disector_done \<Rightarrow> Inr (dp_state p, p)
        | disector_restart \<Rightarrow> Inr (dp_state p, p)
        | _ \<Rightarrow> Inr (disector_restart, p))
       (\<lambda>(nxt, p1).
         let p2 = (if nxt \<noteq> dp_state p1 then p1\<lparr>dp_i := 0\<rparr> else p1)
         in Inr (p2\<lparr>dp_state := nxt\<rparr>))"

text \<open>The \<open>for\<close> loop of \<open>disector_consume\<close>, over the bytes still to be read; \<open>st\<close> is the local
  variable of the same name.\<close>

fun disector_loop ::
  "disector_state \<Rightarrow> disector_parser \<Rightarrow> byte list \<Rightarrow> (disector_state \<times> disector_parser) res" where
  "disector_loop st p [] = Inr (st, p)"
| "disector_loop st p (c # cs) =
     rbind (disector_parser_feed p c) (\<lambda>p1.
       let st1 = dp_state p1
       in if st1 = disector_restart then disector_loop st1 (disector_parser_reset p1) cs
          else if st1 = disector_incompatible then Inr (st1, p1)
          else disector_loop st1 p1 cs)"

definition disector_consume ::
  "disector_parser \<Rightarrow> byte list \<Rightarrow> (disector_state \<times> disector_parser) res" where
  "disector_consume p xs = disector_loop (dp_state p) p xs"

section \<open>Lemmas\<close>

lemma disector_loop_append:
  "st \<noteq> disector_incompatible \<Longrightarrow>
   disector_loop st p (xs @ ys) =
     rbind (disector_loop st p xs) (\<lambda>(st1, p1).
       if st1 = disector_incompatible then Inr (st1, p1) else disector_loop st1 p1 ys)"
proof (induction xs arbitrary: st p)
  case (Cons c cs)
  show ?case
    by (cases "disector_parser_feed p c") (simp_all add: Let_def Cons.IH)
qed simp

lemma search_at_simps [simp]:
  "search_at 0 0 = Inr 43" "search_at 0 1 = Inr 79"
  "search_at (Suc 0) 0 = Inr 85" "search_at (Suc 0) 1 = Inr 83" "search_at (Suc 0) 2 = Inr 69"
  "search_at (Suc 0) 3 = Inr 82"
  "search_at 2 0 = Inr 80" "search_at 2 1 = Inr 65" "search_at 2 2 = Inr 83" "search_at 2 3 = Inr 83"
  "search_at 3 0 = Inr 43" "search_at 3 1 = Inr 79"
  by (simp_all add: search_at_def search_strs_def bytes_of_def mem_get_def)

lemma remaining_is_done_disector_simps [simp]:
  "remaining_is_done_disector p 0 \<longleftrightarrow> 2 \<le> unat (dp_i p)"
  "remaining_is_done_disector p (Suc 0) \<longleftrightarrow> 4 \<le> unat (dp_i p)"
  "remaining_is_done_disector p 2 \<longleftrightarrow> 4 \<le> unat (dp_i p)"
  "remaining_is_done_disector p 3 \<longleftrightarrow> 2 \<le> unat (dp_i p)"
  by (simp_all add: remaining_is_done_disector_def search_strs_def bytes_of_def numeral_eq_Suc)

subsection \<open>Bounds\<close>

definition disector_inv :: "disector_parser \<Rightarrow> bool" where
  "disector_inv p \<longleftrightarrow>
     length (dp_disector p) = 513 \<and>
     (dp_state p = disector_wait_pop \<or> dp_state p = disector_response \<longrightarrow> dp_i p = 0 \<or> dp_i p = 1) \<and>
     (dp_state p = disector_user \<or> dp_state p = disector_password \<longrightarrow>
        dp_i p = 0 \<or> dp_i p = 1 \<or> dp_i p = 2 \<or> dp_i p = 3)"

lemma disector_init_inv: "disector_inv (disector_parser_init p)"
  by (simp add: disector_inv_def disector_parser_init_def sizeof_disector_def)

lemma disector_reset_inv: "disector_inv p \<Longrightarrow> disector_inv (disector_parser_reset p)"
  by (simp add: disector_inv_def disector_parser_reset_def)

lemma disector_store_user:
  assumes "length m = 513"
  shows "mem_set m (uint (i :: byte)) c = Inr (m[unat i := c])"
    and "mem_set m (255 + uint i) c = Inr (m[255 + unat i := c])"
    and "mem_set m (254 + uint i) c = Inr (m[254 + unat i := c])"
    and "i \<noteq> 0 \<Longrightarrow> mem_set m (uint i - 1) c = Inr (m[unat i - 1 := c])"
    and "mem_set m (uint (0 :: byte) - 1) c = Inl Out_of_bounds"
proof -
  have i: "uint i = int (unat i)" "unat i \<le> 255" using unat_byte_le [of i] by simp_all
  show "mem_set m (uint i) c = Inr (m[unat i := c])"
    using assms i(2) by simp
  have "255 + unat i < length m" "254 + unat i < length m" using assms i(2) by simp_all
  then show "mem_set m (255 + uint i) c = Inr (m[255 + unat i := c])"
    "mem_set m (254 + uint i) c = Inr (m[254 + unat i := c])"
    unfolding i(1) by (auto simp: mem_set_def nat_add_distrib simp del: of_nat_unat)
  show "i \<noteq> 0 \<Longrightarrow> mem_set m (uint i - 1) c = Inr (m[unat i - 1 := c])"
    using assms i(2) unat_0_iff [of i] unfolding i(1)
    by (auto simp: mem_set_def nat_diff_distrib simp del: of_nat_unat)
  show "mem_set m (uint (0 :: byte) - 1) c = Inl Out_of_bounds" by (simp add: mem_set_def)
qed

lemma disector_inv_feed:
  assumes "disector_inv p" "\<not> (dp_state p = disector_user_copy \<and> c = 10 \<and> dp_i p = 0)"
  shows "\<exists>p'. disector_parser_feed p c = Inr p' \<and> disector_inv p'"
  using assms
  by (cases "dp_state p")
    (auto simp: disector_inv_def disector_parser_feed_def wait_pop_disector_def user_disector_def
      user_copy_disector_def password_disector_def password_copy_disector_def response_disector_def
      disector_pass_off_def disector_store_user Let_def)

lemma disector_feed_underflow:
  assumes "disector_inv p" "dp_state p = disector_user_copy" "dp_i p = 0"
  shows "disector_parser_feed p 10 = Inl Out_of_bounds"
  using assms disector_store_user(5) [of "dp_disector p" 0]
  by (simp add: disector_inv_def disector_parser_feed_def user_copy_disector_def)

subsection \<open>What a dialogue leaves behind\<close>

lemma disector_feed_keyword:
  assumes "map to_upper ks = bytes_of ''USER''" "dp_state p = disector_user" "dp_i p = 0"
  shows "disector_loop st p (ks @ cs) =
     disector_loop disector_user_copy (p\<lparr>dp_i := 0, dp_state := disector_user_copy\<rparr>) cs"
  using assms
  by (auto simp: bytes_of_def disector_parser_feed_def user_disector_def Let_def Cons_eq_map_conv
      map_eq_Cons_conv)

lemma disector_feed_pass_keyword:
  assumes "map to_upper ks = bytes_of ''PASS''" "dp_state p = disector_password" "dp_i p = 0"
  shows "disector_loop st p (ks @ cs) =
     disector_loop disector_password_copy (p\<lparr>dp_i := 0, dp_state := disector_password_copy\<rparr>) cs"
  using assms
  by (auto simp: bytes_of_def disector_parser_feed_def password_disector_def Let_def
      map_eq_Cons_conv)

lemma disector_feed_user_copy:
  assumes "10 \<notin> set us" "us \<noteq> []" "k + length us \<le> 255" "dp_state p = disector_user_copy"
    "dp_i p = of_nat k" "length (dp_disector p) = 513"
  shows "disector_loop st p (us @ cs) =
     disector_loop disector_user_copy
       (p\<lparr>dp_disector := overwrite (dp_disector p) k us, dp_i := of_nat (k + length us),
          dp_state := disector_user_copy\<rparr>) cs"
  using assms
proof (induction us arbitrary: p k st)
  case (Cons c us)
  have step: "disector_parser_feed p c =
      Inr (p\<lparr>dp_disector := (dp_disector p)[k := c], dp_i := of_nat (Suc k),
             dp_state := disector_user_copy\<rparr>)"
    using Cons.prems disector_store_user(1) [of "dp_disector p" "dp_i p" c]
    by (simp add: disector_parser_feed_def user_copy_disector_def Let_def add.commute)
  show ?case
  proof (cases "us = []")
    case True
    with Cons.prems show ?thesis
      using overwrite_update [of k "dp_disector p" c "[]"] by (simp add: step)
  next
    case False
    then show ?thesis
      using Cons.prems overwrite_update [of k "dp_disector p" c us]
      by (simp add: step Cons.IH [where k = "Suc k"])
  qed
qed simp

lemma disector_feed_pass_copy:
  assumes "10 \<notin> set us" "us \<noteq> []" "k + length us \<le> 255" "dp_state p = disector_password_copy"
    "dp_i p = of_nat k" "length (dp_disector p) = 513"
  shows "disector_loop st p (us @ cs) =
     disector_loop disector_password_copy
       (p\<lparr>dp_disector := overwrite (dp_disector p) (255 + k) us, dp_i := of_nat (k + length us),
          dp_state := disector_password_copy\<rparr>) cs"
  using assms
proof (induction us arbitrary: p k st)
  case (Cons c us)
  have step: "disector_parser_feed p c =
      Inr (p\<lparr>dp_disector := (dp_disector p)[255 + k := c], dp_i := of_nat (Suc k),
             dp_state := disector_password_copy\<rparr>)"
    using Cons.prems disector_store_user(2) [of "dp_disector p" "dp_i p" c]
    by (simp add: disector_parser_feed_def password_copy_disector_def disector_pass_off_def Let_def add.commute)
  show ?case
  proof (cases "us = []")
    case True
    with Cons.prems show ?thesis
      using overwrite_update [of "255 + k" "dp_disector p" c "[]"] by (simp add: step)
  next
    case False
    then show ?thesis
      using Cons.prems overwrite_update [of "255 + k" "dp_disector p" c us]
      by (simp add: step Cons.IH [where k = "Suc k"])
  qed
qed simp

lemma overwrite_terminate:
  "off + length us < length m \<Longrightarrow>
   (overwrite m off (us @ [13]))[off + length us := 0] = overwrite m off (us @ [0 :: byte])"
  by (simp add: overwrite_def list_update_append)

lemma disector_user_line:
  assumes "map to_upper ks = bytes_of ''USER''" "10 \<notin> set us" "length us \<le> 254"
    "dp_state p = disector_user" "dp_i p = 0" "length (dp_disector p) = 513"
  shows "disector_loop st p (ks @ us @ [13, 10] @ cs) =
     disector_loop disector_password
       (p\<lparr>dp_disector := overwrite (dp_disector p) 0 (us @ [0]), dp_i := 0,
          dp_state := disector_password\<rparr>) cs"
proof -
  let ?p = "p\<lparr>dp_i := 0, dp_state := disector_user_copy\<rparr>"
  let ?n = "of_nat (length (us @ [13 :: byte])) :: byte"
  have n: "unat ?n = Suc (length us)" using assms(3) by (simp del: of_nat_Suc)
  then have nz: "?n \<noteq> 0" by (metis nat.distinct(1) unat_0_iff)
  have "disector_loop st p (ks @ us @ [13, 10] @ cs) =
      disector_loop disector_user_copy ?p ((us @ [13]) @ 10 # cs)"
    using disector_feed_keyword [OF assms(1,4,5)] by simp
  also have "\<dots> = disector_loop disector_user_copy
       (?p\<lparr>dp_disector := overwrite (dp_disector p) 0 (us @ [13]), dp_i := ?n,
          dp_state := disector_user_copy\<rparr>) (10 # cs)"
    using disector_feed_user_copy [where us = "us @ [13]" and k = 0 and p = ?p and cs = "10 # cs"] assms
    by simp
  finally show ?thesis
    using nz n assms(3,6) overwrite_terminate [of 0 us "dp_disector p"]
      disector_store_user(4) [of "overwrite (dp_disector p) 0 (us @ [13])" ?n 0]
    by (simp add: disector_parser_feed_def user_copy_disector_def Let_def)
qed

lemma disector_pass_line:
  assumes "map to_upper ks = bytes_of ''PASS''" "10 \<notin> set us" "length us \<le> 254"
    "dp_state p = disector_password" "dp_i p = 0" "length (dp_disector p) = 513"
  shows "disector_loop st p (ks @ us @ [13, 10] @ cs) =
     disector_loop disector_response
       (p\<lparr>dp_disector := overwrite (dp_disector p) 255 (us @ [0]), dp_i := 0,
          dp_state := disector_response\<rparr>) cs"
proof -
  let ?p = "p\<lparr>dp_i := 0, dp_state := disector_password_copy\<rparr>"
  let ?n = "of_nat (length (us @ [13 :: byte])) :: byte"
  have n: "unat ?n = Suc (length us)" using assms(3) by (simp del: of_nat_Suc)
  have "disector_loop st p (ks @ us @ [13, 10] @ cs) =
      disector_loop disector_password_copy ?p ((us @ [13]) @ 10 # cs)"
    using disector_feed_pass_keyword [OF assms(1,4,5)] by simp
  also have "\<dots> = disector_loop disector_password_copy
       (?p\<lparr>dp_disector := overwrite (dp_disector p) 255 (us @ [13]), dp_i := ?n,
          dp_state := disector_password_copy\<rparr>) (10 # cs)"
    using disector_feed_pass_copy [where us = "us @ [13]" and k = 0 and p = ?p and cs = "10 # cs"] assms
    by simp
  finally show ?thesis
    using n assms(3,6) overwrite_terminate [of 255 us "dp_disector p"]
      disector_store_user(3) [of "overwrite (dp_disector p) 255 (us @ [13])" ?n 0]
    by (simp add: disector_parser_feed_def password_copy_disector_def disector_pass_off_def Let_def)
qed

lemma disector_loop_start:
  "cs \<noteq> [] \<Longrightarrow> disector_loop st p cs = disector_loop st' p cs"
  by (cases cs) simp_all

lemma disector_done_absorbs:
  "dp_state p = disector_done \<Longrightarrow> disector_loop disector_done p cs = Inr (disector_done, p)"
proof (induction cs)
  case (Cons c cs)
  then have "disector_parser_feed p c = Inr p" by (simp add: disector_parser_feed_def Let_def)
  with Cons show ?case by simp
qed simp

lemma disector_response_ok:
  assumes "dp_state p = disector_response" "dp_i p = 0"
  shows "disector_loop st p (bytes_of ''+OK'' @ cs) =
     Inr (disector_done, p\<lparr>dp_i := 0, dp_state := disector_done\<rparr>)"
  using assms
  by (simp add: bytes_of_def disector_parser_feed_def response_disector_def Let_def
      disector_done_absorbs)

lemma read_cstr_block:
  assumes "0 \<notin> set us"
  shows "read_cstr (us @ 0 # xs) = Inr us"
  using assms by (simp add: read_cstr_def)

lemma dialogue_memory:
  assumes "length m = 513" "0 \<notin> set us" "length us \<le> 254" "0 \<notin> set pw" "length pw \<le> 254"
  shows "read_cstr (overwrite (overwrite m 0 (us @ [0])) 255 (pw @ [0])) = Inr us"
    and "read_cstr (drop 255 (overwrite (overwrite m 0 (us @ [0])) 255 (pw @ [0]))) = Inr pw"
proof -
  let ?m = "overwrite m 0 (us @ [0])"
  have m: "?m = us @ 0 # drop (Suc (length us)) m" "length ?m = 513"
    using assms by (simp_all add: overwrite_def)
  have "take 255 ?m = us @ 0 # take (254 - length us) (drop (Suc (length us)) m)"
    using assms(3) by (simp add: m(1) take_Cons' Suc_diff_le)
  then have "overwrite ?m 255 (pw @ [0]) =
      us @ 0 # (take (254 - length us) (drop (Suc (length us)) m) @ pw @ 0 # drop (256 + length pw) ?m)"
    by (simp add: overwrite_def)
  then show "read_cstr (overwrite ?m 255 (pw @ [0])) = Inr us"
    using read_cstr_block [OF assms(2)] by metis
  have "drop 255 (overwrite ?m 255 (pw @ [0])) = pw @ 0 # drop (256 + length pw) ?m"
    using m(2) by (simp add: overwrite_def)
  then show "read_cstr (drop 255 (overwrite ?m 255 (pw @ [0]))) = Inr pw"
    using read_cstr_block [OF assms(4)] by metis
qed

section \<open>Properties\<close>

text \<open>C27. The sniffer captures credentials: when the client sends a \<open>USER\<close> and a \<open>PASS\<close> line (the
  keywords in any case, the arguments up to 254 bytes) and the server then answers \<open>+OK\<close>, the parser
  reports \<open>disector_done\<close> with the two strings it logs equal to what followed the four letters of each
  keyword, the separating space included.\<close>

theorem disector_captures:
  assumes "map to_upper ks = bytes_of ''USER''" "map to_upper ps = bytes_of ''PASS''"
    "0 \<notin> set us" "10 \<notin> set us" "length us \<le> 254" "0 \<notin> set pw" "10 \<notin> set pw" "length pw \<le> 254"
    "dp_state p = disector_user" "dp_i p = 0" "length (dp_disector p) = 513"
  shows "\<exists>p1 p2. disector_consume p (ks @ us @ [13, 10] @ ps @ pw @ [13, 10]) = Inr (disector_response, p1) \<and>
     dp_state p1 = disector_response \<and>
     disector_consume p1 (bytes_of ''+OK'' @ rest) = Inr (disector_done, p2) \<and>
     disector_user_str p2 = Inr us \<and> disector_pass_str p2 = Inr pw"
proof -
  let ?m = "overwrite (overwrite (dp_disector p) 0 (us @ [0])) 255 (pw @ [0])"
  let ?p1 = "p\<lparr>dp_disector := overwrite (dp_disector p) 0 (us @ [0]), dp_i := 0,
      dp_state := disector_password\<rparr>"
  let ?p2 = "?p1\<lparr>dp_disector := ?m, dp_i := 0, dp_state := disector_response\<rparr>"
  have len: "length (dp_disector ?p1) = 513" using assms(5,11) by simp
  have "disector_loop disector_password ?p1 (ps @ pw @ [13, 10] @ []) = disector_loop disector_response ?p2 []"
    using disector_pass_line [OF assms(2,7,8) _ _ len] by simp
  then have "disector_consume p (ks @ us @ [13, 10] @ ps @ pw @ [13, 10]) = Inr (disector_response, ?p2)"
    using disector_user_line [OF assms(1,4,5,9,10,11)] by (simp add: disector_consume_def)
  moreover have "disector_consume ?p2 (bytes_of ''+OK'' @ rest) =
      Inr (disector_done, ?p2\<lparr>dp_i := 0, dp_state := disector_done\<rparr>)"
    unfolding disector_consume_def by (rule disector_response_ok) simp_all
  ultimately show ?thesis
    using dialogue_memory [OF assms(11,3,5,6,8)]
    by (intro exI [of _ ?p2] exI [of _ "?p2\<lparr>dp_i := 0, dp_state := disector_done\<rparr>"])
      (simp add: disector_user_str_def disector_pass_str_def disector_pass_off_def)
qed

theorem disector_captures_witness:
  "\<exists>p1 p2. disector_consume \<lparr>dp_disector = replicate 513 0, dp_state = disector_user, dp_i = 0,
        dp_user_carry = False\<rparr> (bytes_of ''useR'' @ [32, 97] @ [13, 10] @ bytes_of ''PASS'' @ [32, 98] @ [13, 10]) =
        Inr (disector_response, p1) \<and>
      disector_consume p1 (bytes_of ''+OK'' @ [13, 10]) = Inr (disector_done, p2) \<and>
      disector_user_str p2 = Inr [32, 97] \<and> disector_pass_str p2 = Inr [32, 98]"
proof -
  have "map to_upper (bytes_of ''useR'') = bytes_of ''USER''" "map to_upper (bytes_of ''PASS'') = bytes_of ''PASS''"
    by (simp_all add: bytes_of_def to_upper_def)
  from disector_captures [OF this, of "[32, 97]" "[32, 98]"
      "\<lparr>dp_disector = replicate 513 0, dp_state = disector_user, dp_i = 0, dp_user_carry = False\<rparr>" "[13, 10]"]
  show ?thesis by auto
qed



text \<open>C32. On a state the invariant allows, feeding a byte keeps the invariant or is an access outside
  \<open>struct disector\<close>; the latter happens exactly for a newline read with the counter of the
  \<open>USER\<close> argument at zero (an empty line, or one of 256 bytes, whose counter has wrapped).\<close>

theorem disector_feed_fault_iff:
  assumes "disector_inv p"
  shows "(disector_parser_feed p c = Inl err \<longleftrightarrow>
           err = Out_of_bounds \<and> dp_state p = disector_user_copy \<and> c = 10 \<and> dp_i p = 0) \<and>
         (\<forall>p'. disector_parser_feed p c = Inr p' \<longrightarrow> disector_inv p')"
  using disector_inv_feed [OF assms, of c] disector_feed_underflow [OF assms] by force

theorem disector_feed_fault_iff_witness:
  "disector_parser_feed ((disector_parser_init \<lparr>dp_disector = [], dp_state = disector_user, dp_i = 0,
        dp_user_carry = False\<rparr>)\<lparr>dp_state := disector_user_copy\<rparr>) 10 = Inl Out_of_bounds"
proof -
  have "disector_inv ((disector_parser_init \<lparr>dp_disector = [], dp_state = disector_user, dp_i = 0,
        dp_user_carry = False\<rparr>)\<lparr>dp_state := disector_user_copy\<rparr>)"
    by (simp add: disector_inv_def disector_parser_init_def sizeof_disector_def)
  from disector_feed_fault_iff [OF this] show ?thesis by (simp add: disector_parser_init_def)
qed

end
