(* ===== verification/Stm.thy ===== *)
theory Stm
  imports Prelude
begin

text \<open>
  Model of \<open>src/server/stm.c\<close>: the engine that runs a table of states.

  A state definition holds optional hooks over a host state \<open>'w\<close> and a selection key \<open>'k\<close>. The
  struct \<open>state_machine\<close> is part of the host, so every operation takes the two functions that read
  it from the host and write it back; the pointer \<open>current\<close> into the table is an index into it
  (\<open>None\<close> for NULL). The locale \<open>stm_host\<close> states what the engine relies on (the accessors are a
  lens, the hooks leave the machine alone and name existing states) and shows what its clients
  get: the returned state is the state the machine is in.
\<close>

section \<open>The engine\<close>

record ('k, 'w) state_definition =
  sd_state :: nat
  on_arrival :: "(nat \<Rightarrow> 'k \<Rightarrow> 'w \<Rightarrow> 'w res) option"
  on_departure :: "(nat \<Rightarrow> 'k \<Rightarrow> 'w \<Rightarrow> 'w res) option"
  on_read_ready :: "('k \<Rightarrow> 'w \<Rightarrow> (nat \<times> 'w) res) option"
  on_write_ready :: "('k \<Rightarrow> 'w \<Rightarrow> (nat \<times> 'w) res) option"
  on_block_ready :: "('k \<Rightarrow> 'w \<Rightarrow> (nat \<times> 'w) res) option"

record state_machine =
  stm_initial :: nat
  stm_max_state :: nat
  stm_current :: "nat option"

type_synonym ('k, 'w) states = "('k, 'w) state_definition list"

definition state_at :: "('k, 'w) states \<Rightarrow> nat \<Rightarrow> ('k, 'w) state_definition res" where
  "state_at states i = mem_get states (int i)"

fun stm_check :: "('k, 'w) states \<Rightarrow> nat list \<Rightarrow> unit res" where
  "stm_check states [] = Inr ()"
| "stm_check states (i # is) =
     rbind (state_at states i) (\<lambda>d. if i \<noteq> sd_state d then Inl Abort_call else stm_check states is)"

definition stm_init :: "('k, 'w) states \<Rightarrow> state_machine \<Rightarrow> state_machine res" where
  "stm_init states stm =
     rbind (stm_check states [0..<Suc (stm_max_state stm)]) (\<lambda>_.
       if stm_initial stm < stm_max_state stm then Inr (stm\<lparr>stm_current := None\<rparr>)
       else Inl Abort_call)"

text \<open>Calling a hook that may be NULL.\<close>

definition run_hook ::
  "(nat \<Rightarrow> 'k \<Rightarrow> 'w \<Rightarrow> 'w res) option \<Rightarrow> nat \<Rightarrow> 'k \<Rightarrow> 'w \<Rightarrow> 'w res" where
  "run_hook h st key w = (case h of None \<Rightarrow> Inr w | Some f \<Rightarrow> f st key w)"

definition handle_first ::
  "('w \<Rightarrow> state_machine) \<Rightarrow> (state_machine \<Rightarrow> 'w \<Rightarrow> 'w) \<Rightarrow> ('k, 'w) states \<Rightarrow> 'k \<Rightarrow> 'w \<Rightarrow> 'w res" where
  "handle_first get put states key w =
     (case stm_current (get w) of
        None \<Rightarrow>
          let w1 = put ((get w)\<lparr>stm_current := Some (stm_initial (get w))\<rparr>) w
          in rbind (state_at states (stm_initial (get w))) (\<lambda>d.
               run_hook (on_arrival d) (sd_state d) key w1)
      | Some _ \<Rightarrow> Inr w)"

definition leave_state ::
  "('w \<Rightarrow> state_machine) \<Rightarrow> ('k, 'w) states \<Rightarrow> 'k \<Rightarrow> 'w \<Rightarrow> 'w res" where
  "leave_state get states key w =
     (case stm_current (get w) of
        None \<Rightarrow> Inr w
      | Some i \<Rightarrow> rbind (state_at states i) (\<lambda>d. run_hook (on_departure d) (sd_state d) key w))"

definition jump ::
  "('w \<Rightarrow> state_machine) \<Rightarrow> (state_machine \<Rightarrow> 'w \<Rightarrow> 'w) \<Rightarrow> ('k, 'w) states \<Rightarrow> nat \<Rightarrow> 'k \<Rightarrow> 'w \<Rightarrow> 'w res"
where
  "jump get put states nxt key w =
     (if nxt > stm_max_state (get w) then Inl Abort_call
      else if stm_current (get w) \<noteq> Some nxt then
        rbind (leave_state get states key w) (\<lambda>w1.
          let w2 = put ((get w1)\<lparr>stm_current := Some nxt\<rparr>) w1
          in rbind (state_at states nxt) (\<lambda>d. run_hook (on_arrival d) (sd_state d) key w2))
      else Inr w)"

text \<open>The body the three handlers share; \<open>ready\<close> selects the hook of the event.\<close>

definition stm_handler ::
  "(('k, 'w) state_definition \<Rightarrow> ('k \<Rightarrow> 'w \<Rightarrow> (nat \<times> 'w) res) option) \<Rightarrow>
   ('w \<Rightarrow> state_machine) \<Rightarrow> (state_machine \<Rightarrow> 'w \<Rightarrow> 'w) \<Rightarrow> ('k, 'w) states \<Rightarrow> 'k \<Rightarrow> 'w \<Rightarrow> (nat \<times> 'w) res"
where
  "stm_handler ready get put states key w =
     rbind (handle_first get put states key w) (\<lambda>w1.
       case stm_current (get w1) of
         None \<Rightarrow> Inl Null_deref
       | Some i \<Rightarrow>
           rbind (state_at states i) (\<lambda>d.
             case ready d of
               None \<Rightarrow> Inl Abort_call
             | Some f \<Rightarrow>
                 rbind (f key w1) (\<lambda>(ret, w2).
                 rbind (jump get put states ret key w2) (\<lambda>w3. Inr (ret, w3)))))"

definition stm_handler_read ::
  "('w \<Rightarrow> state_machine) \<Rightarrow> (state_machine \<Rightarrow> 'w \<Rightarrow> 'w) \<Rightarrow> ('k, 'w) states \<Rightarrow> 'k \<Rightarrow> 'w \<Rightarrow> (nat \<times> 'w) res"
where
  "stm_handler_read = stm_handler on_read_ready"

definition stm_handler_write ::
  "('w \<Rightarrow> state_machine) \<Rightarrow> (state_machine \<Rightarrow> 'w \<Rightarrow> 'w) \<Rightarrow> ('k, 'w) states \<Rightarrow> 'k \<Rightarrow> 'w \<Rightarrow> (nat \<times> 'w) res"
where
  "stm_handler_write = stm_handler on_write_ready"

definition stm_handler_block ::
  "('w \<Rightarrow> state_machine) \<Rightarrow> (state_machine \<Rightarrow> 'w \<Rightarrow> 'w) \<Rightarrow> ('k, 'w) states \<Rightarrow> 'k \<Rightarrow> 'w \<Rightarrow> (nat \<times> 'w) res"
where
  "stm_handler_block = stm_handler on_block_ready"

definition stm_handler_close ::
  "('w \<Rightarrow> state_machine) \<Rightarrow> ('k, 'w) states \<Rightarrow> 'k \<Rightarrow> 'w \<Rightarrow> 'w res" where
  "stm_handler_close get states key w = leave_state get states key w"

definition stm_state :: "('k, 'w) states \<Rightarrow> state_machine \<Rightarrow> nat res" where
  "stm_state states stm =
     (case stm_current stm of
        None \<Rightarrow> Inr (stm_initial stm)
      | Some i \<Rightarrow> rbind (state_at states i) (\<lambda>d. Inr (sd_state d)))"

section \<open>Tables\<close>

text \<open>What \<open>stm_init\<close> verifies: identifiers and positions agree.\<close>

definition states_ok :: "('k, 'w) states \<Rightarrow> nat \<Rightarrow> bool" where
  "states_ok states mx \<longleftrightarrow> mx < length states \<and> (\<forall>i \<le> mx. sd_state (states ! i) = i)"

lemma state_at_ok: "states_ok states mx \<Longrightarrow> i \<le> mx \<Longrightarrow> state_at states i = Inr (states ! i)"
  by (simp add: state_at_def states_ok_def)

lemma state_at_id: "states_ok states mx \<Longrightarrow> i \<le> mx \<Longrightarrow> state_at states i = Inr d \<Longrightarrow> sd_state d = i"
  by (auto simp: state_at_ok) (simp add: states_ok_def)

lemma stm_check_iff:
  "stm_check states is = Inr () \<longleftrightarrow> (\<forall>i \<in> set is. i < length states \<and> sd_state (states ! i) = i)"
  by (induction "is") (auto simp: state_at_def mem_get_def)

lemma stm_init_iff:
  "stm_init states stm = Inr stm' \<longleftrightarrow>
     states_ok states (stm_max_state stm) \<and> stm_initial stm < stm_max_state stm \<and>
     stm' = stm\<lparr>stm_current := None\<rparr>"
proof -
  have "stm_check states [0..<Suc (stm_max_state stm)] = Inr () \<longleftrightarrow> states_ok states (stm_max_state stm)"
    by (auto simp: stm_check_iff states_ok_def simp del: upt_Suc)
  then show ?thesis by (auto simp: stm_init_def rbind_Inr_iff simp del: upt_Suc)
qed

section \<open>What the engine promises\<close>

definition machine_ok :: "nat \<Rightarrow> nat \<Rightarrow> state_machine \<Rightarrow> bool" where
  "machine_ok mx init stm \<longleftrightarrow> stm_max_state stm = mx \<and> stm_initial stm = init \<and>
     (case stm_current stm of None \<Rightarrow> True | Some i \<Rightarrow> i \<le> mx)"

text \<open>The state the engine dispatches an event in: the initial one before the first event.\<close>

definition start_state :: "state_machine \<Rightarrow> nat" where
  "start_state stm = (case stm_current stm of None \<Rightarrow> stm_initial stm | Some i \<Rightarrow> i)"

locale stm_host =
  fixes get :: "'w \<Rightarrow> state_machine"
    and put :: "state_machine \<Rightarrow> 'w \<Rightarrow> 'w"
    and states :: "('k, 'w) states"
    and mx :: nat
    and init :: nat
  assumes get_put: "get (put s w) = s"
    and table: "states_ok states mx"
    and init_le: "init \<le> mx"
    and arrival_frame: "d \<in> set states \<Longrightarrow> on_arrival d = Some f \<Longrightarrow> f i key w = Inr w' \<Longrightarrow> get w' = get w"
    and departure_frame:
      "d \<in> set states \<Longrightarrow> on_departure d = Some f \<Longrightarrow> f i key w = Inr w' \<Longrightarrow> get w' = get w"
    and read_frame:
      "d \<in> set states \<Longrightarrow> on_read_ready d = Some g \<Longrightarrow> g key w = Inr (n, w') \<Longrightarrow> get w' = get w"
    and write_frame:
      "d \<in> set states \<Longrightarrow> on_write_ready d = Some g \<Longrightarrow> g key w = Inr (n, w') \<Longrightarrow> get w' = get w"
    and block_frame:
      "d \<in> set states \<Longrightarrow> on_block_ready d = Some g \<Longrightarrow> g key w = Inr (n, w') \<Longrightarrow> get w' = get w"
begin

lemma state_in_table: "i \<le> mx \<Longrightarrow> states ! i \<in> set states"
  using table by (simp add: states_ok_def)

lemma table_at: "i \<le> mx \<Longrightarrow> state_at states i = Inr (states ! i)"
  using table by (rule state_at_ok)

lemma run_arrival_frame:
  "i \<le> mx \<Longrightarrow> run_hook (on_arrival (states ! i)) j key w = Inr w' \<Longrightarrow> get w' = get w"
  using arrival_frame [OF state_in_table] by (auto simp: run_hook_def split: option.splits)

lemma run_departure_frame:
  "i \<le> mx \<Longrightarrow> run_hook (on_departure (states ! i)) j key w = Inr w' \<Longrightarrow> get w' = get w"
  using departure_frame [OF state_in_table] by (auto simp: run_hook_def split: option.splits)

lemma handle_first_frame:
  assumes "machine_ok mx init (get w)" "handle_first get put states key w = Inr w'"
  shows "get w' = (get w)\<lparr>stm_current := Some (start_state (get w))\<rparr>"
proof (cases "stm_current (get w)")
  case None
  have "stm_initial (get w) = init" using assms(1) by (simp add: machine_ok_def)
  with None assms(2) run_arrival_frame [OF init_le] show ?thesis
    by (simp add: handle_first_def table_at [OF init_le] start_state_def Let_def get_put)
next
  case (Some i)
  with assms(2) show ?thesis by (simp add: handle_first_def start_state_def)
qed

lemma leave_frame:
  assumes "machine_ok mx init (get w)" "leave_state get states key w = Inr w'"
  shows "get w' = get w"
proof (cases "stm_current (get w)")
  case (Some i)
  then have "i \<le> mx" using assms(1) by (simp add: machine_ok_def)
  with Some assms(2) run_departure_frame show ?thesis by (simp add: leave_state_def table_at)
qed (use assms(2) in \<open>simp add: leave_state_def\<close>)

lemma jump_frame:
  assumes "machine_ok mx init (get w)" "jump get put states nxt key w = Inr w'"
  shows "nxt \<le> mx \<and> get w' = (get w)\<lparr>stm_current := Some nxt\<rparr>"
proof -
  have le: "nxt \<le> mx" using assms by (auto simp: jump_def machine_ok_def split: if_splits)
  show ?thesis
  proof (cases "stm_current (get w) = Some nxt")
    case True
    with assms have "w' = w" by (auto simp: jump_def split: if_splits)
    with True le show ?thesis by simp
  next
    case False
    then obtain w1 where "leave_state get states key w = Inr w1"
      and "run_hook (on_arrival (states ! nxt)) (sd_state (states ! nxt)) key
             (put ((get w1)\<lparr>stm_current := Some nxt\<rparr>) w1) = Inr w'"
      using assms le by (auto simp: jump_def machine_ok_def table_at Let_def)
    then show ?thesis
      using leave_frame [OF assms(1)] run_arrival_frame [OF le] le by (auto simp: get_put)
  qed
qed

text \<open>The handler of an event ran in the state the machine was in, and the machine is now in the
  state the handler returned.\<close>

lemma handler_state:
  assumes "machine_ok mx init (get w)" "stm_handler ready get put states key w = Inr (ret, w')"
    and frame: "\<And>d g key w n w'. d \<in> set states \<Longrightarrow> ready d = Some g \<Longrightarrow> g key w = Inr (n, w') \<Longrightarrow> get w' = get w"
  shows "ret \<le> mx \<and> get w' = (get w)\<lparr>stm_current := Some ret\<rparr> \<and>
     (\<exists>f w1 w2. ready (states ! start_state (get w)) = Some f \<and> f key w1 = Inr (ret, w2))"
proof -
  let ?i = "start_state (get w)"
  obtain w1 where w1: "handle_first get put states key w = Inr w1"
    using assms(2) by (auto simp: stm_handler_def)
  then have get1: "get w1 = (get w)\<lparr>stm_current := Some ?i\<rparr>"
    using handle_first_frame [OF assms(1)] by simp
  have i: "?i \<le> mx" using assms(1) init_le by (auto simp: machine_ok_def start_state_def split: option.splits)
  obtain f w2 where f: "ready (states ! ?i) = Some f" "f key w1 = Inr (ret, w2)"
    and j: "jump get put states ret key w2 = Inr w'"
    using assms(2) w1 get1 table_at [OF i]
    by (auto simp: stm_handler_def split: option.splits)
  have "get w2 = get w1" using frame [OF state_in_table [OF i] f] .
  moreover have "machine_ok mx init (get w1)" using assms(1) get1 i by (simp add: machine_ok_def)
  ultimately show ?thesis using jump_frame [of w2 ret key w'] j f get1 by auto
qed

lemmas read_state = handler_state [where ready = on_read_ready, OF _ _ read_frame]

lemmas write_state = handler_state [where ready = on_write_ready, OF _ _ write_frame]

lemmas block_state = handler_state [where ready = on_block_ready, OF _ _ block_frame]

text \<open>A rule for properties indexed by the state: \<open>iv i\<close> holds when the event finds the machine in
  state \<open>i\<close>, \<open>post i n\<close> of what the handler of state \<open>i\<close> returns with the next state \<open>n\<close>, and \<open>fin n\<close> in
  the end.\<close>

lemma handler_rule:
  assumes ok: "machine_ok mx init (get w)"
    and run: "stm_handler ready get put states key w = Inr (ret, w')"
    and frame: "\<And>d g key w n w'. d \<in> set states \<Longrightarrow> ready d = Some g \<Longrightarrow> g key w = Inr (n, w') \<Longrightarrow> get w' = get w"
    and first: "\<And>w1. stm_current (get w) = None \<Longrightarrow> run_hook (on_arrival (states ! init)) init key
        (put ((get w)\<lparr>stm_current := Some init\<rparr>) w) = Inr w1 \<Longrightarrow> iv init w1"
    and cur: "\<And>i. stm_current (get w) = Some i \<Longrightarrow> iv i w"
    and step: "\<And>i f w1 n w2. i \<le> mx \<Longrightarrow> iv i w1 \<Longrightarrow> stm_current (get w1) = Some i \<Longrightarrow>
        ready (states ! i) = Some f \<Longrightarrow> f key w1 = Inr (n, w2) \<Longrightarrow> post i n w2"
    and same: "\<And>i w2. post i i w2 \<Longrightarrow> fin i w2"
    and go: "\<And>i n w2 w3 w4. i \<le> mx \<Longrightarrow> n \<le> mx \<Longrightarrow> n \<noteq> i \<Longrightarrow> post i n w2 \<Longrightarrow>
        run_hook (on_departure (states ! i)) i key w2 = Inr w3 \<Longrightarrow>
        run_hook (on_arrival (states ! n)) n key (put ((get w3)\<lparr>stm_current := Some n\<rparr>) w3) = Inr w4 \<Longrightarrow>
        fin n w4"
  shows "fin ret w'"
proof -
  let ?i = "start_state (get w)"
  obtain w1 where w1: "handle_first get put states key w = Inr w1"
    using run by (auto simp: stm_handler_def)
  then have get1: "get w1 = (get w)\<lparr>stm_current := Some ?i\<rparr>" using handle_first_frame [OF ok] by simp
  have i: "?i \<le> mx" using ok init_le by (auto simp: machine_ok_def start_state_def split: option.splits)
  have ids: "j \<le> mx \<Longrightarrow> sd_state (states ! j) = j" for j using table by (simp add: states_ok_def)
  have "iv ?i w1"
  proof (cases "stm_current (get w)")
    case None
    moreover have "stm_initial (get w) = init" using ok by (simp add: machine_ok_def)
    ultimately show ?thesis
      using w1 first [of w1] ids [OF init_le]
      by (simp add: handle_first_def table_at [OF init_le] Let_def start_state_def)
  next
    case (Some j)
    with w1 cur [of j] show ?thesis by (simp add: handle_first_def start_state_def)
  qed
  moreover obtain f w2 where f: "ready (states ! ?i) = Some f" "f key w1 = Inr (ret, w2)"
    and j: "jump get put states ret key w2 = Inr w'"
    using run w1 get1 table_at [OF i] by (auto simp: stm_handler_def split: option.splits)
  ultimately have post: "post ?i ret w2" using step [OF i, of w1 f ret w2] get1 by simp
  have get2: "get w2 = get w1" using frame [OF state_in_table [OF i] f] .
  then have cur2: "stm_current (get w2) = Some ?i" "machine_ok mx init (get w2)"
    using get1 ok i by (simp_all add: machine_ok_def)
  then have le: "ret \<le> mx" using jump_frame j by blast
  show ?thesis
  proof (cases "ret = ?i")
    case True
    with j cur2 have "w' = w2" by (auto simp: jump_def split: if_splits)
    with True post same show ?thesis by simp
  next
    case False
    then obtain w3 where "run_hook (on_departure (states ! ?i)) ?i key w2 = Inr w3"
      "run_hook (on_arrival (states ! ret)) ret key (put ((get w3)\<lparr>stm_current := Some ret\<rparr>) w3) = Inr w'"
      using j cur2(1) table_at [OF i] table_at [OF le] ids [OF i] ids [OF le]
      by (auto simp: jump_def leave_state_def Let_def split: if_splits)
    then show ?thesis using go [OF i le False post] by blast
  qed
qed

lemma machine_ok_next: "machine_ok mx init (get w) \<Longrightarrow> ret \<le> mx \<Longrightarrow>
   get w' = (get w)\<lparr>stm_current := Some ret\<rparr> \<Longrightarrow> machine_ok mx init (get w') \<and> stm_state states (get w') = Inr ret"
  using table by (simp add: machine_ok_def stm_state_def table_at states_ok_def)

end

end
