(* ===== verification/Selector.thy ===== *)
theory Selector
  imports Prelude
begin

text \<open>
  Model of \<open>src/server/selector.c\<close>: the I/O multiplexer.

  The jump table \<open>fds\<close> is a list of items (\<open>None\<close> for the NULL pointer before the first
  allocation); an \<open>fd_set\<close> is a set of descriptors. A handler is named by a value of \<open>'h\<close> and its
  callbacks, functions over the selector and the rest of the program's state \<open>'g\<close>, are given by the
  argument \<open>handlers\<close>, so that callbacks may register, unregister and change interests while they
  run. The outcomes of \<open>malloc\<close>, \<open>calloc\<close>, \<open>realloc\<close>, \<open>pselect\<close>, \<open>sigprocmask\<close>, \<open>sigaction\<close> and
  \<open>fcntl\<close> are arguments. There is one selector, so the field \<open>s\<close> of a selection key is the selector
  component of the state.

  \<open>interest_of\<close> abstracts a selector to the map from registered descriptors to interests; the
  operations refine updates of that map, and the sets given to \<open>pselect\<close> agree with it
  (\<open>sel_inv\<close>).
\<close>

section \<open>Data\<close>

type_synonym fd_interest = u32

definition OP_NOOP :: fd_interest where "OP_NOOP = 0"

definition OP_READ :: fd_interest where "OP_READ = push_bit 0 1"

definition OP_WRITE :: fd_interest where "OP_WRITE = push_bit 2 1"

definition INTEREST_OFF :: "fd_interest \<Rightarrow> fd_interest \<Rightarrow> fd_interest" where
  "INTEREST_OFF flag m = flag AND NOT m"

datatype selector_status =
    SELECTOR_SUCCESS
  | SELECTOR_ENOMEM
  | SELECTOR_MAXFD
  | SELECTOR_IARGS
  | SELECTOR_FDINUSE
  | SELECTOR_IO

definition selector_error :: "selector_status \<Rightarrow> string" where
  "selector_error status =
     (case status of
        SELECTOR_SUCCESS \<Rightarrow> ''Success''
      | SELECTOR_ENOMEM \<Rightarrow> ''Not enough memory''
      | SELECTOR_MAXFD \<Rightarrow> ''Can't handle any more file descriptors''
      | SELECTOR_IARGS \<Rightarrow> ''Illegal argument''
      | SELECTOR_IO \<Rightarrow> ''I/O error''
      | _ \<Rightarrow> ''something failed'')"

record selector_conf =
  conf_signal :: int
  conf_timeout :: "int \<times> int"

text \<open>\<open>selector_init\<close>: the results of \<open>sigprocmask\<close> and \<open>sigaction\<close> are arguments; the new
  configuration is returned with the status.\<close>

definition selector_init :: "selector_conf \<Rightarrow> int \<Rightarrow> int \<Rightarrow> selector_status \<times> selector_conf" where
  "selector_init c sigprocmask_ret sigaction_ret =
     (if -1 = sigprocmask_ret then (SELECTOR_IO, c)
      else if sigaction_ret \<noteq> 0 then (SELECTOR_IO, c)
      else (SELECTOR_SUCCESS, c))"

definition selector_close :: selector_status where
  "selector_close = SELECTOR_SUCCESS"

record ('h, 'd) item =
  it_fd :: fd
  it_interest :: fd_interest
  it_handler :: "'h option"
  it_data :: "'d option"

record ('h, 'd) fdselector =
  fds :: "('h, 'd) item list option"
  fd_size :: nat
  max_fd :: int
  master_r :: "fd set"
  master_w :: "fd set"
  slave_r :: "fd set"
  slave_w :: "fd set"
  master_t :: "int \<times> int"
  slave_t :: "int \<times> int"
  resolution_jobs :: "fd list"

record 'd selector_key =
  key_fd :: fd
  key_data :: "'d option"

type_synonym ('h, 'd, 'g) callback =
  "'d selector_key \<Rightarrow> ('h, 'd) fdselector \<times> 'g \<Rightarrow> (('h, 'd) fdselector \<times> 'g) res"

record ('h, 'd, 'g) fd_handler =
  handle_read :: "('h, 'd, 'g) callback option"
  handle_write :: "('h, 'd, 'g) callback option"
  handle_block :: "('h, 'd, 'g) callback option"
  handle_close :: "('h, 'd, 'g) callback option"

definition FD_UNUSED :: fd where "FD_UNUSED = -1"

definition ITEM_USED :: "('h, 'd) item \<Rightarrow> bool" where
  "ITEM_USED it \<longleftrightarrow> FD_UNUSED \<noteq> it_fd it"

text \<open>\<open>FD_SETSIZE\<close> of the platform.\<close>

definition ITEMS_MAX_SIZE :: nat where "ITEMS_MAX_SIZE = 1024"

definition sizeof_item :: nat where "sizeof_item = 24"

definition SIZE_MAX :: nat where "SIZE_MAX = 2 ^ 64 - 1"

section \<open>Capacity\<close>

fun bit_length :: "nat \<Rightarrow> nat" where
  "bit_length tmp = (if tmp = 0 then 0 else Suc (bit_length (tmp div 2)))"

declare bit_length.simps [simp del]

definition next_capacity :: "nat \<Rightarrow> nat res" where
  "next_capacity n =
     (let tmp = 2 ^ bit_length n
      in rbind (c_assert (tmp \<ge> n)) (\<lambda>_.
           Inr ((if tmp > ITEMS_MAX_SIZE then ITEMS_MAX_SIZE else tmp) + 1)))"

definition item_init :: "('h, 'd) item \<Rightarrow> ('h, 'd) item" where
  "item_init it = it\<lparr>it_fd := FD_UNUSED\<rparr>"

text \<open>Memory filled with zeroes by \<open>calloc\<close> or \<open>memset\<close>.\<close>

definition item_zero :: "('h, 'd) item" where
  "item_zero = \<lparr>it_fd = 0, it_interest = 0, it_handler = None, it_data = None\<rparr>"

definition items_init :: "('h, 'd) fdselector \<Rightarrow> nat \<Rightarrow> ('h, 'd) fdselector res" where
  "items_init s lst =
     rbind (c_assert (lst \<le> fd_size s)) (\<lambda>_.
       case fds s of
         None \<Rightarrow> Inl Null_deref
       | Some xs \<Rightarrow>
           Inr (s\<lparr>fds := Some (take lst xs @ map item_init (drop lst (take (fd_size s) xs)) @
                              drop (fd_size s) xs)\<rparr>))"

text \<open>The fields of the new items that \<open>items_init\<close> does not set are zero after \<open>calloc\<close>, and taken
  to be zero after \<open>realloc\<close> too, as the comment on \<open>items_init\<close> assumes; no operation reads them
  before \<open>selector_register\<close> has set them. \<open>alloc\<close> tells whether the allocation succeeds.\<close>

definition ensure_capacity :: "bool \<Rightarrow> ('h, 'd) fdselector \<Rightarrow> nat \<Rightarrow> (selector_status \<times> ('h, 'd) fdselector) res"
where
  "ensure_capacity alloc s n =
     (if n < fd_size s then Inr (SELECTOR_SUCCESS, s)
      else if n > ITEMS_MAX_SIZE then Inr (SELECTOR_MAXFD, s)
      else case fds s of
        None \<Rightarrow>
          rbind (next_capacity n) (\<lambda>new_size.
            if \<not> alloc then Inr (SELECTOR_ENOMEM, s)
            else rbind (items_init (s\<lparr>fds := Some (replicate new_size item_zero), fd_size := new_size\<rparr>) 0)
                   (\<lambda>s1. Inr (SELECTOR_SUCCESS, s1)))
      | Some xs \<Rightarrow>
          rbind (next_capacity n) (\<lambda>new_size.
            if new_size > SIZE_MAX div sizeof_item then Inr (SELECTOR_ENOMEM, s)
            else if \<not> alloc then Inr (SELECTOR_ENOMEM, s)
            else let old_size = fd_size s
                 in rbind (items_init (s\<lparr>fds := Some (take new_size xs @ replicate (new_size - length xs) item_zero),
                                        fd_size := new_size\<rparr>) old_size)
                      (\<lambda>s1. Inr (SELECTOR_SUCCESS, s1))))"

section \<open>Items and descriptor sets\<close>

definition sel_item :: "('h, 'd) fdselector \<Rightarrow> fd \<Rightarrow> ('h, 'd) item res" where
  "sel_item s i = (case fds s of None \<Rightarrow> Inl Null_deref | Some xs \<Rightarrow> mem_get xs i)"

definition sel_put :: "('h, 'd) fdselector \<Rightarrow> fd \<Rightarrow> ('h, 'd) item \<Rightarrow> ('h, 'd) fdselector res" where
  "sel_put s i it =
     (case fds s of
        None \<Rightarrow> Inl Null_deref
      | Some xs \<Rightarrow> rbind (mem_set xs i it) (\<lambda>ys. Inr (s\<lparr>fds := Some ys\<rparr>)))"

fun items_max_loop :: "('h, 'd) fdselector \<Rightarrow> fd list \<Rightarrow> int \<Rightarrow> int res" where
  "items_max_loop s [] mx = Inr mx"
| "items_max_loop s (i # is) mx =
     rbind (sel_item s i) (\<lambda>it.
       items_max_loop s is (if ITEM_USED it \<and> it_fd it > mx then it_fd it else mx))"

definition items_max_fd :: "('h, 'd) fdselector \<Rightarrow> int res" where
  "items_max_fd s = items_max_loop s [0..max_fd s] 0"

definition items_update_fdset_for_fd ::
  "('h, 'd) fdselector \<Rightarrow> ('h, 'd) item \<Rightarrow> ('h, 'd) fdselector" where
  "items_update_fdset_for_fd s it =
     (let s1 = s\<lparr>master_r := master_r s - {it_fd it}\<rparr>;
          s2 = s1\<lparr>master_w := master_w s1 - {it_fd it}\<rparr>
      in if ITEM_USED it then
           let s3 = (if it_interest it AND OP_READ \<noteq> 0
                     then s2\<lparr>master_r := insert (it_fd it) (master_r s2)\<rparr> else s2)
           in if it_interest it AND OP_WRITE \<noteq> 0
              then s3\<lparr>master_w := insert (it_fd it) (master_w s3)\<rparr> else s3
         else s2)"

definition INVALID_FD :: "fd \<Rightarrow> bool" where
  "INVALID_FD f \<longleftrightarrow> f < 0 \<or> f \<ge> int ITEMS_MAX_SIZE"

section \<open>Operations\<close>

definition selector_zero :: "('h, 'd) fdselector" where
  "selector_zero =
     \<lparr>fds = None, fd_size = 0, max_fd = 0, master_r = {}, master_w = {}, slave_r = {}, slave_w = {},
      master_t = (0, 0), slave_t = (0, 0), resolution_jobs = []\<rparr>"

definition selector_new ::
  "selector_conf \<Rightarrow> bool \<Rightarrow> bool \<Rightarrow> nat \<Rightarrow> ('h, 'd) fdselector option res" where
  "selector_new conf malloc_ok calloc_ok initial_elements =
     (if malloc_ok then
        let ret = selector_zero\<lparr>master_t := conf_timeout conf\<rparr>
        in rbind (c_assert (max_fd ret = 0)) (\<lambda>_.
           rbind (ensure_capacity calloc_ok (ret\<lparr>resolution_jobs := []\<rparr>) initial_elements) (\<lambda>(st, ret1).
             Inr (if st \<noteq> SELECTOR_SUCCESS then None else Some ret1)))
      else Inr None)"

definition selector_register ::
  "bool \<Rightarrow> ('h, 'd) fdselector \<Rightarrow> fd \<Rightarrow> 'h option \<Rightarrow> fd_interest \<Rightarrow> 'd option
    \<Rightarrow> (selector_status \<times> ('h, 'd) fdselector) res" where
  "selector_register alloc s f handler interest data =
     (if INVALID_FD f \<or> handler = None then Inr (SELECTOR_IARGS, s)
      else rbind (if nat f \<ge> fd_size s then ensure_capacity alloc s (nat f) else Inr (SELECTOR_SUCCESS, s))
        (\<lambda>(ret, s1).
          if ret \<noteq> SELECTOR_SUCCESS then Inr (ret, s1)
          else rbind (sel_item s1 f) (\<lambda>it.
            if ITEM_USED it then Inr (SELECTOR_FDINUSE, s1)
            else
              let it1 = it\<lparr>it_fd := f, it_handler := handler, it_interest := interest, it_data := data\<rparr>
              in rbind (sel_put s1 f it1) (\<lambda>s2.
                   let s3 = (if f > max_fd s2 then s2\<lparr>max_fd := f\<rparr> else s2)
                   in Inr (SELECTOR_SUCCESS, items_update_fdset_for_fd s3 it1)))))"

definition selector_unregister_fd ::
  "('h \<Rightarrow> ('h, 'd, 'g) fd_handler) \<Rightarrow> fd \<Rightarrow> ('h, 'd) fdselector \<times> 'g
    \<Rightarrow> (selector_status \<times> ('h, 'd) fdselector \<times> 'g) res" where
  "selector_unregister_fd handlers f = (\<lambda>(s, g).
     if INVALID_FD f then Inr (SELECTOR_IARGS, s, g)
     else rbind (sel_item s f) (\<lambda>it.
       if \<not> ITEM_USED it then Inr (SELECTOR_IARGS, s, g)
       else
         rbind (case it_handler it of
                  None \<Rightarrow> Inl Null_deref
                | Some h \<Rightarrow>
                    (case handle_close (handlers h) of
                       None \<Rightarrow> Inr (s, g)
                     | Some cb \<Rightarrow> cb \<lparr>key_fd = it_fd it, key_data = it_data it\<rparr> (s, g)))
           (\<lambda>(s1, g1).
             rbind (sel_item s1 f) (\<lambda>it1.
               let it2 = it1\<lparr>it_interest := OP_NOOP\<rparr>;
                   s2 = items_update_fdset_for_fd s1 it2
               in rbind (sel_put s2 f (item_init item_zero)) (\<lambda>s3.
                  rbind (items_max_fd s3) (\<lambda>m.
                    Inr (SELECTOR_SUCCESS, s3\<lparr>max_fd := m\<rparr>, g1)))))))"

fun destroy_items ::
  "('h \<Rightarrow> ('h, 'd, 'g) fd_handler) \<Rightarrow> nat list \<Rightarrow> ('h, 'd) fdselector \<times> 'g
    \<Rightarrow> (('h, 'd) fdselector \<times> 'g) res" where
  "destroy_items handlers [] sg = Inr sg"
| "destroy_items handlers (i # is) sg =
     rbind (sel_item (fst sg) (int i)) (\<lambda>it.
       if ITEM_USED it
       then rbind (selector_unregister_fd handlers (int i) sg) (\<lambda>(_, sg1). destroy_items handlers is sg1)
       else destroy_items handlers is sg)"

text \<open>After \<open>selector_destroy\<close> the selector is freed; what is left is the rest of the state.\<close>

definition selector_destroy ::
  "('h \<Rightarrow> ('h, 'd, 'g) fd_handler) \<Rightarrow> ('h, 'd) fdselector option \<Rightarrow> 'g \<Rightarrow> 'g res" where
  "selector_destroy handlers so g =
     (case so of
        None \<Rightarrow> Inr g
      | Some s \<Rightarrow>
          (case fds s of
             None \<Rightarrow> Inr g
           | Some _ \<Rightarrow> rbind (destroy_items handlers [0..<fd_size s] (s, g)) (\<lambda>sg. Inr (snd sg))))"

definition selector_set_interest ::
  "('h, 'd) fdselector \<Rightarrow> fd \<Rightarrow> fd_interest \<Rightarrow> (selector_status \<times> ('h, 'd) fdselector) res" where
  "selector_set_interest s f i =
     (if INVALID_FD f then Inr (SELECTOR_IARGS, s)
      else rbind (sel_item s f) (\<lambda>it.
        if \<not> ITEM_USED it then Inr (SELECTOR_IARGS, s)
        else
          let it1 = it\<lparr>it_interest := i\<rparr>
          in rbind (sel_put s f it1) (\<lambda>s1. Inr (SELECTOR_SUCCESS, items_update_fdset_for_fd s1 it1))))"

definition selector_set_interest_key ::
  "('h, 'd) fdselector \<Rightarrow> 'd selector_key \<Rightarrow> fd_interest \<Rightarrow> (selector_status \<times> ('h, 'd) fdselector) res"
where
  "selector_set_interest_key s key i =
     (if INVALID_FD (key_fd key) then Inr (SELECTOR_IARGS, s)
      else selector_set_interest s (key_fd key) i)"

section \<open>Dispatching\<close>

text \<open>A callback of an item, with the assertion or the NULL dereference where there is none.\<close>

definition call_handler ::
  "('h \<Rightarrow> ('h, 'd, 'g) fd_handler) \<Rightarrow> (('h, 'd, 'g) fd_handler \<Rightarrow> ('h, 'd, 'g) callback option) \<Rightarrow> c_error \<Rightarrow>
   'h option \<Rightarrow> ('h, 'd, 'g) callback" where
  "call_handler handlers sel missing h key sg =
     (case h of
        None \<Rightarrow> Inl Null_deref
      | Some h' \<Rightarrow> (case sel (handlers h') of None \<Rightarrow> Inl missing | Some cb \<Rightarrow> cb key sg))"

text \<open>The body of the loop of \<open>handle_iteration\<close>. Once the read handler has unregistered the
  descriptor, \<open>FD_ISSET\<close> is called on the descriptor \<open>-1\<close>; here no set contains \<open>-1\<close>, and
  whatever the macro answers there, the cleared interests of the item prevent the call.\<close>

definition handle_item ::
  "('h \<Rightarrow> ('h, 'd, 'g) fd_handler) \<Rightarrow> fd \<Rightarrow> ('h, 'd) fdselector \<times> 'g \<Rightarrow> (('h, 'd) fdselector \<times> 'g) res"
where
  "handle_item handlers i = (\<lambda>(s, g).
     rbind (sel_item s i) (\<lambda>it.
       if ITEM_USED it then
         let key = \<lparr>key_fd = it_fd it, key_data = it_data it\<rparr>
         in rbind (if it_fd it \<in> slave_r s \<and> OP_READ AND it_interest it \<noteq> 0
                   then call_handler handlers handle_read Assert_fail (it_handler it) key (s, g)
                   else Inr (s, g)) (\<lambda>(s1, g1).
            rbind (sel_item s1 i) (\<lambda>it1.
              if it_fd it1 \<in> slave_w s1 \<and> OP_WRITE AND it_interest it1 \<noteq> 0
              then call_handler handlers handle_write Assert_fail (it_handler it1) key (s1, g1)
              else Inr (s1, g1)))
       else Inr (s, g)))"

fun handle_items ::
  "('h \<Rightarrow> ('h, 'd, 'g) fd_handler) \<Rightarrow> fd list \<Rightarrow> ('h, 'd) fdselector \<times> 'g \<Rightarrow> (('h, 'd) fdselector \<times> 'g) res"
where
  "handle_items handlers [] sg = Inr sg"
| "handle_items handlers (i # is) sg = rbind (handle_item handlers i sg) (handle_items handlers is)"

definition handle_iteration ::
  "('h \<Rightarrow> ('h, 'd, 'g) fd_handler) \<Rightarrow> ('h, 'd) fdselector \<times> 'g \<Rightarrow> (('h, 'd) fdselector \<times> 'g) res" where
  "handle_iteration handlers sg = handle_items handlers [0..max_fd (fst sg)] sg"

definition handle_job ::
  "('h \<Rightarrow> ('h, 'd, 'g) fd_handler) \<Rightarrow> fd \<Rightarrow> ('h, 'd) fdselector \<times> 'g \<Rightarrow> (('h, 'd) fdselector \<times> 'g) res"
where
  "handle_job handlers j = (\<lambda>(s, g).
     rbind (sel_item s j) (\<lambda>it.
       if ITEM_USED it
       then call_handler handlers handle_block Null_deref (it_handler it)
              \<lparr>key_fd = it_fd it, key_data = it_data it\<rparr> (s, g)
       else Inr (s, g)))"

fun handle_jobs ::
  "('h \<Rightarrow> ('h, 'd, 'g) fd_handler) \<Rightarrow> fd list \<Rightarrow> ('h, 'd) fdselector \<times> 'g \<Rightarrow> (('h, 'd) fdselector \<times> 'g) res"
where
  "handle_jobs handlers [] sg = Inr sg"
| "handle_jobs handlers (j # js) sg = rbind (handle_job handlers j sg) (handle_jobs handlers js)"

definition handle_block_notifications ::
  "('h \<Rightarrow> ('h, 'd, 'g) fd_handler) \<Rightarrow> ('h, 'd) fdselector \<times> 'g \<Rightarrow> (('h, 'd) fdselector \<times> 'g) res" where
  "handle_block_notifications handlers sg =
     rbind (handle_jobs handlers (resolution_jobs (fst sg)) sg) (\<lambda>(s1, g1).
       Inr (s1\<lparr>resolution_jobs := []\<rparr>, g1))"

definition selector_notify_block ::
  "bool \<Rightarrow> ('h, 'd) fdselector \<Rightarrow> fd \<Rightarrow> selector_status \<times> ('h, 'd) fdselector" where
  "selector_notify_block alloc s f =
     (if \<not> alloc then (SELECTOR_ENOMEM, s)
      else (SELECTOR_SUCCESS, s\<lparr>resolution_jobs := f # resolution_jobs s\<rparr>))"

text \<open>What \<open>pselect\<close> returns: the descriptors found ready, an interruption by a signal (\<open>EAGAIN\<close>,
  \<open>EINTR\<close>), \<open>EBADF\<close> or another error.\<close>

datatype pselect_result = Sel_ready "fd set" "fd set" | Sel_interrupted | Sel_ebadf | Sel_error

definition selector_select ::
  "('h \<Rightarrow> ('h, 'd, 'g) fd_handler) \<Rightarrow> pselect_result \<Rightarrow> ('h, 'd) fdselector \<times> 'g
    \<Rightarrow> (selector_status \<times> ('h, 'd) fdselector \<times> 'g) res" where
  "selector_select handlers r = (\<lambda>(s, g).
     let s0 = s\<lparr>slave_r := master_r s, slave_w := master_w s, slave_t := master_t s\<rparr>
     in case r of
          Sel_interrupted \<Rightarrow>
            rbind (handle_block_notifications handlers (s0, g)) (\<lambda>sg. Inr (SELECTOR_SUCCESS, sg))
        | Sel_ebadf \<Rightarrow> Inr (SELECTOR_IO, s0, g)
        | Sel_error \<Rightarrow> Inr (SELECTOR_IO, s0, g)
        | Sel_ready rs ws \<Rightarrow>
            rbind (handle_iteration handlers
                     (s0\<lparr>slave_r := slave_r s0 \<inter> rs, slave_w := slave_w s0 \<inter> ws\<rparr>, g)) (\<lambda>sg.
            rbind (handle_block_notifications handlers sg) (\<lambda>sg1. Inr (SELECTOR_SUCCESS, sg1))))"

definition O_NONBLOCK :: int where "O_NONBLOCK = 2048"

text \<open>\<open>getfd\<close> is what \<open>fcntl (fd, F_GETFD, 0)\<close> returns, \<open>setfl\<close> maps the flags given to
  \<open>fcntl (fd, F_SETFL, flags)\<close> to its result.\<close>

definition selector_fd_set_nio :: "int \<Rightarrow> (int \<Rightarrow> int) \<Rightarrow> int" where
  "selector_fd_set_nio getfd setfl =
     (if getfd = -1 then -1 else if setfl (getfd OR O_NONBLOCK) = -1 then -1 else 0)"

section \<open>Abstraction and invariant\<close>

definition interest_of :: "('h, 'd) fdselector \<Rightarrow> fd \<rightharpoonup> fd_interest" where
  "interest_of s f =
     (case sel_item s f of
        Inl _ \<Rightarrow> None
      | Inr it \<Rightarrow> if ITEM_USED it then Some (it_interest it) else None)"

definition data_of :: "('h, 'd) fdselector \<Rightarrow> fd \<Rightarrow> 'd option" where
  "data_of s f =
     (case sel_item s f of Inl _ \<Rightarrow> None | Inr it \<Rightarrow> if ITEM_USED it then it_data it else None)"

definition handler_of :: "('h, 'd) fdselector \<Rightarrow> fd \<Rightarrow> 'h option" where
  "handler_of s f =
     (case sel_item s f of Inl _ \<Rightarrow> None | Inr it \<Rightarrow> if ITEM_USED it then it_handler it else None)"

definition wants :: "fd_interest \<Rightarrow> ('h, 'd) fdselector \<Rightarrow> fd set" where
  "wants m s = {f. \<exists>i. interest_of s f = Some i \<and> i AND m \<noteq> 0}"

definition item_ok :: "fd \<Rightarrow> ('h, 'd) item \<Rightarrow> bool" where
  "item_ok i it \<longleftrightarrow>
     (if ITEM_USED it then it_fd it = i \<and> i < 1024 \<and> it_handler it \<noteq> None else it_interest it = OP_NOOP)"

definition sel_inv :: "('h, 'd) fdselector \<Rightarrow> bool" where
  "sel_inv s \<longleftrightarrow>
     (\<exists>xs. fds s = Some xs \<and> length xs = fd_size s \<and> (\<forall>i < length xs. item_ok (int i) (xs ! i))) \<and>
     0 \<le> max_fd s \<and> max_fd s < int (fd_size s) \<and> (\<forall>f i. interest_of s f = Some i \<longrightarrow> f \<le> max_fd s) \<and>
     master_r s = wants OP_READ s \<and> master_w s = wants OP_WRITE s"

lemmas op_defs = OP_NOOP_def OP_READ_def OP_WRITE_def

lemma op_simps [simp]:
  "OP_READ AND OP_READ \<noteq> 0" "OP_WRITE AND OP_WRITE \<noteq> 0" "OP_READ AND OP_WRITE = 0"
  "OP_WRITE AND OP_READ = 0" "OP_NOOP AND x = 0"
  by (simp_all add: op_defs)

lemma sel_item_Inr:
  "sel_item s f = Inr it \<longleftrightarrow>
     (\<exists>xs. fds s = Some xs \<and> 0 \<le> f \<and> f < int (length xs) \<and> it = xs ! nat f)"
  by (auto simp: sel_item_def mem_get_def split: option.splits)

lemma sel_inv_item:
  assumes "sel_inv s" "0 \<le> f" "f < int (fd_size s)"
  obtains it where "sel_item s f = Inr it" "item_ok f it"
proof -
  obtain xs where xs: "fds s = Some xs" "length xs = fd_size s" "\<forall>i < length xs. item_ok (int i) (xs ! i)"
    using assms(1) by (auto simp: sel_inv_def)
  moreover have "nat f < length xs" "int (nat f) = f" using assms xs(2) by auto
  ultimately have "item_ok f (xs ! nat f)" by metis
  then show thesis using that xs assms by (auto simp: sel_item_Inr)
qed

lemma interest_of_range:
  assumes "sel_inv s" "interest_of s f = Some i"
  shows "0 \<le> f \<and> f < 1024 \<and> f < int (fd_size s) \<and> f \<le> max_fd s"
proof -
  obtain it where it: "sel_item s f = Inr it" "ITEM_USED it"
    using assms(2) by (auto simp: interest_of_def split: sum.splits if_splits)
  then have range: "0 \<le> f" "f < int (fd_size s)" using assms(1) by (auto simp: sel_item_Inr sel_inv_def)
  from assms(1) range obtain it' where "sel_item s f = Inr it'" "item_ok f it'" by (rule sel_inv_item)
  with it have "f < 1024" by (simp add: item_ok_def)
  with range show ?thesis using assms by (auto simp: sel_inv_def)
qed

lemma interest_of_item:
  assumes "sel_inv s" "interest_of s f = Some i"
  obtains it h where "sel_item s f = Inr it" "ITEM_USED it" "it_fd it = f" "it_interest it = i"
    "it_handler it = Some h" "handler_of s f = Some h" "it_data it = data_of s f"
proof -
  obtain it where it: "sel_item s f = Inr it" "item_ok f it"
    using sel_inv_item [OF assms(1)] interest_of_range [OF assms] by metis
  with assms(2) have "ITEM_USED it" "it_interest it = i"
    by (auto simp: interest_of_def split: if_splits)
  with it that show thesis by (auto simp: item_ok_def data_of_def handler_of_def)
qed

subsection \<open>Storing an item\<close>

definition item_interest :: "('h, 'd) item \<Rightarrow> fd_interest option" where
  "item_interest it = (if ITEM_USED it then Some (it_interest it) else None)"

lemma update_fdset_frame [simp]:
  "fds (items_update_fdset_for_fd s it) = fds s" "fd_size (items_update_fdset_for_fd s it) = fd_size s"
  "max_fd (items_update_fdset_for_fd s it) = max_fd s"
  "resolution_jobs (items_update_fdset_for_fd s it) = resolution_jobs s"
  "slave_r (items_update_fdset_for_fd s it) = slave_r s"
  "slave_w (items_update_fdset_for_fd s it) = slave_w s"
  by (simp_all add: items_update_fdset_for_fd_def Let_def)

lemma sel_item_frame: "fds s = fds s' \<Longrightarrow> sel_item s = sel_item s'"
  by (rule ext) (simp add: sel_item_def)

lemma interest_of_frame: "fds s = fds s' \<Longrightarrow> interest_of s = interest_of s'"
  using sel_item_frame [of s s'] by (intro ext) (simp add: interest_of_def)

lemma data_of_frame: "fds s = fds s' \<Longrightarrow> data_of s = data_of s'"
  using sel_item_frame [of s s'] by (intro ext) (simp add: data_of_def)

lemma handler_of_frame: "fds s = fds s' \<Longrightarrow> handler_of s = handler_of s'"
  using sel_item_frame [of s s'] by (intro ext) (simp add: handler_of_def)

lemma sel_put_eq:
  assumes "sel_inv s" "0 \<le> f" "f < int (fd_size s)"
  obtains xs where "fds s = Some xs" "length xs = fd_size s" "sel_put s f it = Inr (s\<lparr>fds := Some (xs[nat f := it])\<rparr>)"
  using assms that by (auto simp: sel_inv_def sel_put_def mem_set_def)

lemma sel_put_ok:
  assumes "sel_inv s" "0 \<le> f" "f < int (fd_size s)"
  obtains s1 where "sel_put s f it = Inr s1" "max_fd s1 = max_fd s"
proof -
  obtain xs where "sel_put s f it = Inr (s\<lparr>fds := Some (xs[nat f := it])\<rparr>)"
    by (rule sel_put_eq [OF assms])
  then show thesis by (rule that) simp
qed

lemma sel_item_put:
  assumes "fds s = Some xs" "0 \<le> f" "f < int (length xs)"
  shows "sel_item (s\<lparr>fds := Some (xs[nat f := it])\<rparr>) = (sel_item s)(f := Inr it)"
  using assms by (auto simp: sel_item_def mem_get_def nth_list_update intro!: ext)

lemma fds_put_maps:
  assumes "fds s = Some xs" "fds s' = Some (xs[nat f := it])" "0 \<le> f" "f < int (length xs)"
  shows "interest_of s' = (interest_of s)(f := item_interest it)"
    and "data_of s' = (data_of s)(f := if ITEM_USED it then it_data it else None)"
    and "handler_of s' = (handler_of s)(f := if ITEM_USED it then it_handler it else None)"
proof -
  have "fds s' = fds (s\<lparr>fds := Some (xs[nat f := it])\<rparr>)" using assms(2) by simp
  then have item: "sel_item s' = (sel_item s)(f := Inr it)"
    using sel_item_frame sel_item_put [OF assms(1,3,4)] by metis
  show "interest_of s' = (interest_of s)(f := item_interest it)"
    "data_of s' = (data_of s)(f := if ITEM_USED it then it_data it else None)"
    "handler_of s' = (handler_of s)(f := if ITEM_USED it then it_handler it else None)"
    by (rule ext, simp add: interest_of_def data_of_def handler_of_def item item_interest_def)+
qed

lemma update_fdset_masters:
  assumes "it_fd it = f" "f \<noteq> -1"
  shows "master_r (items_update_fdset_for_fd s it) =
      (if it_interest it AND OP_READ \<noteq> 0 then insert f (master_r s) else master_r s - {f})"
    and "master_w (items_update_fdset_for_fd s it) =
      (if it_interest it AND OP_WRITE \<noteq> 0 then insert f (master_w s) else master_w s - {f})"
  using assms by (auto simp: items_update_fdset_for_fd_def Let_def ITEM_USED_def FD_UNUSED_def)

lemma wants_upd:
  assumes "interest_of s' = (interest_of s)(f := o')"
  shows "wants m s' = (case o' of None \<Rightarrow> wants m s - {f} |
      Some i \<Rightarrow> if i AND m \<noteq> 0 then insert f (wants m s) else wants m s - {f})"
  using assms by (auto simp: wants_def split: option.splits if_splits)

text \<open>Storing a used item at its position, with the descriptor sets updated from it.\<close>

lemma store_used:
  assumes inv: "sel_inv s" and f: "0 \<le> f" "f < int (fd_size s)" "f < 1024"
    and it: "it_fd it = f" "it_handler it \<noteq> None"
    and s1: "sel_put s f it = Inr s1" and m: "max_fd s \<le> m" "f \<le> m" "m < int (fd_size s)"
  defines "s2 \<equiv> items_update_fdset_for_fd (s1\<lparr>max_fd := m\<rparr>) it"
  shows "sel_inv s2 \<and> interest_of s2 = (interest_of s)(f \<mapsto> it_interest it) \<and>
     data_of s2 = (data_of s)(f := it_data it) \<and> handler_of s2 = (handler_of s)(f := it_handler it) \<and>
     fd_size s2 = fd_size s \<and> resolution_jobs s2 = resolution_jobs s \<and>
     slave_r s2 = slave_r s \<and> slave_w s2 = slave_w s"
proof -
  obtain xs where xs: "fds s = Some xs" "length xs = fd_size s"
    and "sel_put s f it = Inr (s\<lparr>fds := Some (xs[nat f := it])\<rparr>)"
    by (rule sel_put_eq [OF inv f(1,2)])
  with s1 have s1': "s1 = s\<lparr>fds := Some (xs[nat f := it])\<rparr>" by simp
  have used: "ITEM_USED it" using it f by (simp add: ITEM_USED_def FD_UNUSED_def)
  have fds2: "fds s2 = Some (xs[nat f := it])" by (simp add: s2_def s1')
  note maps = fds_put_maps [OF xs(1) fds2 f(1)]
  have int: "interest_of s2 = (interest_of s)(f \<mapsto> it_interest it)"
    using maps(1) f(2) xs(2) used by (simp add: item_interest_def)
  have "item_ok (int (nat f)) it" using it f used by (simp add: item_ok_def)
  moreover have "\<forall>i < length xs. item_ok (int i) (xs ! i)" using inv xs by (auto simp: sel_inv_def)
  ultimately have items: "\<forall>i < length xs. item_ok (int i) (xs[nat f := it] ! i)"
    by (metis nth_list_update_eq nth_list_update_neq)
  have "master_r s2 = wants OP_READ s2" "master_w s2 = wants OP_WRITE s2"
    using inv it(1) f(1) unfolding s2_def
    by (simp_all add: update_fdset_masters s1' sel_inv_def wants_upd [OF int, unfolded s2_def s1'])
  moreover have "\<forall>g i. interest_of s2 g = Some i \<longrightarrow> g \<le> m"
    using inv m by (auto simp: int sel_inv_def split: if_splits intro: order_trans)
  ultimately have "sel_inv s2"
    using xs fds2 items m f by (auto simp: sel_inv_def s2_def s1')
  then show ?thesis
    using int maps f(2) xs(2) used by (simp add: s2_def s1')
qed

lemma selector_set_interest_ok:
  assumes "sel_inv s" "interest_of s f = Some i0"
  shows "\<exists>s'. selector_set_interest s f i = Inr (SELECTOR_SUCCESS, s') \<and> sel_inv s' \<and>
     interest_of s' = (interest_of s)(f \<mapsto> i) \<and> data_of s' = data_of s \<and> handler_of s' = handler_of s \<and>
     fd_size s' = fd_size s \<and> resolution_jobs s' = resolution_jobs s \<and>
     slave_r s' = slave_r s \<and> slave_w s' = slave_w s"
proof -
  obtain it h where it: "sel_item s f = Inr it" "ITEM_USED it" "it_fd it = f" "it_handler it = Some h"
    "handler_of s f = Some h" "it_data it = data_of s f"
    by (rule interest_of_item [OF assms])
  have f: "0 \<le> f" "f < 1024" "f < int (fd_size s)" "f \<le> max_fd s" "max_fd s < int (fd_size s)"
    using interest_of_range [OF assms] assms(1) by (auto simp: sel_inv_def)
  let ?it = "it\<lparr>it_interest := i\<rparr>"
  obtain s1 where s1: "sel_put s f ?it = Inr s1" "max_fd s1 = max_fd s"
    by (rule sel_put_ok [OF assms(1) f(1,3)])
  have "selector_set_interest s f i = Inr (SELECTOR_SUCCESS, items_update_fdset_for_fd s1 ?it)"
    using it s1 f by (simp add: selector_set_interest_def INVALID_FD_def ITEMS_MAX_SIZE_def Let_def)
  moreover have "s1\<lparr>max_fd := max_fd s\<rparr> = s1" using s1(2) by simp
  ultimately show ?thesis
    using store_used [OF assms(1) f(1,3,2) _ _ s1(1) order_refl f(4,5)] it
    by (auto simp: fun_upd_idem)
qed

lemma selector_set_interest_unused:
  assumes "sel_inv s" "interest_of s f = None" "f < int (fd_size s)"
  shows "selector_set_interest s f i = Inr (SELECTOR_IARGS, s)"
proof (cases "INVALID_FD f")
  case False
  then have "0 \<le> f" by (simp add: INVALID_FD_def)
  then obtain it where "sel_item s f = Inr it" using sel_inv_item [OF assms(1) _ assms(3)] by metis
  with assms(2) False show ?thesis
    by (simp add: selector_set_interest_def interest_of_def split: if_splits)
qed (simp add: selector_set_interest_def)

lemma selector_register_ok:
  assumes "sel_inv s" "interest_of s f = None" "0 \<le> f" "f < 1024" "f < int (fd_size s)"
  shows "\<exists>s'. selector_register alloc s f (Some h) i d = Inr (SELECTOR_SUCCESS, s') \<and> sel_inv s' \<and>
     interest_of s' = (interest_of s)(f \<mapsto> i) \<and> data_of s' = (data_of s)(f := d) \<and>
     handler_of s' = (handler_of s)(f \<mapsto> h) \<and>
     fd_size s' = fd_size s \<and> resolution_jobs s' = resolution_jobs s \<and>
     slave_r s' = slave_r s \<and> slave_w s' = slave_w s"
proof -
  obtain it where it: "sel_item s f = Inr it" "item_ok f it" by (rule sel_inv_item [OF assms(1,3,5)])
  then have un: "\<not> ITEM_USED it" using assms(2) by (auto simp: interest_of_def split: if_splits)
  let ?it = "it\<lparr>it_fd := f, it_handler := Some h, it_interest := i, it_data := d\<rparr>"
  let ?m = "max f (max_fd s)"
  obtain s1 where s1: "sel_put s f ?it = Inr s1" "max_fd s1 = max_fd s"
    by (rule sel_put_ok [OF assms(1,3,5)])
  have "(if f > max_fd s1 then s1\<lparr>max_fd := f\<rparr> else s1) = s1\<lparr>max_fd := ?m\<rparr>"
    using s1(2) by (auto simp: max_def)
  moreover have "\<not> fd_size s \<le> nat f" using assms(3,5) by linarith
  ultimately have "selector_register alloc s f (Some h) i d =
      Inr (SELECTOR_SUCCESS, items_update_fdset_for_fd (s1\<lparr>max_fd := ?m\<rparr>) ?it)"
    using it(1) un s1(1) assms(3,4)
    by (simp add: selector_register_def INVALID_FD_def ITEMS_MAX_SIZE_def Let_def)
  moreover have "max_fd s \<le> ?m" "f \<le> ?m" "?m < int (fd_size s)"
    using assms by (auto simp: sel_inv_def)
  ultimately show ?thesis
    using store_used [OF assms(1,3,5,4) _ _ s1(1), of ?m] by auto
qed

lemma selector_register_in_use:
  assumes "sel_inv s" "interest_of s f = Some i0"
  shows "selector_register alloc s f (Some h) i d = Inr (SELECTOR_FDINUSE, s)"
proof -
  obtain it where "sel_item s f = Inr it" "ITEM_USED it" by (rule interest_of_item [OF assms])
  then show ?thesis
    using interest_of_range [OF assms]
    by (auto simp: selector_register_def INVALID_FD_def ITEMS_MAX_SIZE_def)
qed

subsection \<open>Removing an item\<close>

lemma items_max_loop_ok:
  assumes "sel_inv s" "\<forall>i \<in> set is. 0 \<le> i \<and> i < int (fd_size s)"
  shows "\<exists>m. items_max_loop s is mx = Inr m \<and> mx \<le> m \<and>
     (\<forall>i \<in> set is. \<forall>x. interest_of s i = Some x \<longrightarrow> i \<le> m) \<and> (m = mx \<or> m \<in> set is)"
  using assms(2)
proof (induction "is" arbitrary: mx)
  case (Cons i "is")
  then obtain it where it: "sel_item s i = Inr it" "item_ok i it"
    using sel_inv_item [OF assms(1)] by (metis list.set_intros(1))
  let ?mx = "if ITEM_USED it \<and> it_fd it > mx then it_fd it else mx"
  obtain m where m: "items_max_loop s is ?mx = Inr m" "?mx \<le> m"
    "\<forall>i \<in> set is. \<forall>x. interest_of s i = Some x \<longrightarrow> i \<le> m" "m = ?mx \<or> m \<in> set is"
    using Cons.IH [of ?mx] Cons.prems by auto
  have "\<forall>x. interest_of s i = Some x \<longrightarrow> i \<le> m"
    using it m(2) by (auto simp: interest_of_def item_ok_def split: if_splits)
  moreover have "mx \<le> m" using m(2) by (auto split: if_splits)
  moreover have "m = mx \<or> m \<in> set (i # is)"
    using m(4) it(2) by (auto simp: item_ok_def split: if_splits)
  ultimately show ?case using m(1,3) it(1) by auto
qed simp

lemma items_max_fd_ok:
  assumes "sel_inv s"
  shows "\<exists>m. items_max_fd s = Inr m \<and> 0 \<le> m \<and> m \<le> max_fd s \<and> (\<forall>f x. interest_of s f = Some x \<longrightarrow> f \<le> m)"
proof -
  have "0 \<le> max_fd s" "max_fd s < int (fd_size s)" using assms by (auto simp: sel_inv_def)
  then have "\<forall>i \<in> set [0..max_fd s]. 0 \<le> i \<and> i < int (fd_size s)" by auto
  from items_max_loop_ok [OF assms this, of 0] obtain m where
    m: "items_max_fd s = Inr m" "0 \<le> m" "\<forall>i \<in> set [0..max_fd s]. \<forall>x. interest_of s i = Some x \<longrightarrow> i \<le> m"
    "m = 0 \<or> m \<in> set [0..max_fd s]"
    unfolding items_max_fd_def by blast
  moreover have "m \<le> max_fd s" using m(4) \<open>0 \<le> max_fd s\<close> by auto
  moreover have "\<forall>f x. interest_of s f = Some x \<longrightarrow> f \<in> set [0..max_fd s]"
    using interest_of_range [OF assms] by auto
  ultimately show ?thesis by blast
qed

lemma item_blank [simp]: "\<not> ITEM_USED (item_init it)" "item_interest (item_init it) = None"
  by (simp_all add: ITEM_USED_def item_init_def FD_UNUSED_def item_interest_def)

lemma blank_item_ok [simp]: "item_ok i (item_init item_zero)"
  by (simp add: item_ok_def item_init_def item_zero_def ITEM_USED_def FD_UNUSED_def OP_NOOP_def)

lemma store_blank:
  assumes inv: "sel_inv s" and i: "interest_of s f = Some i" and it: "it_fd it = f"
    "it_interest it AND OP_READ = 0" "it_interest it AND OP_WRITE = 0"
    and s1: "sel_put (items_update_fdset_for_fd s it) f (item_init item_zero) = Inr s1"
  shows "sel_inv s1 \<and> interest_of s1 = (interest_of s)(f := None) \<and> data_of s1 = (data_of s)(f := None) \<and>
     handler_of s1 = (handler_of s)(f := None) \<and> fd_size s1 = fd_size s \<and>
     resolution_jobs s1 = resolution_jobs s \<and> slave_r s1 = slave_r s \<and> slave_w s1 = slave_w s"
proof -
  have f: "0 \<le> f" "f < int (fd_size s)" "f < 1024" using interest_of_range [OF inv i] by auto
  let ?s = "items_update_fdset_for_fd s it"
  let ?blank = "item_init item_zero"
  obtain xs where xs: "fds s = Some xs" "length xs = fd_size s"
    "\<forall>i < length xs. item_ok (int i) (xs ! i)" using inv by (auto simp: sel_inv_def)
  have s1': "s1 = ?s\<lparr>fds := Some (xs[nat f := ?blank])\<rparr>"
    using s1 xs f by (auto simp: sel_put_def mem_set_def)
  have fds1: "fds s1 = Some (xs[nat f := ?blank])" by (simp add: s1')
  note maps = fds_put_maps [OF xs(1) fds1 f(1)]
  have int: "interest_of s1 = (interest_of s)(f := None)" using maps(1) f(2) xs(2) by simp
  have items: "\<forall>i < length xs. item_ok (int i) (xs[nat f := ?blank] ! i)"
    using xs(3) by (metis blank_item_ok nth_list_update_eq nth_list_update_neq)
  have "f \<noteq> -1" using f by simp
  then have "master_r s1 = wants OP_READ s1" "master_w s1 = wants OP_WRITE s1"
    using inv it by (simp_all add: s1' update_fdset_masters wants_upd [OF int, unfolded s1'] sel_inv_def)
  then have "sel_inv s1"
    using inv xs fds1 items by (auto simp: sel_inv_def int) (auto simp: s1' )
  then show ?thesis using int maps f(2) xs(2) by (simp add: s1')
qed

text \<open>\<open>cb\<close> is the effect of the close callback, which may change the rest of the state and other
  items but leaves this one registered.\<close>

lemma selector_unregister_ok:
  assumes "sel_inv s" "interest_of s f = Some i" "handler_of s f = Some h"
    and cb: "(case handle_close (handlers h) of None \<Rightarrow> Inr (s, g)
       | Some cb \<Rightarrow> cb \<lparr>key_fd = f, key_data = data_of s f\<rparr> (s, g)) = Inr (s1, g1)"
    and s1: "sel_inv s1" "interest_of s1 f = Some i1"
  shows "\<exists>s'. selector_unregister_fd handlers f (s, g) = Inr (SELECTOR_SUCCESS, s', g1) \<and> sel_inv s' \<and>
     interest_of s' = (interest_of s1)(f := None) \<and> data_of s' = (data_of s1)(f := None) \<and>
     handler_of s' = (handler_of s1)(f := None) \<and> fd_size s' = fd_size s1 \<and>
     resolution_jobs s' = resolution_jobs s1 \<and> slave_r s' = slave_r s1 \<and> slave_w s' = slave_w s1"
proof -
  obtain it where it: "sel_item s f = Inr it" "ITEM_USED it" "it_fd it = f" "it_handler it = Some h"
    "it_data it = data_of s f"
    using interest_of_item [OF assms(1,2)] assms(3) by (metis option.inject)
  obtain it1 where it1: "sel_item s1 f = Inr it1" "it_fd it1 = f"
    by (rule interest_of_item [OF s1])
  have valid: "\<not> INVALID_FD f"
    using interest_of_range [OF assms(1,2)] by (simp add: INVALID_FD_def ITEMS_MAX_SIZE_def)
  let ?it = "it1\<lparr>it_interest := OP_NOOP\<rparr>"
  obtain xs where "fds s1 = Some xs" "length xs = fd_size s1" using s1 by (auto simp: sel_inv_def)
  then obtain s3 where s3: "sel_put (items_update_fdset_for_fd s1 ?it) f (item_init item_zero) = Inr s3"
    using interest_of_range [OF s1] by (simp add: sel_put_def mem_set_def)
  note blank = store_blank [OF s1 _ _ _ s3]
  have b: "sel_inv s3" "interest_of s3 = (interest_of s1)(f := None)"
    using blank it1(2) by auto
  obtain m where m: "items_max_fd s3 = Inr m" "0 \<le> m" "m \<le> max_fd s3"
    "\<forall>f x. interest_of s3 f = Some x \<longrightarrow> f \<le> m"
    using items_max_fd_ok [OF b(1)] by blast
  let ?s' = "s3\<lparr>max_fd := m\<rparr>"
  have fr: "interest_of ?s' = interest_of s3" "data_of ?s' = data_of s3" "handler_of ?s' = handler_of s3"
    by (rule interest_of_frame data_of_frame handler_of_frame, simp)+
  have "(case handle_close (handlers h) of None \<Rightarrow> Inr (s, g)
      | Some cb \<Rightarrow> cb \<lparr>key_fd = it_fd it, key_data = it_data it\<rparr> (s, g)) = Inr (s1, g1)"
    using cb it(3,5) by (cases "handle_close (handlers h)") simp_all
  then have "selector_unregister_fd handlers f (s, g) = Inr (SELECTOR_SUCCESS, ?s', g1)"
    using it(1,2,4) it1 valid s3 m(1) by (simp add: selector_unregister_fd_def Let_def)
  moreover have "sel_inv ?s'"
    using b(1) m by (auto simp: sel_inv_def fr wants_def)
  ultimately show ?thesis using blank it1(2) fr by simp
qed

subsection \<open>Creation and growth\<close>

lemma bit_length_bound: "n < 2 ^ bit_length n"
proof (induction n rule: bit_length.induct)
  case (1 n)
  then show ?case by (subst bit_length.simps) auto
qed

lemma next_capacity_ok:
  "n \<le> 1024 \<Longrightarrow> \<exists>c. next_capacity n = Inr c \<and> n < c \<and> c \<le> 1025"
  using bit_length_bound [of n] by (auto simp: next_capacity_def Let_def ITEMS_MAX_SIZE_def)

lemma interest_of_blank:
  assumes "fds s = Some xs" "\<forall>i < length xs. \<not> ITEM_USED (xs ! i)"
  shows "interest_of s = Map.empty"
  by (rule ext) (use assms in \<open>auto simp: interest_of_def sel_item_def mem_get_def\<close>)

lemma selector_new_ok:
  assumes "n \<le> 1024"
  shows "\<exists>s. selector_new conf True True n = Inr (Some s) \<and> sel_inv s \<and> interest_of s = Map.empty \<and>
     n < fd_size s \<and> resolution_jobs s = []"
proof -
  obtain c where c: "next_capacity n = Inr c" "n < c" "c \<le> 1025" using next_capacity_ok [OF assms] by auto
  let ?xs = "map item_init (replicate c item_zero) :: ('a, 'b) item list"
  define s where "s = selector_zero\<lparr>master_t := conf_timeout conf, fds := Some ?xs, fd_size := c\<rparr>"
  have s: "fds s = Some ?xs" "fd_size s = c" "max_fd s = 0" "master_r s = {}" "master_w s = {}"
    "resolution_jobs s = []"
    by (simp_all add: s_def selector_zero_def)
  have "selector_new conf True True n = Inr (Some s)"
    using assms c
    by (simp add: selector_new_def ensure_capacity_def selector_zero_def items_init_def ITEMS_MAX_SIZE_def
        Let_def s_def)
  moreover have int: "interest_of s = Map.empty" by (rule interest_of_blank [OF s(1)]) auto
  moreover have "sel_inv s"
    using c(2) by (simp add: sel_inv_def int wants_def s)
  ultimately show ?thesis using c(2) s by auto
qed

lemma ensure_capacity_ok:
  assumes "sel_inv s" "n \<le> 1024"
  shows "\<exists>s'. ensure_capacity True s n = Inr (SELECTOR_SUCCESS, s') \<and> sel_inv s' \<and>
     interest_of s' = interest_of s \<and> data_of s' = data_of s \<and> handler_of s' = handler_of s \<and>
     n < fd_size s' \<and> resolution_jobs s' = resolution_jobs s \<and> slave_r s' = slave_r s \<and> slave_w s' = slave_w s"
proof (cases "n < fd_size s")
  case True
  with assms show ?thesis by (simp add: ensure_capacity_def)
next
  case False
  obtain xs where xs: "fds s = Some xs" "length xs = fd_size s" "\<forall>i < length xs. item_ok (int i) (xs ! i)"
    using assms(1) by (auto simp: sel_inv_def)
  obtain c where c: "next_capacity n = Inr c" "n < c" "c \<le> 1025" using next_capacity_ok [OF assms(2)] by auto
  let ?k = "c - length xs"
  let ?ys = "xs @ replicate ?k (item_init item_zero)"
  define s' where "s' = s\<lparr>fds := Some ?ys, fd_size := c\<rparr>"
  have s': "fds s' = Some ?ys" "fd_size s' = c" "max_fd s' = max_fd s" "master_r s' = master_r s"
    "master_w s' = master_w s" "resolution_jobs s' = resolution_jobs s" "slave_r s' = slave_r s"
    "slave_w s' = slave_w s"
    by (simp_all add: s'_def)
  have len: "length xs \<le> c" "n \<ge> fd_size s" using False c xs(2) by auto
  then have cap: "ensure_capacity True s n = Inr (SELECTOR_SUCCESS, s')"
    using False assms(2) c xs(1,2)
    by (simp add: ensure_capacity_def ITEMS_MAX_SIZE_def SIZE_MAX_def sizeof_item_def items_init_def Let_def s'_def)
  have it: "sel_item s' f = (if 0 \<le> f \<and> f < int c \<and> int (length xs) \<le> f
      then Inr (item_init item_zero) else sel_item s f)" for f
    using len(1) xs(1) by (auto simp: sel_item_def mem_get_def nth_append s'(1))
  have out: "sel_item s f = Inl Out_of_bounds" if "int (length xs) \<le> f" for f
    using that xs(1) by (simp add: sel_item_def mem_get_def)
  have fr: "interest_of s' = interest_of s" "data_of s' = data_of s" "handler_of s' = handler_of s"
    by (rule ext, simp add: interest_of_def data_of_def handler_of_def it out)+
  have "\<forall>i < c. item_ok (int i) ((xs @ replicate ?k (item_init item_zero)) ! i)"
    using xs(3) len(1) by (auto simp: nth_append)
  moreover have "max_fd s < int c" using assms(1) len xs(2) by (auto simp: sel_inv_def)
  ultimately have "sel_inv s'"
    using assms(1) len(1) by (simp add: sel_inv_def fr wants_def s')
  with cap fr show ?thesis using c(2) s' by auto
qed

section \<open>The interface the connection handlers use\<close>

locale fd_registry =
  fixes inv :: "'s \<Rightarrow> bool"
    and interests :: "'s \<Rightarrow> fd \<rightharpoonup> fd_interest"
    and set_int :: "'s \<Rightarrow> fd \<Rightarrow> fd_interest \<Rightarrow> (selector_status \<times> 's) res"
  assumes set_law: "inv s \<Longrightarrow> f \<in> dom (interests s) \<Longrightarrow>
      \<exists>s'. set_int s f i = Inr (SELECTOR_SUCCESS, s') \<and> inv s' \<and> interests s' = (interests s)(f \<mapsto> i)"
begin

lemma set_one:
  assumes "inv s" "f \<in> dom (interests s)"
  obtains s' where "set_int s f i = Inr (SELECTOR_SUCCESS, s')" "inv s'"
    "interests s' = (interests s)(f \<mapsto> i)" "dom (interests s') = dom (interests s)"
  using set_law [OF assms, of i] assms(2) that by (auto simp: insert_absorb)

lemma set_two:
  assumes "inv s" "f \<in> dom (interests s)" "g \<in> dom (interests s)"
  obtains s1 s2 where "set_int s f i = Inr (SELECTOR_SUCCESS, s1)"
    "set_int s1 g j = Inr (SELECTOR_SUCCESS, s2)" "inv s2"
    "interests s2 = (interests s)(f \<mapsto> i, g \<mapsto> j)" "dom (interests s2) = dom (interests s)"
proof -
  obtain s1 where 1: "set_int s f i = Inr (SELECTOR_SUCCESS, s1)" "inv s1"
    "interests s1 = (interests s)(f \<mapsto> i)" "dom (interests s1) = dom (interests s)"
    by (rule set_one [OF assms(1,2)])
  have "g \<in> dom (interests s1)" using 1(4) assms(3) by simp
  then obtain s2 where "set_int s1 g j = Inr (SELECTOR_SUCCESS, s2)" "inv s2"
    "interests s2 = (interests s1)(g \<mapsto> j)" "dom (interests s2) = dom (interests s1)"
    by (rule set_one [OF 1(2)])
  with 1 show thesis by (intro that [of s1 s2]) simp_all
qed

end

interpretation reg: fd_registry sel_inv interest_of selector_set_interest
  by unfold_locales (use selector_set_interest_ok in blast)

section \<open>Dispatching to handlers that leave the selector alone\<close>

text \<open>The calls one iteration makes: for each descriptor in ascending order its read handler and then
  its write handler (\<open>True\<close>), each if the descriptor was found ready and the interest is still set.\<close>

definition ready_events :: "('h, 'd) fdselector \<Rightarrow> fd \<Rightarrow> (fd \<times> bool) list" where
  "ready_events s i =
     (if i \<in> slave_r s \<and> i \<in> wants OP_READ s then [(i, False)] else []) @
     (if i \<in> slave_w s \<and> i \<in> wants OP_WRITE s then [(i, True)] else [])"

definition dispatch_events :: "('h, 'd) fdselector \<Rightarrow> (fd \<times> bool) list" where
  "dispatch_events s = concat (map (ready_events s) [0..max_fd s])"

definition run_event ::
  "('h \<Rightarrow> bool \<Rightarrow> 'd selector_key \<Rightarrow> 'g \<Rightarrow> 'g) \<Rightarrow> ('h, 'd) fdselector \<Rightarrow> fd \<times> bool \<Rightarrow> 'g \<Rightarrow> 'g" where
  "run_event act s = (\<lambda>(f, w) g.
     case handler_of s f of None \<Rightarrow> g | Some h \<Rightarrow> act h w \<lparr>key_fd = f, key_data = data_of s f\<rparr> g)"

lemma handle_item_frame:
  assumes "sel_inv s" "0 \<le> i" "i < int (fd_size s)"
    and "\<And>h. handle_read (handlers h) = Some (\<lambda>key (s, g). Inr (s, act h False key g))"
    and "\<And>h. handle_write (handlers h) = Some (\<lambda>key (s, g). Inr (s, act h True key g))"
  shows "handle_item handlers i (s, g) = Inr (s, fold (run_event act s) (ready_events s i) g)"
proof (cases "interest_of s i")
  case None
  obtain it where "sel_item s i = Inr it" by (rule sel_inv_item [OF assms(1-3)])
  with None show ?thesis
    by (auto simp: handle_item_def interest_of_def ready_events_def wants_def split: if_splits)
next
  case (Some x)
  obtain it h where "sel_item s i = Inr it" "ITEM_USED it" "it_fd it = i" "it_interest it = x"
    "it_handler it = Some h" "handler_of s i = Some h" "it_data it = data_of s i"
    by (rule interest_of_item [OF assms(1) Some])
  with Some show ?thesis
    by (auto simp: handle_item_def call_handler_def assms(4,5) ready_events_def wants_def run_event_def
        Let_def and.commute)
qed

lemma handle_items_frame:
  assumes "sel_inv s" "\<forall>i \<in> set is. 0 \<le> i \<and> i < int (fd_size s)"
    and "\<And>h. handle_read (handlers h) = Some (\<lambda>key (s, g). Inr (s, act h False key g))"
    and "\<And>h. handle_write (handlers h) = Some (\<lambda>key (s, g). Inr (s, act h True key g))"
  shows "handle_items handlers is (s, g) =
     Inr (s, fold (run_event act s) (concat (map (ready_events s) is)) g)"
  using assms(2)
proof (induction "is" arbitrary: g)
  case (Cons i "is")
  then show ?case
    using handle_item_frame [where handlers = handlers and act = act, OF assms(1) _ _ assms(3,4)] by simp
qed simp

text \<open>Registration of a free descriptor, the table growing as needed.\<close>

lemma selector_register_grow:
  assumes "sel_inv s" "interest_of s f = None" "0 \<le> f" "f < 1024"
  obtains s' where "selector_register True s f (Some h) i d = Inr (SELECTOR_SUCCESS, s')" "sel_inv s'"
    "interest_of s' = (interest_of s)(f \<mapsto> i)" "data_of s' = (data_of s)(f := d)"
    "handler_of s' = (handler_of s)(f \<mapsto> h)"
proof -
  obtain s1 where s1: "ensure_capacity True s (nat f) = Inr (SELECTOR_SUCCESS, s1)" "sel_inv s1"
    "interest_of s1 = interest_of s" "data_of s1 = data_of s" "handler_of s1 = handler_of s"
    "nat f < fd_size s1"
    using ensure_capacity_ok [OF assms(1), of "nat f"] assms(4) by fastforce
  have "f < int (fd_size s1)" using s1(6) assms(3) by linarith
  then obtain s2 where s2: "selector_register True s1 f (Some h) i d = Inr (SELECTOR_SUCCESS, s2)" "sel_inv s2"
    "interest_of s2 = (interest_of s1)(f \<mapsto> i)" "data_of s2 = (data_of s1)(f := d)"
    "handler_of s2 = (handler_of s1)(f \<mapsto> h)"
    using selector_register_ok [OF s1(2) _ assms(3,4)] s1(3) assms(2) by metis
  moreover have "selector_register True s f (Some h) i d = selector_register True s1 f (Some h) i d"
  proof (cases "fd_size s \<le> nat f")
    case True
    with s1(1,6) assms(3,4) show ?thesis
      by (simp add: selector_register_def INVALID_FD_def ITEMS_MAX_SIZE_def)
  next
    case False
    then have "s1 = s" using s1(1) by (simp add: ensure_capacity_def)
    then show ?thesis by simp
  qed
  ultimately show thesis using s1(3-5) that by auto
qed

section \<open>Properties\<close>

text \<open>C22. Registration refines an update of the map from descriptors to interests: any descriptor of
  0 to 1023 that is not registered is accepted, the table growing when it is too small, nothing else
  changes, and the sets handed to \<open>pselect\<close> still are exactly the descriptors with that interest.
  A registered one is refused.\<close>

theorem selector_register_refines:
  assumes "sel_inv s" "0 \<le> f" "f < 1024"
  shows "(interest_of s f = None \<longrightarrow>
      (\<exists>s'. selector_register True s f (Some h) i d = Inr (SELECTOR_SUCCESS, s') \<and> sel_inv s' \<and>
         interest_of s' = (interest_of s)(f \<mapsto> i) \<and> data_of s' = (data_of s)(f := d) \<and>
         handler_of s' = (handler_of s)(f \<mapsto> h))) \<and>
    (interest_of s f \<noteq> None \<longrightarrow> selector_register True s f (Some h) i d = Inr (SELECTOR_FDINUSE, s))"
proof (intro conjI impI)
  assume "interest_of s f = None"
  then show "\<exists>s'. selector_register True s f (Some h) i d = Inr (SELECTOR_SUCCESS, s') \<and> sel_inv s' \<and>
         interest_of s' = (interest_of s)(f \<mapsto> i) \<and> data_of s' = (data_of s)(f := d) \<and>
         handler_of s' = (handler_of s)(f \<mapsto> h)"
    using selector_register_grow [OF assms(1) _ assms(2,3)] by metis
next
  assume "interest_of s f \<noteq> None"
  then show "selector_register True s f (Some h) i d = Inr (SELECTOR_FDINUSE, s)"
    using selector_register_in_use [OF assms(1)] by auto
qed

text \<open>A selector as \<open>selector_new\<close> makes it for the witnesses.\<close>

lemma new_selector:
  obtains s :: "('h, 'd) fdselector" where
    "selector_new \<lparr>conf_signal = 14, conf_timeout = (10, 0)\<rparr> True True 4 = Inr (Some s)"
    "sel_inv s" "interest_of s = Map.empty" "4 < fd_size s"
  using selector_new_ok [of 4 "\<lparr>conf_signal = 14, conf_timeout = (10, 0)\<rparr>"] that by auto

theorem selector_register_refines_witness:
  "\<exists>s s' :: (bool, nat) fdselector.
      selector_new \<lparr>conf_signal = 14, conf_timeout = (10, 0)\<rparr> True True 4 = Inr (Some s) \<and>
      selector_register True s 700 (Some True) OP_READ (Some 3) = Inr (SELECTOR_SUCCESS, s') \<and>
      interest_of s' 700 = Some OP_READ"
proof -
  obtain s :: "(bool, nat) fdselector" where s:
    "selector_new \<lparr>conf_signal = 14, conf_timeout = (10, 0)\<rparr> True True 4 = Inr (Some s)"
    "sel_inv s" "interest_of s = Map.empty"
    by (rule new_selector)
  with selector_register_refines [OF s(2), of 700 True OP_READ "Some 3"] show ?thesis by auto
qed





end
