(* ===== verification/Registry.thy ===== *)
theory Registry
  imports Prelude
begin

text \<open>
  Model of the two account tables: the proxy users of \<open>src/server/socks5nio.c\<close> (\<open>struct user\<close>,
  \<open>users\<close>, \<open>registered_users\<close>) and the administrators of \<open>src/server/monitornio.c\<close>
  (\<open>struct admin\<close>, \<open>admins\<close>, \<open>registered_admins\<close>).

  A table is the bytes of its array and the number of records in use. A record starts with a name of
  255 bytes; its second field is a password of 255 bytes or a token of 17. Strings are read from the
  array the way C reads them, on past the end of a field that has no terminator and faulting only at
  the end of the array. Arguments of type \<open>char *\<close> are the bytes before their terminator.

  \<open>reg_entries\<close> abstracts a table to the list of its accounts, and the locale \<open>name_registry\<close> states
  the contract of both tables: a list of bounded length with distinct names.
\<close>

section \<open>Strings in an array\<close>

text \<open>\<open>strcmp (u, xs) == 0\<close> for a string \<open>u\<close> and a pointer to the bytes \<open>xs\<close>.\<close>

fun strcmp_eq :: "byte list \<Rightarrow> byte list \<Rightarrow> bool res" where
  "strcmp_eq [] [] = Inl Out_of_bounds"
| "strcmp_eq [] (y # ys) = Inr (y = 0)"
| "strcmp_eq (x # xs) [] = Inl Out_of_bounds"
| "strcmp_eq (x # xs) (y # ys) = (if x = y then strcmp_eq xs ys else Inr False)"

section \<open>Tables\<close>

record registry =
  rg_mem :: "byte list"
  rg_count :: nat

definition MAX_USERS :: nat where "MAX_USERS = 10"

definition MAX_ADMINS :: nat where "MAX_ADMINS = 3"

definition sizeof_user :: nat where "sizeof_user = 0xff + 0xff"

definition sizeof_admin :: nat where "sizeof_admin = 0xff + 0x11"

definition users_init :: registry where
  "users_init = \<lparr>rg_mem = replicate (MAX_USERS * sizeof_user) 0, rg_count = 0\<rparr>"

definition admins_init :: registry where
  "admins_init = \<lparr>rg_mem = replicate (MAX_ADMINS * sizeof_admin) 0, rg_count = 0\<rparr>"

text \<open>The loops that compare a name with the records \<open>i, i + 1, ..., n - 1\<close>; the first match.\<close>

fun find_name :: "nat \<Rightarrow> byte list \<Rightarrow> byte list \<Rightarrow> nat list \<Rightarrow> nat option res" where
  "find_name sz mem u [] = Inr None"
| "find_name sz mem u (i # is) =
     rbind (strcmp_eq u (drop (sz * i) mem)) (\<lambda>eq.
       if eq then Inr (Some i) else find_name sz mem u is)"

text \<open>\<open>strncpy\<close> of the name and of the second field, of \<open>k\<close> bytes, into record \<open>i\<close>.\<close>

definition store_record :: "nat \<Rightarrow> nat \<Rightarrow> byte list \<Rightarrow> nat \<Rightarrow> byte list \<Rightarrow> byte list \<Rightarrow> byte list" where
  "store_record sz k mem i u p =
     overwrite (overwrite mem (sz * i) (strncpy_bytes 0xff u)) (sz * i + 0xff) (strncpy_bytes k p)"

text \<open>The removal of record \<open>i\<close>: the records behind it move down by one.\<close>

definition remove_record :: "nat \<Rightarrow> registry \<Rightarrow> nat \<Rightarrow> registry" where
  "remove_record sz r i =
     r\<lparr>rg_mem := (if i + 1 < rg_count r
                  then overwrite (rg_mem r) (sz * i)
                         (take (sz * (rg_count r - (i + 1))) (drop (sz * (i + 1)) (rg_mem r)))
                  else rg_mem r),
       rg_count := rg_count r - 1\<rparr>"

subsection \<open>Users of the proxy\<close>

definition socksv5_register_user :: "byte list \<Rightarrow> byte list \<Rightarrow> registry \<Rightarrow> (int \<times> registry) res" where
  "socksv5_register_user uname passwd r =
     (if rg_count r \<ge> MAX_USERS then Inr (1, r)
      else rbind (find_name sizeof_user (rg_mem r) uname [0..<rg_count r]) (\<lambda>m.
        if m \<noteq> None then Inr (-1, r)
        else Inr (0, r\<lparr>rg_mem := store_record sizeof_user 0xff (rg_mem r) (rg_count r) uname passwd,
                       rg_count := rg_count r + 1\<rparr>)))"

definition socksv5_unregister_user :: "byte list \<Rightarrow> registry \<Rightarrow> (int \<times> registry) res" where
  "socksv5_unregister_user uname r =
     rbind (find_name sizeof_user (rg_mem r) uname [0..<rg_count r]) (\<lambda>m.
       case m of None \<Rightarrow> Inr (-1, r) | Some i \<Rightarrow> Inr (0, remove_record sizeof_user r i))"

text \<open>The loop of the two listing functions: \<open>strcpy\<close> of each name behind the previous one and its
  terminator; \<open>dlen\<close> is a \<open>uint16_t\<close>, the destination the bytes \<open>out\<close>.\<close>

fun copy_names :: "nat \<Rightarrow> byte list \<Rightarrow> nat list \<Rightarrow> u16 \<Rightarrow> byte list \<Rightarrow> (u16 \<times> byte list) res" where
  "copy_names sz mem [] dlen out = Inr (dlen, out)"
| "copy_names sz mem (i # is) dlen out =
     rbind (read_cstr (drop (sz * i) mem)) (\<lambda>s.
       if unat dlen + length s + 1 \<le> length out
       then copy_names sz mem is (dlen + of_nat (length s) + 1) (overwrite out (unat dlen) (s @ [0]))
       else Inl Out_of_bounds)"

definition list_length :: "u16 \<Rightarrow> u16" where
  "list_length dlen = (if dlen > 1 then dlen - 1 else 0)"

definition socksv5_get_users :: "registry \<Rightarrow> byte list \<Rightarrow> (u16 \<times> byte list) res" where
  "socksv5_get_users r unames =
     rbind (copy_names sizeof_user (rg_mem r) [0..<rg_count r] 0 unames)
       (\<lambda>(dlen, out). Inr (list_length dlen, out))"

text \<open>The loop of \<open>auth_process\<close>: the first user whose name and password both agree with the
  fields of \<open>struct auth\<close> under \<open>strncmp (..., 0xff)\<close>.\<close>

fun find_user :: "registry \<Rightarrow> byte list \<Rightarrow> byte list \<Rightarrow> nat list \<Rightarrow> nat option" where
  "find_user r uname passwd [] = None"
| "find_user r uname passwd (i # is) =
     (if strncmp_eq 0xff uname (drop (sizeof_user * i) (rg_mem r)) \<and>
         strncmp_eq 0xff passwd (drop (sizeof_user * i + 0xff) (rg_mem r))
      then Some i else find_user r uname passwd is)"

definition authenticate :: "registry \<Rightarrow> byte list \<Rightarrow> byte list \<Rightarrow> nat option" where
  "authenticate r uname passwd = find_user r uname passwd [0..<rg_count r]"

subsection \<open>Administrators\<close>

definition default_admin_uname :: "byte list" where
  "default_admin_uname = bytes_of ''root''"

definition monitor_register_admin :: "byte list \<Rightarrow> byte list \<Rightarrow> registry \<Rightarrow> (int \<times> registry) res" where
  "monitor_register_admin uname token r =
     (if rg_count r \<ge> MAX_ADMINS then Inr (1, r)
      else if length token \<noteq> 0x10 then Inr (-1, r)
      else rbind (find_name sizeof_admin (rg_mem r) uname [0..<rg_count r]) (\<lambda>m.
        if m \<noteq> None then Inr (-1, r)
        else Inr (0, r\<lparr>rg_mem := store_record sizeof_admin 0x11 (rg_mem r) (rg_count r)
                         (if rg_count r = 0 then default_admin_uname else uname) token,
                       rg_count := rg_count r + 1\<rparr>)))"

definition monitor_unregister_admin :: "byte list \<Rightarrow> registry \<Rightarrow> (int \<times> registry) res" where
  "monitor_unregister_admin uname r =
     (if default_admin_uname = uname then Inr (-1, r)
      else rbind (find_name sizeof_admin (rg_mem r) uname [1..<rg_count r]) (\<lambda>m.
        case m of None \<Rightarrow> Inr (-1, r) | Some i \<Rightarrow> Inr (0, remove_record sizeof_admin r i)))"

definition monitor_get_admins :: "registry \<Rightarrow> byte list \<Rightarrow> (u16 \<times> byte list) res" where
  "monitor_get_admins r unames =
     rbind (copy_names sizeof_admin (rg_mem r) [0..<rg_count r] 0 unames)
       (\<lambda>(dlen, out). Inr (list_length dlen, out))"

fun find_token :: "registry \<Rightarrow> byte list \<Rightarrow> nat list \<Rightarrow> bool" where
  "find_token r token [] = False"
| "find_token r token (i # is) =
     (strncmp_eq 0x10 token (drop (sizeof_admin * i + 0xff) (rg_mem r)) \<or> find_token r token is)"

definition monitor_is_admin :: "registry \<Rightarrow> byte list \<Rightarrow> bool" where
  "monitor_is_admin r token = find_token r token [0..<rg_count r]"

section \<open>Abstraction and invariant\<close>

definition rec_at :: "nat \<Rightarrow> byte list \<Rightarrow> nat \<Rightarrow> byte list" where
  "rec_at sz mem i = take sz (drop (sz * i) mem)"

text \<open>A record that holds an account: name and second field as \<open>strncpy\<close> leaves them.\<close>

definition record_bytes :: "nat \<Rightarrow> byte list \<times> byte list \<Rightarrow> byte list" where
  "record_bytes k e = strncpy_bytes 0xff (fst e) @ strncpy_bytes k (snd e)"

definition c_string :: "nat \<Rightarrow> byte list \<Rightarrow> bool" where
  "c_string n s \<longleftrightarrow> 0 \<notin> set s \<and> length s < n"

definition reg_entries :: "nat \<Rightarrow> registry \<Rightarrow> (byte list \<times> byte list) list" where
  "reg_entries sz r =
     map (\<lambda>i. (cstr (take 0xff (rec_at sz (rg_mem r) i)), cstr (drop 0xff (rec_at sz (rg_mem r) i))))
       [0..<rg_count r]"

definition reg_inv :: "nat \<Rightarrow> nat \<Rightarrow> registry \<Rightarrow> bool" where
  "reg_inv k mx r \<longleftrightarrow>
     length (rg_mem r) = (0xff + k) * mx \<and> rg_count r \<le> mx \<and>
     (\<forall>i < rg_count r. \<exists>u p. c_string 0xff u \<and> c_string k p \<and>
        rec_at (0xff + k) (rg_mem r) i = record_bytes k (u, p)) \<and>
     distinct (map fst (reg_entries (0xff + k) r))"

section \<open>Lemmas on records\<close>

lemma nth_overwrite:
  "off + length ys \<le> length xs \<Longrightarrow> p < length xs \<Longrightarrow>
   overwrite xs off ys ! p = (if off \<le> p \<and> p < off + length ys then ys ! (p - off) else xs ! p)"
  by (auto simp: overwrite_def nth_append)

lemma overwrite_overwrite:
  assumes "off + length xs + length ys \<le> length m"
  shows "overwrite (overwrite m off xs) (off + length xs) ys = overwrite m off (xs @ ys)"
  using assms by (simp add: overwrite_def add.assoc add.commute [of "length ys"])

lemma mult_block:
  fixes sz i j r :: nat
  assumes "r < sz"
  shows "sz * j \<le> sz * i + r \<longleftrightarrow> j \<le> i" "sz * i + r < sz * j \<longleftrightarrow> i < j"
proof -
  show lt: "sz * i + r < sz * j \<longleftrightarrow> i < j"
  proof
    assume "sz * i + r < sz * j"
    then have "sz * i < sz * j" by linarith
    then show "i < j" by simp
  next
    assume "i < j"
    then have "sz * Suc i \<le> sz * j" by (intro mult_le_mono2) simp
    with assms show "sz * i + r < sz * j" by simp
  qed
  then show "sz * j \<le> sz * i + r \<longleftrightarrow> j \<le> i" by (meson not_le)
qed

lemma length_rec_at:
  "i < mx \<Longrightarrow> length mem = sz * mx \<Longrightarrow> length (rec_at sz mem i) = sz"
proof -
  assume "i < mx" "length mem = sz * mx"
  moreover have "sz * Suc i \<le> sz * mx" using \<open>i < mx\<close> by (intro mult_le_mono2) simp
  ultimately show ?thesis by (simp add: rec_at_def)
qed

lemma nth_rec_at:
  "i < mx \<Longrightarrow> length mem = sz * mx \<Longrightarrow> r < sz \<Longrightarrow> rec_at sz mem i ! r = mem ! (sz * i + r)"
  using mult_block(2) [of r sz i mx] by (simp add: rec_at_def)

lemma rec_at_overwrite:
  assumes "length mem = sz * mx" "j + n \<le> mx" "length ys = sz * n" "i < mx"
  shows "rec_at sz (overwrite mem (sz * j) ys) i =
     (if j \<le> i \<and> i < j + n then rec_at sz ys (i - j) else rec_at sz mem i)"
    (is "?l = ?r")
proof (rule nth_equalityI)
  have fits: "sz * j + length ys \<le> length mem"
    using assms by (simp flip: distrib_left)
  then have len: "length (overwrite mem (sz * j) ys) = sz * mx" using assms(1) by simp
  show "length ?l = length ?r"
    using assms by (auto simp: length_rec_at [OF assms(4) len] length_rec_at [OF assms(4,1)]
        length_rec_at [where mx = n])
  fix r
  assume "r < length ?l"
  then have r: "r < sz" using length_rec_at [OF assms(4) len] by simp
  then have p: "sz * i + r < length mem" using assms(1,4) mult_block(2) by simp
  have rng: "sz * j \<le> sz * i + r \<and> sz * i + r < sz * j + length ys \<longleftrightarrow> j \<le> i \<and> i < j + n"
    using mult_block [OF r] assms(3) by (simp flip: distrib_left)
  have off: "j \<le> i \<Longrightarrow> sz * i + r - sz * j = sz * (i - j) + r"
    by (metis Nat.add_diff_assoc2 diff_mult_distrib2 mult_le_mono2)
  show "?l ! r = ?r ! r"
    using nth_rec_at [OF assms(4) len r] nth_rec_at [OF assms(4,1) r] nth_overwrite [OF fits p] rng off
      nth_rec_at [of "i - j" n ys sz r] assms(3) r
    by auto
qed

lemma length_record_bytes [simp]: "length (record_bytes k e) = 0xff + k"
  by (simp add: record_bytes_def)

lemma strncpy_split:
  "c_string n s \<Longrightarrow> strncpy_bytes n s = s @ 0 # replicate (n - Suc (length s)) 0"
proof -
  assume "c_string n s"
  then have "n - length s = Suc (n - Suc (length s))" unfolding c_string_def by linarith
  then show ?thesis using \<open>c_string n s\<close> by (simp add: strncpy_bytes_def c_string_def)
qed

lemma record_fields:
  assumes "c_string 0xff u" "c_string k p"
  shows "cstr (take 0xff (record_bytes k (u, p))) = u" "cstr (drop 0xff (record_bytes k (u, p))) = p"
  using assms by (simp_all add: record_bytes_def cstr_strncpy c_string_def)

lemma strcmp_eq_string:
  "0 \<notin> set u \<Longrightarrow> 0 \<notin> set v \<Longrightarrow> strcmp_eq u (v @ 0 # rest) = Inr (u = v)"
proof (induction u arbitrary: v)
  case Nil
  then show ?case by (cases v) auto
next
  case (Cons x u)
  then show ?case by (cases v) auto
qed

lemma drop_rec_at: "drop (sz * i) mem = rec_at sz mem i @ drop (sz * Suc i) mem"
proof -
  have "drop (sz * Suc i) mem = drop sz (drop (sz * i) mem)" by (simp add: add.commute)
  then show ?thesis unfolding rec_at_def by (metis append_take_drop_id)
qed

lemma store_record_eq:
  assumes "length mem = (0xff + k) * mx" "n < mx"
  shows "store_record (0xff + k) k mem n u p = overwrite mem ((0xff + k) * n) (record_bytes k (u, p))"
proof -
  have "(0xff + k) * n + (0xff + k) \<le> length mem"
    using assms by (metis Suc_leI add.commute mult_Suc_right mult_le_mono2)
  then show ?thesis
    unfolding store_record_def record_bytes_def
    using overwrite_overwrite [of "(0xff + k) * n" "strncpy_bytes 0xff u" "strncpy_bytes k p" mem] by simp
qed

lemma entries_nth:
  "i < rg_count r \<Longrightarrow> reg_entries sz r ! i =
     (cstr (take 0xff (rec_at sz (rg_mem r) i)), cstr (drop 0xff (rec_at sz (rg_mem r) i)))"
  by (simp add: reg_entries_def)

lemma length_reg_entries [simp]: "length (reg_entries sz r) = rg_count r"
  by (simp add: reg_entries_def)

lemma reg_inv_record:
  assumes "reg_inv k mx r" "i < rg_count r"
  shows "rec_at (0xff + k) (rg_mem r) i = record_bytes k (reg_entries (0xff + k) r ! i)"
    and "c_string 0xff (fst (reg_entries (0xff + k) r ! i))" "c_string k (snd (reg_entries (0xff + k) r ! i))"
proof -
  obtain u p where up: "c_string 0xff u" "c_string k p" "rec_at (0xff + k) (rg_mem r) i = record_bytes k (u, p)"
    using assms by (auto simp: reg_inv_def)
  then have "reg_entries (0xff + k) r ! i = (u, p)" using assms(2) by (simp add: entries_nth record_fields)
  with up show "rec_at (0xff + k) (rg_mem r) i = record_bytes k (reg_entries (0xff + k) r ! i)"
    "c_string 0xff (fst (reg_entries (0xff + k) r ! i))" "c_string k (snd (reg_entries (0xff + k) r ! i))"
    by simp_all
qed

lemma name_in_memory:
  assumes "reg_inv k mx r" "i < rg_count r"
  shows "\<exists>rest. drop ((0xff + k) * i) (rg_mem r) = fst (reg_entries (0xff + k) r ! i) @ 0 # rest"
  using reg_inv_record [OF assms]
  by (simp add: drop_rec_at [of "0xff + k"] record_bytes_def strncpy_split)

lemma strcmp_name:
  assumes "reg_inv k mx r" "i < rg_count r" "0 \<notin> set u"
  shows "strcmp_eq u (drop ((0xff + k) * i) (rg_mem r)) = Inr (u = fst (reg_entries (0xff + k) r ! i))"
  using name_in_memory [OF assms(1,2)] reg_inv_record(2) [OF assms(1,2)] strcmp_eq_string [OF assms(3)]
  by (auto simp: c_string_def)

lemma find_name_eq:
  assumes "reg_inv k mx r" "0 \<notin> set u" "\<forall>i \<in> set is. i < rg_count r"
  shows "find_name (0xff + k) (rg_mem r) u is =
     Inr (List.find (\<lambda>i. fst (reg_entries (0xff + k) r ! i) = u) is)"
  using assms(3)
proof (induction "is")
  case (Cons i "is")
  then show ?case using strcmp_name [OF assms(1) _ assms(2), of i] by auto
qed simp

lemma filter_unique:
  "distinct (map fst es) \<Longrightarrow> i < length es \<Longrightarrow> fst (es ! i) = u \<Longrightarrow>
   filter (\<lambda>e. fst e \<noteq> u) es = take i es @ drop (Suc i) es"
proof (induction es arbitrary: i)
  case (Cons e es)
  show ?case
  proof (cases i)
    case 0
    with Cons.prems have "u \<notin> set (map fst es)" by auto
    then have "filter (\<lambda>e. fst e \<noteq> u) es = es" by (force simp: filter_id_conv)
    with 0 Cons.prems show ?thesis by auto
  next
    case (Suc j)
    then have "u \<in> fst ` set es" using Cons.prems by auto
    moreover have "fst e \<notin> fst ` set es" using Cons.prems(1) by simp
    ultimately have "fst e \<noteq> u" by metis
    with Suc Cons show ?thesis by simp
  qed
qed simp

subsection \<open>Adding and removing a record\<close>

lemma add_record:
  assumes "reg_inv k mx r" "rg_count r < mx" "c_string 0xff u" "c_string k p"
    "u \<notin> set (map fst (reg_entries (0xff + k) r))"
  defines "r' \<equiv> r\<lparr>rg_mem := store_record (0xff + k) k (rg_mem r) (rg_count r) u p, rg_count := rg_count r + 1\<rparr>"
  shows "reg_inv k mx r' \<and> reg_entries (0xff + k) r' = reg_entries (0xff + k) r @ [(u, p)]"
proof -
  let ?sz = "0xff + k"
  let ?n = "rg_count r"
  have len: "length (rg_mem r) = ?sz * mx" using assms(1) by (simp add: reg_inv_def)
  have mem: "rg_mem r' = overwrite (rg_mem r) (?sz * ?n) (record_bytes k (u, p))"
    by (simp add: r'_def store_record_eq [OF len assms(2)])
  have rec: "rec_at ?sz (rg_mem r') i = (if i = ?n then record_bytes k (u, p) else rec_at ?sz (rg_mem r) i)"
    if "i < mx" for i
    using rec_at_overwrite [OF len, of ?n 1 "record_bytes k (u, p)" i] that assms(2)
    by (auto simp: mem rec_at_def)
  have cnt: "rg_count r' = Suc ?n" by (simp add: r'_def)
  have es: "reg_entries ?sz r' = reg_entries ?sz r @ [(u, p)]"
  proof (rule nth_equalityI)
    fix i
    assume "i < length (reg_entries ?sz r')"
    then have i: "i \<le> ?n" "i < rg_count r'" by (simp_all add: cnt)
    then show "reg_entries ?sz r' ! i = (reg_entries ?sz r @ [(u, p)]) ! i"
      using assms(2) record_fields [OF assms(3,4)]
      by (cases "i = ?n") (simp_all add: entries_nth rec nth_append)
  qed (simp add: cnt)
  moreover have "length (rg_mem r') = ?sz * mx"
    using len assms(2) mult_le_mono2 [of "Suc ?n" mx ?sz] by (simp add: mem algebra_simps)
  moreover have "\<forall>i < rg_count r'. \<exists>u p. c_string 0xff u \<and> c_string k p \<and>
      rec_at ?sz (rg_mem r') i = record_bytes k (u, p)"
    using assms(1-4) by (auto simp: reg_inv_def rec cnt less_Suc_eq)
  ultimately have "reg_inv k mx r'"
    using assms(1,2,5) by (simp add: reg_inv_def cnt)
  with es show ?thesis by simp
qed

lemma del_record:
  assumes "reg_inv k mx r" "i < rg_count r"
  defines "r' \<equiv> remove_record (0xff + k) r i"
  shows "reg_inv k mx r' \<and>
     reg_entries (0xff + k) r' = take i (reg_entries (0xff + k) r) @ drop (Suc i) (reg_entries (0xff + k) r)"
proof -
  let ?sz = "0xff + k"
  let ?n = "rg_count r"
  let ?es = "reg_entries ?sz r"
  let ?blk = "take (?sz * (?n - (i + 1))) (drop (?sz * (i + 1)) (rg_mem r))"
  have len: "length (rg_mem r) = ?sz * mx" and nmx: "?n \<le> mx" using assms(1) by (auto simp: reg_inv_def)
  have cnt: "rg_count r' = ?n - 1" by (simp add: r'_def remove_record_def)
  have "?sz * (?n - (i + 1)) \<le> length (rg_mem r) - ?sz * (i + 1)"
    using len nmx by (metis diff_le_mono diff_mult_distrib2 mult_le_mono2)
  then have blk: "length ?blk = ?sz * (?n - (i + 1))" by simp
  have blkrec: "rec_at ?sz ?blk j = rec_at ?sz (rg_mem r) (Suc (i + j))" if "j < ?n - (i + 1)" for j
  proof -
    have "?sz * j + ?sz \<le> ?sz * (?n - (i + 1))"
      using mult_le_mono2 [of "Suc j" "?n - (i + 1)" ?sz] that by simp
    then show ?thesis by (simp add: rec_at_def drop_take algebra_simps)
  qed
  have mem: "rg_mem r' = (if i + 1 < ?n then overwrite (rg_mem r) (?sz * i) ?blk else rg_mem r)"
    by (simp add: r'_def remove_record_def)
  have rec: "rec_at ?sz (rg_mem r') j = rec_at ?sz (rg_mem r) (if i \<le> j then Suc j else j)" if "j < ?n - 1" for j
    using rec_at_overwrite [OF len _ blk, of i j] blkrec [of "j - i"] that nmx assms(2)
    by (auto simp: mem)
  have ent: "reg_entries ?sz r' ! j = ?es ! (if i \<le> j then Suc j else j)" if "j < ?n - 1" for j
    using that by (auto simp: entries_nth cnt rec)
  have es: "reg_entries ?sz r' = take i ?es @ drop (Suc i) ?es"
  proof (rule nth_equalityI)
    fix j
    assume "j < length (reg_entries ?sz r')"
    then show "reg_entries ?sz r' ! j = (take i ?es @ drop (Suc i) ?es) ! j"
      using ent [of j] assms(2) by (auto simp: cnt nth_append)
  qed (use assms(2) in \<open>simp add: cnt\<close>)
  have "?sz * i + ?sz * (?n - (i + 1)) \<le> ?sz * mx"
    using mult_le_mono2 [of "i + (?n - (i + 1))" mx ?sz] nmx assms(2) unfolding distrib_left by linarith
  then have "length (rg_mem r') = ?sz * mx" using len blk by (auto simp: mem)
  moreover have "\<forall>j < rg_count r'. \<exists>u p. c_string 0xff u \<and> c_string k p \<and>
      rec_at ?sz (rg_mem r') j = record_bytes k (u, p)"
    using assms(1,2) by (auto simp: reg_inv_def rec cnt)
  moreover have "distinct (map fst (reg_entries ?sz r'))"
  proof -
    have "distinct (map fst ?es)" using assms(1) by (simp add: reg_inv_def)
    then have "distinct (take i (map fst ?es) @ drop (Suc i) (map fst ?es))"
      by (metis append_take_drop_id assms(2) distinct_append id_take_nth_drop length_map length_reg_entries
          distinct_take distinct_drop set_take_disj_set_drop_if_distinct le_add2 plus_1_eq_Suc)
    then show ?thesis by (simp add: es take_map drop_map)
  qed
  ultimately have "reg_inv k mx r'" using assms(1) by (auto simp: reg_inv_def cnt)
  with es show ?thesis by simp
qed

section \<open>The contract: a bounded list of accounts with distinct names\<close>

datatype reg_op = Reg_add "byte list" "byte list" | Reg_del "byte list"

fun reg_spec ::
  "nat \<Rightarrow> (byte list \<Rightarrow> bool) \<Rightarrow> reg_op \<Rightarrow> (byte list \<times> byte list) list \<Rightarrow> int \<times> (byte list \<times> byte list) list"
where
  "reg_spec cap prot (Reg_add u p) es =
     (if length es \<ge> cap then (1, es) else if u \<in> set (map fst es) then (-1, es) else (0, es @ [(u, p)]))"
| "reg_spec cap prot (Reg_del u) es =
     (if prot u \<or> u \<notin> set (map fst es) then (-1, es) else (0, filter (\<lambda>e. fst e \<noteq> u) es))"

fun reg_spec_run ::
  "nat \<Rightarrow> (byte list \<Rightarrow> bool) \<Rightarrow> reg_op list \<Rightarrow> (byte list \<times> byte list) list
    \<Rightarrow> int list \<times> (byte list \<times> byte list) list" where
  "reg_spec_run cap prot [] es = ([], es)"
| "reg_spec_run cap prot (op # ops) es =
     (let (c, es1) = reg_spec cap prot op es; (cs, es2) = reg_spec_run cap prot ops es1 in (c # cs, es2))"

fun reg_step ::
  "(byte list \<Rightarrow> byte list \<Rightarrow> 's \<Rightarrow> (int \<times> 's) res) \<Rightarrow> (byte list \<Rightarrow> 's \<Rightarrow> (int \<times> 's) res) \<Rightarrow> reg_op \<Rightarrow> 's
    \<Rightarrow> (int \<times> 's) res" where
  "reg_step add del (Reg_add u p) s = add u p s"
| "reg_step add del (Reg_del u) s = del u s"

fun reg_run ::
  "(byte list \<Rightarrow> byte list \<Rightarrow> 's \<Rightarrow> (int \<times> 's) res) \<Rightarrow> (byte list \<Rightarrow> 's \<Rightarrow> (int \<times> 's) res) \<Rightarrow> reg_op list \<Rightarrow> 's
    \<Rightarrow> (int list \<times> 's) res" where
  "reg_run add del [] s = Inr ([], s)"
| "reg_run add del (op # ops) s =
     rbind (reg_step add del op s) (\<lambda>(c, s1).
     rbind (reg_run add del ops s1) (\<lambda>(cs, s2). Inr (c # cs, s2)))"

locale name_registry =
  fixes inv :: "'s \<Rightarrow> bool"
    and entries :: "'s \<Rightarrow> (byte list \<times> byte list) list"
    and add :: "byte list \<Rightarrow> byte list \<Rightarrow> 's \<Rightarrow> (int \<times> 's) res"
    and del :: "byte list \<Rightarrow> 's \<Rightarrow> (int \<times> 's) res"
    and cap :: nat
    and prot :: "byte list \<Rightarrow> bool"
    and valid :: "reg_op \<Rightarrow> bool"
  assumes add_full: "inv s \<Longrightarrow> cap \<le> length (entries s) \<Longrightarrow> add u p s = Inr (1, s)"
    and add_dup: "inv s \<Longrightarrow> valid (Reg_add u p) \<Longrightarrow> length (entries s) < cap \<Longrightarrow>
      u \<in> set (map fst (entries s)) \<Longrightarrow> add u p s = Inr (-1, s)"
    and add_new: "inv s \<Longrightarrow> valid (Reg_add u p) \<Longrightarrow> length (entries s) < cap \<Longrightarrow>
      u \<notin> set (map fst (entries s)) \<Longrightarrow>
      \<exists>s'. add u p s = Inr (0, s') \<and> inv s' \<and> entries s' = entries s @ [(u, p)]"
    and del_found: "inv s \<Longrightarrow> valid (Reg_del u) \<Longrightarrow> \<not> prot u \<Longrightarrow> u \<in> set (map fst (entries s)) \<Longrightarrow>
      \<exists>s'. del u s = Inr (0, s') \<and> inv s' \<and> entries s' = filter (\<lambda>e. fst e \<noteq> u) (entries s)"
    and del_missing: "inv s \<Longrightarrow> valid (Reg_del u) \<Longrightarrow> prot u \<or> u \<notin> set (map fst (entries s)) \<Longrightarrow>
      del u s = Inr (-1, s)"
begin

lemma step_refines:
  assumes "inv s" "valid op"
  shows "\<exists>s'. reg_step add del op s = Inr (fst (reg_spec cap prot op (entries s)), s') \<and> inv s' \<and>
     entries s' = snd (reg_spec cap prot op (entries s))"
proof (cases op)
  case (Reg_add u p)
  then show ?thesis
    using assms add_full [of s u p] add_dup [of s u p] add_new [of s u p] not_less [of "length (entries s)" cap]
    by (cases "cap \<le> length (entries s)"; cases "u \<in> set (map fst (entries s))") auto
next
  case (Reg_del u)
  then show ?thesis
    using assms del_found [of s u] del_missing [of s u]
    by (cases "prot u"; cases "u \<in> set (map fst (entries s))") auto
qed

lemma run_refines:
  "inv s \<Longrightarrow> \<forall>op \<in> set ops. valid op \<Longrightarrow>
   \<exists>s'. reg_run add del ops s = Inr (fst (reg_spec_run cap prot ops (entries s)), s') \<and> inv s' \<and>
     entries s' = snd (reg_spec_run cap prot ops (entries s))"
proof (induction ops arbitrary: s)
  case (Cons op ops)
  obtain s1 where s1: "reg_step add del op s = Inr (fst (reg_spec cap prot op (entries s)), s1)" "inv s1"
    "entries s1 = snd (reg_spec cap prot op (entries s))"
    using step_refines [of s op] Cons.prems by auto
  with Cons.IH [OF s1(2)] Cons.prems show ?case by (auto simp: Let_def split: prod.splits)
qed simp

end

subsection \<open>The users\<close>

definition users_inv :: "registry \<Rightarrow> bool" where
  "users_inv r \<longleftrightarrow> reg_inv 0xff MAX_USERS r"

definition user_entries :: "registry \<Rightarrow> (byte list \<times> byte list) list" where
  "user_entries r = reg_entries sizeof_user r"

fun valid_user_op :: "reg_op \<Rightarrow> bool" where
  "valid_user_op (Reg_add u p) \<longleftrightarrow> c_string 0xff u \<and> c_string 0xff p"
| "valid_user_op (Reg_del u) \<longleftrightarrow> c_string 0xff u"

lemma find_index:
  assumes "distinct (map fst es)" "length es = n"
  shows "List.find (\<lambda>i. fst (es ! i) = u) [0..<n] = None \<longleftrightarrow> u \<notin> set (map fst es)"
    and "List.find (\<lambda>i. fst (es ! i) = u) [0..<n] = Some i \<Longrightarrow> i < n \<and> fst (es ! i) = u"
proof -
  show "List.find (\<lambda>i. fst (es ! i) = u) [0..<n] = None \<longleftrightarrow> u \<notin> set (map fst es)"
    using assms(2) by (fastforce simp: find_None_iff in_set_conv_nth)
  show "List.find (\<lambda>i. fst (es ! i) = u) [0..<n] = Some i \<Longrightarrow> i < n \<and> fst (es ! i) = u"
    using assms(2) by (auto simp: find_Some_iff)
qed

lemma users_size: "sizeof_user = 0xff + 0xff" "sizeof_admin = 0xff + 0x11"
  by (simp_all add: sizeof_user_def sizeof_admin_def)

lemma users_find:
  assumes "users_inv r" "0 \<notin> set u"
  shows "find_name sizeof_user (rg_mem r) u [0..<rg_count r] =
     Inr (List.find (\<lambda>i. fst (user_entries r ! i) = u) [0..<rg_count r])"
  using find_name_eq [of "0xff" MAX_USERS r u "[0..<rg_count r]"] assms
  by (simp add: users_inv_def user_entries_def sizeof_user_def)

lemma users_distinct: "users_inv r \<Longrightarrow> distinct (map fst (user_entries r))"
  by (simp add: users_inv_def user_entries_def reg_inv_def sizeof_user_def)

interpretation users: name_registry users_inv user_entries socksv5_register_user socksv5_unregister_user
  MAX_USERS "\<lambda>_. False" valid_user_op
proof unfold_locales
  fix r :: registry and u p :: "byte list"
  assume inv: "users_inv r"
  note idx = find_index [OF users_distinct [OF inv], of "rg_count r"]
  have len: "length (user_entries r) = rg_count r" by (simp add: user_entries_def)
  show "MAX_USERS \<le> length (user_entries r) \<Longrightarrow> socksv5_register_user u p r = Inr (1, r)"
    by (simp add: socksv5_register_user_def len)
  show "socksv5_register_user u p r = Inr (-1, r)"
    if "valid_user_op (Reg_add u p)" "length (user_entries r) < MAX_USERS" "u \<in> set (map fst (user_entries r))"
    using that users_find [OF inv, of u] idx(1) [OF len]
    by (auto simp: socksv5_register_user_def len c_string_def)
  show "\<exists>s'. socksv5_register_user u p r = Inr (0, s') \<and> users_inv s' \<and>
      user_entries s' = user_entries r @ [(u, p)]"
    if "valid_user_op (Reg_add u p)" "length (user_entries r) < MAX_USERS" "u \<notin> set (map fst (user_entries r))"
  proof -
    have find: "find_name sizeof_user (rg_mem r) u [0..<rg_count r] = Inr None"
      using that users_find [OF inv, of u] idx(1) [OF len] by (simp add: c_string_def)
    show ?thesis
      using find that inv add_record [of "0xff" MAX_USERS r u p]
      by (simp add: socksv5_register_user_def len users_inv_def user_entries_def sizeof_user_def)
  qed
  show "\<exists>s'. socksv5_unregister_user u r = Inr (0, s') \<and> users_inv s' \<and>
      user_entries s' = filter (\<lambda>e. fst e \<noteq> u) (user_entries r)"
    if "valid_user_op (Reg_del u)" "u \<in> set (map fst (user_entries r))"
  proof -
    note prems = that
    obtain i where i: "List.find (\<lambda>i. fst (user_entries r ! i) = u) [0..<rg_count r] = Some i"
      using prems(2) idx(1) [OF len, of u] by (metis option.exhaust)
    have lt: "i < rg_count r" "fst (user_entries r ! i) = u" using idx(2) [OF len i] by blast+
    have "filter (\<lambda>e. fst e \<noteq> u) (user_entries r) = take i (user_entries r) @ drop (Suc i) (user_entries r)"
      using filter_unique [OF users_distinct [OF inv] _ lt(2)] lt(1) len by simp
    then show ?thesis
      using i users_find [OF inv, of u] that(1) del_record [of "0xff" MAX_USERS r i] lt(1) inv
      by (simp add: socksv5_unregister_user_def users_inv_def user_entries_def sizeof_user_def c_string_def)
  qed
  show "socksv5_unregister_user u r = Inr (-1, r)"
    if "valid_user_op (Reg_del u)" "False \<or> u \<notin> set (map fst (user_entries r))"
  proof -
    have "List.find (\<lambda>i. fst (user_entries r ! i) = u) [0..<rg_count r] = None"
      using that(2) idx(1) [OF len, of u] by blast
    with users_find [OF inv, of u] that(1) show ?thesis
      by (simp add: socksv5_unregister_user_def c_string_def)
  qed
qed

subsection \<open>The administrators\<close>

definition admin_entries :: "registry \<Rightarrow> (byte list \<times> byte list) list" where
  "admin_entries r = reg_entries sizeof_admin r"

text \<open>Once the server has registered the first administrator, \<open>root\<close>.\<close>

definition admins_inv :: "registry \<Rightarrow> bool" where
  "admins_inv r \<longleftrightarrow> reg_inv 0x11 MAX_ADMINS r \<and> 0 < rg_count r \<and>
     fst (admin_entries r ! 0) = default_admin_uname \<and> (\<forall>e \<in> set (admin_entries r). length (snd e) = 0x10)"

fun valid_admin_op :: "reg_op \<Rightarrow> bool" where
  "valid_admin_op (Reg_add u t) \<longleftrightarrow> c_string 0xff u \<and> 0 \<notin> set t \<and> length t = 0x10"
| "valid_admin_op (Reg_del u) \<longleftrightarrow> c_string 0xff u"

lemma admins_find:
  assumes "reg_inv 0x11 MAX_ADMINS r" "0 \<notin> set u"
  shows "find_name sizeof_admin (rg_mem r) u [n..<rg_count r] =
     Inr (List.find (\<lambda>i. fst (admin_entries r ! i) = u) [n..<rg_count r])"
  using find_name_eq [of "0x11" MAX_ADMINS r u "[n..<rg_count r]"] assms
  by (simp add: admin_entries_def sizeof_admin_def)

lemma admins_distinct: "reg_inv 0x11 MAX_ADMINS r \<Longrightarrow> distinct (map fst (admin_entries r))"
  by (simp add: admin_entries_def reg_inv_def sizeof_admin_def)

lemma length_admin_entries [simp]: "length (admin_entries r) = rg_count r"
  by (simp add: admin_entries_def)

lemma admin_add:
  assumes "reg_inv 0x11 MAX_ADMINS r" "rg_count r < MAX_ADMINS" "valid_admin_op (Reg_add u t)"
    "u \<notin> set (map fst (admin_entries r))"
    "rg_count r = 0 \<Longrightarrow> n = default_admin_uname" "rg_count r \<noteq> 0 \<Longrightarrow> n = u"
  shows "\<exists>r'. monitor_register_admin u t r = Inr (0, r') \<and> reg_inv 0x11 MAX_ADMINS r' \<and>
     admin_entries r' = admin_entries r @ [(n, t)]"
proof -
  have "List.find (\<lambda>i. fst (admin_entries r ! i) = u) [0..<rg_count r] = None"
    using assms(4) find_index(1) [OF admins_distinct [OF assms(1)] length_admin_entries] by blast
  then have find: "find_name sizeof_admin (rg_mem r) u [0..<rg_count r] = Inr None"
    using admins_find [OF assms(1), of u 0] assms(3) by (simp add: c_string_def)
  have n: "c_string 0xff n" "c_string 0x11 t" "n = (if rg_count r = 0 then default_admin_uname else u)"
    using assms(3,5,6)
    by (cases "rg_count r = 0"; simp add: c_string_def default_admin_uname_def bytes_of_def)+
  have "n \<notin> set (map fst (reg_entries (0xff + 0x11) r))"
    using assms(4) n(3) by (auto simp: admin_entries_def sizeof_admin_def reg_entries_def)
  from add_record [OF assms(1,2) n(1,2) this] show ?thesis
    using find assms(2,3) n(3)
    by (simp add: monitor_register_admin_def admin_entries_def sizeof_admin_def)
qed

lemma find_skip_first:
  assumes "fst (es ! 0) \<noteq> u" "0 < n"
  shows "List.find (\<lambda>i. fst (es ! i) = u) [1..<n] = List.find (\<lambda>i. fst (es ! i) = u) [0..<n]"
  using assms by (simp add: upt_conv_Cons)

interpretation admins: name_registry admins_inv admin_entries monitor_register_admin monitor_unregister_admin
  MAX_ADMINS "\<lambda>u. u = default_admin_uname" valid_admin_op
proof unfold_locales
  fix r :: registry and u t :: "byte list"
  assume "admins_inv r"
  then have inv: "reg_inv 0x11 MAX_ADMINS r" and pos: "0 < rg_count r"
    and root: "fst (admin_entries r ! 0) = default_admin_uname"
    and toks: "\<forall>e \<in> set (admin_entries r). length (snd e) = 0x10"
    by (simp_all add: admins_inv_def)
  note idx = find_index [OF admins_distinct [OF inv] length_admin_entries]
  show "MAX_ADMINS \<le> length (admin_entries r) \<Longrightarrow> monitor_register_admin u t r = Inr (1, r)"
    by (simp add: monitor_register_admin_def)
  show "monitor_register_admin u t r = Inr (-1, r)"
    if "valid_admin_op (Reg_add u t)" "length (admin_entries r) < MAX_ADMINS" "u \<in> set (map fst (admin_entries r))"
  proof -
    have "List.find (\<lambda>i. fst (admin_entries r ! i) = u) [0..<rg_count r] \<noteq> None"
      using that(3) idx(1) [of u] by blast
    with admins_find [OF inv, of u 0] that(1,2) show ?thesis
      by (auto simp: monitor_register_admin_def c_string_def)
  qed
  show "\<exists>s'. monitor_register_admin u t r = Inr (0, s') \<and> admins_inv s' \<and>
      admin_entries s' = admin_entries r @ [(u, t)]"
    if "valid_admin_op (Reg_add u t)" "length (admin_entries r) < MAX_ADMINS" "u \<notin> set (map fst (admin_entries r))"
  proof -
    note prems = that
    obtain r' where r': "monitor_register_admin u t r = Inr (0, r')" "reg_inv 0x11 MAX_ADMINS r'"
      "admin_entries r' = admin_entries r @ [(u, t)]"
      using admin_add [OF inv _ prems(1,3), of u] prems(2) pos by auto
    then have "rg_count r' = Suc (rg_count r)"
      by (metis length_admin_entries length_append_singleton)
    with r' show ?thesis using root pos toks prems(1) by (simp add: admins_inv_def nth_append)
  qed
  show "\<exists>s'. monitor_unregister_admin u r = Inr (0, s') \<and> admins_inv s' \<and>
      admin_entries s' = filter (\<lambda>e. fst e \<noteq> u) (admin_entries r)"
    if "valid_admin_op (Reg_del u)" "u \<noteq> default_admin_uname" "u \<in> set (map fst (admin_entries r))"
  proof -
    note prems = that
    obtain i where i: "List.find (\<lambda>i. fst (admin_entries r ! i) = u) [0..<rg_count r] = Some i"
      using prems(3) idx(1) [of u] by (metis option.exhaust)
    have lt: "i < rg_count r" "fst (admin_entries r ! i) = u" using idx(2) [OF i] by blast+
    then have i0: "i \<noteq> 0" using root prems(2) by metis
    let ?r = "remove_record sizeof_admin r i"
    have es: "admin_entries ?r = take i (admin_entries r) @ drop (Suc i) (admin_entries r)"
      and inv': "reg_inv 0x11 MAX_ADMINS ?r"
      using del_record [OF inv lt(1)] by (simp_all add: admin_entries_def sizeof_admin_def)
    moreover have "filter (\<lambda>e. fst e \<noteq> u) (admin_entries r) = admin_entries ?r"
      using filter_unique [OF admins_distinct [OF inv] _ lt(2)] lt(1) es by simp
    moreover have "admin_entries ?r ! 0 = admin_entries r ! 0"
      using i0 lt(1) by (simp add: es nth_append)
    moreover have "0 < rg_count ?r" using i0 lt(1) by (simp add: remove_record_def)
    moreover have "\<forall>e \<in> set (admin_entries ?r). length (snd e) = 0x10"
      using toks by (auto simp: es dest: in_set_takeD in_set_dropD)
    moreover have "find_name sizeof_admin (rg_mem r) u [1..<rg_count r] = Inr (Some i)"
      using admins_find [OF inv, of u 1] prems(1,2) i find_skip_first [of "admin_entries r" u] root pos
      by (simp add: c_string_def)
    ultimately show ?thesis
      using prems(2) root by (simp add: monitor_unregister_admin_def admins_inv_def)
  qed
  show "monitor_unregister_admin u r = Inr (-1, r)"
    if "valid_admin_op (Reg_del u)" "u = default_admin_uname \<or> u \<notin> set (map fst (admin_entries r))"
  proof (cases "u = default_admin_uname")
    case False
    then have "List.find (\<lambda>i. fst (admin_entries r ! i) = u) [0..<rg_count r] = None"
      using that(2) idx(1) [of u] by blast
    then have "find_name sizeof_admin (rg_mem r) u [1..<rg_count r] = Inr None"
      using admins_find [OF inv, of u 1] that(1) False find_skip_first [of "admin_entries r" u] root pos
      by (simp add: c_string_def)
    then show ?thesis by (simp add: monitor_unregister_admin_def)
  qed (simp add: monitor_unregister_admin_def)
qed

section \<open>Looking credentials up\<close>

lemma user_fields:
  assumes "users_inv r" "i < rg_count r"
  shows "cstr (take 0xff (drop (sizeof_user * i) (rg_mem r))) = fst (user_entries r ! i)"
    and "cstr (take 0xff (drop (sizeof_user * i + 0xff) (rg_mem r))) = snd (user_entries r ! i)"
  using assms(2)
  by (simp_all add: user_entries_def entries_nth rec_at_def sizeof_user_def min_def drop_take add.commute)

lemma find_user_iff:
  assumes "users_inv r" "\<forall>i \<in> set is. i < rg_count r"
  shows "find_user r a b is = List.find (\<lambda>i. user_entries r ! i = (cstr (take 0xff a), cstr (take 0xff b))) is"
  using assms(2)
proof (induction "is")
  case (Cons i "is")
  then have "strncmp_eq 0xff a (drop (sizeof_user * i) (rg_mem r)) \<and>
      strncmp_eq 0xff b (drop (sizeof_user * i + 0xff) (rg_mem r)) \<longleftrightarrow>
      user_entries r ! i = (cstr (take 0xff a), cstr (take 0xff b))"
    using user_fields [OF assms(1), of i] by (auto simp: strncmp_eq_def prod_eq_iff)
  with Cons show ?case by simp
qed simp

lemma admin_token:
  assumes "admins_inv r" "i < rg_count r"
  shows "take 0x10 (drop (sizeof_admin * i + 0xff) (rg_mem r)) = snd (admin_entries r ! i)"
    and "0 \<notin> set (snd (admin_entries r ! i))" "length (snd (admin_entries r ! i)) = 0x10"
proof -
  let ?e = "admin_entries r ! i"
  have inv: "reg_inv 0x11 MAX_ADMINS r" using assms(1) by (simp add: admins_inv_def)
  have rec: "rec_at sizeof_admin (rg_mem r) i = record_bytes 0x11 ?e" "c_string 0x11 (snd ?e)"
    using reg_inv_record [OF inv assms(2)] by (simp_all add: admin_entries_def sizeof_admin_def)
  show len: "length (snd ?e) = 0x10" using assms by (simp add: admins_inv_def)
  show "0 \<notin> set (snd ?e)" using rec(2) by (simp add: c_string_def)
  have "take 0x10 (drop (sizeof_admin * i + 0xff) (rg_mem r)) =
      take 0x10 (drop 0xff (rec_at sizeof_admin (rg_mem r) i))"
    by (simp add: rec_at_def sizeof_admin_def drop_take min_def add.commute)
  also have "\<dots> = snd ?e" using len by (simp add: rec(1) record_bytes_def strncpy_bytes_def)
  finally show "take 0x10 (drop (sizeof_admin * i + 0xff) (rg_mem r)) = snd ?e" .
qed

lemma cstr_full: "cstr xs = ys \<Longrightarrow> length ys = length xs \<Longrightarrow> xs = ys"
  by (metis cstr_def takeWhile_eq_all_conv takeWhile_eq_take take_all_iff order_refl)

lemma find_token_iff:
  assumes "admins_inv r" "\<forall>i \<in> set is. i < rg_count r" "length t = 0x10"
  shows "find_token r t is \<longleftrightarrow> (\<exists>i \<in> set is. snd (admin_entries r ! i) = t)"
  using assms(2)
proof (induction "is")
  case (Cons i "is")
  note tok = admin_token [OF assms(1), of i]
  have "strncmp_eq 0x10 t (drop (sizeof_admin * i + 0xff) (rg_mem r)) \<longleftrightarrow> snd (admin_entries r ! i) = t"
    using Cons.prems tok assms(3) cstr_full [of t "snd (admin_entries r ! i)"]
    by (auto simp: strncmp_eq_def)
  with Cons show ?case by auto
qed simp

section \<open>Listing names\<close>

definition joined :: "byte list list \<Rightarrow> byte list" where
  "joined ns = concat (map (\<lambda>s. s @ [0]) ns)"

lemma joined_simps [simp]: "joined [] = []" "joined (n # ns) = n @ [0] @ joined ns"
  by (simp_all add: joined_def)

lemma copy_names_ok:
  assumes "\<And>i. i \<in> set ids \<Longrightarrow> read_cstr (drop (sz * i) mem) = Inr (nm i)"
    "unat d + length (joined (map nm ids)) \<le> length out" "length out < 65536"
  shows "\<exists>out'. copy_names sz mem ids d out = Inr (d + of_nat (length (joined (map nm ids))), out') \<and>
     length out' = length out \<and> take (unat d) out' = take (unat d) out \<and>
     take (length (joined (map nm ids))) (drop (unat d) out') = joined (map nm ids)"
  using assms
proof (induction ids arbitrary: d out)
  case (Cons i ids)
  let ?s = "nm i"
  let ?J = "joined (map nm ids)"
  let ?d = "d + of_nat (length ?s) + 1"
  let ?out = "overwrite out (unat d) (?s @ [0])"
  have fit: "unat d + length ?s + 1 + length ?J \<le> length out" using Cons.prems(2) by simp
  have d: "unat ?d = unat d + length ?s + 1"
    using fit Cons.prems(3) by (simp add: unat_word_ariths unat_of_nat)
  have len: "length ?out = length out" using fit by simp
  obtain out' where out': "copy_names sz mem ids ?d ?out = Inr (?d + of_nat (length ?J), out')"
    "length out' = length out" "take (unat ?d) out' = take (unat ?d) ?out"
    "take (length ?J) (drop (unat ?d) out') = ?J"
    using Cons.IH [of ?d ?out] Cons.prems(1,3) fit d len by auto
  define d1 where "d1 = unat ?d"
  have d1: "d1 = unat d + (length ?s + 1)" "take d1 out' = take d1 ?out"
    using d out'(3) by (simp_all add: d1_def)
  have "take (unat d) out' = take (unat d) (take d1 out')" using d1(1) by (simp add: min_def)
  also have "\<dots> = take (unat d) ?out" unfolding d1(2) using d1(1) by (simp add: min_def)
  also have "\<dots> = take (unat d) out" using fit by simp
  finally have t: "take (unat d) out' = take (unat d) out" .
  have "take (length ?s + 1) (drop (unat d) out') = drop (unat d) (take d1 out')"
    unfolding d1(1) drop_take by simp
  also have "\<dots> = drop (unat d) (take d1 ?out)" by (simp only: d1(2))
  also have "\<dots> = take (length ?s + 1) (drop (unat d) ?out)"
    unfolding d1(1) drop_take by simp
  also have "\<dots> = ?s @ [0]" using overwrite_block [of "unat d" "?s @ [0]" out] fit by simp
  finally have "take (length ?s + 1 + length ?J) (drop (unat d) out') = (?s @ [0]) @ ?J"
    using out'(4) unfolding take_add d by (simp add: add.commute add.left_commute)
  then show ?case
    using out'(1,2) t fit Cons.prems(1) [of i] by (simp add: add.assoc add.commute add.left_commute)
qed simp

lemma length_joined:
  "\<forall>n \<in> set ns. length n < 0xff \<Longrightarrow> length (joined ns) \<le> 0xff * length ns"
  by (induction ns) auto

lemma list_length_eq:
  assumes "n < 65536"
  shows "list_length (of_nat n) = of_nat (n - 1)"
proof (cases n)
  case (Suc m)
  then have "unat (of_nat n :: u16) = n" using assms by (simp add: unat_of_nat del: of_nat_Suc)
  then have "(1 :: u16) < of_nat n \<longleftrightarrow> 1 < n" by (simp add: word_less_nat_alt del: of_nat_Suc)
  then show ?thesis using Suc by (simp add: list_length_def)
qed (simp add: list_length_def)

lemma list_names_ok:
  assumes "reg_inv k mx r" "length out = 0xff * mx'" "mx \<le> mx'" "mx' \<le> 100"
  shows "\<exists>out'. copy_names (0xff + k) (rg_mem r) [0..<rg_count r] 0 out =
       Inr (of_nat (length (joined (map fst (reg_entries (0xff + k) r)))), out') \<and>
     take (length (joined (map fst (reg_entries (0xff + k) r)))) out' =
       joined (map fst (reg_entries (0xff + k) r)) \<and>
     length (joined (map fst (reg_entries (0xff + k) r))) < 65536"
proof -
  let ?es = "reg_entries (0xff + k) r"
  let ?nm = "\<lambda>i. fst (?es ! i)"
  have names: "map ?nm [0..<rg_count r] = map fst ?es"
    by (rule nth_equalityI) simp_all
  have short: "\<forall>n \<in> set (map fst ?es). length n < 0xff"
    using reg_inv_record(2) [OF assms(1)] by (fastforce simp: in_set_conv_nth [of _ ?es] c_string_def)
  have len: "length (joined (map fst ?es)) \<le> 0xff * mx'"
    using length_joined [OF short] assms(1,3) by (simp add: reg_inv_def)
  have rd: "read_cstr (drop ((0xff + k) * i) (rg_mem r)) = Inr (?nm i)" if "i \<in> set [0..<rg_count r]" for i
    using name_in_memory [OF assms(1), of i] reg_inv_record(2) [OF assms(1), of i] that
    by (auto simp: read_cstr_def c_string_def)
  have "length out < 65536" using assms by simp
  moreover have "unat (0 :: u16) + length (joined (map ?nm [0..<rg_count r])) \<le> length out"
    unfolding names using len assms(2) by simp
  ultimately show ?thesis
    using copy_names_ok [where nm = ?nm and d = 0 and out = out and ids = "[0..<rg_count r]", OF rd] len assms(2,4)
    unfolding names by auto
qed

lemma joined_prefix:
  assumes "take (length (joined ns)) out = joined ns"
  shows "take (length (butlast (joined ns))) out = butlast (joined ns)"
proof -
  have "take (length (butlast (joined ns))) out = take (length (joined ns) - 1) (take (length (joined ns)) out)"
    by simp
  then show ?thesis unfolding assms by (simp add: butlast_conv_take)
qed

lemma users_list_ok:
  assumes "users_inv r" "length out = MAX_USERS * 0xff"
  defines "ns \<equiv> butlast (joined (map fst (user_entries r)))"
  shows "\<exists>out'. socksv5_get_users r out = Inr (of_nat (length ns), out') \<and> take (length ns) out' = ns \<and>
     length ns < 65536"
proof -
  let ?J = "joined (map fst (user_entries r))"
  obtain out' where out': "copy_names sizeof_user (rg_mem r) [0..<rg_count r] 0 out =
      Inr (of_nat (length ?J), out')" "take (length ?J) out' = ?J" "length ?J < 65536"
    using list_names_ok [of "0xff" MAX_USERS r out MAX_USERS] assms
    by (auto simp: users_inv_def user_entries_def sizeof_user_def MAX_USERS_def)
  then show ?thesis
    using list_length_eq [OF out'(3)] joined_prefix [OF out'(2)] by (simp add: socksv5_get_users_def ns_def)
qed

lemma admins_list_ok:
  assumes "admins_inv r" "length out = MAX_USERS * 0xff"
  defines "ns \<equiv> butlast (joined (map fst (admin_entries r)))"
  shows "\<exists>out'. monitor_get_admins r out = Inr (of_nat (length ns), out') \<and> take (length ns) out' = ns \<and>
     length ns < 65536"
proof -
  let ?J = "joined (map fst (admin_entries r))"
  obtain out' where out': "copy_names sizeof_admin (rg_mem r) [0..<rg_count r] 0 out =
      Inr (of_nat (length ?J), out')" "take (length ?J) out' = ?J" "length ?J < 65536"
    using list_names_ok [of "0x11" MAX_ADMINS r out MAX_USERS] assms
    by (auto simp: admins_inv_def admin_entries_def sizeof_admin_def MAX_USERS_def MAX_ADMINS_def)
  then show ?thesis
    using list_length_eq [OF out'(3)] joined_prefix [OF out'(2)] by (simp add: monitor_get_admins_def ns_def)
qed

lemma token_registered:
  assumes "admins_inv r" "length t = 0x10"
  shows "monitor_is_admin r t \<longleftrightarrow> t \<in> snd ` set (admin_entries r)"
proof -
  have "monitor_is_admin r t \<longleftrightarrow> (\<exists>i < rg_count r. snd (admin_entries r ! i) = t)"
    using find_token_iff [OF assms(1) _ assms(2), of "[0..<rg_count r]"] by (auto simp: monitor_is_admin_def)
  also have "\<dots> \<longleftrightarrow> t \<in> set (map snd (admin_entries r))"
    by (simp add: in_set_conv_nth [of t "map snd (admin_entries r)"] del: set_map) auto
  finally show ?thesis by simp
qed

section \<open>Properties\<close>

lemma users_init_inv: "users_inv users_init"
  by (simp add: users_inv_def reg_inv_def users_init_def MAX_USERS_def sizeof_user_def reg_entries_def)

lemma users_init_entries: "user_entries users_init = []"
  by (simp add: user_entries_def reg_entries_def users_init_def)

text \<open>C13. Refinement: the table of proxy users implements a list of at most ten accounts with
  distinct names. For every sequence of registrations and removals of names and passwords of up to 254
  bytes, each call returns what the list specification returns (0, -1 for a name that exists or is
  missing, 1 when full), the table afterwards holds exactly the specified accounts, and nothing is
  read or written outside the array.\<close>

theorem users_refine:
  assumes "users_inv r" "\<forall>op \<in> set ops. valid_user_op op"
  shows "\<exists>r'. reg_run socksv5_register_user socksv5_unregister_user ops r =
       Inr (fst (reg_spec_run MAX_USERS (\<lambda>_. False) ops (user_entries r)), r') \<and> users_inv r' \<and>
     user_entries r' = snd (reg_spec_run MAX_USERS (\<lambda>_. False) ops (user_entries r))"
  by (rule users.run_refines [OF assms])

theorem users_refine_witness:
  "\<exists>r'. reg_run socksv5_register_user socksv5_unregister_user
        [Reg_add [97] [98], Reg_add [97] [99], Reg_add [100] [101], Reg_del [97], Reg_del [97]] users_init =
        Inr ([0, -1, 0, 0, -1], r') \<and> user_entries r' = [([100], [101])]"
proof -
  let ?ops = "[Reg_add [97] [98], Reg_add [97] [99], Reg_add [100] [101], Reg_del [97], Reg_del [97]]"
  have "\<forall>op \<in> set ?ops. valid_user_op op" by (simp add: c_string_def)
  from users_refine [OF users_init_inv this] show ?thesis
    by (simp add: users_init_entries MAX_USERS_def del: reg_run.simps) blast
qed

text \<open>C33. Refinement: once \<open>root\<close> exists, the table of administrators implements a list of at most three
  accounts with distinct names from which \<open>root\<close> cannot be removed.\<close>

theorem admins_refine:
  assumes "admins_inv r" "\<forall>op \<in> set ops. valid_admin_op op"
  shows "\<exists>r'. reg_run monitor_register_admin monitor_unregister_admin ops r =
       Inr (fst (reg_spec_run MAX_ADMINS (\<lambda>u. u = default_admin_uname) ops (admin_entries r)), r') \<and>
     admins_inv r' \<and>
     admin_entries r' = snd (reg_spec_run MAX_ADMINS (\<lambda>u. u = default_admin_uname) ops (admin_entries r))"
  by (rule admins.run_refines [OF assms])

lemma first_admin:
  assumes "0 \<notin> set t" "length t = 0x10" "c_string 0xff u"
  shows "\<exists>r'. monitor_register_admin u t admins_init = Inr (0, r') \<and> admins_inv r' \<and>
     admin_entries r' = [(default_admin_uname, t)]"
proof -
  have inv: "reg_inv 0x11 MAX_ADMINS admins_init" "admin_entries admins_init = []" "rg_count admins_init = 0"
    by (simp_all add: reg_inv_def admins_init_def MAX_ADMINS_def sizeof_admin_def reg_entries_def
        admin_entries_def)
  obtain r' where r': "monitor_register_admin u t admins_init = Inr (0, r')" "reg_inv 0x11 MAX_ADMINS r'"
    "admin_entries r' = [(default_admin_uname, t)]"
    using admin_add [OF inv(1), of u t default_admin_uname] inv(2,3) assms by (auto simp: MAX_ADMINS_def)
  moreover have "rg_count r' = 1" using r'(3) by (metis length_admin_entries One_nat_def length_Cons list.size(3))
  ultimately show ?thesis using assms(2) by (simp add: admins_inv_def)
qed

theorem admins_refine_witness:
  "\<exists>r r'. monitor_register_admin [120] (replicate 16 65) admins_init = Inr (0, r) \<and>
      reg_run monitor_register_admin monitor_unregister_admin
        [Reg_del default_admin_uname, Reg_add [97] (replicate 16 66), Reg_del [97]] r = Inr ([-1, 0, 0], r') \<and>
      admin_entries r' = [(default_admin_uname, replicate 16 65)]"
proof -
  let ?ops = "[Reg_del default_admin_uname, Reg_add [97] (replicate 16 66), Reg_del [97]]"
  obtain r where r: "monitor_register_admin [120] (replicate 16 65) admins_init = Inr (0, r)" "admins_inv r"
    "admin_entries r = [(default_admin_uname, replicate 16 65)]"
    using first_admin [of "replicate 16 65" "[120]"] by (auto simp: c_string_def)
  have "\<forall>op \<in> set ?ops. valid_admin_op op" by (simp add: c_string_def default_admin_uname_def bytes_of_def)
  from admins_refine [OF r(2) this] show ?thesis
    using r(1) by (simp add: r(3) MAX_ADMINS_def default_admin_uname_def bytes_of_def del: reg_run.simps) blast
qed

text \<open>C29. Authentication is sound and complete: for the two 255 byte fields the parser filled, a user
  is found exactly when the table holds an account with that name and that password, and the
  position returned is that account's.\<close>

theorem authenticate_iff:
  assumes "users_inv r"
  shows "(authenticate r a b \<noteq> None \<longleftrightarrow> (cstr (take 0xff a), cstr (take 0xff b)) \<in> set (user_entries r)) \<and>
     (\<forall>i. authenticate r a b = Some i \<longrightarrow> i < rg_count r \<and>
        user_entries r ! i = (cstr (take 0xff a), cstr (take 0xff b)))"
proof -
  have "authenticate r a b =
      List.find (\<lambda>i. user_entries r ! i = (cstr (take 0xff a), cstr (take 0xff b))) [0..<rg_count r]"
    unfolding authenticate_def by (rule find_user_iff [OF assms]) simp
  moreover have "length (user_entries r) = rg_count r" by (simp add: user_entries_def)
  ultimately show ?thesis by (auto simp: find_None_iff find_Some_iff in_set_conv_nth)
qed

theorem authenticate_iff_witness:
  "\<exists>r. socksv5_register_user [97] [98] users_init = Inr (0, r) \<and>
      authenticate r (strncpy_bytes 0xff [97]) (strncpy_bytes 0xff [98]) \<noteq> None \<and>
      authenticate r (strncpy_bytes 0xff [97]) (strncpy_bytes 0xff [99]) = None"
proof -
  have "valid_user_op (Reg_add [97] [98])" by (simp add: c_string_def)
  from users.add_new [OF users_init_inv this] obtain r where r:
    "socksv5_register_user [97] [98] users_init = Inr (0, r)" "users_inv r" "user_entries r = [([97], [98])]"
    by (auto simp: users_init_entries MAX_USERS_def)
  have "cstr (take 0xff (strncpy_bytes 0xff [x])) = [x]" if "x \<noteq> 0" for x :: byte
    using that by (simp add: cstr_strncpy)
  then have "(authenticate r (strncpy_bytes 0xff [97]) (strncpy_bytes 0xff [x]) \<noteq> None) = (x = 98)"
    if "x \<noteq> 0" for x
    using that authenticate_iff [OF r(2)] r(3) by simp
  from this [of 98] this [of 99] r(1) show ?thesis by auto
qed

text \<open>A monitoring request is authorised exactly when its sixteen token bytes are those of a
  registered administrator.\<close>

theorem monitor_is_admin_iff:
  assumes "admins_inv r" "length t = 0x10"
  shows "monitor_is_admin r t \<longleftrightarrow> t \<in> snd ` set (admin_entries r)"
  by (rule token_registered [OF assms])

theorem monitor_is_admin_iff_witness:
  "\<exists>r. monitor_register_admin [120] (replicate 16 65) admins_init = Inr (0, r) \<and>
      monitor_is_admin r (replicate 16 65) \<and> \<not> monitor_is_admin r (replicate 16 66)"
proof -
  obtain r where r: "monitor_register_admin [120] (replicate 16 65) admins_init = Inr (0, r)" "admins_inv r"
    "admin_entries r = [(default_admin_uname, replicate 16 65)]"
    using first_admin [of "replicate 16 65" "[120]"] by (auto simp: c_string_def)
  then show ?thesis using monitor_is_admin_iff [OF r(2), of "replicate 16 65"]
      monitor_is_admin_iff [OF r(2), of "replicate 16 66"] by (simp add: numeral_eq_Suc)
qed

text \<open>The list of users sent to an administrator is the registered names separated by NUL bytes,
  without a terminator behind the last, and it fits the array on the stack.\<close>

theorem socksv5_get_users_names:
  assumes "users_inv r" "length out = MAX_USERS * 0xff"
  defines "ns \<equiv> butlast (joined (map fst (user_entries r)))"
  shows "\<exists>out'. socksv5_get_users r out = Inr (of_nat (length ns), out') \<and> take (length ns) out' = ns"
  using users_list_ok [OF assms(1,2)] unfolding ns_def by blast

theorem socksv5_get_users_names_witness:
  "\<exists>r cs out. reg_run socksv5_register_user socksv5_unregister_user
        [Reg_add [97] [98], Reg_add [100] [101]] users_init = Inr (cs, r) \<and>
      socksv5_get_users r (replicate 2550 7) = Inr (3, out) \<and> take 3 out = [97, 0, 100]"
proof -
  have "\<forall>op \<in> set [Reg_add [97] [98], Reg_add [100] [101]]. valid_user_op op" by (simp add: c_string_def)
  from users.run_refines [OF users_init_inv this] obtain r cs where r:
    "reg_run socksv5_register_user socksv5_unregister_user
        [Reg_add [97] [98], Reg_add [100] [101]] users_init = Inr (cs, r)"
    "users_inv r" "user_entries r = [([97], [98]), ([100], [101])]"
    by (auto simp: users_init_entries MAX_USERS_def)
  let ?ns = "butlast (joined (map fst (user_entries r)))"
  have ns: "?ns = [97, 0, 100]" by (simp add: r(3))
  have "length (replicate 2550 (7 :: byte)) = MAX_USERS * 0xff" by (simp add: MAX_USERS_def)
  from socksv5_get_users_names [OF r(2) this] obtain out where
    "socksv5_get_users r (replicate 2550 7) = Inr (of_nat (length ?ns), out)" "take (length ?ns) out = ?ns"
    by blast
  then have "socksv5_get_users r (replicate 2550 7) = Inr (3, out)" "take 3 out = [97, 0, 100]"
    unfolding ns by (simp_all add: numeral_3_eq_3)
  with r(1) show ?thesis by blast
qed

text \<open>C34. A name of 255 bytes is stored without a terminator, and the list of users then discloses the
  password stored behind it.\<close>

theorem long_name_discloses_password:
  assumes "0 \<notin> set u" "length u = 0xff" "0 \<notin> set p" "length p < 0xff"
  shows "\<exists>r out. socksv5_register_user u p users_init = Inr (0, r) \<and>
     socksv5_get_users r (replicate (MAX_USERS * 0xff) 0) = Inr (of_nat (length (u @ p)), out) \<and>
     take (length (u @ p)) out = u @ p"
proof -
  let ?mem = "store_record sizeof_user 0xff (replicate (MAX_USERS * sizeof_user) 0) 0 u p"
  let ?r = "\<lparr>rg_mem = ?mem, rg_count = 1\<rparr>"
  let ?out = "overwrite (replicate (MAX_USERS * 0xff) 0) 0 ((u @ p) @ [0])"
  have reg: "socksv5_register_user u p users_init = Inr (0, ?r)"
    by (simp add: socksv5_register_user_def users_init_def MAX_USERS_def)
  obtain rest where "?mem = (u @ p) @ 0 # rest"
    using assms strncpy_split [of "0xff" p] store_record_eq [of "replicate 5100 0" "0xff" 10 0 u p]
    by (auto simp: MAX_USERS_def sizeof_user_def record_bytes_def c_string_def overwrite_def strncpy_bytes_def)
  then have "read_cstr ?mem = Inr (u @ p)" using assms by (simp add: read_cstr_def cstr_append)
  then have "copy_names sizeof_user ?mem [0] 0 (replicate (MAX_USERS * 0xff) 0) =
      Inr (of_nat (Suc (length (u @ p))), ?out)"
    using assms by (simp add: MAX_USERS_def)
  moreover have "list_length (of_nat (Suc (length (u @ p)))) = of_nat (length (u @ p))"
    using assms list_length_eq [of "Suc (length (u @ p))"] by simp
  ultimately have "socksv5_get_users ?r (replicate (MAX_USERS * 0xff) 0) = Inr (of_nat (length (u @ p)), ?out)"
    by (simp add: socksv5_get_users_def)
  moreover have "take (length (u @ p)) ?out = u @ p" by (simp add: overwrite_def)
  ultimately show ?thesis using reg by blast
qed

theorem long_name_discloses_password_witness:
  "\<exists>r out. socksv5_register_user (replicate 255 97) [112] users_init = Inr (0, r) \<and>
     socksv5_get_users r (replicate (MAX_USERS * 0xff) 0) = Inr (256, out) \<and>
     take 256 out = replicate 255 97 @ [112]"
  using long_name_discloses_password [of "replicate 255 97" "[112]"] by simp

end
