(* ===== verification/Connection.thy ===== *)
theory Connection
  imports Hello Auth Request Disector Stm Selector Registry
begin

text \<open>
  The data of \<open>src/server/socks5nio.c\<close>: the state of one proxied connection (\<open>struct socks5\<close>), the
  global variables, and what the handlers of the following theories share.

  Pointers inside \<open>struct socks5\<close> name fields of the same struct, and are modelled by what they name:
  \<open>bufref\<close> for \<open>buffer *\<close>, \<open>fdref\<close> for \<open>int *\<close>, \<open>side\<close> for \<open>struct copy *\<close>. The pointers of
  \<open>struct request_st\<close> and \<open>struct connecting\<close> that always name the same field are left out and
  that field is accessed. The two unions carry the name of the member last set, and an access to
  another member is a fault. \<open>client_uname\<close>, a pointer into the table of users, is the index of
  the record. The list of addresses \<open>getaddrinfo\<close> returned is a list, a pointer into it the suffix
  it points to.

  A handler runs in a \<open>cworld\<close>: the selector, the globals, the connection its key is attached to
  and the effects so far (\<open>cw_out\<close>). What the kernel, \<open>malloc\<close> and \<open>pthread_create\<close> answer
  during one event is a \<open>kernel_ret\<close>, given to the handler together with its key.
\<close>

section \<open>States\<close>

definition HELLO_READ :: nat where "HELLO_READ = 0"

definition HELLO_WRITE :: nat where "HELLO_WRITE = 1"

definition AUTH_READ :: nat where "AUTH_READ = 2"

definition AUTH_WRITE :: nat where "AUTH_WRITE = 3"

definition REQUEST_READ :: nat where "REQUEST_READ = 4"

definition REQUEST_RESOLV :: nat where "REQUEST_RESOLV = 5"

definition REQUEST_CONNECTING :: nat where "REQUEST_CONNECTING = 6"

definition REQUEST_WRITE :: nat where "REQUEST_WRITE = 7"

definition COPY :: nat where "COPY = 8"

definition DONE :: nat where "DONE = 9"

definition ERROR :: nat where "ERROR = 10"

lemmas st_defs =
  HELLO_READ_def HELLO_WRITE_def AUTH_READ_def AUTH_WRITE_def REQUEST_READ_def REQUEST_RESOLV_def
  REQUEST_CONNECTING_def REQUEST_WRITE_def COPY_def DONE_def ERROR_def

section \<open>The structs of the states\<close>

datatype bufref = Read_buffer | Write_buffer

datatype fdref = Client_fd | Origin_fd

datatype side = Client_side | Origin_side

text \<open>\<open>parser.data\<close> points to \<open>method\<close>: that byte is \<open>hp_data\<close> of the parser.\<close>

record hello_st =
  hs_rb :: bufref
  hs_wb :: bufref
  hs_parser :: hello_parser

text \<open>\<open>parser.auth\<close> points to \<open>auth\<close>, which is \<open>ap_auth\<close> of the parser; \<open>uname\<close> is set and never
  read.\<close>

record auth_st =
  as_rb :: bufref
  as_wb :: bufref
  as_parser :: auth_parser
  as_status :: auth_response_status

text \<open>\<open>parser.request\<close> points to \<open>request\<close>, which is \<open>rp_request\<close> of the parser.\<close>

record request_st =
  rs_rb :: bufref
  rs_wb :: bufref
  rs_parser :: request_parser
  rs_status :: socks_response_status

record copy =
  cp_fd :: fdref
  cp_rb :: bufref
  cp_wb :: bufref
  cp_duplex :: fd_interest
  cp_other :: side

datatype client_union =
  C_none | C_hello hello_st | C_auth auth_st | C_request request_st | C_copy copy

datatype orig_union = O_none | O_conn | O_copy copy

record addrinfo =
  ai_family :: int
  ai_addr :: "byte list"

record socks5 =
  client_fd :: fd
  client_addr :: "byte list"
  client_addr_len :: nat
  client_uname :: "nat option"
  origin_resolution :: "addrinfo list option"
  origin_resolution_current :: "addrinfo list option"
  origin_fd :: fd
  origin_addr :: "byte list"
  origin_addr_len :: nat
  origin_domain :: int
  dest_addr_type :: byte
  dest_addr :: "byte list"
  so_stm :: state_machine
  so_client :: client_union
  so_orig :: orig_union
  so_dp :: disector_parser
  read_buffer :: buffer
  write_buffer :: buffer
  references :: nat

section \<open>Globals, effects and the environment\<close>

text \<open>\<open>pool\<close> is a list of structs whose contents are never read again, so its length is kept;
  \<open>pool_size\<close> is the program's own counter. \<open>g_users\<close> holds \<open>users\<close> and \<open>registered_users\<close>.\<close>

record globals =
  historic_connections :: u32
  current_connections :: u32
  bytes_transferred :: u32
  is_auth_on :: bool
  is_disector_on :: bool
  g_users :: registry
  pool_len :: nat
  pool_size :: nat

definition socksv5_historic_connections :: "globals \<Rightarrow> u32" where
  "socksv5_historic_connections g = historic_connections g"

definition socksv5_current_connections :: "globals \<Rightarrow> u32" where
  "socksv5_current_connections g = current_connections g"

definition socksv5_bytes_transferred :: "globals \<Rightarrow> u32" where
  "socksv5_bytes_transferred g = bytes_transferred g"

definition socksv5_toggle_disector :: "bool \<Rightarrow> globals \<Rightarrow> globals" where
  "socksv5_toggle_disector to g = g\<lparr>is_disector_on := to\<rparr>"

text \<open>The handlers registered with the selector.\<close>

datatype handler_id = H_socks5 | H_monitor | H_socks5_passive | H_monitor_passive

type_synonym selector = "(handler_id, nat) fdselector"

datatype shut_how = SHUT_RD | SHUT_WR

datatype out_event =
    Ev_recv fd "byte list"
  | Ev_send fd "byte list"
  | Ev_shutdown fd shut_how
  | Ev_close fd
  | Ev_thread
  | Ev_log_request socks_response_status "nat option"
  | Ev_log_credentials "byte list" "byte list" "nat option"

text \<open>What became of the struct: in use, in the pool, or freed.\<close>

datatype life = Alive | Pooled | Freed

record cworld =
  cw_sel :: selector
  cw_glob :: globals
  cw_conn :: socks5
  cw_life :: life
  cw_out :: "out_event list"

datatype connect_result = Connect_ok | Connect_errno int

definition EINPROGRESS :: int where "EINPROGRESS = 115"

record kernel_ret =
  kr_recv :: recv_result
  kr_send :: send_result
  kr_socket :: fd
  kr_getfd :: int
  kr_setfl :: "int \<Rightarrow> int"
  kr_connect :: connect_result
  kr_sockopt :: "int option"
  kr_malloc :: bool
  kr_pthread :: int

type_synonym ckey = "nat selector_key \<times> kernel_ret"

section \<open>Access\<close>

abbreviation upd_conn :: "(socks5 \<Rightarrow> socks5) \<Rightarrow> cworld \<Rightarrow> cworld" where
  "upd_conn f w \<equiv> w\<lparr>cw_conn := f (cw_conn w)\<rparr>"

abbreviation upd_glob :: "(globals \<Rightarrow> globals) \<Rightarrow> cworld \<Rightarrow> cworld" where
  "upd_glob f w \<equiv> w\<lparr>cw_glob := f (cw_glob w)\<rparr>"

definition emit :: "out_event \<Rightarrow> cworld \<Rightarrow> cworld" where
  "emit e w = w\<lparr>cw_out := cw_out w @ [e]\<rparr>"

fun get_buf :: "bufref \<Rightarrow> socks5 \<Rightarrow> buffer" where
  "get_buf Read_buffer c = read_buffer c"
| "get_buf Write_buffer c = write_buffer c"

fun set_buf :: "bufref \<Rightarrow> buffer \<Rightarrow> socks5 \<Rightarrow> socks5" where
  "set_buf Read_buffer b c = c\<lparr>read_buffer := b\<rparr>"
| "set_buf Write_buffer b c = c\<lparr>write_buffer := b\<rparr>"

fun get_fd :: "fdref \<Rightarrow> socks5 \<Rightarrow> fd" where
  "get_fd Client_fd c = client_fd c"
| "get_fd Origin_fd c = origin_fd c"

definition get_hello :: "socks5 \<Rightarrow> hello_st res" where
  "get_hello c = (case so_client c of C_hello d \<Rightarrow> Inr d | _ \<Rightarrow> Inl Bad_union)"

definition get_auth :: "socks5 \<Rightarrow> auth_st res" where
  "get_auth c = (case so_client c of C_auth d \<Rightarrow> Inr d | _ \<Rightarrow> Inl Bad_union)"

definition get_request :: "socks5 \<Rightarrow> request_st res" where
  "get_request c = (case so_client c of C_request d \<Rightarrow> Inr d | _ \<Rightarrow> Inl Bad_union)"

fun get_copy :: "side \<Rightarrow> socks5 \<Rightarrow> copy res" where
  "get_copy Client_side c = (case so_client c of C_copy d \<Rightarrow> Inr d | _ \<Rightarrow> Inl Bad_union)"
| "get_copy Origin_side c = (case so_orig c of O_copy d \<Rightarrow> Inr d | _ \<Rightarrow> Inl Bad_union)"

fun set_copy :: "side \<Rightarrow> copy \<Rightarrow> socks5 \<Rightarrow> socks5" where
  "set_copy Client_side d c = c\<lparr>so_client := C_copy d\<rparr>"
| "set_copy Origin_side d c = c\<lparr>so_orig := O_copy d\<rparr>"

text \<open>\<open>selector_set_interest\<close> and \<open>selector_set_interest_key\<close> on the selector of the world.\<close>

definition set_interest :: "fd \<Rightarrow> fd_interest \<Rightarrow> cworld \<Rightarrow> (selector_status \<times> cworld) res" where
  "set_interest f i w =
     rbind (selector_set_interest (cw_sel w) f i) (\<lambda>(st, s). Inr (st, w\<lparr>cw_sel := s\<rparr>))"

definition set_interest_key :: "ckey \<Rightarrow> fd_interest \<Rightarrow> cworld \<Rightarrow> (selector_status \<times> cworld) res" where
  "set_interest_key k i w =
     rbind (selector_set_interest_key (cw_sel w) (fst k) i) (\<lambda>(st, s). Inr (st, w\<lparr>cw_sel := s\<rparr>))"

text \<open>\<open>recv\<close> into the buffer \<open>r\<close> of the connection and, for a positive result, \<open>buffer_write_adv\<close>;
  \<open>send\<close> from it. All handlers begin with one of these.\<close>

definition conn_recv :: "ckey \<Rightarrow> bufref \<Rightarrow> cworld \<Rightarrow> (int \<times> cworld) res" where
  "conn_recv k r w =
     rbind (buffer_recv (get_buf r (cw_conn w)) (kr_recv (snd k))) (\<lambda>(n, b).
       if n > 0 then
         rbind (buffer_write_adv b n) (\<lambda>b'.
           Inr (n, emit (Ev_recv (key_fd (fst k)) (take (nat n) (drop (bwrite b) (bdata b))))
                     (upd_conn (set_buf r b') w)))
       else Inr (n, upd_conn (set_buf r b) w))"

definition conn_send :: "ckey \<Rightarrow> bufref \<Rightarrow> cworld \<Rightarrow> (int \<times> byte list \<times> cworld) res" where
  "conn_send k r w =
     rbind (buffer_send (get_buf r (cw_conn w)) (kr_send (snd k))) (\<lambda>(n, out).
       Inr (n, out, if n = -1 then w else emit (Ev_send (key_fd (fst k)) out) w))"

section \<open>Creation and destruction\<close>

definition RAW_BUFFER_SIZE :: nat where "RAW_BUFFER_SIZE = 1024"

definition max_pool :: nat where "max_pool = 50"

definition sizeof_sockaddr_storage :: nat where "sizeof_sockaddr_storage = 128"

text \<open>The struct after \<open>memset (ret, 0x00, sizeof (*ret))\<close>, the raw buffers being those of the two
  \<open>buffer\<close>s.\<close>

definition socks5_zero :: socks5 where
  "socks5_zero =
     \<lparr>client_fd = 0, client_addr = replicate sizeof_sockaddr_storage 0, client_addr_len = 0,
      client_uname = None, origin_resolution = None, origin_resolution_current = None,
      origin_fd = 0, origin_addr = replicate sizeof_sockaddr_storage 0, origin_addr_len = 0,
      origin_domain = 0, dest_addr_type = 0, dest_addr = replicate sizeof_socks_addr 0,
      so_stm = \<lparr>stm_initial = 0, stm_max_state = 0, stm_current = None\<rparr>,
      so_client = C_none, so_orig = O_none,
      so_dp = \<lparr>dp_disector = replicate sizeof_disector 0, dp_state = disector_wait_pop, dp_i = 0,
               dp_user_carry = False\<rparr>,
      read_buffer = \<lparr>bdata = [], blimit = 0, bread = 0, bwrite = 0\<rparr>,
      write_buffer = \<lparr>bdata = [], blimit = 0, bread = 0, bwrite = 0\<rparr>,
      references = 0\<rparr>"

text \<open>\<open>states\<close> is \<open>socks5_describe_states ()\<close>, the table of the theory \<open>Socks5\<close>; \<open>malloc_ok\<close> tells
  whether \<open>malloc\<close> returns memory.\<close>

definition socks5_new ::
  "(ckey, cworld) states \<Rightarrow> bool \<Rightarrow> fd \<Rightarrow> globals \<Rightarrow> (socks5 option \<times> globals) res" where
  "socks5_new states malloc_ok cfd g =
     (let (some, g1) = (if pool_len g = 0 then (malloc_ok, g)
                        else (True, g\<lparr>pool_len := pool_len g - 1\<rparr>))
      in if \<not> some then Inr (None, g1)
         else
           let ret = socks5_zero\<lparr>origin_fd := -1, client_fd := cfd,
                                 client_addr_len := sizeof_sockaddr_storage\<rparr>
           in rbind (stm_init states ((so_stm ret)\<lparr>stm_initial := HELLO_READ, stm_max_state := ERROR\<rparr>))
                (\<lambda>m. Inr (Some (ret\<lparr>so_stm := m,
                     read_buffer := buffer_init RAW_BUFFER_SIZE (replicate RAW_BUFFER_SIZE 0),
                     write_buffer := buffer_init RAW_BUFFER_SIZE (replicate RAW_BUFFER_SIZE 0),
                     references := 1\<rparr>), g1)))"

text \<open>\<open>socks5_destroy_\<close> releases the struct, \<open>socks5_destroy\<close> drops a reference to it.\<close>

definition socks5_destroy_now :: "cworld \<Rightarrow> cworld" where
  "socks5_destroy_now w =
     (upd_conn (\<lambda>c. if origin_resolution c \<noteq> None then c\<lparr>origin_resolution := None\<rparr> else c) w)\<lparr>cw_life := Freed\<rparr>"

definition socks5_destroy :: "cworld \<Rightarrow> cworld" where
  "socks5_destroy w =
     (if references (cw_conn w) = 1 then
        if pool_size (cw_glob w) < max_pool
        then (upd_glob (\<lambda>g. g\<lparr>pool_len := pool_len g + 1, pool_size := pool_size g + 1\<rparr>) w)\<lparr>cw_life := Pooled\<rparr>
        else socks5_destroy_now w
      else upd_conn (\<lambda>c. c\<lparr>references := references c - 1\<rparr>) w)"

definition socksv5_pool_destroy :: "globals \<Rightarrow> globals" where
  "socksv5_pool_destroy g = g\<lparr>pool_len := 0\<rparr>"

text \<open>\<open>socksv5_close\<close>, the close callback, and \<open>selector_unregister_fd\<close> on a descriptor of this
  connection. The callbacks of the other handlers are not reached from here.\<close>

definition socksv5_close :: "(handler_id, nat, cworld) callback" where
  "socksv5_close key = (\<lambda>(s, w). Inr (s, socks5_destroy w))"

definition close_handlers :: "handler_id \<Rightarrow> (handler_id, nat, cworld) fd_handler" where
  "close_handlers h =
     \<lparr>handle_read = None, handle_write = None, handle_block = None,
      handle_close = (if h = H_socks5 then Some socksv5_close else None)\<rparr>"

definition unregister_fd :: "fd \<Rightarrow> cworld \<Rightarrow> (selector_status \<times> cworld) res" where
  "unregister_fd f w =
     rbind (selector_unregister_fd close_handlers f (cw_sel w, w)) (\<lambda>(st, s, w').
       Inr (st, w'\<lparr>cw_sel := s\<rparr>))"

section \<open>Lemmas\<close>

text \<open>The states are different.\<close>

lemma st_neq [simp]:
  "HELLO_READ \<noteq> HELLO_WRITE" "HELLO_READ \<noteq> AUTH_READ" "HELLO_READ \<noteq> AUTH_WRITE"
  "HELLO_READ \<noteq> REQUEST_READ" "HELLO_READ \<noteq> REQUEST_RESOLV"
  "HELLO_READ \<noteq> REQUEST_CONNECTING" "HELLO_READ \<noteq> REQUEST_WRITE" "HELLO_READ \<noteq> COPY"
  "HELLO_READ \<noteq> DONE" "HELLO_READ \<noteq> ERROR" "HELLO_WRITE \<noteq> AUTH_READ"
  "HELLO_WRITE \<noteq> AUTH_WRITE" "HELLO_WRITE \<noteq> REQUEST_READ"
  "HELLO_WRITE \<noteq> REQUEST_RESOLV" "HELLO_WRITE \<noteq> REQUEST_CONNECTING"
  "HELLO_WRITE \<noteq> REQUEST_WRITE" "HELLO_WRITE \<noteq> COPY" "HELLO_WRITE \<noteq> DONE"
  "HELLO_WRITE \<noteq> ERROR" "AUTH_READ \<noteq> AUTH_WRITE" "AUTH_READ \<noteq> REQUEST_READ"
  "AUTH_READ \<noteq> REQUEST_RESOLV" "AUTH_READ \<noteq> REQUEST_CONNECTING"
  "AUTH_READ \<noteq> REQUEST_WRITE" "AUTH_READ \<noteq> COPY" "AUTH_READ \<noteq> DONE"
  "AUTH_READ \<noteq> ERROR" "AUTH_WRITE \<noteq> REQUEST_READ" "AUTH_WRITE \<noteq> REQUEST_RESOLV"
  "AUTH_WRITE \<noteq> REQUEST_CONNECTING" "AUTH_WRITE \<noteq> REQUEST_WRITE" "AUTH_WRITE \<noteq> COPY"
  "AUTH_WRITE \<noteq> DONE" "AUTH_WRITE \<noteq> ERROR" "REQUEST_READ \<noteq> REQUEST_RESOLV"
  "REQUEST_READ \<noteq> REQUEST_CONNECTING" "REQUEST_READ \<noteq> REQUEST_WRITE"
  "REQUEST_READ \<noteq> COPY" "REQUEST_READ \<noteq> DONE" "REQUEST_READ \<noteq> ERROR"
  "REQUEST_RESOLV \<noteq> REQUEST_CONNECTING" "REQUEST_RESOLV \<noteq> REQUEST_WRITE"
  "REQUEST_RESOLV \<noteq> COPY" "REQUEST_RESOLV \<noteq> DONE" "REQUEST_RESOLV \<noteq> ERROR"
  "REQUEST_CONNECTING \<noteq> REQUEST_WRITE" "REQUEST_CONNECTING \<noteq> COPY"
  "REQUEST_CONNECTING \<noteq> DONE" "REQUEST_CONNECTING \<noteq> ERROR" "REQUEST_WRITE \<noteq> COPY"
  "REQUEST_WRITE \<noteq> DONE" "REQUEST_WRITE \<noteq> ERROR" "COPY \<noteq> DONE" "COPY \<noteq> ERROR"
  "DONE \<noteq> ERROR"
  by (simp_all add: st_defs)

lemmas st_neq_sym [simp] = st_neq [symmetric]

text \<open>What a \<open>recv\<close> into and a \<open>send\<close> from a well-formed buffer of the connection do.\<close>

lemma get_set_buf [simp]:
  "get_buf r (set_buf r b c) = b"
  "r \<noteq> r' \<Longrightarrow> get_buf r (set_buf r' b c) = get_buf r c"
  by (cases r; simp) (cases r; cases r'; simp)

lemma set_buf_frame [simp]:
  "client_fd (set_buf r b c) = client_fd c" "origin_fd (set_buf r b c) = origin_fd c"
  "so_stm (set_buf r b c) = so_stm c" "so_client (set_buf r b c) = so_client c"
  "so_orig (set_buf r b c) = so_orig c" "client_uname (set_buf r b c) = client_uname c"
  "references (set_buf r b c) = references c" "so_dp (set_buf r b c) = so_dp c"
  by (cases r; simp)+

lemma emit_frame [simp]:
  "cw_sel (emit e w) = cw_sel w" "cw_glob (emit e w) = cw_glob w" "cw_conn (emit e w) = cw_conn w"
  "cw_life (emit e w) = cw_life w" "cw_out (emit e w) = cw_out w @ [e]"
  by (simp_all add: emit_def)

lemma set_copy_frame [simp]:
  "client_fd (set_copy s d c) = client_fd c" "origin_fd (set_copy s d c) = origin_fd c"
  "so_stm (set_copy s d c) = so_stm c" "read_buffer (set_copy s d c) = read_buffer c"
  "write_buffer (set_copy s d c) = write_buffer c" "client_uname (set_copy s d c) = client_uname c"
  "references (set_copy s d c) = references c" "so_dp (set_copy s d c) = so_dp c"
  "get_buf r (set_copy s d c) = get_buf r c" "get_fd f (set_copy s d c) = get_fd f c"
  by (cases s; cases r; cases f; simp)+

lemma get_set_copy [simp]:
  "get_copy s (set_copy s d c) = Inr d" "s \<noteq> s' \<Longrightarrow> get_copy s (set_copy s' d c) = get_copy s c"
  by (cases s; simp) (cases s; cases s'; simp)

lemma set_interest_frame:
  assumes "set_interest f i w = Inr (st, w')"
  shows "cw_conn w' = cw_conn w \<and> cw_glob w' = cw_glob w \<and> cw_life w' = cw_life w \<and> cw_out w' = cw_out w"
  using assms by (auto simp: set_interest_def)

lemma set_interest_key_frame:
  assumes "set_interest_key k i w = Inr (st, w')"
  shows "cw_conn w' = cw_conn w \<and> cw_glob w' = cw_glob w \<and> cw_life w' = cw_life w \<and> cw_out w' = cw_out w"
  using assms by (auto simp: set_interest_key_def)

text \<open>The parts of the world that most operations leave alone: the state machine, the name of the
  authenticated user, the descriptor of the client, the authentication switch and the users.\<close>

definition keeps :: "cworld \<Rightarrow> cworld \<Rightarrow> bool" where
  "keeps w w' \<longleftrightarrow>
     so_stm (cw_conn w') = so_stm (cw_conn w) \<and> client_uname (cw_conn w') = client_uname (cw_conn w) \<and>
     client_fd (cw_conn w') = client_fd (cw_conn w) \<and> is_auth_on (cw_glob w') = is_auth_on (cw_glob w) \<and>
     g_users (cw_glob w') = g_users (cw_glob w)"

named_theorems keeps_dest \<open>operations that keep the machine, the user name and the users\<close>

lemma keeps_refl [simp, intro]: "keeps w w"
  by (simp add: keeps_def)

lemma keeps_trans [trans]: "keeps w w' \<Longrightarrow> keeps w' w'' \<Longrightarrow> keeps w w''"
  by (simp add: keeps_def)

lemma set_interest_keeps [keeps_dest]: "set_interest f i w = Inr (st, w') \<Longrightarrow> keeps w w'"
  by (auto simp: keeps_def dest: set_interest_frame)

lemma set_interest_key_keeps [keeps_dest]: "set_interest_key k i w = Inr (st, w') \<Longrightarrow> keeps w w'"
  by (auto simp: keeps_def dest: set_interest_key_frame)

lemma conn_recv_keeps [keeps_dest]: "conn_recv k r w = Inr (n, w') \<Longrightarrow> keeps w w'"
  by (auto simp: conn_recv_def keeps_def split: if_splits)

lemma conn_send_keeps [keeps_dest]: "conn_send k r w = Inr (n, out, w') \<Longrightarrow> keeps w w'"
  by (auto simp: conn_send_def keeps_def split: if_splits)

lemma socks5_destroy_keeps: "keeps w (socks5_destroy w)"
  by (simp add: keeps_def socks5_destroy_def socks5_destroy_now_def)

lemma unregister_fd_cases:
  assumes "unregister_fd f w = Inr (st, w')"
  obtains s where "w' = w\<lparr>cw_sel := s\<rparr>" | s where "w' = (socks5_destroy w)\<lparr>cw_sel := s\<rparr>"
proof -
  obtain s g where "selector_unregister_fd close_handlers f (cw_sel w, w) = Inr (st, s, g)"
    "w' = g\<lparr>cw_sel := s\<rparr>"
    using assms by (auto simp: unregister_fd_def)
  moreover from this(1) have "g = w \<or> g = socks5_destroy w"
    by (auto simp: selector_unregister_fd_def close_handlers_def socksv5_close_def Let_def
        split: if_splits option.splits)
  ultimately show thesis using that by auto
qed

lemma unregister_fd_keeps [keeps_dest]: "unregister_fd f w = Inr (st, w') \<Longrightarrow> keeps w w'"
  by (erule unregister_fd_cases) (use socks5_destroy_keeps in \<open>auto simp: keeps_def\<close>)

lemma keeps_emit [simp]: "keeps w (emit e w') \<longleftrightarrow> keeps w w'" "keeps (emit e w) w' \<longleftrightarrow> keeps w w'"
  by (simp_all add: keeps_def)

lemma keeps_buf [simp]: "keeps w (upd_conn (set_buf r b) w') \<longleftrightarrow> keeps w w'"
  by (simp add: keeps_def)

end
