(* ===== verification/Handshake.thy ===== *)
theory Handshake
  imports Connection
begin

text \<open>
  The HELLO and AUTH states of \<open>src/server/socks5nio.c\<close>: method selection and username/password
  authentication. Each handler is the whole C function: the \<open>recv\<close> or \<open>send\<close>, the parser, the reply,
  the change of interest and the next state.
\<close>

section \<open>HELLO\<close>

definition on_hello_method :: "bool \<Rightarrow> byte \<Rightarrow> byte \<Rightarrow> byte" where
  "on_hello_method auth_on selected method =
     (if (\<not> auth_on \<and> SOCKS_HELLO_NO_AUTHENTICATION_REQUIRED = method) \<or>
         (auth_on \<and> SOCKS_HELLO_USERNAME_PASSWORD = method)
      then method else selected)"

definition hello_read_init :: "nat \<Rightarrow> ckey \<Rightarrow> cworld \<Rightarrow> cworld res" where
  "hello_read_init st k w =
     (let p = hello_parser_init \<lparr>hp_data = SOCKS_HELLO_NO_ACCEPTABLE_METHODS, hp_state = hello_version,
                                 hp_remaining = 0\<rparr>;
          w1 = upd_conn (\<lambda>c. c\<lparr>so_client := C_hello \<lparr>hs_rb = Read_buffer, hs_wb = Write_buffer,
                                                      hs_parser = p\<rparr>\<rparr>) w
      in Inr (if rg_count (g_users (cw_glob w1)) = 0
              then upd_glob (\<lambda>g. g\<lparr>is_auth_on := False\<rparr>) w1 else w1))"

definition hello_process :: "cworld \<Rightarrow> (nat \<times> cworld) res" where
  "hello_process w =
     rbind (get_hello (cw_conn w)) (\<lambda>d.
     rbind (hello_marshall (get_buf (hs_wb d) (cw_conn w)) (hp_data (hs_parser d))) (\<lambda>(n, b).
       Inr (if -1 = n then ERROR else HELLO_WRITE, upd_conn (set_buf (hs_wb d) b) w)))"

definition hello_read :: "ckey \<Rightarrow> cworld \<Rightarrow> (nat \<times> cworld) res" where
  "hello_read k w =
     rbind (get_hello (cw_conn w)) (\<lambda>d.
     rbind (conn_recv k (hs_rb d) w) (\<lambda>(n, w1).
       if n > 0 then
         rbind (hello_consume (Some (on_hello_method (is_auth_on (cw_glob w1))))
                  (get_buf (hs_rb d) (cw_conn w1)) (hs_parser d) (Some False)) (\<lambda>(st, b, p, error).
           let w2 = upd_conn (\<lambda>c. (set_buf (hs_rb d) b c)\<lparr>so_client := C_hello (d\<lparr>hs_parser := p\<rparr>)\<rparr>) w1
           in rbind (if fst (hello_is_done st None) then
                       rbind (set_interest_key k OP_WRITE w2) (\<lambda>(ss, w3).
                         if SELECTOR_SUCCESS = ss then hello_process w3 else Inr (ERROR, w3))
                     else Inr (HELLO_READ, w2)) (\<lambda>(ret, w4).
                Inr (if error = Some True then ERROR else ret, w4)))
       else Inr (ERROR, w1)))"

definition hello_read_close :: "nat \<Rightarrow> ckey \<Rightarrow> cworld \<Rightarrow> cworld res" where
  "hello_read_close st k w =
     rbind (get_hello (cw_conn w)) (\<lambda>d.
       Inr (upd_conn (\<lambda>c. c\<lparr>so_client := C_hello (d\<lparr>hs_parser := hello_parser_close (hs_parser d)\<rparr>)\<rparr>) w))"

definition hello_write :: "ckey \<Rightarrow> cworld \<Rightarrow> (nat \<times> cworld) res" where
  "hello_write k w =
     rbind (get_hello (cw_conn w)) (\<lambda>d.
     rbind (conn_send k (hs_wb d) w) (\<lambda>(n, out, w1).
       if n = -1 then Inr (ERROR, w1)
       else rbind (buffer_read_adv (get_buf (hs_wb d) (cw_conn w1)) n) (\<lambda>b.
         let w2 = upd_conn (set_buf (hs_wb d) b) w1
         in if \<not> buffer_can_read b then
              rbind (set_interest_key k OP_READ w2) (\<lambda>(ss, w3).
                Inr (if SELECTOR_SUCCESS = ss
                     then (if is_auth_on (cw_glob w3) then AUTH_READ else REQUEST_READ)
                     else ERROR, w3))
            else Inr (HELLO_WRITE, w2))))"

section \<open>AUTH\<close>

text \<open>The zeroed \<open>struct auth\<close> and the parser fields that \<open>auth_parser_init\<close> leaves alone.\<close>

definition auth_init :: "nat \<Rightarrow> ckey \<Rightarrow> cworld \<Rightarrow> cworld res" where
  "auth_init st k w =
     (let p = auth_parser_init \<lparr>ap_auth = \<lparr>a_uname = [], a_passwd = []\<rparr>, ap_state = auth_version,
                                ap_len = 0, ap_i = 0\<rparr>
      in Inr (upd_conn (\<lambda>c. c\<lparr>so_client := C_auth \<lparr>as_rb = Read_buffer, as_wb = Write_buffer,
             as_parser = p, as_status = auth_status_failure\<rparr>\<rparr>) w))"

definition auth_process :: "ckey \<Rightarrow> cworld \<Rightarrow> (nat \<times> cworld) res" where
  "auth_process k w =
     rbind (get_auth (cw_conn w)) (\<lambda>d.
       let a = ap_auth (as_parser d);
           found = authenticate (g_users (cw_glob w)) (a_uname a) (a_passwd a);
           w1 = (case found of None \<Rightarrow> w | Some i \<Rightarrow> upd_conn (\<lambda>c. c\<lparr>client_uname := Some i\<rparr>) w);
           status = (if found \<noteq> None then auth_status_succeeded else auth_status_failure)
       in rbind (auth_marshall (get_buf (as_wb d) (cw_conn w1)) status) (\<lambda>(n, b).
            if -1 = n then Inl Abort_call
            else Inr (AUTH_WRITE,
              upd_conn (\<lambda>c. (set_buf (as_wb d) b c)\<lparr>so_client := C_auth (d\<lparr>as_status := status\<rparr>)\<rparr>) w1)))"

definition auth_read :: "ckey \<Rightarrow> cworld \<Rightarrow> (nat \<times> cworld) res" where
  "auth_read k w =
     rbind (get_auth (cw_conn w)) (\<lambda>d.
     rbind (conn_recv k (as_rb d) w) (\<lambda>(n, w1).
       if n > 0 then
         rbind (auth_consume (get_buf (as_rb d) (cw_conn w1)) (as_parser d) (Some False)) (\<lambda>(st, b, p, error).
           let w2 = upd_conn (\<lambda>c. (set_buf (as_rb d) b c)\<lparr>so_client := C_auth (d\<lparr>as_parser := p\<rparr>)\<rparr>) w1
           in rbind (if fst (auth_is_done st None) then
                       rbind (set_interest_key k OP_WRITE w2) (\<lambda>(ss, w3).
                         if SELECTOR_SUCCESS = ss then auth_process k w3 else Inr (ERROR, w3))
                     else Inr (AUTH_READ, w2)) (\<lambda>(ret, w4).
                Inr (if error = Some True then ERROR else ret, w4)))
       else Inr (ERROR, w1)))"

definition auth_write :: "ckey \<Rightarrow> cworld \<Rightarrow> (nat \<times> cworld) res" where
  "auth_write k w =
     rbind (get_auth (cw_conn w)) (\<lambda>d.
     rbind (conn_send k (as_wb d) w) (\<lambda>(n, out, w1).
       if n = -1 then Inr (ERROR, w1)
       else rbind (buffer_read_adv (get_buf (as_wb d) (cw_conn w1)) n) (\<lambda>b.
         let w2 = upd_conn (set_buf (as_wb d) b) w1
         in if \<not> buffer_can_read b then
              if as_status d = auth_status_succeeded then
                rbind (set_interest_key k OP_READ w2) (\<lambda>(ss, w3).
                  Inr (if SELECTOR_SUCCESS = ss then REQUEST_READ else ERROR, w3))
              else
                rbind (set_interest_key k OP_NOOP w2) (\<lambda>(ss, w3). Inr (ERROR, w3))
            else Inr (AUTH_WRITE, w2))))"

section \<open>Lemmas\<close>

lemma hello_process_keeps [keeps_dest]: "hello_process w = Inr (n, w') \<Longrightarrow> keeps w w'"
  by (auto simp: hello_process_def)

lemma hello_read_keeps [keeps_dest]: "hello_read k w = Inr (n, w') \<Longrightarrow> keeps w w'"
  by (auto simp: hello_read_def Let_def keeps_def split: if_splits prod.splits
      dest!: keeps_dest [unfolded keeps_def])

lemma hello_write_keeps [keeps_dest]: "hello_write k w = Inr (n, w') \<Longrightarrow> keeps w w'"
  by (auto simp: hello_write_def Let_def keeps_def split: if_splits prod.splits
      dest!: keeps_dest [unfolded keeps_def])

lemma auth_write_keeps [keeps_dest]: "auth_write k w = Inr (n, w') \<Longrightarrow> keeps w w'"
  by (auto simp: auth_write_def Let_def keeps_def split: if_splits prod.splits
      dest!: keeps_dest [unfolded keeps_def])

text \<open>Authentication names the user and changes nothing else of what \<open>keeps\<close> is about.\<close>

definition keeps_but_name :: "cworld \<Rightarrow> cworld \<Rightarrow> bool" where
  "keeps_but_name w w' \<longleftrightarrow>
     so_stm (cw_conn w') = so_stm (cw_conn w) \<and> client_fd (cw_conn w') = client_fd (cw_conn w) \<and>
     is_auth_on (cw_glob w') = is_auth_on (cw_glob w) \<and> g_users (cw_glob w') = g_users (cw_glob w)"

definition auth_settled :: "cworld \<Rightarrow> bool" where
  "auth_settled w \<longleftrightarrow> (\<exists>d. so_client (cw_conn w) = C_auth d \<and>
     (as_status d = auth_status_succeeded \<longrightarrow> client_uname (cw_conn w) \<noteq> None))"

lemma keeps_keeps_but_name: "keeps w w1 \<Longrightarrow> keeps_but_name w1 w' \<Longrightarrow> keeps_but_name w w'"
  by (simp add: keeps_def keeps_but_name_def)

lemma keeps_but_name_refl: "keeps w w1 \<Longrightarrow> keeps_but_name w w1"
  by (simp add: keeps_def keeps_but_name_def)

lemma auth_process_frame:
  assumes "auth_process k w = Inr (n, w')"
  shows "keeps_but_name w w' \<and> n = AUTH_WRITE \<and> auth_settled w'"
proof -
  obtain d where d: "get_auth (cw_conn w) = Inr d" using assms by (auto simp: auth_process_def)
  let ?a = "ap_auth (as_parser d)"
  show ?thesis
    using assms d
    by (cases "authenticate (g_users (cw_glob w)) (a_uname ?a) (a_passwd ?a)")
      (auto simp: auth_process_def keeps_but_name_def auth_settled_def Let_def split: if_splits)
qed

lemma auth_read_frame:
  assumes "auth_read k w = Inr (n, w')"
  shows "keeps_but_name w w' \<and> (n = AUTH_READ \<or> n = ERROR \<or> n = AUTH_WRITE \<and> auth_settled w')"
proof -
  obtain d m w1 where 1: "get_auth (cw_conn w) = Inr d" "conn_recv k (as_rb d) w = Inr (m, w1)"
    using assms by (auto simp: auth_read_def)
  then have k1: "keeps w w1" by (simp add: conn_recv_keeps)
  show ?thesis
  proof (cases "m > 0")
    case False
    with assms 1 k1 show ?thesis by (auto simp: auth_read_def keeps_but_name_refl)
  next
    case True
    obtain st b p e where c: "auth_consume (get_buf (as_rb d) (cw_conn w1)) (as_parser d) (Some False) =
        Inr (st, b, p, e)"
      using assms 1 True by (auto simp: auth_read_def)
    define w2 where "w2 = upd_conn (\<lambda>c. (set_buf (as_rb d) b c)\<lparr>so_client := C_auth (d\<lparr>as_parser := p\<rparr>)\<rparr>) w1"
    have k2: "keeps w w2" using k1 by (simp add: w2_def keeps_def)
    obtain ret where ret: "(if fst (auth_is_done st None) then
          rbind (set_interest_key k OP_WRITE w2) (\<lambda>(ss, w3).
            if SELECTOR_SUCCESS = ss then auth_process k w3 else Inr (ERROR, w3))
        else Inr (AUTH_READ, w2)) = Inr (ret, w')" "n = (if e = Some True then ERROR else ret)"
      using assms 1 True c by (auto simp: auth_read_def Let_def cong: if_cong simp flip: w2_def)
    show ?thesis
    proof (cases "fst (auth_is_done st None)")
      case False
      with ret k2 show ?thesis by (auto simp: keeps_but_name_refl)
    next
      case True
      with ret obtain ss w3 where w3: "set_interest_key k OP_WRITE w2 = Inr (ss, w3)"
        "(if SELECTOR_SUCCESS = ss then auth_process k w3 else Inr (ERROR, w3)) = Inr (ret, w')"
        by auto
      have k3: "keeps w w3" using k2 set_interest_key_keeps [OF w3(1)] by (rule keeps_trans)
      show ?thesis
        using w3(2) ret(2) k3 auth_process_frame [of k w3 ret w']
        by (auto simp: keeps_but_name_refl keeps_keeps_but_name split: if_splits)
    qed
  qed
qed

lemma hello_read_next: "hello_read k w = Inr (n, w') \<Longrightarrow> n = HELLO_READ \<or> n = HELLO_WRITE \<or> n = ERROR"
  by (auto simp: hello_read_def hello_process_def Let_def split: if_splits prod.splits)

lemma hello_write_next:
  "hello_write k w = Inr (n, w') \<Longrightarrow>
   n = HELLO_WRITE \<or> n = ERROR \<or> n = AUTH_READ \<or> n = REQUEST_READ \<and> \<not> is_auth_on (cw_glob w')"
  by (auto simp: hello_write_def Let_def split: if_splits prod.splits)

lemma auth_write_next:
  assumes "auth_write k w = Inr (n, w')"
  shows "(n = ERROR \<or> n = AUTH_WRITE \<or> n = REQUEST_READ) \<and> so_client (cw_conn w') = so_client (cw_conn w) \<and>
    (n = REQUEST_READ \<longrightarrow> (\<exists>d. so_client (cw_conn w) = C_auth d \<and> as_status d = auth_status_succeeded))"
proof -
  have snd: "conn_send k r w = Inr (m, out, w1) \<Longrightarrow> cw_conn w1 = cw_conn w" for r m out w1
    by (auto simp: conn_send_def split: if_splits)
  show ?thesis
    using assms
    by (auto simp: auth_write_def Let_def get_auth_def st_defs split: if_splits prod.splits client_union.splits
        dest!: set_interest_key_frame snd)
qed

end
