(* ===== verification/Connect.thy ===== *)
theory Connect
  imports Connection
begin

text \<open>
  The REQUEST states of \<open>src/server/socks5nio.c\<close>: reading the request, resolving names, connecting
  to the origin server and sending the reply.

  \<open>request_resolv_blocking\<close> runs in its own thread; it is a step of its own, which may take place
  between two events of the selector. \<open>resolution\<close> is what \<open>getaddrinfo\<close> answers (\<open>None\<close> for an
  error, otherwise a list of at least one address).
\<close>

definition request_parser_blank :: request_parser where
  "request_parser_blank =
     \<lparr>rp_request = request_zero, rp_state = request_version, rp_n = 0, rp_i = 0\<rparr>"

definition request_init :: "nat \<Rightarrow> ckey \<Rightarrow> cworld \<Rightarrow> cworld res" where
  "request_init st k w =
     Inr (upd_conn (\<lambda>c. c\<lparr>so_client := C_request \<lparr>rs_rb = Read_buffer, rs_wb = Write_buffer,
            rs_parser = request_parser_init request_parser_blank,
            rs_status = status_general_SOCKS_server_failure\<rparr>\<rparr>) w)"

definition set_request :: "request_st \<Rightarrow> cworld \<Rightarrow> cworld" where
  "set_request d w = upd_conn (\<lambda>c. c\<lparr>so_client := C_request d\<rparr>) w"

definition request_error_write :: "ckey \<Rightarrow> socks_response_status \<Rightarrow> cworld \<Rightarrow> (nat \<times> cworld) res" where
  "request_error_write k status w =
     rbind (get_request (cw_conn w)) (\<lambda>d.
       let w1 = set_request (d\<lparr>rs_status := status\<rparr>) w
       in rbind (request_marshall (get_buf (rs_wb d) (cw_conn w1)) status) (\<lambda>(n, b).
            if -1 = n then Inl Abort_call
            else
              rbind (set_interest (client_fd (cw_conn w1)) OP_WRITE (upd_conn (set_buf (rs_wb d) b) w1))
                (\<lambda>(st, w2). Inr (if SELECTOR_SUCCESS = st then REQUEST_WRITE else ERROR, w2))))"

text \<open>The end of \<open>request_connect\<close>, from the label \<open>finally\<close> on.\<close>

definition request_connect_finally ::
  "ckey \<Rightarrow> bool \<Rightarrow> socks_response_status \<Rightarrow> cworld \<Rightarrow> (nat \<times> cworld) res" where
  "request_connect_finally k error status w =
     (if error then
        let w1 = (if origin_fd (cw_conn w) \<noteq> -1
                  then upd_conn (\<lambda>c. c\<lparr>origin_fd := -1\<rparr>) (emit (Ev_close (origin_fd (cw_conn w))) w)
                  else w)
        in request_error_write k status w1
      else Inr (REQUEST_CONNECTING, w))"

definition request_connect :: "ckey \<Rightarrow> cworld \<Rightarrow> (nat \<times> cworld) res" where
  "request_connect k w =
     rbind (get_request (cw_conn w)) (\<lambda>d.
     rbind (case stm_current (so_stm (cw_conn w)) of
              None \<Rightarrow> Inl Null_deref
            | Some st \<Rightarrow>
                if st = REQUEST_CONNECTING then
                  rbind (unregister_fd (origin_fd (cw_conn w)) w) (\<lambda>(_, w0).
                    Inr (emit (Ev_close (origin_fd (cw_conn w0))) w0))
                else Inr w) (\<lambda>w1.
       let fd = kr_socket (snd k);
           w2 = upd_conn (\<lambda>c. c\<lparr>origin_fd := fd\<rparr>) w1
       in if fd = -1 then request_connect_finally k True status_general_SOCKS_server_failure w2
          else if selector_fd_set_nio (kr_getfd (snd k)) (kr_setfl (snd k)) = -1
          then request_connect_finally k False (rs_status d) w2
          else case kr_connect (snd k) of
            Connect_ok \<Rightarrow> Inl Abort_call
          | Connect_errno e \<Rightarrow>
              if e = EINPROGRESS then
                rbind (set_interest (client_fd (cw_conn w2)) OP_NOOP w2) (\<lambda>(st, w3).
                  if SELECTOR_SUCCESS \<noteq> st then request_connect_finally k True (rs_status d) w3
                  else
                    rbind (selector_register (kr_malloc (snd k)) (cw_sel w3) fd (Some H_socks5) OP_WRITE
                             (key_data (fst k))) (\<lambda>(st, s).
                      let w4 = w3\<lparr>cw_sel := s\<rparr>
                      in if SELECTOR_SUCCESS \<noteq> st then request_connect_finally k True (rs_status d) w4
                         else request_connect_finally k False (rs_status d)
                                (upd_conn (\<lambda>c. c\<lparr>references := references c + 1\<rparr>) w4)))
              else request_connect_finally k True (errno_to_socks e) w2))"

text \<open>The store of the port into the socket address, at offset 2, and the copy to \<open>origin_addr\<close>.\<close>

definition set_origin_addr :: "int \<Rightarrow> nat \<Rightarrow> cworld \<Rightarrow> cworld res" where
  "set_origin_addr domain len w =
     rbind (get_request (cw_conn w)) (\<lambda>d.
       let r = rp_request (rs_parser d);
           a = overwrite (r_dest_addr r) 2 (r_dest_port r);
           d1 = d\<lparr>rs_parser := upd_request (\<lambda>r. r\<lparr>r_dest_addr := a\<rparr>) (rs_parser d)\<rparr>
       in Inr (upd_conn (\<lambda>c. c\<lparr>origin_domain := domain, origin_addr_len := len,
                 origin_addr := overwrite (origin_addr c) 0 (take len a)\<rparr>) (set_request d1 w)))"

definition AF_INET :: int where "AF_INET = 2"

definition AF_INET6 :: int where "AF_INET6 = 10"

definition request_process :: "ckey \<Rightarrow> cworld \<Rightarrow> (nat \<times> cworld) res" where
  "request_process k w =
     rbind (get_request (cw_conn w)) (\<lambda>d.
       let r = rp_request (rs_parser d)
       in if r_cmd r = socks_req_cmd_connect then
            if r_dest_addr_type r = socks_req_addrtype_ipv4 then
              rbind (set_origin_addr AF_INET sizeof_sockaddr_in w) (request_connect k)
            else if r_dest_addr_type r = socks_req_addrtype_ipv6 then
              rbind (set_origin_addr AF_INET6 sizeof_sockaddr_in6 w) (request_connect k)
            else if r_dest_addr_type r = socks_req_addrtype_domain then
              if \<not> kr_malloc (snd k) then request_error_write k status_general_SOCKS_server_failure w
              else if -1 = kr_pthread (snd k)
              then request_error_write k status_general_SOCKS_server_failure w
              else rbind (set_interest_key k OP_NOOP (emit Ev_thread w)) (\<lambda>(_, w1). Inr (REQUEST_RESOLV, w1))
            else request_error_write k status_address_type_not_supported w
          else request_error_write k status_command_not_supported w)"

definition request_read :: "ckey \<Rightarrow> cworld \<Rightarrow> (nat \<times> cworld) res" where
  "request_read k w =
     rbind (get_request (cw_conn w)) (\<lambda>d.
     rbind (conn_recv k (rs_rb d) w) (\<lambda>(n, w1).
       if n > 0 then
         rbind (request_consume (get_buf (rs_rb d) (cw_conn w1)) (rs_parser d) (Some False)) (\<lambda>(st, b, p, error).
           let w2 = set_request (d\<lparr>rs_parser := p\<rparr>) (upd_conn (set_buf (rs_rb d) b) w1)
           in rbind (if \<not> (error = Some True) \<and> fst (request_is_done st None) then request_process k w2
                     else Inr (REQUEST_READ, w2)) (\<lambda>(ret, w3).
                Inr (if error = Some True then ERROR else ret, w3)))
       else Inr (ERROR, w1)))"

definition request_read_close :: "nat \<Rightarrow> ckey \<Rightarrow> cworld \<Rightarrow> cworld res" where
  "request_read_close st k w =
     rbind (get_request (cw_conn w)) (\<lambda>d.
       Inr (set_request (d\<lparr>rs_parser := request_close (rs_parser d)\<rparr>) w))"

section \<open>Name resolution\<close>

definition request_resolv_blocking :: "addrinfo list option \<Rightarrow> bool \<Rightarrow> fd \<Rightarrow> cworld \<Rightarrow> cworld res" where
  "request_resolv_blocking resolution job_ok kfd w =
     rbind (get_request (cw_conn w)) (\<lambda>d.
       let w1 = upd_conn (\<lambda>c. c\<lparr>origin_resolution := None\<rparr>) w;
           w2 = (case resolution of
                   None \<Rightarrow> upd_conn (\<lambda>c. c\<lparr>origin_resolution := None\<rparr>)
                            (set_request (d\<lparr>rs_status := status_general_SOCKS_server_failure\<rparr>) w1)
                 | Some ais \<Rightarrow> upd_conn (\<lambda>c. c\<lparr>origin_resolution := Some ais\<rparr>) w1)
       in Inr (w2\<lparr>cw_sel := snd (selector_notify_block job_ok (cw_sel w2) kfd)\<rparr>))"

text \<open>The next address to try: the head of the list \<open>ais\<close>.\<close>

definition use_address :: "addrinfo list \<Rightarrow> cworld \<Rightarrow> cworld res" where
  "use_address ais w =
     (case ais of
        [] \<Rightarrow> Inl Null_deref
      | a # _ \<Rightarrow> Inr (upd_conn (\<lambda>c. c\<lparr>origin_resolution_current := Some ais, origin_domain := ai_family a,
            origin_addr_len := length (ai_addr a), origin_addr := overwrite (origin_addr c) 0 (ai_addr a)\<rparr>) w))"

definition request_resolv_done :: "ckey \<Rightarrow> cworld \<Rightarrow> (nat \<times> cworld) res" where
  "request_resolv_done k w =
     rbind (get_request (cw_conn w)) (\<lambda>d.
       case origin_resolution (cw_conn w) of
         None \<Rightarrow> request_error_write k status_host_unreachable w
       | Some ais \<Rightarrow> rbind (use_address ais w) (request_connect k))"

section \<open>Waiting for the connection\<close>

definition request_connecting_init :: "nat \<Rightarrow> ckey \<Rightarrow> cworld \<Rightarrow> cworld res" where
  "request_connecting_init st k w = Inr (upd_conn (\<lambda>c. c\<lparr>so_orig := O_conn\<rparr>) w)"

definition get_conn :: "socks5 \<Rightarrow> unit res" where
  "get_conn c = (case so_orig c of O_conn \<Rightarrow> Inr () | _ \<Rightarrow> Inl Bad_union)"

text \<open>\<open>s->origin_resolution_current->ai_next\<close>.\<close>

definition next_address :: "socks5 \<Rightarrow> addrinfo list res" where
  "next_address c =
     (case origin_resolution_current c of Some (_ # ais) \<Rightarrow> Inr ais | _ \<Rightarrow> Inl Null_deref)"

text \<open>The part of \<open>request_connecting\<close> after the outcome is known: release the addresses, write the
  reply, watch the client for writing.\<close>

definition request_connecting_reply :: "ckey \<Rightarrow> cworld \<Rightarrow> (nat \<times> cworld) res" where
  "request_connecting_reply k w =
     rbind (get_request (cw_conn w)) (\<lambda>d.
       let w1 = (if r_dest_addr_type (rp_request (rs_parser d)) = socks_req_addrtype_domain
                 then upd_conn (\<lambda>c. c\<lparr>origin_resolution := None, origin_resolution_current := None\<rparr>) w
                 else w)
       in rbind (request_marshall (get_buf (rs_wb d) (cw_conn w1)) (rs_status d)) (\<lambda>(n, b).
            if -1 = n then Inl Abort_call
            else
              rbind (set_interest (client_fd (cw_conn w1)) OP_WRITE (upd_conn (set_buf (rs_wb d) b) w1))
                (\<lambda>(s1, w2).
              rbind (set_interest_key k OP_NOOP w2) (\<lambda>(s2, w3).
                Inr (if SELECTOR_SUCCESS = s1 \<and> SELECTOR_SUCCESS = s2 then REQUEST_WRITE else ERROR, w3)))))"

definition request_connecting :: "ckey \<Rightarrow> cworld \<Rightarrow> (nat \<times> cworld) res" where
  "request_connecting k w =
     rbind (get_conn (cw_conn w)) (\<lambda>_.
     rbind (get_request (cw_conn w)) (\<lambda>d.
       let set_status = (\<lambda>st w. set_request (d\<lparr>rs_status := st\<rparr>) w)
       in case kr_sockopt (snd k) of
            None \<Rightarrow> request_connecting_reply k (set_status status_general_SOCKS_server_failure w)
          | Some error \<Rightarrow>
              if error = 0 then
                request_connecting_reply k
                  (upd_conn (\<lambda>c. c\<lparr>origin_fd := key_fd (fst k)\<rparr>) (set_status status_succeeded w))
              else
                rbind (if r_dest_addr_type (rp_request (rs_parser d)) = socks_req_addrtype_domain
                       then next_address (cw_conn w) else Inr []) (\<lambda>ais.
                  if ais \<noteq> [] then
                    rbind (use_address ais w) (\<lambda>w1.
                    rbind (request_connect k w1) (\<lambda>(_, w2). Inr (REQUEST_CONNECTING, w2)))
                  else request_connecting_reply k (set_status (errno_to_socks error) w))))"

section \<open>The reply\<close>

definition request_write :: "ckey \<Rightarrow> cworld \<Rightarrow> (nat \<times> cworld) res" where
  "request_write k w =
     rbind (get_request (cw_conn w)) (\<lambda>d.
     rbind (conn_send k (rs_wb d) w) (\<lambda>(n, out, w1).
       if n = -1 then Inr (ERROR, w1)
       else rbind (buffer_read_adv (get_buf (rs_wb d) (cw_conn w1)) n) (\<lambda>b.
         let w2 = upd_conn (set_buf (rs_wb d) b) w1
         in if \<not> buffer_can_read b then
              rbind
                (if rs_status d = status_succeeded then
                   rbind (set_interest (client_fd (cw_conn w2)) OP_READ w2) (\<lambda>(_, w3).
                   rbind (set_interest (origin_fd (cw_conn w3)) OP_READ w3) (\<lambda>(_, w4).
                     let r = rp_request (rs_parser d);
                         w5 = upd_conn (\<lambda>c. c\<lparr>dest_addr := r_dest_addr r,
                                             dest_addr_type := r_dest_addr_type r\<rparr>) w4
                     in Inr (COPY, upd_glob (\<lambda>g. g\<lparr>historic_connections := historic_connections g + 1,
                                                 current_connections := current_connections g + 1\<rparr>) w5)))
                 else
                   rbind (set_interest (client_fd (cw_conn w2)) OP_NOOP w2) (\<lambda>(_, w3).
                   rbind (if -1 \<noteq> origin_fd (cw_conn w3)
                          then set_interest (origin_fd (cw_conn w3)) OP_NOOP w3
                          else Inr (SELECTOR_SUCCESS, w3)) (\<lambda>(_, w4). Inr (ERROR, w4))))
                (\<lambda>(ret, w6). Inr (ret, emit (Ev_log_request (rs_status d) (client_uname (cw_conn w6))) w6))
            else Inr (REQUEST_WRITE, w2))))"

section \<open>Lemmas\<close>

lemma keeps_set_request [simp]: "keeps w (set_request d w') \<longleftrightarrow> keeps w w'"
  by (simp add: keeps_def set_request_def)

lemma request_error_write_keeps [keeps_dest]: "request_error_write k st w = Inr (n, w') \<Longrightarrow> keeps w w'"
  by (auto simp: request_error_write_def Let_def keeps_def set_request_def split: if_splits prod.splits
      dest!: keeps_dest [unfolded keeps_def])

lemma request_connect_finally_keeps [keeps_dest]:
  "request_connect_finally k e st w = Inr (n, w') \<Longrightarrow> keeps w w'"
  by (auto simp: request_connect_finally_def Let_def keeps_def split: if_splits
      dest!: keeps_dest [unfolded keeps_def])

lemma request_connect_keeps [keeps_dest]: "request_connect k w = Inr (n, w') \<Longrightarrow> keeps w w'"
  by (auto simp: request_connect_def Let_def keeps_def split: if_splits prod.splits option.splits
      connect_result.splits dest!: keeps_dest [unfolded keeps_def])

lemma set_origin_addr_keeps: "set_origin_addr dm len w = Inr w' \<Longrightarrow> keeps w w'"
  by (auto simp: set_origin_addr_def Let_def keeps_def set_request_def)

lemma use_address_keeps: "use_address ais w = Inr w' \<Longrightarrow> keeps w w'"
  by (auto simp: use_address_def keeps_def split: list.splits)

lemma request_process_keeps [keeps_dest]: "request_process k w = Inr (n, w') \<Longrightarrow> keeps w w'"
  by (auto simp: request_process_def Let_def keeps_def split: if_splits
      dest!: keeps_dest [unfolded keeps_def] set_origin_addr_keeps [unfolded keeps_def])

lemma request_read_keeps [keeps_dest]: "request_read k w = Inr (n, w') \<Longrightarrow> keeps w w'"
  by (auto simp: request_read_def Let_def keeps_def set_request_def split: if_splits prod.splits
      dest!: keeps_dest [unfolded keeps_def])

lemma request_resolv_done_keeps [keeps_dest]: "request_resolv_done k w = Inr (n, w') \<Longrightarrow> keeps w w'"
  by (auto simp: request_resolv_done_def keeps_def split: option.splits
      dest!: keeps_dest [unfolded keeps_def] use_address_keeps [unfolded keeps_def])

lemma request_connecting_reply_keeps [keeps_dest]:
  "request_connecting_reply k w = Inr (n, w') \<Longrightarrow> keeps w w'"
  by (auto simp: request_connecting_reply_def Let_def keeps_def split: if_splits prod.splits
      dest!: keeps_dest [unfolded keeps_def])

lemma request_connecting_keeps [keeps_dest]: "request_connecting k w = Inr (n, w') \<Longrightarrow> keeps w w'"
  by (auto simp: request_connecting_def Let_def keeps_def set_request_def split: if_splits prod.splits option.splits
      dest!: keeps_dest [unfolded keeps_def] use_address_keeps [unfolded keeps_def])

lemma request_write_keeps [keeps_dest]: "request_write k w = Inr (n, w') \<Longrightarrow> keeps w w'"
  by (auto simp: request_write_def Let_def keeps_def split: if_splits prod.splits
      dest!: keeps_dest [unfolded keeps_def])

lemma request_error_write_next: "request_error_write k st w = Inr (n, w') \<Longrightarrow> n = REQUEST_WRITE \<or> n = ERROR"
  by (auto simp: request_error_write_def Let_def split: if_splits)

lemma request_connect_next:
  "request_connect k w = Inr (n, w') \<Longrightarrow> n = REQUEST_CONNECTING \<or> n = REQUEST_WRITE \<or> n = ERROR"
  by (auto simp: request_connect_def request_connect_finally_def Let_def
      split: if_splits prod.splits option.splits connect_result.splits dest!: request_error_write_next)

lemma request_process_next:
  "request_process k w = Inr (n, w') \<Longrightarrow>
   n = REQUEST_RESOLV \<or> n = REQUEST_CONNECTING \<or> n = REQUEST_WRITE \<or> n = ERROR"
  by (auto simp: request_process_def Let_def split: if_splits
      dest!: request_error_write_next request_connect_next)

lemma request_read_next:
  "request_read k w = Inr (n, w') \<Longrightarrow>
   n = REQUEST_READ \<or> n = REQUEST_RESOLV \<or> n = REQUEST_CONNECTING \<or> n = REQUEST_WRITE \<or> n = ERROR"
  by (auto simp: request_read_def Let_def split: if_splits prod.splits dest!: request_process_next)

lemma request_resolv_done_next:
  "request_resolv_done k w = Inr (n, w') \<Longrightarrow> n = REQUEST_CONNECTING \<or> n = REQUEST_WRITE \<or> n = ERROR"
  by (auto simp: request_resolv_done_def split: option.splits
      dest!: request_error_write_next request_connect_next)

lemma request_connecting_reply_next:
  "request_connecting_reply k w = Inr (n, w') \<Longrightarrow> n = REQUEST_WRITE \<or> n = ERROR"
  by (auto simp: request_connecting_reply_def Let_def split: if_splits)

lemma request_connecting_next:
  "request_connecting k w = Inr (n, w') \<Longrightarrow> n = REQUEST_CONNECTING \<or> n = REQUEST_WRITE \<or> n = ERROR"
  by (auto simp: request_connecting_def Let_def split: if_splits option.splits
      dest!: request_connecting_reply_next)

lemma request_write_next:
  "request_write k w = Inr (n, w') \<Longrightarrow> n = REQUEST_WRITE \<or> n = COPY \<or> n = ERROR"
  by (auto simp: request_write_def Let_def split: if_splits)

end
