(* ===== verification/Copy.thy ===== *)
theory Copy
  imports Connection
begin

text \<open>
  The COPY state of \<open>src/server/socks5nio.c\<close>: relaying bytes between the client and the origin server,
  half closing the directions that ended, and showing what is relayed to the POP3 disector.
\<close>

definition copy_init :: "nat \<Rightarrow> ckey \<Rightarrow> cworld \<Rightarrow> cworld res" where
  "copy_init st k w =
     Inr (upd_conn (\<lambda>c. c\<lparr>
       so_client := C_copy \<lparr>cp_fd = Client_fd, cp_rb = Read_buffer, cp_wb = Write_buffer,
                            cp_duplex = OP_READ OR OP_WRITE, cp_other = Origin_side\<rparr>,
       so_orig := O_copy \<lparr>cp_fd = Origin_fd, cp_rb = Write_buffer, cp_wb = Read_buffer,
                          cp_duplex = OP_READ OR OP_WRITE, cp_other = Client_side\<rparr>,
       so_dp := disector_parser_init (so_dp c)\<rparr>) w)"

definition copy_interests :: "copy \<Rightarrow> socks5 \<Rightarrow> fd_interest" where
  "copy_interests d c =
     (let ret = OP_NOOP;
          ret1 = (if cp_duplex d AND OP_READ \<noteq> 0 \<and> buffer_can_write (get_buf (cp_rb d) c)
                  then ret OR OP_READ else ret)
      in if cp_duplex d AND OP_WRITE \<noteq> 0 \<and> buffer_can_read (get_buf (cp_wb d) c)
         then ret1 OR OP_WRITE else ret1)"

definition copy_compute_interests :: "side \<Rightarrow> cworld \<Rightarrow> (fd_interest \<times> cworld) res" where
  "copy_compute_interests sd w =
     rbind (get_copy sd (cw_conn w)) (\<lambda>d.
       let ret = copy_interests d (cw_conn w)
       in rbind (set_interest (get_fd (cp_fd d) (cw_conn w)) ret w) (\<lambda>(st, w1).
            if SELECTOR_SUCCESS \<noteq> st then Inl Abort_call else Inr (ret, w1)))"

definition copy_ptr :: "ckey \<Rightarrow> cworld \<Rightarrow> side res" where
  "copy_ptr k w =
     rbind (get_copy Client_side (cw_conn w)) (\<lambda>d.
       Inr (if get_fd (cp_fd d) (cw_conn w) = key_fd (fst k) then Client_side else cp_other d))"

text \<open>\<open>shutdown\<close> of one direction of this end and of the opposite direction of the other.\<close>

definition copy_shutdown ::
  "side \<Rightarrow> shut_how \<Rightarrow> fd_interest \<Rightarrow> shut_how \<Rightarrow> fd_interest \<Rightarrow> cworld \<Rightarrow> cworld res" where
  "copy_shutdown sd how off how' off' w =
     rbind (get_copy sd (cw_conn w)) (\<lambda>d.
       let w1 = emit (Ev_shutdown (get_fd (cp_fd d) (cw_conn w)) how) w;
           w2 = upd_conn (set_copy sd (d\<lparr>cp_duplex := cp_duplex d AND NOT off\<rparr>)) w1
       in rbind (get_copy (cp_other d) (cw_conn w2)) (\<lambda>e.
            if get_fd (cp_fd e) (cw_conn w2) \<noteq> -1 then
              let w3 = emit (Ev_shutdown (get_fd (cp_fd e) (cw_conn w2)) how') w2
              in Inr (upd_conn (set_copy (cp_other d) (e\<lparr>cp_duplex := cp_duplex e AND NOT off'\<rparr>)) w3)
            else Inr w2))"

text \<open>The end both handlers share: both interests are recomputed, and the connection is over when
  this end has no direction left.\<close>

definition copy_finish :: "side \<Rightarrow> cworld \<Rightarrow> (nat \<times> cworld) res" where
  "copy_finish sd w =
     rbind (copy_compute_interests sd w) (\<lambda>(_, w1).
     rbind (get_copy sd (cw_conn w1)) (\<lambda>d.
     rbind (copy_compute_interests (cp_other d) w1) (\<lambda>(_, w2).
       if cp_duplex d = OP_NOOP
       then Inr (DONE, upd_glob (\<lambda>g. g\<lparr>current_connections := current_connections g - 1\<rparr>) w2)
       else Inr (COPY, w2))))"

definition copy_r :: "ckey \<Rightarrow> cworld \<Rightarrow> (nat \<times> cworld) res" where
  "copy_r k w =
     rbind (copy_ptr k w) (\<lambda>sd.
     rbind (get_copy sd (cw_conn w)) (\<lambda>d.
     rbind (c_assert (get_fd (cp_fd d) (cw_conn w) = key_fd (fst k))) (\<lambda>_.
     rbind (conn_recv k (cp_rb d) w) (\<lambda>(n, w1).
     rbind (if n \<le> 0 then copy_shutdown sd SHUT_RD OP_READ SHUT_WR OP_WRITE w1 else Inr w1)
       (copy_finish sd)))))"

text \<open>Whether \<open>copy_w\<close> shows what it has just sent to the disector.\<close>

definition disector_watches :: "ckey \<Rightarrow> cworld \<Rightarrow> bool" where
  "disector_watches k w \<longleftrightarrow>
     (let st = dp_state (so_dp (cw_conn w)); f = key_fd (fst k); c = cw_conn w
      in is_disector_on (cw_glob w) \<and> st \<noteq> disector_incompatible \<and>
         ((st < disector_response \<and> st \<ge> disector_user \<and> f = origin_fd c) \<or>
          ((st = disector_response \<or> st = disector_wait_pop) \<and> f = client_fd c)))"

definition copy_disect :: "ckey \<Rightarrow> byte list \<Rightarrow> cworld \<Rightarrow> cworld res" where
  "copy_disect k out w =
     (if disector_watches k w then
        rbind (disector_consume (so_dp (cw_conn w)) out) (\<lambda>(st, p).
          let w1 = upd_conn (\<lambda>c. c\<lparr>so_dp := p\<rparr>) w
          in if st = disector_done then
               rbind (disector_user_str p) (\<lambda>u. rbind (disector_pass_str p) (\<lambda>pw.
                 Inr (upd_conn (\<lambda>c. c\<lparr>so_dp := disector_parser_reset (so_dp c)\<rparr>)
                        (emit (Ev_log_credentials u pw (client_uname (cw_conn w1))) w1))))
             else Inr w1)
      else Inr w)"

definition copy_w :: "ckey \<Rightarrow> cworld \<Rightarrow> (nat \<times> cworld) res" where
  "copy_w k w =
     rbind (copy_ptr k w) (\<lambda>sd.
     rbind (get_copy sd (cw_conn w)) (\<lambda>d.
     rbind (c_assert (get_fd (cp_fd d) (cw_conn w) = key_fd (fst k))) (\<lambda>_.
     rbind (conn_send k (cp_wb d) w) (\<lambda>(n, out, w1).
     rbind (if n = -1 then copy_shutdown sd SHUT_WR OP_WRITE SHUT_RD OP_READ w1
            else rbind (copy_disect k out w1) (\<lambda>w2.
                 rbind (buffer_read_adv (get_buf (cp_wb d) (cw_conn w2)) n) (\<lambda>b.
                   Inr (upd_glob (\<lambda>g. g\<lparr>bytes_transferred := bytes_transferred g + of_int n\<rparr>)
                          (upd_conn (set_buf (cp_wb d) b) w2)))))
       (copy_finish sd)))))"

section \<open>Lemmas\<close>

lemma copy_compute_keeps [keeps_dest]: "copy_compute_interests sd w = Inr (n, w') \<Longrightarrow> keeps w w'"
  by (auto simp: copy_compute_interests_def Let_def split: if_splits dest: keeps_dest)

lemma copy_shutdown_keeps [keeps_dest]: "copy_shutdown sd a b c d w = Inr w' \<Longrightarrow> keeps w w'"
  by (auto simp: copy_shutdown_def Let_def keeps_def split: if_splits)

lemma copy_finish_keeps [keeps_dest]: "copy_finish sd w = Inr (n, w') \<Longrightarrow> keeps w w'"
  by (auto simp: copy_finish_def keeps_def split: if_splits dest!: keeps_dest [unfolded keeps_def])

lemma copy_disect_keeps: "copy_disect k out w = Inr w' \<Longrightarrow> keeps w w'"
  by (auto simp: copy_disect_def Let_def keeps_def split: if_splits)

lemma copy_r_keeps [keeps_dest]: "copy_r k w = Inr (n, w') \<Longrightarrow> keeps w w'"
  by (auto simp: copy_r_def keeps_def split: if_splits dest!: keeps_dest [unfolded keeps_def])

lemma copy_w_keeps [keeps_dest]: "copy_w k w = Inr (n, w') \<Longrightarrow> keeps w w'"
  by (auto simp: copy_w_def keeps_def split: if_splits
      dest!: keeps_dest [unfolded keeps_def] copy_disect_keeps [unfolded keeps_def])

lemma copy_finish_next: "copy_finish sd w = Inr (n, w') \<Longrightarrow> n = COPY \<or> n = DONE"
  by (auto simp: copy_finish_def split: if_splits)

lemma copy_r_next: "copy_r k w = Inr (n, w') \<Longrightarrow> n = COPY \<or> n = DONE"
  by (auto simp: copy_r_def dest!: copy_finish_next)

lemma copy_w_next: "copy_w k w = Inr (n, w') \<Longrightarrow> n = COPY \<or> n = DONE"
  by (auto simp: copy_w_def dest!: copy_finish_next)

end
