(* ===== verification/Socks5.thy ===== *)
theory Socks5
  imports Handshake Connect Copy
begin

text \<open>
  The table of states of \<open>src/server/socks5nio.c\<close> and the handlers the selector calls: each
  passes the event to the state machine and tears the connection down in the states \<open>DONE\<close> and
  \<open>ERROR\<close>.
\<close>

definition no_hooks :: "nat \<Rightarrow> (ckey, cworld) state_definition" where
  "no_hooks st = \<lparr>sd_state = st, on_arrival = None, on_departure = None, on_read_ready = None,
                  on_write_ready = None, on_block_ready = None\<rparr>"

definition client_statbl :: "(ckey, cworld) states" where
  "client_statbl =
     [(no_hooks HELLO_READ)\<lparr>on_arrival := Some hello_read_init, on_departure := Some hello_read_close,
                            on_read_ready := Some hello_read\<rparr>,
      (no_hooks HELLO_WRITE)\<lparr>on_write_ready := Some hello_write\<rparr>,
      (no_hooks AUTH_READ)\<lparr>on_arrival := Some auth_init, on_read_ready := Some auth_read\<rparr>,
      (no_hooks AUTH_WRITE)\<lparr>on_write_ready := Some auth_write\<rparr>,
      (no_hooks REQUEST_READ)\<lparr>on_arrival := Some request_init, on_departure := Some request_read_close,
                              on_read_ready := Some request_read\<rparr>,
      (no_hooks REQUEST_RESOLV)\<lparr>on_block_ready := Some request_resolv_done\<rparr>,
      (no_hooks REQUEST_CONNECTING)\<lparr>on_arrival := Some request_connecting_init,
                                    on_write_ready := Some request_connecting\<rparr>,
      (no_hooks REQUEST_WRITE)\<lparr>on_write_ready := Some request_write\<rparr>,
      (no_hooks COPY)\<lparr>on_arrival := Some copy_init, on_read_ready := Some copy_r,
                      on_write_ready := Some copy_w\<rparr>,
      no_hooks DONE,
      no_hooks ERROR]"

definition get_stm :: "cworld \<Rightarrow> state_machine" where
  "get_stm w = so_stm (cw_conn w)"

definition put_stm :: "state_machine \<Rightarrow> cworld \<Rightarrow> cworld" where
  "put_stm m w = upd_conn (\<lambda>c. c\<lparr>so_stm := m\<rparr>) w"

fun close_fds :: "fd list \<Rightarrow> cworld \<Rightarrow> cworld res" where
  "close_fds [] w = Inr w"
| "close_fds (f # fs) w =
     (if f \<noteq> -1 then
        rbind (unregister_fd f w) (\<lambda>(st, w1).
          if SELECTOR_SUCCESS \<noteq> st then Inl Abort_call else close_fds fs (emit (Ev_close f) w1))
      else close_fds fs w)"

definition socksv5_done :: "ckey \<Rightarrow> cworld \<Rightarrow> cworld res" where
  "socksv5_done k w = close_fds [client_fd (cw_conn w), origin_fd (cw_conn w)] w"

definition socksv5_finish :: "ckey \<Rightarrow> nat \<times> cworld \<Rightarrow> cworld res" where
  "socksv5_finish k = (\<lambda>(st, w). if ERROR = st \<or> DONE = st then socksv5_done k w else Inr w)"

definition socksv5_read :: "ckey \<Rightarrow> cworld \<Rightarrow> cworld res" where
  "socksv5_read k w = rbind (stm_handler_read get_stm put_stm client_statbl k w) (socksv5_finish k)"

definition socksv5_write :: "ckey \<Rightarrow> cworld \<Rightarrow> cworld res" where
  "socksv5_write k w = rbind (stm_handler_write get_stm put_stm client_statbl k w) (socksv5_finish k)"

definition socksv5_block :: "ckey \<Rightarrow> cworld \<Rightarrow> cworld res" where
  "socksv5_block k w = rbind (stm_handler_block get_stm put_stm client_statbl k w) (socksv5_finish k)"

section \<open>The table runs on the engine\<close>

lemma statbl_ok: "states_ok client_statbl ERROR"
proof -
  have "\<forall>i \<in> {..10}. sd_state (client_statbl ! i) = i"
    by (simp add: atMost_nat_numeral atMost_Suc client_statbl_def no_hooks_def st_defs)
  then show ?thesis by (simp add: states_ok_def client_statbl_def ERROR_def)
qed

lemma hooks_keep:
  "hello_read_init st k w = Inr w' \<Longrightarrow> so_stm (cw_conn w') = so_stm (cw_conn w)"
  "hello_read_close st k w = Inr w' \<Longrightarrow> keeps w w'"
  "auth_init st k w = Inr w' \<Longrightarrow> keeps w w'"
  "request_init st k w = Inr w' \<Longrightarrow> keeps w w'"
  "request_read_close st k w = Inr w' \<Longrightarrow> keeps w w'"
  "request_connecting_init st k w = Inr w' \<Longrightarrow> keeps w w'"
  "copy_init st k w = Inr w' \<Longrightarrow> keeps w w'"
  by (auto simp: hello_read_init_def hello_read_close_def auth_init_def request_init_def
      request_read_close_def request_connecting_init_def copy_init_def keeps_def set_request_def Let_def)

lemma keeps_stm: "keeps w w' \<Longrightarrow> get_stm w' = get_stm w"
  by (simp add: keeps_def get_stm_def)

lemma auth_read_stm: "auth_read k w = Inr (n, w') \<Longrightarrow> get_stm w' = get_stm w"
  using auth_read_frame [of k w n w'] by (simp add: keeps_but_name_def get_stm_def)

interpretation s5: stm_host get_stm put_stm client_statbl ERROR HELLO_READ
proof unfold_locales
  fix m w w' and key :: ckey and d f g i n
  show "get_stm (put_stm m w) = m" by (simp add: get_stm_def put_stm_def)
  show "states_ok client_statbl ERROR" by (rule statbl_ok)
  show "HELLO_READ \<le> ERROR" by (simp add: st_defs)
  assume d: "d \<in> set client_statbl"
  show "on_arrival d = Some f \<Longrightarrow> f i key w = Inr w' \<Longrightarrow> get_stm w' = get_stm w"
    using d by (auto simp: client_statbl_def no_hooks_def get_stm_def keeps_def dest!: hooks_keep)
  show "on_departure d = Some f \<Longrightarrow> f i key w = Inr w' \<Longrightarrow> get_stm w' = get_stm w"
    using d by (auto simp: client_statbl_def no_hooks_def get_stm_def keeps_def dest!: hooks_keep)
  show "on_read_ready d = Some g \<Longrightarrow> g key w = Inr (n, w') \<Longrightarrow> get_stm w' = get_stm w"
    using d by (auto simp: client_statbl_def no_hooks_def dest!: keeps_dest keeps_stm auth_read_stm)
  show "on_write_ready d = Some g \<Longrightarrow> g key w = Inr (n, w') \<Longrightarrow> get_stm w' = get_stm w"
    using d by (auto simp: client_statbl_def no_hooks_def dest!: keeps_dest keeps_stm)
  show "on_block_ready d = Some g \<Longrightarrow> g key w = Inr (n, w') \<Longrightarrow> get_stm w' = get_stm w"
    using d by (auto simp: client_statbl_def no_hooks_def dest!: keeps_dest keeps_stm)
qed

lemma statbl_nth [simp]:
  "client_statbl ! HELLO_READ = (no_hooks HELLO_READ)\<lparr>on_arrival := Some hello_read_init,
      on_departure := Some hello_read_close, on_read_ready := Some hello_read\<rparr>"
  "client_statbl ! HELLO_WRITE = (no_hooks HELLO_WRITE)\<lparr>on_write_ready := Some hello_write\<rparr>"
  "client_statbl ! AUTH_READ = (no_hooks AUTH_READ)\<lparr>on_arrival := Some auth_init,
      on_read_ready := Some auth_read\<rparr>"
  "client_statbl ! AUTH_WRITE = (no_hooks AUTH_WRITE)\<lparr>on_write_ready := Some auth_write\<rparr>"
  "client_statbl ! REQUEST_READ = (no_hooks REQUEST_READ)\<lparr>on_arrival := Some request_init,
      on_departure := Some request_read_close, on_read_ready := Some request_read\<rparr>"
  "client_statbl ! REQUEST_RESOLV = (no_hooks REQUEST_RESOLV)\<lparr>on_block_ready := Some request_resolv_done\<rparr>"
  "client_statbl ! REQUEST_CONNECTING = (no_hooks REQUEST_CONNECTING)\<lparr>on_arrival := Some request_connecting_init,
      on_write_ready := Some request_connecting\<rparr>"
  "client_statbl ! REQUEST_WRITE = (no_hooks REQUEST_WRITE)\<lparr>on_write_ready := Some request_write\<rparr>"
  "client_statbl ! COPY = (no_hooks COPY)\<lparr>on_arrival := Some copy_init, on_read_ready := Some copy_r,
      on_write_ready := Some copy_w\<rparr>"
  "client_statbl ! DONE = no_hooks DONE"
  "client_statbl ! ERROR = no_hooks ERROR"
  unfolding st_defs client_statbl_def by (simp_all add: numeral_eq_Suc)

lemma state_cases:
  assumes "st \<le> ERROR"
  obtains "st = HELLO_READ" | "st = HELLO_WRITE" | "st = AUTH_READ" | "st = AUTH_WRITE" | "st = REQUEST_READ" |
    "st = REQUEST_RESOLV" | "st = REQUEST_CONNECTING" | "st = REQUEST_WRITE" | "st = COPY" | "st = DONE" |
    "st = ERROR"
proof -
  have "st \<in> {..10}" using assms by (simp add: ERROR_def)
  then show thesis using that unfolding st_defs by (simp add: atMost_nat_numeral atMost_Suc) blast
qed

section \<open>Transitions\<close>

text \<open>The successors of each state.\<close>

definition successors :: "nat \<Rightarrow> nat list" where
  "successors st =
     (if st = HELLO_READ then [HELLO_READ, HELLO_WRITE, ERROR]
      else if st = HELLO_WRITE then [HELLO_WRITE, AUTH_READ, REQUEST_READ, ERROR]
      else if st = AUTH_READ then [AUTH_READ, AUTH_WRITE, ERROR]
      else if st = AUTH_WRITE then [AUTH_WRITE, REQUEST_READ, ERROR]
      else if st = REQUEST_READ then [REQUEST_READ, REQUEST_RESOLV, REQUEST_CONNECTING, REQUEST_WRITE, ERROR]
      else if st = REQUEST_RESOLV then [REQUEST_CONNECTING, REQUEST_WRITE, ERROR]
      else if st = REQUEST_CONNECTING then [REQUEST_CONNECTING, REQUEST_WRITE, ERROR]
      else if st = REQUEST_WRITE then [REQUEST_WRITE, COPY, ERROR]
      else if st = COPY then [COPY, DONE]
      else [])"

lemma successors_simps [simp]:
  "successors HELLO_READ = [HELLO_READ, HELLO_WRITE, ERROR]"
  "successors HELLO_WRITE = [HELLO_WRITE, AUTH_READ, REQUEST_READ, ERROR]"
  "successors AUTH_READ = [AUTH_READ, AUTH_WRITE, ERROR]"
  "successors AUTH_WRITE = [AUTH_WRITE, REQUEST_READ, ERROR]"
  "successors REQUEST_READ = [REQUEST_READ, REQUEST_RESOLV, REQUEST_CONNECTING, REQUEST_WRITE, ERROR]"
  "successors REQUEST_RESOLV = [REQUEST_CONNECTING, REQUEST_WRITE, ERROR]"
  "successors REQUEST_CONNECTING = [REQUEST_CONNECTING, REQUEST_WRITE, ERROR]"
  "successors REQUEST_WRITE = [REQUEST_WRITE, COPY, ERROR]"
  "successors COPY = [COPY, DONE]" "successors DONE = []" "successors ERROR = []"
  by (simp_all add: successors_def st_defs)

lemma read_successor:
  assumes "st \<le> ERROR" "on_read_ready (client_statbl ! st) = Some f" "f k w = Inr (n, w')"
  shows "n \<in> set (successors st)"
  using assms(1)
  by (cases rule: state_cases) (use assms(2,3) in \<open>auto simp: no_hooks_def
      dest: hello_read_next auth_read_frame request_read_next copy_r_next\<close>)

lemma write_successor:
  assumes "st \<le> ERROR" "on_write_ready (client_statbl ! st) = Some f" "f k w = Inr (n, w')"
  shows "n \<in> set (successors st)"
  using assms(1)
  by (cases rule: state_cases) (use assms(2,3) in \<open>auto simp: no_hooks_def
      dest: hello_write_next auth_write_next request_connecting_next request_write_next copy_w_next\<close>)

lemma block_successor:
  assumes "st \<le> ERROR" "on_block_ready (client_statbl ! st) = Some f" "f k w = Inr (n, w')"
  shows "n \<in> set (successors st)"
  using assms(1)
  by (cases rule: state_cases) (use assms(2,3) in \<open>auto simp: no_hooks_def dest: request_resolv_done_next\<close>)

lemma close_fds_keeps: "close_fds fs w = Inr w' \<Longrightarrow> keeps w w'"
proof (induction fs arbitrary: w)
  case (Cons f fs)
  show ?case
  proof (cases "f = -1")
    case True
    with Cons show ?thesis by simp
  next
    case False
    with Cons.prems obtain st w1 where "unregister_fd f w = Inr (st, w1)"
      "close_fds fs (emit (Ev_close f) w1) = Inr w'"
      by (auto split: if_splits)
    with Cons.IH unregister_fd_keeps show ?thesis by (metis keeps_emit(2) keeps_trans)
  qed
qed simp

lemma socksv5_done_keeps: "socksv5_done k w = Inr w' \<Longrightarrow> keeps w w'"
  unfolding socksv5_done_def by (rule close_fds_keeps)

lemma socksv5_finish_keeps: "socksv5_finish k (st, w) = Inr w' \<Longrightarrow> keeps w w'"
  by (auto simp: socksv5_finish_def split: if_splits dest: socksv5_done_keeps)

end
