(* ===== verification/Reachable.thy ===== *)
theory Reachable
  imports Socks5
begin

text \<open>
  The life of a connection: it starts as \<open>socks5_new\<close> makes it, with the
  address that \<open>accept\<close> gave; then the selector delivers events,
  the resolver thread runs, and other connections and the monitoring service change the selector and
  the globals. The locale \<open>conn_invariant\<close> states what a property of the connection that depends
  on the state has to satisfy, hook by hook, to hold in every reachable world; its interpretations
  are the authentication gate and the layout of the unions and buffers.
\<close>

section \<open>Reachable worlds\<close>

text \<open>Nothing in the program ever turns authentication on again once it is off, so neither does the
  rest of the program in \<open>reach_env\<close>.\<close>

inductive reach :: "cworld \<Rightarrow> bool" where
  reach_start: "socks5_new client_statbl ok cfd g = Inr (Some c, g') \<Longrightarrow>
      reach \<lparr>cw_sel = s, cw_glob = g', cw_conn = c\<lparr>client_addr := a, client_addr_len := len\<rparr>, cw_life = Alive, cw_out = []\<rparr>"
| reach_read: "reach w \<Longrightarrow> cw_life w = Alive \<Longrightarrow> socksv5_read k w = Inr w' \<Longrightarrow> reach w'"
| reach_write: "reach w \<Longrightarrow> cw_life w = Alive \<Longrightarrow> socksv5_write k w = Inr w' \<Longrightarrow> reach w'"
| reach_block: "reach w \<Longrightarrow> cw_life w = Alive \<Longrightarrow> socksv5_block k w = Inr w' \<Longrightarrow> reach w'"
| reach_thread: "reach w \<Longrightarrow> request_resolv_blocking ais ok f w = Inr w' \<Longrightarrow> reach w'"
| reach_env: "reach w \<Longrightarrow> (is_auth_on g \<Longrightarrow> is_auth_on (cw_glob w)) \<Longrightarrow> reach (w\<lparr>cw_sel := s, cw_glob := g\<rparr>)"

section \<open>Properties indexed by the state\<close>

definition conn_holds :: "(cworld \<Rightarrow> bool) \<Rightarrow> (nat \<Rightarrow> cworld \<Rightarrow> bool) \<Rightarrow> cworld \<Rightarrow> bool" where
  "conn_holds start iv w \<longleftrightarrow> machine_ok ERROR HELLO_READ (get_stm w) \<and>
     (case stm_current (get_stm w) of None \<Rightarrow> start w | Some st \<Rightarrow> iv st w)"

lemma socks5_new_conn:
  assumes "socks5_new client_statbl ok cfd g = Inr (Some c, g')"
  shows "so_stm c = \<lparr>stm_initial = HELLO_READ, stm_max_state = ERROR, stm_current = None\<rparr>"
  using assms
  by (auto simp: socks5_new_def Let_def stm_init_iff socks5_zero_def split: if_splits)

lemma resolv_thread_keeps:
  assumes "request_resolv_blocking ais ok f w = Inr w'"
  shows "keeps w w' \<and> \<not> auth_settled w"
  using assms
  by (auto simp: request_resolv_blocking_def get_request_def auth_settled_def keeps_def set_request_def Let_def
      split: option.splits client_union.splits)

locale conn_invariant =
  fixes start :: "cworld \<Rightarrow> bool"
    and iv :: "nat \<Rightarrow> cworld \<Rightarrow> bool"
    and post :: "nat \<Rightarrow> nat \<Rightarrow> cworld \<Rightarrow> bool"
  assumes fresh: "socks5_new client_statbl ok cfd g = Inr (Some c, g') \<Longrightarrow>
      start \<lparr>cw_sel = s, cw_glob = g', cw_conn = c\<lparr>client_addr := a, client_addr_len := len\<rparr>, cw_life = Alive, cw_out = []\<rparr>"
    and first: "start w \<Longrightarrow> hello_read_init HELLO_READ k (put_stm m w) = Inr w' \<Longrightarrow> iv HELLO_READ w'"
    and on_read: "i \<le> ERROR \<Longrightarrow> iv i w \<Longrightarrow> on_read_ready (client_statbl ! i) = Some f \<Longrightarrow>
      f k w = Inr (n, w') \<Longrightarrow> post i n w'"
    and on_write: "i \<le> ERROR \<Longrightarrow> iv i w \<Longrightarrow> on_write_ready (client_statbl ! i) = Some f \<Longrightarrow>
      f k w = Inr (n, w') \<Longrightarrow> post i n w'"
    and on_block: "i \<le> ERROR \<Longrightarrow> iv i w \<Longrightarrow> on_block_ready (client_statbl ! i) = Some f \<Longrightarrow>
      f k w = Inr (n, w') \<Longrightarrow> post i n w'"
    and stay: "post i i w \<Longrightarrow> iv i w"
    and leave: "i \<le> ERROR \<Longrightarrow> post i n w \<Longrightarrow> run_hook (on_departure (client_statbl ! i)) i k w = Inr w' \<Longrightarrow>
      post i n w'"
    and enter: "n \<le> ERROR \<Longrightarrow> post i n w \<Longrightarrow>
      run_hook (on_arrival (client_statbl ! n)) n k (put_stm m w) = Inr w' \<Longrightarrow> iv n w'"
    and finish: "iv st w \<Longrightarrow> st = ERROR \<or> st = DONE \<Longrightarrow> socksv5_done k w = Inr w' \<Longrightarrow> iv st w'"
    and thread: "request_resolv_blocking ais ok kfd w = Inr w' \<Longrightarrow> start w \<Longrightarrow> start w'"
      "request_resolv_blocking ais ok kfd w = Inr w' \<Longrightarrow> iv st w \<Longrightarrow> iv st w'"
    and env: "(is_auth_on g \<Longrightarrow> is_auth_on (cw_glob w)) \<Longrightarrow> start w \<Longrightarrow> start (w\<lparr>cw_sel := s, cw_glob := g\<rparr>)"
      "(is_auth_on g \<Longrightarrow> is_auth_on (cw_glob w)) \<Longrightarrow> iv st w \<Longrightarrow> iv st (w\<lparr>cw_sel := s, cw_glob := g\<rparr>)"
begin

lemma holds_first:
  assumes "conn_holds start iv w" "handle_first get_stm put_stm client_statbl k w = Inr w1"
  obtains i where "i \<le> ERROR" "get_stm w1 = (get_stm w)\<lparr>stm_current := Some i\<rparr>" "iv i w1"
proof -
  have ok: "machine_ok ERROR HELLO_READ (get_stm w)" using assms(1) by (simp add: conn_holds_def)
  show thesis
  proof (cases "stm_current (get_stm w)")
    case None
    then have "start w" "hello_read_init HELLO_READ k (put_stm ((get_stm w)\<lparr>stm_current := Some HELLO_READ\<rparr>) w) = Inr w1"
      using assms ok
      by (auto simp: conn_holds_def handle_first_def Let_def machine_ok_def run_hook_def no_hooks_def
          s5.table_at [OF s5.init_le])
    with first None s5.handle_first_frame [OF ok assms(2)] that [of HELLO_READ] ok show thesis
      by (auto simp: start_state_def machine_ok_def s5.init_le)
  next
    case (Some i)
    with assms ok that [of i] show thesis by (auto simp: conn_holds_def handle_first_def machine_ok_def)
  qed
qed

lemma holds_handler:
  assumes inv: "conn_holds start iv w" and run: "stm_handler ready get_stm put_stm client_statbl k w = Inr (ret, w')"
    and frame: "\<And>d g key w n w'. d \<in> set client_statbl \<Longrightarrow> ready d = Some g \<Longrightarrow> g key w = Inr (n, w') \<Longrightarrow>
      get_stm w' = get_stm w"
    and step: "\<And>i w f n w'. i \<le> ERROR \<Longrightarrow> iv i w \<Longrightarrow> ready (client_statbl ! i) = Some f \<Longrightarrow>
      f k w = Inr (n, w') \<Longrightarrow> post i n w'"
  shows "conn_holds start iv w' \<and> stm_current (get_stm w') = Some ret"
proof -
  have ok: "machine_ok ERROR HELLO_READ (get_stm w)" using inv by (simp add: conn_holds_def)
  have "iv ret w'"
  proof (rule s5.handler_rule [OF ok run, where iv = iv and post = post and fin = iv])
    show "get_stm w2 = get_stm w1" if "d \<in> set client_statbl" "ready d = Some g" "g key w1 = Inr (n, w2)"
      for d g key w1 n w2 using frame [OF that] .
    show "iv HELLO_READ w1" if "stm_current (get_stm w) = None"
      "run_hook (on_arrival (client_statbl ! HELLO_READ)) HELLO_READ k
        (put_stm ((get_stm w)\<lparr>stm_current := Some HELLO_READ\<rparr>) w) = Inr w1" for w1
      using inv that first [of w k _ w1] by (simp add: conn_holds_def run_hook_def no_hooks_def)
    show "iv i w" if "stm_current (get_stm w) = Some i" for i
      using inv that by (simp add: conn_holds_def)
    show "post i n w2" if "i \<le> ERROR" "iv i w1" "ready (client_statbl ! i) = Some f" "f k w1 = Inr (n, w2)"
      for i f w1 n w2 using step [OF that] .
    show "iv i w2" if "post i i w2" for i w2 using stay [OF that] .
    show "iv n w4" if "i \<le> ERROR" "n \<le> ERROR" "post i n w2"
      "run_hook (on_departure (client_statbl ! i)) i k w2 = Inr w3"
      "run_hook (on_arrival (client_statbl ! n)) n k (put_stm ((get_stm w3)\<lparr>stm_current := Some n\<rparr>) w3) = Inr w4"
      for i n w2 w3 w4
      using enter [OF that(2) leave [OF that(1,3,4)] that(5)] .
  qed
  moreover have "ret \<le> ERROR \<and> get_stm w' = (get_stm w)\<lparr>stm_current := Some ret\<rparr>"
    using s5.handler_state [OF ok run] frame by blast
  ultimately show ?thesis using ok by (simp add: conn_holds_def machine_ok_def)
qed

lemma holds_finish:
  assumes "conn_holds start iv w \<and> stm_current (get_stm w) = Some st" "socksv5_finish k (st, w) = Inr w'"
  shows "conn_holds start iv w'"
proof (cases "st = ERROR \<or> st = DONE")
  case True
  then have "socksv5_done k w = Inr w'" using assms(2) by (auto simp: socksv5_finish_def)
  moreover have "get_stm w' = get_stm w"
    using socksv5_finish_keeps [OF assms(2)] by (rule keeps_stm)
  ultimately show ?thesis using assms(1) True finish [of st w k w'] by (auto simp: conn_holds_def)
next
  case False
  with assms show ?thesis by (auto simp: socksv5_finish_def)
qed

lemma holds_events:
  assumes "conn_holds start iv w"
  shows "socksv5_read k w = Inr w' \<Longrightarrow> conn_holds start iv w'" "socksv5_write k w = Inr w' \<Longrightarrow> conn_holds start iv w'"
    "socksv5_block k w = Inr w' \<Longrightarrow> conn_holds start iv w'"
proof -
  assume "socksv5_read k w = Inr w'"
  then obtain st w1 where 1: "stm_handler on_read_ready get_stm put_stm client_statbl k w = Inr (st, w1)"
    "socksv5_finish k (st, w1) = Inr w'" by (auto simp: socksv5_read_def stm_handler_read_def)
  have "conn_holds start iv w1 \<and> stm_current (get_stm w1) = Some st"
    using 1(1) by (rule holds_handler [OF assms]) (fact s5.read_frame on_read)+
  then show "conn_holds start iv w'" using 1(2) by (rule holds_finish)
next
  assume "socksv5_write k w = Inr w'"
  then obtain st w1 where 1: "stm_handler on_write_ready get_stm put_stm client_statbl k w = Inr (st, w1)"
    "socksv5_finish k (st, w1) = Inr w'" by (auto simp: socksv5_write_def stm_handler_write_def)
  have "conn_holds start iv w1 \<and> stm_current (get_stm w1) = Some st"
    using 1(1) by (rule holds_handler [OF assms]) (fact s5.write_frame on_write)+
  then show "conn_holds start iv w'" using 1(2) by (rule holds_finish)
next
  assume "socksv5_block k w = Inr w'"
  then obtain st w1 where 1: "stm_handler on_block_ready get_stm put_stm client_statbl k w = Inr (st, w1)"
    "socksv5_finish k (st, w1) = Inr w'" by (auto simp: socksv5_block_def stm_handler_block_def)
  have "conn_holds start iv w1 \<and> stm_current (get_stm w1) = Some st"
    using 1(1) by (rule holds_handler [OF assms]) (fact s5.block_frame on_block)+
  then show "conn_holds start iv w'" using 1(2) by (rule holds_finish)
qed

lemma reach_holds: "reach w \<Longrightarrow> conn_holds start iv w"
proof (induction rule: reach.induct)
  case (reach_start ok cfd g c g' s a len)
  then show ?case
    using fresh [OF reach_start] socks5_new_conn [OF reach_start] by (simp add: conn_holds_def machine_ok_def get_stm_def)
next
  case (reach_thread w ais ok f w')
  have "get_stm w' = get_stm w" using resolv_thread_keeps [OF reach_thread.hyps(2)] keeps_stm by blast
  then show ?case
    using reach_thread.IH thread [OF reach_thread.hyps(2)] by (simp add: conn_holds_def split: option.splits)
next
  case (reach_env w g s)
  then show ?case using env [of g w] by (auto simp: conn_holds_def get_stm_def split: option.splits)
qed (use holds_events in blast)+

lemma reach_at: "reach w \<Longrightarrow> stm_current (get_stm w) = Some st \<Longrightarrow> iv st w"
  using reach_holds [of w] by (simp add: conn_holds_def)

end

section \<open>The authentication gate\<close>

definition past_auth :: "nat \<Rightarrow> bool" where
  "past_auth st \<longleftrightarrow> REQUEST_READ \<le> st \<and> st \<le> COPY"

definition gate_at :: "nat \<Rightarrow> cworld \<Rightarrow> bool" where
  "gate_at st w \<longleftrightarrow>
     (past_auth st \<and> is_auth_on (cw_glob w) \<longrightarrow> client_uname (cw_conn w) \<noteq> None) \<and>
     (st = AUTH_WRITE \<longrightarrow> auth_settled w)"

lemma past_auth_simps [simp]:
  "\<not> past_auth HELLO_READ" "\<not> past_auth HELLO_WRITE" "\<not> past_auth AUTH_READ" "\<not> past_auth AUTH_WRITE"
  "past_auth REQUEST_READ" "past_auth REQUEST_RESOLV" "past_auth REQUEST_CONNECTING" "past_auth REQUEST_WRITE"
  "past_auth COPY" "\<not> past_auth DONE" "\<not> past_auth ERROR"
  by (simp_all add: past_auth_def st_defs)

lemma gate_keeps:
  "gate_at st w \<Longrightarrow> keeps w w' \<Longrightarrow> past_auth st \<Longrightarrow> n \<noteq> AUTH_WRITE \<Longrightarrow> gate_at n w'"
  by (auto simp: gate_at_def keeps_def)

lemma gate_read:
  assumes "i \<le> ERROR" "gate_at i w" "on_read_ready (client_statbl ! i) = Some f" "f k w = Inr (n, w')"
  shows "gate_at n w'"
  using assms(1)
proof (cases rule: state_cases)
  case 1
  with assms(3,4) hello_read_next [of k w n w'] show ?thesis by (auto simp: no_hooks_def gate_at_def)
next
  case 3
  with assms(3,4) auth_read_frame [of k w n w'] show ?thesis by (auto simp: no_hooks_def gate_at_def)
next
  case 5
  then have "f = request_read" using assms(3) by (simp add: no_hooks_def)
  with assms(4) have "keeps w w'" "n \<noteq> AUTH_WRITE"
    using request_read_keeps [of k w n w'] request_read_next [of k w n w'] by auto
  with 5 assms(2) show ?thesis by (auto intro: gate_keeps)
next
  case 9
  then have "f = copy_r" using assms(3) by (simp add: no_hooks_def)
  with assms(4) have "keeps w w'" "n \<noteq> AUTH_WRITE"
    using copy_r_keeps [of k w n w'] copy_r_next [of k w n w'] by auto
  with 9 assms(2) show ?thesis by (auto intro: gate_keeps)
qed (use assms(3) in \<open>simp_all add: no_hooks_def\<close>)

lemma gate_write:
  assumes "i \<le> ERROR" "gate_at i w" "on_write_ready (client_statbl ! i) = Some f" "f k w = Inr (n, w')"
  shows "gate_at n w'"
  using assms(1)
proof (cases rule: state_cases)
  case 2
  with assms(3,4) hello_write_next [of k w n w'] show ?thesis by (auto simp: no_hooks_def gate_at_def)
next
  case 4
  then have f: "auth_write k w = Inr (n, w')" using assms(3,4) by (simp add: no_hooks_def)
  then show ?thesis
    using assms(2) auth_write_next [OF f] auth_write_keeps [OF f] 4
    by (auto simp: gate_at_def auth_settled_def keeps_def)
next
  case 7
  then have f: "request_connecting k w = Inr (n, w')" using assms(3,4) by (simp add: no_hooks_def)
  with request_connecting_next [OF f] have "n \<noteq> AUTH_WRITE" by auto
  with 7 assms(2) request_connecting_keeps [OF f] show ?thesis by (auto intro: gate_keeps)
next
  case 8
  then have f: "request_write k w = Inr (n, w')" using assms(3,4) by (simp add: no_hooks_def)
  with request_write_next [OF f] have "n \<noteq> AUTH_WRITE" by auto
  with 8 assms(2) request_write_keeps [OF f] show ?thesis by (auto intro: gate_keeps)
next
  case 9
  then have f: "copy_w k w = Inr (n, w')" using assms(3,4) by (simp add: no_hooks_def)
  with copy_w_next [OF f] have "n \<noteq> AUTH_WRITE" by auto
  with 9 assms(2) copy_w_keeps [OF f] show ?thesis by (auto intro: gate_keeps)
qed (use assms(3) in \<open>simp_all add: no_hooks_def\<close>)

lemma gate_block:
  assumes "i \<le> ERROR" "gate_at i w" "on_block_ready (client_statbl ! i) = Some f" "f k w = Inr (n, w')"
  shows "gate_at n w'"
  using assms(1)
proof (cases rule: state_cases)
  case 6
  then have f: "request_resolv_done k w = Inr (n, w')" using assms(3,4) by (simp add: no_hooks_def)
  with request_resolv_done_next [OF f] have "n \<noteq> AUTH_WRITE" by auto
  with 6 assms(2) request_resolv_done_keeps [OF f] show ?thesis by (auto intro: gate_keeps)
qed (use assms(3) in \<open>simp_all add: no_hooks_def\<close>)

lemma gate_departure:
  assumes "i \<le> ERROR" "gate_at n w" "run_hook (on_departure (client_statbl ! i)) i k w = Inr w'"
  shows "gate_at n w'"
  using assms(1)
proof (cases rule: state_cases)
  case 1
  with assms(3) have h: "hello_read_close i k w = Inr w'" by (simp add: run_hook_def no_hooks_def)
  have "n \<noteq> AUTH_WRITE"
    using h assms(2)
    by (auto simp: gate_at_def auth_settled_def hello_read_close_def get_hello_def split: client_union.splits)
  with hooks_keep(2) [OF h] assms(2) show ?thesis by (auto simp: gate_at_def keeps_def)
next
  case 5
  with assms(3) have h: "request_read_close i k w = Inr w'" by (simp add: run_hook_def no_hooks_def)
  have "n \<noteq> AUTH_WRITE"
    using h assms(2)
    by (auto simp: gate_at_def auth_settled_def request_read_close_def get_request_def split: client_union.splits)
  with hooks_keep(5) [OF h] assms(2) show ?thesis by (auto simp: gate_at_def keeps_def)
qed (use assms(2,3) in \<open>simp_all add: run_hook_def no_hooks_def\<close>)

lemma gate_arrival:
  assumes "n \<le> ERROR" "gate_at n w" "run_hook (on_arrival (client_statbl ! n)) n k w = Inr w'"
  shows "gate_at n w'"
  using assms(1)
proof (cases rule: state_cases)
  case 5
  with assms(3) have "keeps w w'" by (auto simp: run_hook_def no_hooks_def dest: hooks_keep)
  with 5 assms(2) show ?thesis by (auto intro: gate_keeps)
next
  case 7
  with assms(3) have "keeps w w'" by (auto simp: run_hook_def no_hooks_def dest: hooks_keep)
  with 7 assms(2) show ?thesis by (auto intro: gate_keeps)
next
  case 9
  with assms(3) have "keeps w w'" by (auto simp: run_hook_def no_hooks_def dest: hooks_keep)
  with 9 assms(2) show ?thesis by (auto intro: gate_keeps)
qed (use assms(2,3) in \<open>auto simp: run_hook_def no_hooks_def gate_at_def\<close>)

lemma gate_put_stm [simp]: "gate_at st (put_stm m w) = gate_at st w"
  by (simp add: gate_at_def auth_settled_def put_stm_def)

lemma gate_finish: "gate_at st w \<Longrightarrow> keeps w w' \<Longrightarrow> st \<noteq> AUTH_WRITE \<Longrightarrow> gate_at st w'"
  by (auto simp: gate_at_def keeps_def)

interpretation gate: conn_invariant "\<lambda>_. True" gate_at "\<lambda>_. gate_at"
proof unfold_locales
  fix st i n w w' k m ais ok kfd and s :: selector and g :: globals
  show "gate_at HELLO_READ w'" by (simp add: gate_at_def)
  show "i \<le> ERROR \<Longrightarrow> gate_at n w \<Longrightarrow> run_hook (on_departure (client_statbl ! i)) i k w = Inr w' \<Longrightarrow> gate_at n w'"
    by (rule gate_departure)
  show "n \<le> ERROR \<Longrightarrow> gate_at n w \<Longrightarrow> run_hook (on_arrival (client_statbl ! n)) n k (put_stm m w) = Inr w' \<Longrightarrow>
      gate_at n w'"
    by (rule gate_arrival) simp_all
  show "gate_at st w'" if "gate_at st w" "st = ERROR \<or> st = DONE" "socksv5_done k w = Inr w'"
    using gate_finish [OF that(1) socksv5_done_keeps [OF that(3)]] that(2) by auto
  show "request_resolv_blocking ais ok kfd w = Inr w' \<Longrightarrow> gate_at st w \<Longrightarrow> gate_at st w'"
    using resolv_thread_keeps [of ais ok kfd w w'] by (auto simp: gate_at_def keeps_def)
  show "(is_auth_on g \<Longrightarrow> is_auth_on (cw_glob w)) \<Longrightarrow> gate_at st w \<Longrightarrow> gate_at st (w\<lparr>cw_sel := s, cw_glob := g\<rparr>)"
    by (auto simp: gate_at_def auth_settled_def)
qed (rule gate_read gate_write gate_block TrueI; assumption)+

end
