(* ===== verification/Layout.thy ===== *)
theory Layout
  imports Reachable
begin

text \<open>
  The layout of a connection: which member of each union is live and where the pointers in it
  point, the parsers and flags inside left out; and the invariant of the two buffers.
\<close>

datatype layout =
    L_none
  | L_hello bufref bufref
  | L_auth bufref bufref
  | L_request bufref bufref
  | L_conn
  | L_copy fdref bufref bufref side

fun client_layout :: "client_union \<Rightarrow> layout" where
  "client_layout C_none = L_none"
| "client_layout (C_hello d) = L_hello (hs_rb d) (hs_wb d)"
| "client_layout (C_auth d) = L_auth (as_rb d) (as_wb d)"
| "client_layout (C_request d) = L_request (rs_rb d) (rs_wb d)"
| "client_layout (C_copy d) = L_copy (cp_fd d) (cp_rb d) (cp_wb d) (cp_other d)"

fun orig_layout :: "orig_union \<Rightarrow> layout" where
  "orig_layout O_none = L_none"
| "orig_layout O_conn = L_conn"
| "orig_layout (O_copy d) = L_copy (cp_fd d) (cp_rb d) (cp_wb d) (cp_other d)"

text \<open>A buffer of a connection: well formed, of its size, and rewound whenever it is empty.\<close>

definition buf_ok :: "buffer \<Rightarrow> bool" where
  "buf_ok b \<longleftrightarrow> wf_buffer b \<and> (bread b = bwrite b \<longrightarrow> bwrite b = 0) \<and> blimit b = RAW_BUFFER_SIZE"

definition bufs_ok :: "socks5 \<Rightarrow> bool" where
  "bufs_ok c \<longleftrightarrow> buf_ok (read_buffer c) \<and> buf_ok (write_buffer c)"

definition keeps_layout :: "cworld \<Rightarrow> cworld \<Rightarrow> bool" where
  "keeps_layout w w' \<longleftrightarrow>
     client_layout (so_client (cw_conn w')) = client_layout (so_client (cw_conn w)) \<and>
     orig_layout (so_orig (cw_conn w')) = orig_layout (so_orig (cw_conn w)) \<and>
     (bufs_ok (cw_conn w) \<longrightarrow> bufs_ok (cw_conn w'))"

named_theorems layout_dest \<open>operations that keep the layout\<close>

lemma keeps_layout_refl [simp, intro]: "keeps_layout w w"
  by (simp add: keeps_layout_def)

lemma keeps_layout_trans [trans]: "keeps_layout w w' \<Longrightarrow> keeps_layout w' w'' \<Longrightarrow> keeps_layout w w''"
  by (simp add: keeps_layout_def)

lemma bufs_ok_set [simp]: "bufs_ok c \<Longrightarrow> buf_ok b \<Longrightarrow> bufs_ok (set_buf r b c)"
  by (cases r) (simp_all add: bufs_ok_def)

lemma bufs_okD: "bufs_ok c \<Longrightarrow> buf_ok (get_buf r c)"
  by (cases r) (simp_all add: bufs_ok_def)

lemma bufs_ok_cong:
  "read_buffer c' = read_buffer c \<Longrightarrow> write_buffer c' = write_buffer c \<Longrightarrow> bufs_ok c' = bufs_ok c"
  by (simp add: bufs_ok_def)

lemma bufs_ok_upd [simp]:
  "bufs_ok (c\<lparr>so_client := cl\<rparr>) = bufs_ok c" "bufs_ok (c\<lparr>so_orig := og\<rparr>) = bufs_ok c"
  "bufs_ok (c\<lparr>so_dp := dp\<rparr>) = bufs_ok c" "bufs_ok (c\<lparr>client_uname := u\<rparr>) = bufs_ok c"
  "bufs_ok (c\<lparr>origin_fd := f\<rparr>) = bufs_ok c" "bufs_ok (c\<lparr>references := n\<rparr>) = bufs_ok c"
  "bufs_ok (c\<lparr>origin_resolution := r\<rparr>) = bufs_ok c" "bufs_ok (c\<lparr>origin_resolution_current := rc\<rparr>) = bufs_ok c"
  "bufs_ok (c\<lparr>origin_domain := d\<rparr>) = bufs_ok c" "bufs_ok (c\<lparr>origin_addr := a\<rparr>) = bufs_ok c"
  "bufs_ok (c\<lparr>origin_addr_len := al\<rparr>) = bufs_ok c" "bufs_ok (c\<lparr>dest_addr := da\<rparr>) = bufs_ok c"
  "bufs_ok (c\<lparr>dest_addr_type := t\<rparr>) = bufs_ok c" "bufs_ok (c\<lparr>so_stm := m\<rparr>) = bufs_ok c"
  by (simp_all add: bufs_ok_def)

section \<open>Operations on buffers\<close>

lemma buffer_poke_buf_ok: "buffer_poke b xs = Inr b' \<Longrightarrow> buf_ok b \<Longrightarrow> buf_ok b'"
  by (auto simp: buffer_poke_def buf_ok_def wf_buffer_def split: if_splits)

lemma buffer_write_adv_buf_ok: "buffer_write_adv b n = Inr b' \<Longrightarrow> buf_ok b \<Longrightarrow> buf_ok b'"
  by (auto simp: buffer_write_adv_def buf_ok_def wf_buffer_def Let_def split: if_splits)

lemma buffer_read_adv_buf_ok: "buffer_read_adv b n = Inr b' \<Longrightarrow> buf_ok b \<Longrightarrow> buf_ok b'"
  by (auto simp: buffer_read_adv_def buffer_compact_def buf_ok_def wf_buffer_def Let_def split: if_splits)

lemma buffer_read_buf_ok: "buffer_read b = Inr (c, b') \<Longrightarrow> buf_ok b \<Longrightarrow> buf_ok b'"
  by (auto simp: buffer_read_def split: if_splits dest: buffer_read_adv_buf_ok)

lemma buffer_recv_buf_ok: "buffer_recv b r = Inr (n, b') \<Longrightarrow> buf_ok b \<Longrightarrow> buf_ok b'"
  by (auto simp: buffer_recv_def dest: buffer_poke_buf_ok)

lemma parse_loop_buf_ok: "parse_loop feed fin b p e = Inr (b', p', e') \<Longrightarrow> buf_ok b \<Longrightarrow> buf_ok b'"
proof (induction feed fin b p e rule: parse_loop.induct)
  case (1 feed fin b p e)
  show ?case
  proof (cases "buffer_can_read b")
    case True
    then obtain c b1 p1 where "buffer_read b = Inr (c, b1)" "feed p c = Inr p1"
      using "1.prems"(1) by (subst (asm) parse_loop.simps) auto
    with True "1.IH" "1.prems" show ?thesis
      by (subst (asm) parse_loop.simps) (auto split: prod.splits if_splits dest: buffer_read_buf_ok)
  next
    case False
    with "1.prems" show ?thesis by (subst (asm) parse_loop.simps) auto
  qed
qed

lemma buffer_write_buf_ok: "buffer_write b c = Inr b' \<Longrightarrow> buf_ok b \<Longrightarrow> buf_ok b'"
  by (auto simp: buffer_write_def buffer_write_adv_def buf_ok_def wf_buffer_def mem_set_def Let_def
      split: if_splits)

lemma marshall_buf_ok:
  "hello_marshall b m = Inr (n, b') \<Longrightarrow> buf_ok b \<Longrightarrow> buf_ok b'"
  "auth_marshall b s = Inr (n, b') \<Longrightarrow> buf_ok b \<Longrightarrow> buf_ok b'"
  "request_marshall b t = Inr (n, b') \<Longrightarrow> buf_ok b \<Longrightarrow> buf_ok b'"
  by (auto simp: hello_marshall_def auth_marshall_def request_marshall_def split: if_splits
      dest!: buffer_poke_buf_ok buffer_write_adv_buf_ok buffer_write_buf_ok)

lemma consume_buf_ok:
  "hello_consume cb b p1 e = Inr (s1, b', p1', e') \<Longrightarrow> buf_ok b \<Longrightarrow> buf_ok b'"
  "auth_consume b p2 e = Inr (s2, b', p2', e') \<Longrightarrow> buf_ok b \<Longrightarrow> buf_ok b'"
  "request_consume b p3 e = Inr (s3, b', p3', e') \<Longrightarrow> buf_ok b \<Longrightarrow> buf_ok b'"
  by (auto simp: hello_consume_def auth_consume_def request_consume_def dest: parse_loop_buf_ok)

lemmas buf_ok_dest = marshall_buf_ok consume_buf_ok buffer_read_adv_buf_ok buffer_write_adv_buf_ok
  buffer_recv_buf_ok

section \<open>Operations on connections\<close>

lemma keeps_layout_sel [simp]:
  "keeps_layout w (w'\<lparr>cw_sel := s\<rparr>) = keeps_layout w w'" "keeps_layout w (w'\<lparr>cw_glob := g\<rparr>) = keeps_layout w w'"
  "keeps_layout w (w'\<lparr>cw_life := l\<rparr>) = keeps_layout w w'" "keeps_layout w (emit e w') = keeps_layout w w'"
  by (simp_all add: keeps_layout_def)

lemma keeps_layout_buf:
  "(buf_ok (get_buf r (cw_conn w)) \<Longrightarrow> buf_ok b) \<Longrightarrow> keeps_layout w (upd_conn (set_buf r b) w)"
  by (simp add: keeps_layout_def bufs_okD)

lemma conn_recv_layout [layout_dest]: "conn_recv k r w = Inr (n, w') \<Longrightarrow> keeps_layout w w'"
  by (auto simp: conn_recv_def split: if_splits intro!: keeps_layout_buf dest!: buf_ok_dest)

lemma conn_send_layout [layout_dest]: "conn_send k r w = Inr (n, out, w') \<Longrightarrow> keeps_layout w w'"
  by (auto simp: conn_send_def split: if_splits)

lemma set_interest_layout [layout_dest]: "set_interest f i w = Inr (st, w') \<Longrightarrow> keeps_layout w w'"
  by (auto simp: set_interest_def)

lemma set_interest_key_layout [layout_dest]: "set_interest_key k i w = Inr (st, w') \<Longrightarrow> keeps_layout w w'"
  by (auto simp: set_interest_key_def)

lemma unregister_fd_layout [layout_dest]: "unregister_fd f w = Inr (st, w') \<Longrightarrow> keeps_layout w w'"
  by (erule unregister_fd_cases)
    (auto simp: socks5_destroy_def socks5_destroy_now_def keeps_layout_def bufs_ok_def)

section \<open>Handlers\<close>

text \<open>Every handler keeps the layout of the state it runs in.\<close>

lemma get_layout:
  "get_hello c = Inr dh \<Longrightarrow> client_layout (so_client c) = L_hello (hs_rb dh) (hs_wb dh)"
  "get_auth c = Inr da \<Longrightarrow> client_layout (so_client c) = L_auth (as_rb da) (as_wb da)"
  "get_request c = Inr dr \<Longrightarrow> client_layout (so_client c) = L_request (rs_rb dr) (rs_wb dr)"
  by (auto simp: get_hello_def get_auth_def get_request_def split: client_union.splits)

lemma hello_process_layout [layout_dest]: "hello_process w = Inr (n, w') \<Longrightarrow> keeps_layout w w'"
  by (auto simp: hello_process_def intro!: keeps_layout_buf dest: buf_ok_dest)

lemma hello_read_layout [layout_dest]: "hello_read k w = Inr (n, w') \<Longrightarrow> keeps_layout w w'"
  by (auto simp: hello_read_def Let_def keeps_layout_def split: if_splits prod.splits
      dest!: layout_dest [unfolded keeps_layout_def] get_layout consume_buf_ok [OF _ bufs_okD])

lemma hello_write_layout [layout_dest]: "hello_write k w = Inr (n, w') \<Longrightarrow> keeps_layout w w'"
  by (auto simp: hello_write_def Let_def keeps_layout_def split: if_splits prod.splits
      dest!: layout_dest [unfolded keeps_layout_def] buffer_read_adv_buf_ok [OF _ bufs_okD])


lemma auth_process_layout [layout_dest]: "auth_process k w = Inr (n, w') \<Longrightarrow> keeps_layout w w'"
  by (auto simp: auth_process_def Let_def keeps_layout_def split: if_splits option.splits
      dest!: get_layout marshall_buf_ok [OF _ bufs_okD])

lemma auth_read_layout [layout_dest]: "auth_read k w = Inr (n, w') \<Longrightarrow> keeps_layout w w'"
  by (auto simp: auth_read_def Let_def keeps_layout_def split: if_splits prod.splits
      dest!: layout_dest [unfolded keeps_layout_def] get_layout consume_buf_ok [OF _ bufs_okD])

lemma auth_write_layout [layout_dest]: "auth_write k w = Inr (n, w') \<Longrightarrow> keeps_layout w w'"
  by (auto simp: auth_write_def Let_def keeps_layout_def split: if_splits prod.splits
      dest!: layout_dest [unfolded keeps_layout_def] buffer_read_adv_buf_ok [OF _ bufs_okD])

lemma keeps_layout_request:
  "get_request (cw_conn w) = Inr d \<Longrightarrow> rs_rb d' = rs_rb d \<Longrightarrow> rs_wb d' = rs_wb d \<Longrightarrow>
   keeps_layout w (set_request d' w)"
  by (auto simp: keeps_layout_def set_request_def dest!: get_layout)

lemma request_error_write_layout [layout_dest]: "request_error_write k st w = Inr (n, w') \<Longrightarrow> keeps_layout w w'"
  by (auto simp: request_error_write_def Let_def keeps_layout_def set_request_def split: if_splits prod.splits
      dest!: layout_dest [unfolded keeps_layout_def] get_layout marshall_buf_ok [OF _ bufs_okD])

lemma request_connect_finally_layout [layout_dest]:
  "request_connect_finally k e st w = Inr (n, w') \<Longrightarrow> keeps_layout w w'"
  by (auto simp: request_connect_finally_def Let_def keeps_layout_def split: if_splits
      dest!: layout_dest [unfolded keeps_layout_def])

lemma request_connect_layout [layout_dest]: "request_connect k w = Inr (n, w') \<Longrightarrow> keeps_layout w w'"
  by (auto simp: request_connect_def Let_def keeps_layout_def split: if_splits prod.splits option.splits
      connect_result.splits dest!: layout_dest [unfolded keeps_layout_def])

lemma set_origin_addr_layout: "set_origin_addr dm len w = Inr w' \<Longrightarrow> keeps_layout w w'"
  by (auto simp: set_origin_addr_def Let_def keeps_layout_def set_request_def dest!: get_layout)

lemma use_address_layout: "use_address ais w = Inr w' \<Longrightarrow> keeps_layout w w'"
  by (auto simp: use_address_def keeps_layout_def split: list.splits)

lemma request_process_layout [layout_dest]: "request_process k w = Inr (n, w') \<Longrightarrow> keeps_layout w w'"
  by (auto simp: request_process_def Let_def keeps_layout_def split: if_splits
      dest!: layout_dest [unfolded keeps_layout_def] set_origin_addr_layout [unfolded keeps_layout_def])

lemma request_read_layout [layout_dest]: "request_read k w = Inr (n, w') \<Longrightarrow> keeps_layout w w'"
  by (auto simp: request_read_def Let_def keeps_layout_def set_request_def split: if_splits prod.splits
      dest!: layout_dest [unfolded keeps_layout_def] get_layout consume_buf_ok [OF _ bufs_okD])

lemma request_resolv_done_layout [layout_dest]: "request_resolv_done k w = Inr (n, w') \<Longrightarrow> keeps_layout w w'"
  by (auto simp: request_resolv_done_def keeps_layout_def split: option.splits
      dest!: layout_dest [unfolded keeps_layout_def] use_address_layout [unfolded keeps_layout_def])

lemma request_connecting_reply_layout [layout_dest]:
  "request_connecting_reply k w = Inr (n, w') \<Longrightarrow> keeps_layout w w'"
  by (auto simp: request_connecting_reply_def Let_def keeps_layout_def split: if_splits prod.splits
      dest!: layout_dest [unfolded keeps_layout_def] marshall_buf_ok [OF _ bufs_okD])

lemma request_connecting_layout [layout_dest]: "request_connecting k w = Inr (n, w') \<Longrightarrow> keeps_layout w w'"
  by (auto simp: request_connecting_def Let_def keeps_layout_def set_request_def split: if_splits prod.splits option.splits
      dest!: layout_dest [unfolded keeps_layout_def] use_address_layout [unfolded keeps_layout_def] get_layout)

lemma request_write_layout [layout_dest]: "request_write k w = Inr (n, w') \<Longrightarrow> keeps_layout w w'"
  by (auto simp: request_write_def Let_def keeps_layout_def split: if_splits prod.splits
      dest!: layout_dest [unfolded keeps_layout_def] buffer_read_adv_buf_ok [OF _ bufs_okD])


lemma get_copy_layout:
  "get_copy Client_side c = Inr d \<Longrightarrow>
     client_layout (so_client c) = L_copy (cp_fd d) (cp_rb d) (cp_wb d) (cp_other d)"
  "get_copy Origin_side c = Inr d \<Longrightarrow> orig_layout (so_orig c) = L_copy (cp_fd d) (cp_rb d) (cp_wb d) (cp_other d)"
  by (auto split: client_union.splits orig_union.splits)

lemma keeps_layout_copy:
  assumes "get_copy sd (cw_conn w) = Inr d" "d' = d\<lparr>cp_duplex := x\<rparr>"
  shows "keeps_layout w (upd_conn (set_copy sd d') w)"
  using assms by (cases sd) (auto simp: keeps_layout_def simp del: get_copy.simps dest!: get_copy_layout)

lemma copy_compute_layout [layout_dest]: "copy_compute_interests sd w = Inr (n, w') \<Longrightarrow> keeps_layout w w'"
  by (auto simp: copy_compute_interests_def Let_def split: if_splits dest: layout_dest)

lemma copy_shutdown_layout [layout_dest]:
  assumes "copy_shutdown sd a b c d w = Inr w'"
  shows "keeps_layout w w'"
proof -
  obtain cp where cp: "get_copy sd (cw_conn w) = Inr cp" using assms by (auto simp: copy_shutdown_def)
  define w2 where "w2 = upd_conn (set_copy sd (cp\<lparr>cp_duplex := cp_duplex cp AND NOT b\<rparr>))
    (emit (Ev_shutdown (get_fd (cp_fd cp) (cw_conn w)) a) w)"
  obtain e where e: "get_copy (cp_other cp) (cw_conn w2) = Inr e"
    using assms cp by (auto simp: copy_shutdown_def Let_def w2_def)
  define w3 where "w3 = emit (Ev_shutdown (get_fd (cp_fd e) (cw_conn w2)) c) w2"
  have w': "w' = w2 \<or> w' = upd_conn (set_copy (cp_other cp) (e\<lparr>cp_duplex := cp_duplex e AND NOT d\<rparr>)) w3"
    using assms cp e unfolding w3_def w2_def by (auto simp: copy_shutdown_def Let_def split: if_splits)
  have 2: "keeps_layout w w2"
    unfolding w2_def using cp by (intro keeps_layout_trans [OF _ keeps_layout_copy]) simp_all
  then have "keeps_layout w w3" by (simp add: w3_def)
  then have "keeps_layout w (upd_conn (set_copy (cp_other cp) (e\<lparr>cp_duplex := cp_duplex e AND NOT d\<rparr>)) w3)"
    using e by (intro keeps_layout_trans [OF _ keeps_layout_copy [of _ _ e]]) (simp_all add: w3_def)
  with 2 w' show ?thesis by blast
qed

lemma copy_finish_layout [layout_dest]: "copy_finish sd w = Inr (n, w') \<Longrightarrow> keeps_layout w w'"
  by (auto simp: copy_finish_def keeps_layout_def split: if_splits dest!: layout_dest [unfolded keeps_layout_def])

lemma copy_disect_layout [layout_dest]: "copy_disect k out w = Inr w' \<Longrightarrow> keeps_layout w w'"
  by (auto simp: copy_disect_def Let_def keeps_layout_def split: if_splits)

lemma copy_r_layout [layout_dest]: "copy_r k w = Inr (n, w') \<Longrightarrow> keeps_layout w w'"
  by (auto simp: copy_r_def keeps_layout_def split: if_splits dest!: layout_dest [unfolded keeps_layout_def])

lemma copy_w_layout [layout_dest]: "copy_w k w = Inr (n, w') \<Longrightarrow> keeps_layout w w'"
  by (auto simp: copy_w_def keeps_layout_def split: if_splits
      dest!: layout_dest [unfolded keeps_layout_def] buffer_read_adv_buf_ok [OF _ bufs_okD])

lemma close_fds_layout [layout_dest]: "close_fds fs w = Inr w' \<Longrightarrow> keeps_layout w w'"
proof (induction fs arbitrary: w)
  case (Cons f fs)
  show ?case
  proof (cases "f = -1")
    case False
    with Cons.prems obtain st w1 where "unregister_fd f w = Inr (st, w1)"
      "close_fds fs (emit (Ev_close f) w1) = Inr w'"
      by (auto split: if_splits)
    with Cons.IH unregister_fd_layout show ?thesis by (auto simp: keeps_layout_def)
  qed (use Cons in simp)
qed simp

section \<open>The layout of each state\<close>

definition layout_at :: "nat \<Rightarrow> cworld \<Rightarrow> bool" where
  "layout_at st w \<longleftrightarrow> bufs_ok (cw_conn w) \<and>
     (let cl = client_layout (so_client (cw_conn w)); og = orig_layout (so_orig (cw_conn w))
      in if st = HELLO_READ \<or> st = HELLO_WRITE then cl = L_hello Read_buffer Write_buffer
         else if st = AUTH_READ \<or> st = AUTH_WRITE then cl = L_auth Read_buffer Write_buffer
         else if st = REQUEST_CONNECTING then cl = L_request Read_buffer Write_buffer \<and> og = L_conn
         else if st = REQUEST_READ \<or> st = REQUEST_RESOLV \<or> st = REQUEST_WRITE
         then cl = L_request Read_buffer Write_buffer
         else if st = COPY then
           cl = L_copy Client_fd Read_buffer Write_buffer Origin_side \<and>
           og = L_copy Origin_fd Write_buffer Read_buffer Client_side
         else True)"

definition layout_post :: "nat \<Rightarrow> nat \<Rightarrow> cworld \<Rightarrow> bool" where
  "layout_post i n w \<longleftrightarrow> layout_at i w \<and> n \<in> set (successors i)"

lemma layout_at_simps [simp]:
  "layout_at HELLO_READ w \<longleftrightarrow> bufs_ok (cw_conn w) \<and> client_layout (so_client (cw_conn w)) = L_hello Read_buffer Write_buffer"
  "layout_at HELLO_WRITE w \<longleftrightarrow> bufs_ok (cw_conn w) \<and> client_layout (so_client (cw_conn w)) = L_hello Read_buffer Write_buffer"
  "layout_at AUTH_READ w \<longleftrightarrow> bufs_ok (cw_conn w) \<and> client_layout (so_client (cw_conn w)) = L_auth Read_buffer Write_buffer"
  "layout_at AUTH_WRITE w \<longleftrightarrow> bufs_ok (cw_conn w) \<and> client_layout (so_client (cw_conn w)) = L_auth Read_buffer Write_buffer"
  "layout_at REQUEST_READ w \<longleftrightarrow> bufs_ok (cw_conn w) \<and> client_layout (so_client (cw_conn w)) = L_request Read_buffer Write_buffer"
  "layout_at REQUEST_RESOLV w \<longleftrightarrow> bufs_ok (cw_conn w) \<and> client_layout (so_client (cw_conn w)) = L_request Read_buffer Write_buffer"
  "layout_at REQUEST_WRITE w \<longleftrightarrow> bufs_ok (cw_conn w) \<and> client_layout (so_client (cw_conn w)) = L_request Read_buffer Write_buffer"
  "layout_at REQUEST_CONNECTING w \<longleftrightarrow> bufs_ok (cw_conn w) \<and>
     client_layout (so_client (cw_conn w)) = L_request Read_buffer Write_buffer \<and> orig_layout (so_orig (cw_conn w)) = L_conn"
  "layout_at COPY w \<longleftrightarrow> bufs_ok (cw_conn w) \<and>
     client_layout (so_client (cw_conn w)) = L_copy Client_fd Read_buffer Write_buffer Origin_side \<and>
     orig_layout (so_orig (cw_conn w)) = L_copy Origin_fd Write_buffer Read_buffer Client_side"
  "layout_at DONE w \<longleftrightarrow> bufs_ok (cw_conn w)" "layout_at ERROR w \<longleftrightarrow> bufs_ok (cw_conn w)"
  by (simp_all add: layout_at_def st_defs)

lemma layout_at_keeps: "layout_at st w \<Longrightarrow> keeps_layout w w' \<Longrightarrow> layout_at st w'"
  by (simp add: layout_at_def keeps_layout_def)

lemma hook_layout:
  assumes "d \<in> set client_statbl" "on_read_ready d = Some f \<or> on_write_ready d = Some f \<or> on_block_ready d = Some f"
    "f k w = Inr (n, w')"
  shows "keeps_layout w w'"
  using assms by (auto simp: client_statbl_def no_hooks_def dest!: layout_dest)

lemma successors_le: "n \<in> set (successors i) \<Longrightarrow> i \<le> COPY"
  by (auto simp: successors_def st_defs split: if_splits)

lemma departure_layout:
  "i \<le> ERROR \<Longrightarrow> run_hook (on_departure (client_statbl ! i)) i k w = Inr w' \<Longrightarrow> keeps_layout w w'"
  by (erule state_cases) (auto simp: run_hook_def no_hooks_def keeps_layout_def hello_read_close_def
      request_read_close_def set_request_def dest!: get_layout)

lemma resolv_layout: "request_resolv_blocking ais ok kfd w = Inr w' \<Longrightarrow> keeps_layout w w'"
  by (auto simp: request_resolv_blocking_def Let_def keeps_layout_def set_request_def split: option.splits
      dest!: get_layout)

lemma socks5_new_bufs:
  "socks5_new client_statbl ok cfd g = Inr (Some c, g') \<Longrightarrow> bufs_ok (c\<lparr>client_addr := a, client_addr_len := len\<rparr>)"
  by (auto simp: socks5_new_def Let_def bufs_ok_def buf_ok_def wf_buffer_def buffer_init_def buffer_reset_def
      split: if_splits)

lemma arrival_layout:
  assumes "n \<le> ERROR" "layout_post i n w" "run_hook (on_arrival (client_statbl ! n)) n k (put_stm m w) = Inr w'"
  shows "layout_at n w'"
proof -
  have i: "i \<le> ERROR" using assms(2) by (auto simp: layout_post_def st_defs dest!: successors_le)
  show ?thesis
    using assms(1)
    by (cases rule: state_cases; cases rule: state_cases [OF i])
      (use assms(2,3) in \<open>auto simp: layout_post_def run_hook_def no_hooks_def put_stm_def
        hello_read_init_def auth_init_def request_init_def request_connecting_init_def copy_init_def Let_def\<close>)
qed

interpretation shape: conn_invariant "\<lambda>w. bufs_ok (cw_conn w)" layout_at layout_post
proof unfold_locales
  fix st i n w w' k m ais ok kfd f and s :: selector and g :: globals
  show "bufs_ok (cw_conn w) \<Longrightarrow> hello_read_init HELLO_READ k (put_stm m w) = Inr w' \<Longrightarrow> layout_at HELLO_READ w'"
    by (auto simp: hello_read_init_def Let_def put_stm_def)
  show "layout_post i n w'" if "i \<le> ERROR" "layout_at i w" "on_read_ready (client_statbl ! i) = Some f"
    "f k w = Inr (n, w')"
    using read_successor [OF that(1,3,4)] layout_at_keeps [OF that(2)] that(3,4)
      hook_layout [OF s5.state_in_table [OF that(1)], of f k w n w'] by (simp add: layout_post_def)
  show "layout_post i n w'" if "i \<le> ERROR" "layout_at i w" "on_write_ready (client_statbl ! i) = Some f"
    "f k w = Inr (n, w')"
    using write_successor [OF that(1,3,4)] layout_at_keeps [OF that(2)] that(3,4)
      hook_layout [OF s5.state_in_table [OF that(1)], of f k w n w'] by (simp add: layout_post_def)
  show "layout_post i n w'" if "i \<le> ERROR" "layout_at i w" "on_block_ready (client_statbl ! i) = Some f"
    "f k w = Inr (n, w')"
    using block_successor [OF that(1,3,4)] layout_at_keeps [OF that(2)] that(3,4)
      hook_layout [OF s5.state_in_table [OF that(1)], of f k w n w'] by (simp add: layout_post_def)
  show "layout_post i i w \<Longrightarrow> layout_at i w" by (simp add: layout_post_def)
  show "i \<le> ERROR \<Longrightarrow> layout_post i n w \<Longrightarrow> run_hook (on_departure (client_statbl ! i)) i k w = Inr w' \<Longrightarrow>
      layout_post i n w'"
    using departure_layout [of i k w w'] by (auto simp: layout_post_def intro: layout_at_keeps)
  show "n \<le> ERROR \<Longrightarrow> layout_post i n w \<Longrightarrow>
      run_hook (on_arrival (client_statbl ! n)) n k (put_stm m w) = Inr w' \<Longrightarrow> layout_at n w'"
    by (rule arrival_layout)
  show "layout_at st w'" if "layout_at st w" "socksv5_done k w = Inr w'"
    using layout_at_keeps [OF that(1) close_fds_layout] that(2) unfolding socksv5_done_def by blast
  show "request_resolv_blocking ais ok kfd w = Inr w' \<Longrightarrow> bufs_ok (cw_conn w) \<Longrightarrow> bufs_ok (cw_conn w')"
    "request_resolv_blocking ais ok kfd w = Inr w' \<Longrightarrow> layout_at st w \<Longrightarrow> layout_at st w'"
    using resolv_layout [of ais ok kfd w w'] by (auto simp: keeps_layout_def intro: layout_at_keeps)
  show "layout_at st w \<Longrightarrow> layout_at st (w\<lparr>cw_sel := s, cw_glob := g\<rparr>)"
    by (erule layout_at_keeps) (simp add: keeps_layout_def)
qed (simp_all add: socks5_new_bufs)

end
