(* ===== verification/Unions.thy ===== *)
theory Unions
  imports Layout
begin

text \<open>
  Progress for the layout of \<open>Layout\<close>: in the layout of its state no handler touches a member of a
  union other than the live one.
\<close>

section \<open>Operations that never touch a union\<close>

definition union_ok :: "'a res \<Rightarrow> bool" where
  "union_ok m \<longleftrightarrow> m \<noteq> Inl Bad_union"

named_theorems union_intro \<open>computations that access no dead member of a union\<close>

lemma union_ok_simps [simp]: "union_ok (Inr x)" "union_ok (Inl e) \<longleftrightarrow> e \<noteq> Bad_union"
  by (auto simp: union_ok_def)

lemma union_ok_rbind [union_intro]:
  "union_ok m \<Longrightarrow> (\<And>x. m = Inr x \<Longrightarrow> union_ok (f x)) \<Longrightarrow> union_ok (rbind m f)"
  by (cases m) (auto simp: union_ok_def)

lemma union_ok_basic [union_intro, simp]:
  "union_ok (c_assert P)" "union_ok (mem_get xs i)" "union_ok (mem_set xs i v)" "union_ok (read_cstr s)"
  by (auto simp: c_assert_def mem_get_def mem_set_def read_cstr_def)

lemma union_ok_buffer [union_intro, simp]:
  "union_ok (buffer_write_ptr b)" "union_ok (buffer_read_ptr b)" "union_ok (buffer_write_adv b n)"
  "union_ok (buffer_read_adv b n)" "union_ok (buffer_poke b xs)"
  by (auto simp: buffer_write_ptr_def buffer_read_ptr_def buffer_write_adv_def buffer_read_adv_def
      buffer_poke_def Let_def intro!: union_intro)

lemma union_ok_buffer_io [union_intro, simp]:
  "union_ok (buffer_read b)" "union_ok (buffer_write b c)" "union_ok (buffer_recv b r)" "union_ok (buffer_send b s)"
  by (auto simp: buffer_read_def buffer_write_def buffer_recv_def buffer_send_def Let_def intro!: union_intro)

lemma union_ok_marshall [union_intro, simp]:
  "union_ok (hello_marshall b m)" "union_ok (auth_marshall b s)" "union_ok (request_marshall b t)"
  by (auto simp: hello_marshall_def auth_marshall_def request_marshall_def intro!: union_intro)

lemma union_ok_parse_loop:
  assumes "\<And>p c. union_ok (feed p c)"
  shows "union_ok (parse_loop feed fin b p e)"
  using assms
proof (induction feed fin b p e rule: parse_loop.induct)
  case (1 feed fin b p e)
  show ?case
    by (subst parse_loop.simps) (auto intro!: union_intro "1.prems" "1.IH" split: prod.splits)
qed

lemma union_ok_fields [union_intro, simp]:
  "union_ok (uname_auth c ap)" "union_ok (passwd_auth c ap)"
  "union_ok (dstaddr_fqdn_request c rp)" "union_ok (dstaddr_request c rp)" "union_ok (dstport_request c rp)"
  "union_ok (wait_pop_disector c dp)" "union_ok (user_disector c dp)" "union_ok (user_copy_disector c dp)"
  "union_ok (password_disector c dp)" "union_ok (password_copy_disector c dp)" "union_ok (response_disector c dp)"
  by (auto simp: uname_auth_def passwd_auth_def dstaddr_fqdn_request_def dstaddr_request_def dstport_request_def
      wait_pop_disector_def user_disector_def user_copy_disector_def password_disector_def
      password_copy_disector_def response_disector_def search_at_def Let_def intro!: union_intro)

lemma union_ok_feed [union_intro, simp]:
  "union_ok (hello_parser_feed cb hp c)" "union_ok (auth_parser_feed ap c)" "union_ok (request_parser_feed rp c)"
  "union_ok (disector_parser_feed dp c)"
  by (auto simp: hello_parser_feed_def auth_parser_feed_def request_parser_feed_def disector_parser_feed_def Let_def
      intro!: union_intro split: hello_state.split auth_state.split request_state.split disector_state.split
      prod.split)

lemma union_ok_consume [union_intro, simp]:
  "union_ok (hello_consume cb b hp e)" "union_ok (auth_consume b ap e)" "union_ok (request_consume b rp e)"
  by (auto simp: hello_consume_def auth_consume_def request_consume_def intro!: union_intro union_ok_parse_loop)

lemma union_ok_disect [union_intro, simp]: "union_ok (disector_consume dp xs)"
proof -
  have "union_ok (disector_loop st p xs)" for st p
    by (induction xs arbitrary: st p) (auto simp: Let_def intro!: union_intro)
  then show ?thesis by (simp add: disector_consume_def)
qed

lemma union_ok_selector [union_intro, simp]:
  "union_ok (selector_set_interest s f i)" "union_ok (selector_set_interest_key s key i)"
  "union_ok (selector_register al s f h i dt)"
  by (auto simp: selector_set_interest_def selector_set_interest_key_def selector_register_def sel_item_def
      sel_put_def ensure_capacity_def next_capacity_def items_init_def Let_def
      intro!: union_intro split: option.splits)

lemma union_ok_max: "union_ok (items_max_loop s ids m)"
  by (induction ids arbitrary: m) (auto simp: sel_item_def intro!: union_intro split: option.splits)

lemma union_ok_world [union_intro, simp]:
  "union_ok (conn_recv k r w)" "union_ok (conn_send k r w)" "union_ok (set_interest f i w)"
  "union_ok (set_interest_key k i w)" "union_ok (unregister_fd f w)"
  by (auto simp: conn_recv_def conn_send_def set_interest_def set_interest_key_def unregister_fd_def
      selector_unregister_fd_def close_handlers_def socksv5_close_def sel_item_def sel_put_def items_max_fd_def
      Let_def intro!: union_intro union_ok_max split: option.splits)

lemma union_ok_close [union_intro, simp]: "union_ok (close_fds fs w)"
  by (induction fs arbitrary: w) (auto intro!: union_intro)

section \<open>Handlers\<close>

lemma union_ok_get [simp]:
  "client_layout (so_client c) = L_hello r s \<Longrightarrow> union_ok (get_hello c)"
  "client_layout (so_client c) = L_auth r s \<Longrightarrow> union_ok (get_auth c)"
  "client_layout (so_client c) = L_request r s \<Longrightarrow> union_ok (get_request c)"
  "orig_layout (so_orig c) = L_conn \<Longrightarrow> union_ok (get_conn c)"
  by (cases "so_client c"; cases "so_orig c";
      simp add: get_hello_def get_auth_def get_request_def get_conn_def)+

lemma layout_keeps_client:
  "keeps_layout w w' \<Longrightarrow> client_layout (so_client (cw_conn w)) = l \<Longrightarrow> client_layout (so_client (cw_conn w')) = l"
  by (simp add: keeps_layout_def)

lemma hello_union_ok:
  assumes "client_layout (so_client (cw_conn w)) = L_hello r s"
  shows "union_ok (hello_read k w)" "union_ok (hello_write k w)"
  using assms
  by (auto simp: hello_read_def hello_process_def hello_write_def Let_def intro!: union_intro
      dest!: layout_dest [unfolded keeps_layout_def])


lemma auth_process_union_ok [simp]:
  "client_layout (so_client (cw_conn w)) = L_auth r s \<Longrightarrow> union_ok (auth_process k w)"
  by (auto simp: auth_process_def Let_def intro!: union_intro split: option.split)

lemma auth_union_ok:
  assumes "client_layout (so_client (cw_conn w)) = L_auth r s"
  shows "union_ok (auth_read k w)" "union_ok (auth_write k w)"
  using assms
  by (auto simp: auth_read_def auth_write_def Let_def intro!: union_intro
      dest!: layout_dest [unfolded keeps_layout_def])

lemma request_error_write_union_ok [simp]:
  "client_layout (so_client (cw_conn w)) = L_request r s \<Longrightarrow> union_ok (request_error_write k st w)"
  by (auto simp: request_error_write_def Let_def intro!: union_intro)

lemma request_connect_union_ok [simp]:
  assumes "client_layout (so_client (cw_conn w)) = L_request r s"
  shows "union_ok (request_connect k w)"
proof -
  have "union_ok (request_connect_finally k e st w)" if "client_layout (so_client (cw_conn w)) = L_request r s"
    for e st w
    using that by (auto simp: request_connect_finally_def Let_def)
  with assms show ?thesis
    by (auto simp: request_connect_def Let_def intro!: union_intro split: option.split connect_result.split
        dest!: layout_dest [unfolded keeps_layout_def])
qed

lemma use_address_union_ok [simp]: "union_ok (use_address ais w)"
  by (auto simp: use_address_def split: list.split)

lemma request_process_union_ok [simp]:
  "client_layout (so_client (cw_conn w)) = L_request r s \<Longrightarrow> union_ok (request_process k w)"
  by (auto simp: request_process_def set_origin_addr_def set_request_def Let_def intro!: union_intro
      dest!: get_layout)

lemma request_union_ok:
  assumes "client_layout (so_client (cw_conn w)) = L_request r s"
  shows "union_ok (request_read k w)" "union_ok (request_resolv_done k w)" "union_ok (request_write k w)"
proof -
  show "union_ok (request_read k w)"
    using assms by (auto simp: request_read_def set_request_def Let_def intro!: union_intro)
  show "union_ok (request_resolv_done k w)"
    using assms
    by (auto simp: request_resolv_done_def intro!: union_intro split: option.split
        dest!: use_address_layout [unfolded keeps_layout_def])
  show "union_ok (request_write k w)"
    using assms by (auto simp: request_write_def Let_def intro!: union_intro)
qed

lemma request_connecting_reply_union_ok [simp]:
  "client_layout (so_client (cw_conn w)) = L_request r s \<Longrightarrow> union_ok (request_connecting_reply k w)"
  by (auto simp: request_connecting_reply_def Let_def intro!: union_intro)

lemma request_connecting_union_ok:
  assumes "client_layout (so_client (cw_conn w)) = L_request r s" "orig_layout (so_orig (cw_conn w)) = L_conn"
  shows "union_ok (request_connecting k w)"
  using assms
  by (auto simp: request_connecting_def next_address_def set_request_def Let_def intro!: union_intro
      split: option.split list.split dest!: use_address_layout [unfolded keeps_layout_def])

text \<open>Both ends of a \<open>copy\<close> are live in COPY.\<close>

definition copy_live :: "cworld \<Rightarrow> bool" where
  "copy_live w \<longleftrightarrow>
     client_layout (so_client (cw_conn w)) = L_copy Client_fd Read_buffer Write_buffer Origin_side \<and>
     orig_layout (so_orig (cw_conn w)) = L_copy Origin_fd Write_buffer Read_buffer Client_side"

lemma copy_live_keeps: "copy_live w \<Longrightarrow> keeps_layout w w' \<Longrightarrow> copy_live w'"
  by (simp add: copy_live_def keeps_layout_def)

lemma copy_live_get [simp]: "copy_live w \<Longrightarrow> union_ok (get_copy sd (cw_conn w))"
  by (cases sd; cases "so_client (cw_conn w)"; cases "so_orig (cw_conn w)") (auto simp: copy_live_def)

lemma copy_compute_union_ok [simp]: "copy_live w \<Longrightarrow> union_ok (copy_compute_interests sd w)"
  by (auto simp: copy_compute_interests_def Let_def intro!: union_intro)

lemma copy_shutdown_union_ok [simp]:
  assumes "copy_live w"
  shows "union_ok (copy_shutdown sd a b c d w)"
proof -
  have "copy_live (upd_conn (set_copy sd (cp\<lparr>cp_duplex := x\<rparr>)) w)" if "get_copy sd (cw_conn w) = Inr cp" for cp x
    using copy_live_keeps [OF assms keeps_layout_copy [OF that refl]] .
  from copy_live_get [OF this] assms show ?thesis
    by (auto simp: copy_shutdown_def Let_def intro!: union_intro)
qed

lemma copy_finish_union_ok [simp]: "copy_live w \<Longrightarrow> union_ok (copy_finish sd w)"
  by (auto simp: copy_finish_def intro!: union_intro dest!: layout_dest [THEN copy_live_keeps [rotated]])

lemma copy_ptr_union_ok [simp]: "copy_live w \<Longrightarrow> union_ok (copy_ptr k w)"
  by (auto simp: copy_ptr_def simp del: get_copy.simps intro!: union_intro)

lemma copy_disect_union_ok [simp]: "union_ok (copy_disect k out w)"
  by (auto simp: copy_disect_def disector_user_str_def disector_pass_str_def Let_def intro!: union_intro)

lemma copy_live_buf: "copy_live (w\<lparr>cw_conn := set_buf r b (cw_conn w), cw_glob := g\<rparr>) = copy_live w"
  by (simp add: copy_live_def)

lemma copy_union_ok:
  assumes "copy_live w"
  shows "union_ok (copy_r k w)" "union_ok (copy_w k w)"
  using assms
  by (auto simp: copy_r_def copy_w_def copy_live_buf intro!: union_intro split: if_splits
      dest!: layout_dest [THEN copy_live_keeps [rotated]])

section \<open>Events\<close>

lemma hook_union_ok:
  assumes "st \<le> ERROR" "layout_at st w"
    "on_read_ready (client_statbl ! st) = Some f \<or> on_write_ready (client_statbl ! st) = Some f \<or>
     on_block_ready (client_statbl ! st) = Some f"
  shows "union_ok (f k w)"
  using assms(1)
  by (cases rule: state_cases) (use assms(2,3) in \<open>auto simp: no_hooks_def copy_live_def
      intro: hello_union_ok auth_union_ok request_union_ok request_connecting_union_ok copy_union_ok\<close>)

lemma run_hook_union_ok:
  assumes "st \<le> ERROR"
  shows "layout_at st w \<Longrightarrow> union_ok (run_hook (on_departure (client_statbl ! st)) st k w)"
    "union_ok (run_hook (on_arrival (client_statbl ! st)) st k w)"
  using assms
  by (cases rule: state_cases; auto simp: run_hook_def no_hooks_def hello_read_close_def request_read_close_def
      hello_read_init_def auth_init_def request_init_def request_connecting_init_def copy_init_def Let_def
      intro!: union_intro)+


lemma hook_frame:
  assumes "d \<in> set client_statbl" "on_read_ready d = Some f \<or> on_write_ready d = Some f \<or> on_block_ready d = Some f"
    "f k w = Inr (n, w')"
  shows "get_stm w' = get_stm w"
  using assms s5.read_frame s5.write_frame s5.block_frame by blast

text \<open>The three events, whatever the hook they run.\<close>

lemma handler_union_ok:
  assumes "reach w" and ready: "ready \<in> {on_read_ready, on_write_ready, on_block_ready}"
  shows "union_ok (stm_handler ready get_stm put_stm client_statbl k w)"
proof -
  have holds: "conn_holds (\<lambda>w. bufs_ok (cw_conn w)) layout_at w" by (rule shape.reach_holds [OF assms(1)])
  then have ok: "machine_ok ERROR HELLO_READ (get_stm w)" by (simp add: conn_holds_def)
  have first: "union_ok (handle_first get_stm put_stm client_statbl k w)"
    using ok run_hook_union_ok(2) [OF s5.init_le]
    by (auto simp: handle_first_def Let_def s5.table_at [OF s5.init_le] machine_ok_def no_hooks_def
        split: option.split)
  have rest: "union_ok (case stm_current (get_stm w1) of None \<Rightarrow> Inl Null_deref
      | Some i \<Rightarrow> rbind (state_at client_statbl i) (\<lambda>d. case ready d of None \<Rightarrow> Inl Abort_call
        | Some f \<Rightarrow> rbind (f k w1) (\<lambda>(ret, w2).
            rbind (jump get_stm put_stm client_statbl ret k w2) (\<lambda>w3. Inr (ret, w3)))))"
    if w1: "handle_first get_stm put_stm client_statbl k w = Inr w1" for w1
  proof -
    obtain i where i: "i \<le> ERROR" and get1: "get_stm w1 = (get_stm w)\<lparr>stm_current := Some i\<rparr>"
      and at: "layout_at i w1"
      by (rule shape.holds_first [OF holds w1])
    have jump: "union_ok (jump get_stm put_stm client_statbl ret k w2)"
      if "layout_at i w2" "get_stm w2 = get_stm w1" for ret w2
      using i get1 ok statbl_ok that
      by (auto simp: jump_def leave_state_def s5.table_at machine_ok_def states_ok_def Let_def
          intro!: union_intro run_hook_union_ok)
    have step: "union_ok (f k w1) \<and> (\<forall>ret w2. f k w1 = Inr (ret, w2) \<longrightarrow> layout_at i w2 \<and> get_stm w2 = get_stm w1)"
      if "ready (client_statbl ! i) = Some f" for f
    proof -
      have f: "on_read_ready (client_statbl ! i) = Some f \<or> on_write_ready (client_statbl ! i) = Some f \<or>
          on_block_ready (client_statbl ! i) = Some f"
        using ready that by auto
      note tbl = s5.state_in_table [OF i]
      show ?thesis
        using hook_union_ok [OF i at f] layout_at_keeps [OF at hook_layout [OF tbl f]] hook_frame [OF tbl f] by blast
    qed
    then show ?thesis using i get1 by (auto simp: s5.table_at intro!: union_intro jump split: option.split)
  qed
  show ?thesis unfolding stm_handler_def by (rule union_ok_rbind [OF first rest])
qed

end
