(* ===== verification/Session.thy ===== *)
theory Session
  imports Unions
begin

text \<open>
  What a connection does when its peer keeps to the protocol: the functional behaviour of the
  handlers on complete messages, and the runs of events they compose to.
\<close>

section \<open>Receiving and sending on a connection\<close>

lemma buf_ok_empty: "buf_ok b \<Longrightarrow> buffer_bytes b = [] \<Longrightarrow> bread b = 0 \<and> bwrite b = 0"
  by (auto simp: buf_ok_def wf_buffer_def buffer_bytes_def)

lemma buf_ok_space: "buf_ok b \<Longrightarrow> buffer_bytes b = [] \<Longrightarrow> buffer_space b = RAW_BUFFER_SIZE"
  by (frule (1) buf_ok_empty) (simp add: buffer_space_def buf_ok_def)

lemma conn_recv_spec:
  fixes k :: ckey and w :: cworld and r :: bufref
  defines "B \<equiv> get_buf r (cw_conn w)"
  defines "xs \<equiv> recv_bytes (buffer_space B) (kr_recv (snd k))"
  assumes "buf_ok B"
  obtains b where
    "conn_recv k r w = Inr (recv_ret (buffer_space B) (kr_recv (snd k)),
       (if xs = [] then id else emit (Ev_recv (key_fd (fst k)) xs)) (upd_conn (set_buf r b) w))"
    "buf_ok b" "buffer_bytes b = buffer_bytes B @ xs"
proof -
  have wf: "wf_buffer B" using assms(3) by (simp add: buf_ok_def)
  obtain b1 b2 where b: "buffer_recv B (kr_recv (snd k)) = Inr (recv_ret (buffer_space B) (kr_recv (snd k)), b1)"
    "buffer_write_adv b1 (recv_ret (buffer_space B) (kr_recv (snd k))) = Inr b2"
    "buffer_bytes b1 = buffer_bytes B" "buffer_bytes b2 = buffer_bytes B @ xs"
    unfolding xs_def by (rule buffer_recv_ok [OF wf, of "kr_recv (snd k)"])
  have ok: "buf_ok b1" "buf_ok b2"
    using buffer_recv_buf_ok [OF b(1)] buffer_write_adv_buf_ok [OF b(2)] assms(3) by auto
  have pos: "recv_ret (buffer_space B) (kr_recv (snd k)) > 0 \<longleftrightarrow> xs \<noteq> []"
    unfolding xs_def by (cases "kr_recv (snd k)") auto
  show thesis
  proof (cases "xs = []")
    case True
    with pos b ok show thesis by (intro that [of b1]) (simp_all add: conn_recv_def flip: B_def)
  next
    case False
    have "length xs \<le> buffer_space B" unfolding xs_def by (cases "kr_recv (snd k)") auto
    moreover have "nat (recv_ret (buffer_space B) (kr_recv (snd k))) = length xs"
      using False unfolding xs_def by (cases "kr_recv (snd k)") auto
    moreover have "recv_bytes (length (bdata B) - bwrite B) (kr_recv (snd k)) = xs"
      using wf by (simp add: xs_def buffer_space_def wf_buffer_def)
    ultimately have "take (nat (recv_ret (buffer_space B) (kr_recv (snd k)))) (drop (bwrite b1) (bdata b1)) = xs"
      using b(1) wf
      by (auto simp: buffer_recv_def buffer_write_ptr_def buffer_poke_def wf_buffer_def buffer_space_def
          overwrite_def split: if_splits)
    with False pos b ok show thesis by (intro that [of b2]) (simp_all add: conn_recv_def flip: B_def)
  qed
qed

lemma conn_send_spec:
  fixes k :: ckey and w :: cworld and r :: bufref
  defines "B \<equiv> get_buf r (cw_conn w)"
  defines "n \<equiv> send_ret (length (buffer_bytes B)) (kr_send (snd k))"
  assumes "buf_ok B"
  obtains b where
    "conn_send k r w = Inr (n, take (nat n) (buffer_bytes B),
       if n = -1 then w else emit (Ev_send (key_fd (fst k)) (take (nat n) (buffer_bytes B))) w)"
    "buffer_read_adv B n = Inr b" "buf_ok b" "buffer_bytes b = drop (nat n) (buffer_bytes B)"
proof -
  have wf: "wf_buffer B" using assms(3) by (simp add: buf_ok_def)
  obtain n' out b1 where b: "buffer_send B (kr_send (snd k)) = Inr (n', out)" "buffer_read_adv B n' = Inr b1"
    "buffer_bytes B = out @ buffer_bytes b1" "n' = n" "out = take (nat n') (buffer_bytes B)"
    unfolding n_def by (rule buffer_send_ok [OF wf, of "kr_send (snd k)"])
  have "buffer_bytes b1 = drop (nat n) (buffer_bytes B)"
  proof -
    have "take (nat n) (buffer_bytes B) @ buffer_bytes b1 = take (nat n) (buffer_bytes B) @ drop (nat n) (buffer_bytes B)"
      using b(3) [symmetric] b(4,5) by simp
    then show ?thesis by (simp only: same_append_eq)
  qed
  with b(1,2,4,5) buffer_read_adv_buf_ok [OF b(2) assms(3)] show thesis
    by (intro that [of b1]) (simp_all add: conn_send_def flip: B_def)
qed

lemma set_interest_key_ok:
  assumes "sel_inv (cw_sel w)" "interest_of (cw_sel w) (key_fd (fst k)) = Some i0"
  obtains s where "set_interest_key k i w = Inr (SELECTOR_SUCCESS, w\<lparr>cw_sel := s\<rparr>)" "sel_inv s"
    "interest_of s = (interest_of (cw_sel w))(key_fd (fst k) \<mapsto> i)" "handler_of s = handler_of (cw_sel w)"
    "data_of s = data_of (cw_sel w)" "fd_size s = fd_size (cw_sel w)"
proof -
  have "\<not> INVALID_FD (key_fd (fst k))"
    using interest_of_range [OF assms] by (auto simp: INVALID_FD_def ITEMS_MAX_SIZE_def)
  then show thesis
    using selector_set_interest_ok [OF assms, of i] that
    by (auto simp: set_interest_key_def selector_set_interest_key_def)
qed


section \<open>One event\<close>

text \<open>An event that takes the machine from the state \<open>i\<close> to another state \<open>n\<close> that is not final, the
  hooks of both included.\<close>

lemma st_le [simp]:
  "HELLO_READ \<le> ERROR" "HELLO_WRITE \<le> ERROR" "AUTH_READ \<le> ERROR" "AUTH_WRITE \<le> ERROR" "REQUEST_READ \<le> ERROR"
  "REQUEST_RESOLV \<le> ERROR" "REQUEST_CONNECTING \<le> ERROR" "REQUEST_WRITE \<le> ERROR" "COPY \<le> ERROR" "DONE \<le> ERROR"
  by (simp_all add: st_defs)

lemma stm_step:
  assumes "get_stm w = \<lparr>stm_initial = HELLO_READ, stm_max_state = ERROR, stm_current = Some i\<rparr>"
    "i \<le> ERROR" "ready (client_statbl ! i) = Some f" "f k w = Inr (n, w2)" "get_stm w2 = get_stm w"
    "n \<le> ERROR" "n \<noteq> i" "run_hook (on_departure (client_statbl ! i)) i k w2 = Inr w3"
    "run_hook (on_arrival (client_statbl ! n)) n k
       (put_stm \<lparr>stm_initial = HELLO_READ, stm_max_state = ERROR, stm_current = Some n\<rparr> w3) = Inr w4"
  shows "stm_handler ready get_stm put_stm client_statbl k w = Inr (n, w4) \<and>
    get_stm w4 = \<lparr>stm_initial = HELLO_READ, stm_max_state = ERROR, stm_current = Some n\<rparr>"
proof -
  have "get_stm w3 = get_stm w" using s5.run_departure_frame [OF assms(2,8)] assms(5) by simp
  moreover have "get_stm w4 = \<lparr>stm_initial = HELLO_READ, stm_max_state = ERROR, stm_current = Some n\<rparr>"
    using s5.run_arrival_frame [OF assms(6,9)] by (simp add: s5.get_put)
  ultimately show ?thesis
    using assms statbl_ok
    by (simp add: stm_handler_def handle_first_def s5.table_at jump_def leave_state_def states_ok_def Let_def)
qed

lemma finish_alive [simp]: "n \<noteq> ERROR \<Longrightarrow> n \<noteq> DONE \<Longrightarrow> socksv5_finish k (n, w) = Inr w"
  by (simp add: socksv5_finish_def)


section \<open>Complete messages\<close>

text \<open>A connection between two events: its client is watched for \<open>i\<close>, its buffers hold \<open>rd\<close> and
  \<open>wr\<close>.\<close>

definition conn_idle :: "fd \<Rightarrow> fd_interest \<Rightarrow> byte list \<Rightarrow> byte list \<Rightarrow> cworld \<Rightarrow> bool" where
  "conn_idle f i rd wr w \<longleftrightarrow>
     sel_inv (cw_sel w) \<and> interest_of (cw_sel w) f = Some i \<and> handler_of (cw_sel w) f = Some H_socks5 \<and>
     client_fd (cw_conn w) = f \<and> bufs_ok (cw_conn w) \<and>
     buffer_bytes (read_buffer (cw_conn w)) = rd \<and> buffer_bytes (write_buffer (cw_conn w)) = wr"

text \<open>The resources of a connection and the globals, which the handshake leaves alone.\<close>

definition same_res :: "cworld \<Rightarrow> cworld \<Rightarrow> bool" where
  "same_res w w' \<longleftrightarrow> cw_glob w' = cw_glob w \<and> cw_life w' = cw_life w \<and>
     origin_fd (cw_conn w') = origin_fd (cw_conn w) \<and> references (cw_conn w') = references (cw_conn w)"

lemma recv_message:
  assumes "conn_idle f i [] wr w" "kr_recv (snd k) = Recv_data xs" "xs \<noteq> []" "length xs \<le> RAW_BUFFER_SIZE"
    "key_fd (fst k) = f"
  obtains b where "conn_recv k Read_buffer w =
      Inr (int (length xs), emit (Ev_recv f xs) (upd_conn (\<lambda>c. c\<lparr>read_buffer := b\<rparr>) w))"
    "buf_ok b" "buffer_bytes b = xs"
proof -
  have ok: "buf_ok (get_buf Read_buffer (cw_conn w))" and e: "buffer_bytes (get_buf Read_buffer (cw_conn w)) = []"
    using assms(1) by (simp_all add: conn_idle_def bufs_ok_def)
  have sp: "buffer_space (get_buf Read_buffer (cw_conn w)) = RAW_BUFFER_SIZE" using ok e by (rule buf_ok_space)
  have xs: "recv_bytes RAW_BUFFER_SIZE (kr_recv (snd k)) = xs" "recv_ret RAW_BUFFER_SIZE (kr_recv (snd k)) = int (length xs)"
    using assms(2,4) by simp_all
  obtain b where "conn_recv k Read_buffer w =
      Inr (int (length xs), emit (Ev_recv (key_fd (fst k)) xs) (upd_conn (set_buf Read_buffer b) w))"
    "buf_ok b" "buffer_bytes b = xs"
    by (rule conn_recv_spec [where k = k, OF ok]) (use assms(3) e sp xs in simp)
  with that assms(5) show thesis by simp
qed

lemma hello_read_message:
  assumes idle: "conn_idle f i [] [] w" and d: "so_client (cw_conn w) = C_hello d" "hs_rb d = Read_buffer"
      "hs_wb d = Write_buffer" "hp_state (hs_parser d) = hello_version"
    and k: "key_fd (fst k) = f" "kr_recv (snd k) = Recv_data (hello_message ms)" and ms: "length ms < 256"
  defines "m \<equiv> select_methods (Some (on_hello_method (is_auth_on (cw_glob w)))) ms (hp_data (hs_parser d))"
  obtains w' d' where "hello_read k w = Inr (HELLO_WRITE, w')" "conn_idle f OP_WRITE [] [0x05, m] w'"
    "so_client (cw_conn w') = C_hello d'" "hs_wb d' = Write_buffer"
    "cw_out w' = cw_out w @ [Ev_recv f (hello_message ms)]" "same_res w w'"
proof -
  have len: "hello_message ms \<noteq> []" "length (hello_message ms) \<le> RAW_BUFFER_SIZE"
    using ms by (simp_all add: hello_message_def RAW_BUFFER_SIZE_def)
  obtain b where b: "conn_recv k Read_buffer w = Inr (int (length (hello_message ms)),
      emit (Ev_recv f (hello_message ms)) (upd_conn (\<lambda>c. c\<lparr>read_buffer := b\<rparr>) w))"
    "buf_ok b" "buffer_bytes b = hello_message ms"
    by (rule recv_message [OF idle k(2) len k(1)])
  let ?cb = "Some (on_hello_method (is_auth_on (cw_glob w)))"
  obtain b' p' where c: "hello_consume ?cb b (hs_parser d) (Some False) = Inr (hello_done, b', p', Some False)"
    and p': "hp_data p' = m" and b': "buffer_bytes b' = []"
  proof -
    have "wf_buffer b" using b(2) by (simp add: buf_ok_def)
    moreover have "parse_list (hello_parser_feed ?cb) hello_fin (hs_parser d) (Some False) (buffer_bytes b) =
        Inr ([], (hs_parser d)\<lparr>hp_data := m, hp_state := hello_done, hp_remaining := 0\<rparr>, Some False)"
      using hello_feed_message [OF ms d(4), of ?cb "Some False" "[]"] b(3) by (simp add: m_def)
    ultimately obtain b' where "parse_loop (hello_parser_feed ?cb) hello_fin b (hs_parser d) (Some False) =
        Inr (b', (hs_parser d)\<lparr>hp_data := m, hp_state := hello_done, hp_remaining := 0\<rparr>, Some False)"
      "buffer_bytes b' = []"
      by (rule parse_loop_InrI)
    from this show thesis by (intro that [of b' "(hs_parser d)\<lparr>hp_data := m, hp_state := hello_done, hp_remaining := 0\<rparr>"])
        (simp_all add: hello_consume_def)
  qed
  have okb': "buf_ok b'" using consume_buf_ok(1) [OF c b(2)] .
  define w2 where "w2 = upd_conn (\<lambda>c. c\<lparr>read_buffer := b', so_client := C_hello (d\<lparr>hs_parser := p'\<rparr>)\<rparr>)
    (emit (Ev_recv f (hello_message ms)) w)"
  obtain s where s: "set_interest_key k OP_WRITE w2 = Inr (SELECTOR_SUCCESS, w2\<lparr>cw_sel := s\<rparr>)" "sel_inv s"
    "interest_of s = (interest_of (cw_sel w2))(key_fd (fst k) \<mapsto> OP_WRITE)" "handler_of s = handler_of (cw_sel w2)"
    by (rule set_interest_key_ok [of w2 k i OP_WRITE]) (use idle k in \<open>simp_all add: conn_idle_def w2_def\<close>)
  have wb: "buf_ok (write_buffer (cw_conn w))" "buffer_bytes (write_buffer (cw_conn w)) = []"
    using idle by (simp_all add: conn_idle_def bufs_ok_def)
  obtain b2 where m: "hello_marshall (write_buffer (cw_conn w)) m = Inr (2, b2)" "buffer_bytes b2 = [0x05, m]"
    using hello_marshall_ok [of "write_buffer (cw_conn w)" m] wb buf_ok_space [OF wb]
    by (auto simp: buf_ok_def RAW_BUFFER_SIZE_def)
  define w' where "w' = upd_conn (\<lambda>c. c\<lparr>write_buffer := b2\<rparr>) (w2\<lparr>cw_sel := s\<rparr>)"
  have "hello_read k w = Inr (HELLO_WRITE, w')"
    using d b(1) c s(1) m(1) len(1) p'
    by (simp add: hello_read_def get_hello_def Let_def hello_process_def w'_def w2_def emit_def)
  moreover have "conn_idle f OP_WRITE [] [0x05, m] w'"
    using idle k s okb' b' m(2) marshall_buf_ok(1) [OF m(1) wb(1)]
    by (simp add: conn_idle_def w'_def w2_def bufs_ok_def)
  ultimately show thesis using that [of w' "d\<lparr>hs_parser := p'\<rparr>"] d by (simp add: w'_def w2_def same_res_def)
qed


lemma send_all:
  assumes "conn_idle f i rd wr w" "kr_send (snd k) = Send_ok n" "length wr \<le> n" "key_fd (fst k) = f"
  obtains b where "conn_send k Write_buffer w = Inr (int (length wr), wr, emit (Ev_send f wr) w)"
    "buffer_read_adv (write_buffer (cw_conn w)) (int (length wr)) = Inr b" "buf_ok b" "buffer_bytes b = []"
    "\<not> buffer_can_read b"
proof -
  have ok: "buf_ok (get_buf Write_buffer (cw_conn w))" and e: "buffer_bytes (get_buf Write_buffer (cw_conn w)) = wr"
    using assms(1) by (simp_all add: conn_idle_def bufs_ok_def)
  have n: "send_ret (length wr) (kr_send (snd k)) = int (length wr)" using assms(2,3) by simp
  obtain b where b: "conn_send k Write_buffer w = Inr (int (length wr), wr, emit (Ev_send f wr) w)"
    "buffer_read_adv (write_buffer (cw_conn w)) (int (length wr)) = Inr b" "buf_ok b" "buffer_bytes b = []"
    by (rule conn_send_spec [where k = k, OF ok]) (use e n assms(4) in simp)
  moreover have "\<not> buffer_can_read b" using b(3,4) by (simp add: buffer_can_read_iff buf_ok_def)
  ultimately show thesis using that by blast
qed

lemma hello_write_drain:
  assumes idle: "conn_idle f i rd wr w" and d: "so_client (cw_conn w) = C_hello d" "hs_wb d = Write_buffer"
    and k: "key_fd (fst k) = f" "kr_send (snd k) = Send_ok n" "length wr \<le> n"
  obtains w' where
    "hello_write k w = Inr (if is_auth_on (cw_glob w) then AUTH_READ else REQUEST_READ, w')"
    "conn_idle f OP_READ rd [] w'" "cw_out w' = cw_out w @ [Ev_send f wr]" "same_res w w'"
proof -
  obtain b where b: "conn_send k Write_buffer w = Inr (int (length wr), wr, emit (Ev_send f wr) w)"
    "buffer_read_adv (write_buffer (cw_conn w)) (int (length wr)) = Inr b" "buf_ok b" "buffer_bytes b = []"
    "\<not> buffer_can_read b"
    by (rule send_all [OF idle k(2,3,1)])
  define w2 where "w2 = upd_conn (\<lambda>c. c\<lparr>write_buffer := b\<rparr>) (emit (Ev_send f wr) w)"
  obtain s where s: "set_interest_key k OP_READ w2 = Inr (SELECTOR_SUCCESS, w2\<lparr>cw_sel := s\<rparr>)" "sel_inv s"
    "interest_of s = (interest_of (cw_sel w2))(key_fd (fst k) \<mapsto> OP_READ)" "handler_of s = handler_of (cw_sel w2)"
    by (rule set_interest_key_ok [of w2 k i OP_READ]) (use idle k in \<open>simp_all add: conn_idle_def w2_def\<close>)
  have "hello_write k w = Inr (if is_auth_on (cw_glob w) then AUTH_READ else REQUEST_READ, w2\<lparr>cw_sel := s\<rparr>)"
    using d b s(1) by (simp add: hello_write_def get_hello_def Let_def w2_def emit_def)
  moreover have "conn_idle f OP_READ rd [] (w2\<lparr>cw_sel := s\<rparr>)"
    using idle k s b by (simp add: conn_idle_def w2_def bufs_ok_def)
  ultimately show thesis using that by (simp add: w2_def same_res_def)
qed

lemma auth_read_message:
  assumes idle: "conn_idle f i [] [] w" and d: "so_client (cw_conn w) = C_auth d" "as_rb d = Read_buffer"
      "as_wb d = Write_buffer" "as_parser d = auth_parser_init p"
    and k: "key_fd (fst k) = f" "kr_recv (snd k) = Recv_data (auth_message u pw)"
    and cred: "u \<noteq> []" "length u \<le> 255" "pw \<noteq> []" "length pw \<le> 255"
  defines "found \<equiv> authenticate (g_users (cw_glob w)) (strncpy_bytes 0xff u) (strncpy_bytes 0xff pw)"
  defines "st \<equiv> if found \<noteq> None then auth_status_succeeded else auth_status_failure"
  obtains w' d' where "auth_read k w = Inr (AUTH_WRITE, w')"
    "conn_idle f OP_WRITE [] [0x01, auth_status_byte st] w'"
    "so_client (cw_conn w') = C_auth d'" "as_wb d' = Write_buffer" "as_status d' = st"
    "client_uname (cw_conn w') = (if found = None then client_uname (cw_conn w) else found)"
    "cw_out w' = cw_out w @ [Ev_recv f (auth_message u pw)]" "same_res w w'"
proof -
  have len: "auth_message u pw \<noteq> []" "length (auth_message u pw) \<le> RAW_BUFFER_SIZE"
    using cred by (simp_all add: auth_message_def RAW_BUFFER_SIZE_def)
  obtain b where b: "conn_recv k Read_buffer w = Inr (int (length (auth_message u pw)),
      emit (Ev_recv f (auth_message u pw)) (upd_conn (\<lambda>c. c\<lparr>read_buffer := b\<rparr>) w))"
    "buf_ok b" "buffer_bytes b = auth_message u pw"
    by (rule recv_message [OF idle k(2) len k(1)])
  obtain p' where run: "parse_list auth_parser_feed auth_fin (as_parser d) (Some False) (buffer_bytes b) =
      Inr ([], p', Some False)" and p': "ap_state p' = auth_done" "a_uname (ap_auth p') = strncpy_bytes 0xff u"
    "a_passwd (ap_auth p') = strncpy_bytes 0xff pw"
    using auth_feed_message [OF cred, of p "Some False" "[]"] b(3) d(4) by auto
  have "wf_buffer b" using b(2) by (simp add: buf_ok_def)
  then obtain b' where pl: "parse_loop auth_parser_feed auth_fin b (as_parser d) (Some False) = Inr (b', p', Some False)"
    and b': "buffer_bytes b' = []"
    using run by (rule parse_loop_InrI)
  have okb': "buf_ok b'" using parse_loop_buf_ok [OF pl b(2)] .
  define w2 where "w2 = upd_conn (\<lambda>c. c\<lparr>read_buffer := b', so_client := C_auth (d\<lparr>as_parser := p'\<rparr>)\<rparr>)
    (emit (Ev_recv f (auth_message u pw)) w)"
  obtain s where s: "set_interest_key k OP_WRITE w2 = Inr (SELECTOR_SUCCESS, w2\<lparr>cw_sel := s\<rparr>)" "sel_inv s"
    "interest_of s = (interest_of (cw_sel w2))(key_fd (fst k) \<mapsto> OP_WRITE)" "handler_of s = handler_of (cw_sel w2)"
    by (rule set_interest_key_ok [of w2 k i OP_WRITE]) (use idle k in \<open>simp_all add: conn_idle_def w2_def\<close>)
  have wb: "buf_ok (write_buffer (cw_conn w))" "buffer_bytes (write_buffer (cw_conn w)) = []"
    using idle by (simp_all add: conn_idle_def bufs_ok_def)
  obtain b2 where m: "auth_marshall (write_buffer (cw_conn w)) st = Inr (2, b2)"
    "buffer_bytes b2 = [0x01, auth_status_byte st]"
    using auth_marshall_ok [of "write_buffer (cw_conn w)" st] wb buf_ok_space [OF wb]
    by (auto simp: buf_ok_def RAW_BUFFER_SIZE_def)
  define w' where "w' = upd_conn (\<lambda>c. c\<lparr>write_buffer := b2, client_uname := (if found = None then client_uname c else found),
    so_client := C_auth (d\<lparr>as_parser := p', as_status := st\<rparr>)\<rparr>) (w2\<lparr>cw_sel := s\<rparr>)"
  have "auth_process k (w2\<lparr>cw_sel := s\<rparr>) = Inr (AUTH_WRITE, w')"
    using d m(1) p'
    by (cases found) (auto simp: auth_process_def get_auth_def Let_def w'_def w2_def st_def found_def emit_def)
  then have "auth_read k w = Inr (AUTH_WRITE, w')"
    using d b(1) pl p'(1) s(1) len(1)
    by (simp add: auth_read_def get_auth_def auth_consume_def auth_is_done_def Let_def w2_def emit_def)
  moreover have "conn_idle f OP_WRITE [] [0x01, auth_status_byte st] w'"
    using idle k s okb' b' m(2) marshall_buf_ok(2) [OF m(1) wb(1)]
    by (simp add: conn_idle_def w'_def w2_def bufs_ok_def)
  ultimately show thesis using that [of w' "d\<lparr>as_parser := p', as_status := st\<rparr>"] d by (simp add: w'_def w2_def same_res_def)
qed

lemma auth_write_drain:
  assumes idle: "conn_idle f i rd wr w" and d: "so_client (cw_conn w) = C_auth d" "as_wb d = Write_buffer"
    and k: "key_fd (fst k) = f" "kr_send (snd k) = Send_ok n" "length wr \<le> n"
  defines "ok \<equiv> as_status d = auth_status_succeeded"
  obtains w' where "auth_write k w = Inr (if ok then REQUEST_READ else ERROR, w')"
    "conn_idle f (if ok then OP_READ else OP_NOOP) rd [] w'" "cw_out w' = cw_out w @ [Ev_send f wr]"
    "client_uname (cw_conn w') = client_uname (cw_conn w)" "same_res w w'"
proof -
  obtain b where b: "conn_send k Write_buffer w = Inr (int (length wr), wr, emit (Ev_send f wr) w)"
    "buffer_read_adv (write_buffer (cw_conn w)) (int (length wr)) = Inr b" "buf_ok b" "buffer_bytes b = []"
    "\<not> buffer_can_read b"
    by (rule send_all [OF idle k(2,3,1)])
  define w2 where "w2 = upd_conn (\<lambda>c. c\<lparr>write_buffer := b\<rparr>) (emit (Ev_send f wr) w)"
  let ?i = "if ok then OP_READ else OP_NOOP"
  obtain s where s: "set_interest_key k ?i w2 = Inr (SELECTOR_SUCCESS, w2\<lparr>cw_sel := s\<rparr>)" "sel_inv s"
    "interest_of s = (interest_of (cw_sel w2))(key_fd (fst k) \<mapsto> ?i)" "handler_of s = handler_of (cw_sel w2)"
    by (rule set_interest_key_ok [of w2 k i ?i]) (use idle k in \<open>simp_all add: conn_idle_def w2_def\<close>)
  have "auth_write k w = Inr (if ok then REQUEST_READ else ERROR, w2\<lparr>cw_sel := s\<rparr>)"
    using d b s(1) by (auto simp: auth_write_def get_auth_def Let_def w2_def emit_def ok_def)
  moreover have "conn_idle f ?i rd [] (w2\<lparr>cw_sel := s\<rparr>)"
    using idle k s b by (simp add: conn_idle_def w2_def bufs_ok_def)
  ultimately show thesis using that by (simp add: w2_def same_res_def)
qed


section \<open>The handshake\<close>

abbreviation machine_at :: "nat \<Rightarrow> state_machine" where
  "machine_at st \<equiv> \<lparr>stm_initial = HELLO_READ, stm_max_state = ERROR, stm_current = Some st\<rparr>"

text \<open>A connection whose client has just been accepted and registered.\<close>

definition fresh_conn :: "fd \<Rightarrow> cworld \<Rightarrow> bool" where
  "fresh_conn f w \<longleftrightarrow> conn_idle f OP_READ [] [] w \<and> cw_life w = Alive \<and>
     get_stm w = \<lparr>stm_initial = HELLO_READ, stm_max_state = ERROR, stm_current = None\<rparr> \<and>
     client_uname (cw_conn w) = None \<and> origin_fd (cw_conn w) = -1 \<and> references (cw_conn w) = 1"

lemma stm_handler_first:
  assumes "handle_first get_stm put_stm client_statbl k w = Inr w1" "stm_current (get_stm w1) = Some i"
  shows "stm_handler ready get_stm put_stm client_statbl k w = stm_handler ready get_stm put_stm client_statbl k w1"
  using assms by (simp add: stm_handler_def handle_first_def)

lemma same_res_trans [trans]: "same_res w w' \<Longrightarrow> same_res w' w'' \<Longrightarrow> same_res w w''"
  by (simp add: same_res_def)

lemma idle_put_stm [simp]: "conn_idle f i rd wr (put_stm m w) = conn_idle f i rd wr w"
  by (simp add: conn_idle_def put_stm_def)

lemma same_res_put [simp]: "same_res w (put_stm m w') = same_res w w'" "same_res (put_stm m w) w' = same_res w w'"
  by (simp_all add: same_res_def put_stm_def)

lemma event_hello:
  assumes w: "fresh_conn f w" "rg_count (g_users (cw_glob w)) \<noteq> 0"
    and k: "key_fd (fst k) = f" "kr_recv (snd k) = Recv_data (hello_message ms)" and ms: "length ms < 256"
  defines "m \<equiv> select_methods (Some (on_hello_method (is_auth_on (cw_glob w)))) ms SOCKS_HELLO_NO_ACCEPTABLE_METHODS"
  obtains w' d where "socksv5_read k w = Inr w'" "get_stm w' = machine_at HELLO_WRITE"
    "conn_idle f OP_WRITE [] [0x05, m] w'" "so_client (cw_conn w') = C_hello d" "hs_wb d = Write_buffer"
    "cw_out w' = cw_out w @ [Ev_recv f (hello_message ms)]" "same_res w w'" "client_uname (cw_conn w') = None"
proof -
  define d where "d = \<lparr>hs_rb = Read_buffer, hs_wb = Write_buffer, hs_parser = hello_parser_init
      \<lparr>hp_data = SOCKS_HELLO_NO_ACCEPTABLE_METHODS, hp_state = hello_version, hp_remaining = 0\<rparr>\<rparr>"
  define w1 where "w1 = upd_conn (\<lambda>c. c\<lparr>so_client := C_hello d\<rparr>) (put_stm (machine_at HELLO_READ) w)"
  have first: "handle_first get_stm put_stm client_statbl k w = Inr w1"
    using w by (simp add: handle_first_def fresh_conn_def s5.table_at [OF s5.init_le] run_hook_def no_hooks_def
        hello_read_init_def w1_def d_def Let_def put_stm_def)
  have stm1: "get_stm w1 = machine_at HELLO_READ" by (simp add: w1_def get_stm_def put_stm_def)
  have idle1: "conn_idle f OP_READ [] [] w1" and glob1: "cw_glob w1 = cw_glob w"
    and cl: "so_client (cw_conn w1) = C_hello d"
    using w(1) by (simp_all add: w1_def fresh_conn_def conn_idle_def put_stm_def)
  have d: "hs_rb d = Read_buffer" "hs_wb d = Write_buffer" "hp_state (hs_parser d) = hello_version"
    "hp_data (hs_parser d) = SOCKS_HELLO_NO_ACCEPTABLE_METHODS"
    by (simp_all add: d_def hello_parser_init_def)
  obtain w2 d' where h: "hello_read k w1 = Inr (HELLO_WRITE, w2)" "conn_idle f OP_WRITE [] [0x05, m] w2"
    "so_client (cw_conn w2) = C_hello d'" "hs_wb d' = Write_buffer"
    "cw_out w2 = cw_out w1 @ [Ev_recv f (hello_message ms)]" "same_res w1 w2"
    by (rule hello_read_message [OF idle1 cl d(1-3) k ms]) (simp add: glob1 d(4) flip: m_def)
  have kp: "keeps w1 w2" using h(1) by (rule hello_read_keeps)
  define w3 where "w3 = upd_conn (\<lambda>c. c\<lparr>so_client := C_hello (d'\<lparr>hs_parser := hello_parser_close (hs_parser d')\<rparr>)\<rparr>) w2"
  define w4 where "w4 = put_stm (machine_at HELLO_WRITE) w3"
  have run: "stm_handler on_read_ready get_stm put_stm client_statbl k w1 = Inr (HELLO_WRITE, w4) \<and>
      get_stm w4 = machine_at HELLO_WRITE"
    by (rule stm_step [OF stm1, where f = hello_read and ?w2.0 = w2 and ?w3.0 = w3])
      (use h kp stm1 in \<open>simp_all add: no_hooks_def run_hook_def hello_read_close_def get_hello_def w3_def w4_def
        get_stm_def put_stm_def keeps_def\<close>)
  show thesis
  proof (rule that [of w4 "d'\<lparr>hs_parser := hello_parser_close (hs_parser d')\<rparr>"])
    show "socksv5_read k w = Inr w4"
      using run stm_handler_first [OF first, of HELLO_READ on_read_ready] stm1
      by (simp add: socksv5_read_def stm_handler_read_def)
    show "same_res w w4" using h(6) by (simp add: same_res_def w4_def w3_def w1_def put_stm_def)
    show "client_uname (cw_conn w4) = None"
      using kp w by (simp add: keeps_def w4_def w3_def w1_def put_stm_def fresh_conn_def)
  qed (use run h in \<open>simp_all add: w4_def w3_def w1_def put_stm_def conn_idle_def\<close>)
qed


lemma event_hello_reply:
  assumes stm: "get_stm w = machine_at HELLO_WRITE" and on: "is_auth_on (cw_glob w)"
    and idle: "conn_idle f i rd wr w" and d: "so_client (cw_conn w) = C_hello d" "hs_wb d = Write_buffer"
    and k: "key_fd (fst k) = f" "kr_send (snd k) = Send_ok n" "length wr \<le> n"
  obtains w' d' p where "socksv5_write k w = Inr w'" "get_stm w' = machine_at AUTH_READ"
    "conn_idle f OP_READ rd [] w'" "so_client (cw_conn w') = C_auth d'" "as_rb d' = Read_buffer"
    "as_wb d' = Write_buffer" "as_parser d' = auth_parser_init p"
    "cw_out w' = cw_out w @ [Ev_send f wr]" "same_res w w'" "client_uname (cw_conn w') = client_uname (cw_conn w)"
proof -
  obtain w2 where h: "hello_write k w = Inr (AUTH_READ, w2)" "conn_idle f OP_READ rd [] w2"
    "cw_out w2 = cw_out w @ [Ev_send f wr]" "same_res w w2"
    by (rule hello_write_drain [OF idle d k]) (use on in simp)
  have kp: "keeps w w2" using h(1) by (rule hello_write_keeps)
  define p where "p = \<lparr>ap_auth = \<lparr>a_uname = [], a_passwd = []\<rparr>, ap_state = auth_version, ap_len = 0, ap_i = 0\<rparr>"
  define d' where "d' = \<lparr>as_rb = Read_buffer, as_wb = Write_buffer, as_parser = auth_parser_init p,
    as_status = auth_status_failure\<rparr>"
  define w4 where "w4 = upd_conn (\<lambda>c. c\<lparr>so_client := C_auth d'\<rparr>) (put_stm (machine_at AUTH_READ) w2)"
  have run: "stm_handler on_write_ready get_stm put_stm client_statbl k w = Inr (AUTH_READ, w4) \<and>
      get_stm w4 = machine_at AUTH_READ"
    by (rule stm_step [OF stm, where f = hello_write and ?w2.0 = w2 and ?w3.0 = w2])
      (use h keeps_stm [OF kp] in \<open>simp_all add: no_hooks_def run_hook_def auth_init_def w4_def d'_def p_def Let_def\<close>)
  show thesis
    by (rule that [of w4 d' p])
      (use run h kp in \<open>simp_all add: socksv5_write_def stm_handler_write_def w4_def d'_def put_stm_def conn_idle_def
        same_res_def keeps_def\<close>)
qed

lemma event_auth:
  assumes stm: "get_stm w = machine_at AUTH_READ" and idle: "conn_idle f i [] [] w"
    and d: "so_client (cw_conn w) = C_auth d" "as_rb d = Read_buffer" "as_wb d = Write_buffer"
      "as_parser d = auth_parser_init p"
    and k: "key_fd (fst k) = f" "kr_recv (snd k) = Recv_data (auth_message u pw)"
    and cred: "u \<noteq> []" "length u \<le> 255" "pw \<noteq> []" "length pw \<le> 255"
  defines "found \<equiv> authenticate (g_users (cw_glob w)) (strncpy_bytes 0xff u) (strncpy_bytes 0xff pw)"
  defines "st \<equiv> if found \<noteq> None then auth_status_succeeded else auth_status_failure"
  obtains w' d' where "socksv5_read k w = Inr w'" "get_stm w' = machine_at AUTH_WRITE"
    "conn_idle f OP_WRITE [] [0x01, auth_status_byte st] w'"
    "so_client (cw_conn w') = C_auth d'" "as_wb d' = Write_buffer" "as_status d' = st"
    "client_uname (cw_conn w') = (if found = None then client_uname (cw_conn w) else found)"
    "cw_out w' = cw_out w @ [Ev_recv f (auth_message u pw)]" "same_res w w'"
proof -
  obtain w2 d' where h: "auth_read k w = Inr (AUTH_WRITE, w2)"
    "conn_idle f OP_WRITE [] [0x01, auth_status_byte st] w2"
    "so_client (cw_conn w2) = C_auth d'" "as_wb d' = Write_buffer" "as_status d' = st"
    "client_uname (cw_conn w2) = (if found = None then client_uname (cw_conn w) else found)"
    "cw_out w2 = cw_out w @ [Ev_recv f (auth_message u pw)]" "same_res w w2"
    unfolding st_def found_def by (rule auth_read_message [OF idle d k cred])
  have run: "stm_handler on_read_ready get_stm put_stm client_statbl k w =
        Inr (AUTH_WRITE, put_stm (machine_at AUTH_WRITE) w2) \<and>
      get_stm (put_stm (machine_at AUTH_WRITE) w2) = machine_at AUTH_WRITE"
    by (rule stm_step [OF stm, where f = auth_read and ?w2.0 = w2 and ?w3.0 = w2])
      (use h auth_read_stm [OF h(1)] in \<open>simp_all add: no_hooks_def run_hook_def\<close>)
  show thesis
    by (rule that [of "put_stm (machine_at AUTH_WRITE) w2" d'])
      (use run h in \<open>simp_all add: socksv5_read_def stm_handler_read_def put_stm_def conn_idle_def same_res_def\<close>)
qed

definition fresh_request :: request_st where
  "fresh_request = \<lparr>rs_rb = Read_buffer, rs_wb = Write_buffer, rs_parser = request_parser_init request_parser_blank,
     rs_status = status_general_SOCKS_server_failure\<rparr>"

lemma event_auth_accepted:
  assumes stm: "get_stm w = machine_at AUTH_WRITE" and idle: "conn_idle f i rd wr w"
    and d: "so_client (cw_conn w) = C_auth d" "as_wb d = Write_buffer" "as_status d = auth_status_succeeded"
    and k: "key_fd (fst k) = f" "kr_send (snd k) = Send_ok n" "length wr \<le> n"
  obtains w' where "socksv5_write k w = Inr w'" "get_stm w' = machine_at REQUEST_READ"
    "conn_idle f OP_READ rd [] w'" "cw_out w' = cw_out w @ [Ev_send f wr]" "same_res w w'"
    "client_uname (cw_conn w') = client_uname (cw_conn w)" "so_client (cw_conn w') = C_request fresh_request"
proof -
  obtain w2 where h: "auth_write k w = Inr (REQUEST_READ, w2)" "conn_idle f OP_READ rd [] w2"
    "cw_out w2 = cw_out w @ [Ev_send f wr]" "client_uname (cw_conn w2) = client_uname (cw_conn w)" "same_res w w2"
    by (rule auth_write_drain [OF idle d(1,2) k]) (use d(3) in simp)
  define w3 where "w3 = put_stm (machine_at REQUEST_READ) w2"
  define w4 where "w4 = upd_conn (\<lambda>c. c\<lparr>so_client := C_request fresh_request\<rparr>) w3"
  have w4: "request_init REQUEST_READ k w3 = Inr w4"
    by (simp add: request_init_def fresh_request_def w4_def)
  have conn4: "cw_conn w4 = (cw_conn w3)\<lparr>so_client := C_request fresh_request\<rparr>"
    and rest4: "cw_sel w4 = cw_sel w3" "cw_glob w4 = cw_glob w3" "cw_life w4 = cw_life w3" "cw_out w4 = cw_out w3"
    by (simp_all add: w4_def)
  have run: "stm_handler on_write_ready get_stm put_stm client_statbl k w = Inr (REQUEST_READ, w4) \<and>
      get_stm w4 = machine_at REQUEST_READ"
    by (rule stm_step [OF stm, where f = auth_write and ?w2.0 = w2 and ?w3.0 = w2])
      (use h w4 keeps_stm [OF auth_write_keeps [OF h(1)]] in \<open>simp_all add: no_hooks_def run_hook_def w3_def\<close>)
  have "bufs_ok (cw_conn w4) = bufs_ok (cw_conn w3)" by (subst conn4) simp
  moreover have "client_fd (cw_conn w4) = client_fd (cw_conn w3)" "read_buffer (cw_conn w4) = read_buffer (cw_conn w3)"
    "write_buffer (cw_conn w4) = write_buffer (cw_conn w3)" "origin_fd (cw_conn w4) = origin_fd (cw_conn w3)"
    "references (cw_conn w4) = references (cw_conn w3)" "client_uname (cw_conn w4) = client_uname (cw_conn w3)"
    "so_client (cw_conn w4) = C_request fresh_request"
    by (subst conn4, simp)+
  ultimately show thesis
    by (intro that [of w4])
      (use run h rest4 in \<open>simp_all add: socksv5_write_def stm_handler_write_def w3_def put_stm_def conn_idle_def same_res_def\<close>)
qed


section \<open>Teardown\<close>

lemma socks5_destroy_frame [simp]:
  "cw_sel (socks5_destroy w) = cw_sel w" "cw_out (socks5_destroy w) = cw_out w"
  "client_fd (cw_conn (socks5_destroy w)) = client_fd (cw_conn w)"
  "origin_fd (cw_conn (socks5_destroy w)) = origin_fd (cw_conn w)"
  by (simp_all add: socks5_destroy_def socks5_destroy_now_def)

lemma socks5_destroy_life:
  "references (cw_conn w) = 1 \<Longrightarrow> cw_life (socks5_destroy w) \<noteq> Alive"
  "references (cw_conn w) = Suc (Suc n) \<Longrightarrow> references (cw_conn (socks5_destroy w)) = Suc n"
  by (auto simp: socks5_destroy_def socks5_destroy_now_def)

lemma unregister_ok:
  assumes "sel_inv (cw_sel w)" "interest_of (cw_sel w) f = Some i" "handler_of (cw_sel w) f = Some H_socks5"
  obtains s where "unregister_fd f w = Inr (SELECTOR_SUCCESS, (socks5_destroy w)\<lparr>cw_sel := s\<rparr>)" "sel_inv s"
    "interest_of s = (interest_of (cw_sel w))(f := None)" "handler_of s = (handler_of (cw_sel w))(f := None)"
proof -
  have "\<exists>s. selector_unregister_fd close_handlers f (cw_sel w, w) = Inr (SELECTOR_SUCCESS, s, socks5_destroy w) \<and>
      sel_inv s \<and> interest_of s = (interest_of (cw_sel w))(f := None) \<and>
      handler_of s = (handler_of (cw_sel w))(f := None)"
    using selector_unregister_ok [where handlers = close_handlers and g = w and ?s1.0 = "cw_sel w" and
        ?g1.0 = "socks5_destroy w", OF assms _ assms(1,2)]
    by (auto simp: close_handlers_def socksv5_close_def)
  then show thesis using that by (auto simp: unregister_fd_def)
qed

lemma close_one:
  assumes "sel_inv (cw_sel w)" "interest_of (cw_sel w) f = Some i" "handler_of (cw_sel w) f = Some H_socks5"
  obtains s where "close_fds (f # fs) w = close_fds fs (emit (Ev_close f) ((socks5_destroy w)\<lparr>cw_sel := s\<rparr>))" "sel_inv s"
    "interest_of s = (interest_of (cw_sel w))(f := None)" "handler_of s = (handler_of (cw_sel w))(f := None)"
proof -
  have "f \<noteq> -1" using interest_of_range [OF assms(1,2)] by auto
  obtain s where "unregister_fd f w = Inr (SELECTOR_SUCCESS, (socks5_destroy w)\<lparr>cw_sel := s\<rparr>)" "sel_inv s"
    "interest_of s = (interest_of (cw_sel w))(f := None)" "handler_of s = (handler_of (cw_sel w))(f := None)"
    by (rule unregister_ok [OF assms])
  with \<open>f \<noteq> -1\<close> show thesis by (intro that) simp_all
qed

lemma done_client_only:
  assumes "sel_inv (cw_sel w)" "interest_of (cw_sel w) (client_fd (cw_conn w)) = Some i"
    "handler_of (cw_sel w) (client_fd (cw_conn w)) = Some H_socks5" "origin_fd (cw_conn w) = -1"
    "references (cw_conn w) = 1"
  obtains w' where "socksv5_done k w = Inr w'" "cw_out w' = cw_out w @ [Ev_close (client_fd (cw_conn w))]"
    "cw_life w' \<noteq> Alive" "interest_of (cw_sel w') = (interest_of (cw_sel w))(client_fd (cw_conn w) := None)"
    "sel_inv (cw_sel w')"
proof -
  obtain s where "socksv5_done k w = Inr (emit (Ev_close (client_fd (cw_conn w))) ((socks5_destroy w)\<lparr>cw_sel := s\<rparr>))"
    "sel_inv s" "interest_of s = (interest_of (cw_sel w))(client_fd (cw_conn w) := None)"
    unfolding socksv5_done_def
    by (rule close_one [OF assms(1-3), where fs = "[origin_fd (cw_conn w)]"])
      (use assms(4) in \<open>simp del: close_fds.simps add: close_fds.simps(1) close_fds.simps(2) [of "-1"]\<close>)
  then show thesis
    using socks5_destroy_life(1) [OF assms(5)]
    by (intro that [of "emit (Ev_close (client_fd (cw_conn w))) ((socks5_destroy w)\<lparr>cw_sel := s\<rparr>)"]) simp_all
qed

lemma done_both:
  assumes "sel_inv (cw_sel w)" "interest_of (cw_sel w) (client_fd (cw_conn w)) = Some i"
    "interest_of (cw_sel w) (origin_fd (cw_conn w)) = Some j"
    "handler_of (cw_sel w) (client_fd (cw_conn w)) = Some H_socks5"
    "handler_of (cw_sel w) (origin_fd (cw_conn w)) = Some H_socks5"
    "client_fd (cw_conn w) \<noteq> origin_fd (cw_conn w)" "references (cw_conn w) = 2"
  obtains w' where "socksv5_done k w = Inr w'"
    "cw_out w' = cw_out w @ [Ev_close (client_fd (cw_conn w)), Ev_close (origin_fd (cw_conn w))]"
    "cw_life w' \<noteq> Alive" "sel_inv (cw_sel w')" "interest_of (cw_sel w') =
      (interest_of (cw_sel w))(client_fd (cw_conn w) := None, origin_fd (cw_conn w) := None)"
proof -
  let ?c = "client_fd (cw_conn w)" and ?o = "origin_fd (cw_conn w)"
  obtain s where s: "close_fds [?c, ?o] w = close_fds [?o] (emit (Ev_close ?c) ((socks5_destroy w)\<lparr>cw_sel := s\<rparr>))"
    "sel_inv s" "interest_of s = (interest_of (cw_sel w))(?c := None)" "handler_of s = (handler_of (cw_sel w))(?c := None)"
    by (rule close_one [OF assms(1,2,4), where fs = "[?o]"])
  define w1 where "w1 = emit (Ev_close ?c) ((socks5_destroy w)\<lparr>cw_sel := s\<rparr>)"
  have w1: "sel_inv (cw_sel w1)" "interest_of (cw_sel w1) ?o = Some j" "handler_of (cw_sel w1) ?o = Some H_socks5"
    "references (cw_conn w1) = 1"
    using s assms socks5_destroy_life(2) [of w 0] by (simp_all add: w1_def numeral_2_eq_2)
  obtain s' where "close_fds [?o] w1 = close_fds [] (emit (Ev_close ?o) ((socks5_destroy w1)\<lparr>cw_sel := s'\<rparr>))"
    "sel_inv s'" "interest_of s' = (interest_of (cw_sel w1))(?o := None)"
    by (rule close_one [OF w1(1-3), where fs = "[]"])
  then show thesis
    using s(1,3) socks5_destroy_life(1) [OF w1(4)] that
      [of "emit (Ev_close ?o) ((socks5_destroy w1)\<lparr>cw_sel := s'\<rparr>)"]
    unfolding socksv5_done_def by (simp add: w1_def del: close_fds.simps(2))
qed

lemma event_auth_rejected:
  assumes stm: "get_stm w = machine_at AUTH_WRITE" and idle: "conn_idle f i rd wr w"
    and d: "so_client (cw_conn w) = C_auth d" "as_wb d = Write_buffer" "as_status d \<noteq> auth_status_succeeded"
    and k: "key_fd (fst k) = f" "kr_send (snd k) = Send_ok n" "length wr \<le> n"
    and res: "origin_fd (cw_conn w) = -1" "references (cw_conn w) = 1"
  obtains w' where "socksv5_write k w = Inr w'" "cw_out w' = cw_out w @ [Ev_send f wr, Ev_close f]"
    "cw_life w' \<noteq> Alive" "interest_of (cw_sel w') f = None"
proof -
  obtain w2 where h: "auth_write k w = Inr (ERROR, w2)" "conn_idle f OP_NOOP rd [] w2"
    "cw_out w2 = cw_out w @ [Ev_send f wr]" "client_uname (cw_conn w2) = client_uname (cw_conn w)" "same_res w w2"
    by (rule auth_write_drain [OF idle d(1,2) k]) (use d(3) in simp)
  define w4 where "w4 = put_stm (machine_at ERROR) w2"
  have run: "stm_handler on_write_ready get_stm put_stm client_statbl k w = Inr (ERROR, w4) \<and>
      get_stm w4 = machine_at ERROR"
    by (rule stm_step [OF stm, where f = auth_write and ?w2.0 = w2 and ?w3.0 = w2])
      (use h keeps_stm [OF auth_write_keeps [OF h(1)]] in \<open>simp_all add: no_hooks_def run_hook_def w4_def\<close>)
  have w4: "sel_inv (cw_sel w4)" "interest_of (cw_sel w4) (client_fd (cw_conn w4)) = Some OP_NOOP"
    "handler_of (cw_sel w4) (client_fd (cw_conn w4)) = Some H_socks5" "origin_fd (cw_conn w4) = -1"
    "references (cw_conn w4) = 1" "client_fd (cw_conn w4) = f" "cw_out w4 = cw_out w @ [Ev_send f wr]"
    using h res by (simp_all add: w4_def put_stm_def conn_idle_def same_res_def)
  obtain w' where "socksv5_done k w4 = Inr w'" "cw_out w' = cw_out w4 @ [Ev_close (client_fd (cw_conn w4))]"
    "cw_life w' \<noteq> Alive" "interest_of (cw_sel w') = (interest_of (cw_sel w4))(client_fd (cw_conn w4) := None)"
    by (rule done_client_only [OF w4(1-5), where k = k])
  then show thesis
    using run w4(6,7) that
    by (simp add: socksv5_write_def stm_handler_write_def socksv5_finish_def)
qed


section \<open>The whole handshake\<close>

text \<open>The first three events up to the verdict, for a client that offers username and password
  authentication.\<close>

lemma select_password:
  assumes "SOCKS_HELLO_USERNAME_PASSWORD \<in> set ms"
  shows "select_methods (Some (on_hello_method True)) ms d = SOCKS_HELLO_USERNAME_PASSWORD"
proof -
  have "foldl (on_hello_method True) d ms =
      (if SOCKS_HELLO_USERNAME_PASSWORD \<in> set ms then SOCKS_HELLO_USERNAME_PASSWORD else d)" for d
    by (induction ms arbitrary: d) (auto simp: on_hello_method_def)
  with assms show ?thesis by (simp add: select_methods_def)
qed

lemma handshake_verdict:
  assumes w: "fresh_conn f w" "is_auth_on (cw_glob w)" "rg_count (g_users (cw_glob w)) \<noteq> 0"
    and k1: "key_fd (fst k1) = f" "kr_recv (snd k1) = Recv_data (hello_message ms)"
    and ms: "length ms < 256" "SOCKS_HELLO_USERNAME_PASSWORD \<in> set ms"
    and k2: "key_fd (fst k2) = f" "kr_send (snd k2) = Send_ok n2" "2 \<le> n2"
    and k3: "key_fd (fst k3) = f" "kr_recv (snd k3) = Recv_data (auth_message u pw)"
    and cred: "u \<noteq> []" "length u \<le> 255" "pw \<noteq> []" "length pw \<le> 255"
  defines "found \<equiv> authenticate (g_users (cw_glob w)) (strncpy_bytes 0xff u) (strncpy_bytes 0xff pw)"
  defines "st \<equiv> if found \<noteq> None then auth_status_succeeded else auth_status_failure"
  obtains w1 w2 w3 d where "socksv5_read k1 w = Inr w1" "socksv5_write k2 w1 = Inr w2" "socksv5_read k3 w2 = Inr w3"
    "get_stm w3 = machine_at AUTH_WRITE" "conn_idle f OP_WRITE [] [0x01, auth_status_byte st] w3"
    "so_client (cw_conn w3) = C_auth d" "as_wb d = Write_buffer" "as_status d = st"
    "client_uname (cw_conn w3) = found" "same_res w w3"
    "cw_life w1 = Alive" "cw_life w2 = Alive"
    "cw_out w3 = cw_out w @ [Ev_recv f (hello_message ms), Ev_send f [0x05, SOCKS_HELLO_USERNAME_PASSWORD],
       Ev_recv f (auth_message u pw)]"
proof -
  obtain w1 d1 where 1: "socksv5_read k1 w = Inr w1" "get_stm w1 = machine_at HELLO_WRITE"
    "conn_idle f OP_WRITE [] [0x05, SOCKS_HELLO_USERNAME_PASSWORD] w1" "so_client (cw_conn w1) = C_hello d1"
    "hs_wb d1 = Write_buffer" "cw_out w1 = cw_out w @ [Ev_recv f (hello_message ms)]" "same_res w w1"
    "client_uname (cw_conn w1) = None"
    by (rule event_hello [OF w(1,3) k1 ms(1)]) (use w(2) select_password [OF ms(2)] in simp)
  have on1: "is_auth_on (cw_glob w1)" using 1(7) w(2) by (simp add: same_res_def)
  obtain w2 d2 p where 2: "socksv5_write k2 w1 = Inr w2" "get_stm w2 = machine_at AUTH_READ"
    "conn_idle f OP_READ [] [] w2" "so_client (cw_conn w2) = C_auth d2" "as_rb d2 = Read_buffer"
    "as_wb d2 = Write_buffer" "as_parser d2 = auth_parser_init p"
    "cw_out w2 = cw_out w1 @ [Ev_send f [0x05, SOCKS_HELLO_USERNAME_PASSWORD]]" "same_res w1 w2"
    "client_uname (cw_conn w2) = client_uname (cw_conn w1)"
    by (rule event_hello_reply [OF 1(2) on1 1(3-5) k2(1,2)]) (use k2(3) in simp_all)
  have users: "g_users (cw_glob w2) = g_users (cw_glob w)" using 1(7) 2(9) by (simp add: same_res_def)
  obtain w3 d3 where 3: "socksv5_read k3 w2 = Inr w3" "get_stm w3 = machine_at AUTH_WRITE"
    "conn_idle f OP_WRITE [] [0x01, auth_status_byte st] w3" "so_client (cw_conn w3) = C_auth d3"
    "as_wb d3 = Write_buffer" "as_status d3 = st"
    "client_uname (cw_conn w3) = (if found = None then client_uname (cw_conn w2) else found)"
    "cw_out w3 = cw_out w2 @ [Ev_recv f (auth_message u pw)]" "same_res w2 w3"
    unfolding st_def found_def by (rule event_auth [OF 2(2-7) k3 cred, unfolded users])
  show thesis
    by (rule that [of w1 w2 w3 d3])
      (use 1 2 3 w(1) in \<open>auto simp: same_res_def fresh_conn_def\<close>)
qed


section \<open>Credentials\<close>

lemma authenticate_verdict:
  assumes "users_inv r" "0 \<notin> set u" "length u \<le> 255" "0 \<notin> set pw" "length pw \<le> 255"
  shows "(u, pw) \<notin> set (user_entries r) \<Longrightarrow> authenticate r (strncpy_bytes 0xff u) (strncpy_bytes 0xff pw) = None"
    and "(u, pw) \<in> set (user_entries r) \<Longrightarrow>
      \<exists>i. authenticate r (strncpy_bytes 0xff u) (strncpy_bytes 0xff pw) = Some i \<and> i < length (user_entries r) \<and>
        user_entries r ! i = (u, pw)"
proof -
  have len: "length (user_entries r) = rg_count r" by (simp add: user_entries_def reg_entries_def)
  have "authenticate r (strncpy_bytes 0xff u) (strncpy_bytes 0xff pw) =
      List.find (\<lambda>i. user_entries r ! i = (cstr (take 0xff (strncpy_bytes 0xff u)), cstr (take 0xff (strncpy_bytes 0xff pw))))
        [0..<rg_count r]"
    unfolding authenticate_def by (rule find_user_iff [OF assms(1)]) simp
  also have "\<dots> = List.find (\<lambda>i. user_entries r ! i = (u, pw)) [0..<rg_count r]"
    using assms(2-5) by (simp add: cstr_strncpy)
  finally have eq: "authenticate r (strncpy_bytes 0xff u) (strncpy_bytes 0xff pw) =
      List.find (\<lambda>i. user_entries r ! i = (u, pw)) [0..<rg_count r]" .
  show "(u, pw) \<notin> set (user_entries r) \<Longrightarrow> authenticate r (strncpy_bytes 0xff u) (strncpy_bytes 0xff pw) = None"
    using len by (auto simp: eq find_None_iff in_set_conv_nth)
  assume "(u, pw) \<in> set (user_entries r)"
  then have "List.find (\<lambda>i. user_entries r ! i = (u, pw)) [0..<rg_count r] \<noteq> None"
    using len by (auto simp: find_None_iff in_set_conv_nth)
  then show "\<exists>i. authenticate r (strncpy_bytes 0xff u) (strncpy_bytes 0xff pw) = Some i \<and>
      i < length (user_entries r) \<and> user_entries r ! i = (u, pw)"
    using len by (auto simp: eq find_Some_iff)
qed

section \<open>A world to run in\<close>

text \<open>A server with one user \<open>a\<close>, password \<open>b\<close>, and a client just accepted on descriptor 3.\<close>

lemma socks5_new_ok:
  assumes "pool_len g = 0"
  obtains c where "socks5_new client_statbl True f g = Inr (Some c, g)" "client_fd c = f" "origin_fd c = -1"
    "references c = 1" "client_uname c = None" "bufs_ok c" "buffer_bytes (read_buffer c) = []"
    "buffer_bytes (write_buffer c) = []"
    "so_stm c = \<lparr>stm_initial = HELLO_READ, stm_max_state = ERROR, stm_current = None\<rparr>"
proof -
  let ?m = "\<lparr>stm_initial = HELLO_READ, stm_max_state = ERROR, stm_current = None\<rparr>"
  have "stm_init client_statbl ?m = Inr ?m" using statbl_ok by (simp add: stm_init_iff st_defs)
  then show thesis
    using assms
    by (intro that) (auto simp: socks5_new_def Let_def socks5_zero_def bufs_ok_def buf_ok_def wf_buffer_def
        buffer_init_def buffer_reset_def buffer_bytes_def)
qed

lemma demo_users:
  obtains r where "socksv5_register_user [97] [98] users_init = Inr (0, r)" "users_inv r"
    "user_entries r = [([97], [98])]" "rg_count r = 1"
proof -
  have "valid_user_op (Reg_add [97] [98])" by (simp add: c_string_def)
  from users.add_new [OF users_init_inv this] obtain r where r:
    "socksv5_register_user [97] [98] users_init = Inr (0, r)" "users_inv r" "user_entries r = [([97], [98])]"
    by (auto simp: users_init_entries MAX_USERS_def)
  moreover have "rg_count r = length (user_entries r)" by (simp add: user_entries_def reg_entries_def)
  ultimately show thesis using that by simp
qed

lemma demo_conn:
  obtains w where "reach w" "fresh_conn 3 w" "is_auth_on (cw_glob w)" "users_inv (g_users (cw_glob w))"
    "user_entries (g_users (cw_glob w)) = [([97], [98])]" "rg_count (g_users (cw_glob w)) \<noteq> 0" "cw_out w = []"
proof -
  obtain r where r: "users_inv r" "user_entries r = [([97], [98])]" "rg_count r = 1" by (rule demo_users)
  obtain s0 :: selector where s0: "sel_inv s0" "interest_of s0 = Map.empty" "4 < fd_size s0" by (rule new_selector)
  obtain s :: selector where s: "sel_inv s" "interest_of s 3 = Some OP_READ" "handler_of s 3 = Some H_socks5"
    using selector_register_ok [OF s0(1), of 3 True H_socks5 OP_READ "Some 0"] s0(2,3) by auto
  let ?g = "\<lparr>historic_connections = 0, current_connections = 0, bytes_transferred = 0, is_auth_on = True,
     is_disector_on = True, g_users = r, pool_len = 0, pool_size = 0\<rparr>"
  obtain c where c: "socks5_new client_statbl True 3 ?g = Inr (Some c, ?g)" "client_fd c = 3" "origin_fd c = -1"
    "references c = 1" "client_uname c = None" "bufs_ok c" "buffer_bytes (read_buffer c) = []"
    "buffer_bytes (write_buffer c) = []"
    "so_stm c = \<lparr>stm_initial = HELLO_READ, stm_max_state = ERROR, stm_current = None\<rparr>"
    by (rule socks5_new_ok [of ?g 3]) simp_all
  show thesis
    by (rule that [OF reach_start [OF c(1), where s = s and a = "client_addr c" and len = "client_addr_len c"]])
      (use c r s in \<open>simp_all add: fresh_conn_def conn_idle_def get_stm_def\<close>)
qed


text \<open>A key for descriptor \<open>f\<close> with what \<open>recv\<close> and \<open>send\<close> answer during the event.\<close>

definition demo_key :: "fd \<Rightarrow> recv_result \<Rightarrow> send_result \<Rightarrow> ckey" where
  "demo_key f r s = (\<lparr>key_fd = f, key_data = Some 0\<rparr>,
     \<lparr>kr_recv = r, kr_send = s, kr_socket = 4, kr_getfd = 0, kr_setfl = (\<lambda>_. 0),
      kr_connect = Connect_errno EINPROGRESS, kr_sockopt = Some 0, kr_malloc = True, kr_pthread = 0\<rparr>)"

lemma demo_key_simps [simp]:
  "key_fd (fst (demo_key f r s)) = f" "kr_recv (snd (demo_key f r s)) = r" "kr_send (snd (demo_key f r s)) = s"
  by (simp_all add: demo_key_def)


text \<open>The connection of that client once it has logged in.\<close>

lemma demo_session:
  obtains w where "reach w" "is_auth_on (cw_glob w)" "get_stm w = machine_at REQUEST_READ" "conn_idle 3 OP_READ [] [] w"
    "so_client (cw_conn w) = C_request fresh_request" "origin_fd (cw_conn w) = -1" "references (cw_conn w) = 1"
    "cw_life w = Alive"
proof -
  obtain w where w: "reach w" "fresh_conn 3 w" "is_auth_on (cw_glob w)" "users_inv (g_users (cw_glob w))"
    "user_entries (g_users (cw_glob w)) = [([97], [98])]" "rg_count (g_users (cw_glob w)) \<noteq> 0"
    by (rule demo_conn)
  let ?k1 = "demo_key 3 (Recv_data (hello_message [SOCKS_HELLO_USERNAME_PASSWORD])) Send_err"
  let ?k2 = "demo_key 3 Recv_err (Send_ok 2)"
  let ?k3 = "demo_key 3 (Recv_data (auth_message [97] [98])) Send_err"
  have found: "authenticate (g_users (cw_glob w)) (strncpy_bytes 0xff [97]) (strncpy_bytes 0xff [98]) \<noteq> None"
    using authenticate_verdict(2) [OF w(4), of "[97]" "[98]"] w(5) by auto
  obtain w1 w2 w3 d where 3: "socksv5_read ?k1 w = Inr w1" "socksv5_write ?k2 w1 = Inr w2" "socksv5_read ?k3 w2 = Inr w3"
    "get_stm w3 = machine_at AUTH_WRITE" "conn_idle 3 OP_WRITE [] [0x01, 0x00] w3"
    "so_client (cw_conn w3) = C_auth d" "as_wb d = Write_buffer" "as_status d = auth_status_succeeded"
    "same_res w w3" "cw_life w1 = Alive" "cw_life w2 = Alive"
    by (rule handshake_verdict [OF w(2,3,6), where ?k1.0 = ?k1 and ?k2.0 = ?k2 and ?k3.0 = ?k3 and ?n2.0 = 2
        and ms = "[SOCKS_HELLO_USERNAME_PASSWORD]" and u = "[97]" and pw = "[98]"]) (use found in simp_all)
  obtain w4 where 4: "socksv5_write ?k2 w3 = Inr w4" "get_stm w4 = machine_at REQUEST_READ" "same_res w3 w4"
    "conn_idle 3 OP_READ [] [] w4" "so_client (cw_conn w4) = C_request fresh_request"
    by (rule event_auth_accepted [OF 3(4-8), where k = ?k2 and n = 2]) simp_all
  have life: "cw_life w = Alive" "cw_life w3 = Alive" using w(2) 3(9) by (simp_all add: fresh_conn_def same_res_def)
  have "reach w1" using w(1) life(1) 3(1) by (rule reach_read)
  then have "reach w2" using 3(10,2) by (rule reach_write)
  then have "reach w3" using 3(11,3) by (rule reach_read)
  then have "reach w4" using life(2) 4(1) by (rule reach_write)
  moreover have "is_auth_on (cw_glob w4)" "origin_fd (cw_conn w4) = -1" "references (cw_conn w4) = 1" "cw_life w4 = Alive"
    using w(2,3) 3(9) 4(3) by (simp_all add: same_res_def fresh_conn_def)
  ultimately show thesis using that 4(2,4,5) by blast
qed

end
