(* ===== verification/Relay.thy ===== *)
theory Relay
  imports Session
begin

text \<open>
  The two byte streams through the COPY state. \<open>quiet\<close> are the operations that neither receive nor
  send nor touch the buffers; \<open>relayed\<close> relates two worlds between which every byte taken from one
  socket was handed to the other in order or is still buffered.
\<close>

section \<open>Traffic\<close>

fun received :: "fd \<Rightarrow> out_event list \<Rightarrow> byte list" where
  "received f [] = []"
| "received f (Ev_recv g xs # es) = (if g = f then xs else []) @ received f es"
| "received f (_ # es) = received f es"

fun sent :: "fd \<Rightarrow> out_event list \<Rightarrow> byte list" where
  "sent f [] = []"
| "sent f (Ev_send g xs # es) = (if g = f then xs else []) @ sent f es"
| "sent f (_ # es) = sent f es"

lemma received_append [simp]: "received f (xs @ ys) = received f xs @ received f ys"
proof (induction xs)
  case (Cons e es)
  then show ?case by (cases e) auto
qed simp

lemma sent_append [simp]: "sent f (xs @ ys) = sent f xs @ sent f ys"
proof (induction xs)
  case (Cons e es)
  then show ?case by (cases e) auto
qed simp

definition quiet :: "cworld \<Rightarrow> cworld \<Rightarrow> bool" where
  "quiet w w' \<longleftrightarrow>
     read_buffer (cw_conn w') = read_buffer (cw_conn w) \<and> write_buffer (cw_conn w') = write_buffer (cw_conn w) \<and>
     client_fd (cw_conn w') = client_fd (cw_conn w) \<and> origin_fd (cw_conn w') = origin_fd (cw_conn w) \<and>
     bytes_transferred (cw_glob w') = bytes_transferred (cw_glob w) \<and>
     historic_connections (cw_glob w') = historic_connections (cw_glob w) \<and>
     (\<exists>ext. cw_out w' = cw_out w @ ext \<and> (\<forall>f. received f ext = [] \<and> sent f ext = []))"

named_theorems quiet_dest \<open>operations without traffic\<close>

lemma quiet_refl [simp, intro]: "quiet w w"
  by (auto simp: quiet_def)

lemma quiet_trans [trans]:
  assumes "quiet w w1" "quiet w1 w2"
  shows "quiet w w2"
proof -
  obtain e1 e2 where "cw_out w1 = cw_out w @ e1" "\<forall>f. received f e1 = [] \<and> sent f e1 = []"
    "cw_out w2 = cw_out w1 @ e2" "\<forall>f. received f e2 = [] \<and> sent f e2 = []"
    using assms by (auto simp: quiet_def)
  then have "cw_out w2 = cw_out w @ e1 @ e2 \<and> (\<forall>f. received f (e1 @ e2) = [] \<and> sent f (e1 @ e2) = [])" by simp
  then show ?thesis using assms by (auto simp: quiet_def)
qed

lemma quiet_emit: "(\<And>f. received f [e] = [] \<and> sent f [e] = []) \<Longrightarrow> quiet w (emit e w)"
  by (auto simp: quiet_def)

lemma quiet_sel [simp]: "quiet w (w'\<lparr>cw_sel := s\<rparr>) = quiet w w'" "quiet w (w'\<lparr>cw_life := l\<rparr>) = quiet w w'"
  by (simp_all add: quiet_def)

lemma set_interest_quiet [quiet_dest]: "set_interest f i w = Inr (st, w') \<Longrightarrow> quiet w w'"
  by (auto simp: set_interest_def)

lemma copy_compute_quiet [quiet_dest]: "copy_compute_interests sd w = Inr (n, w') \<Longrightarrow> quiet w w'"
  by (auto simp: copy_compute_interests_def Let_def split: if_splits dest: quiet_dest)

lemma set_copy_quiet [simp]: "quiet w (upd_conn (set_copy sd d) w') = quiet w w'"
  by (simp add: quiet_def)

lemma copy_shutdown_quiet [quiet_dest]: "copy_shutdown sd a b c d w = Inr w' \<Longrightarrow> quiet w w'"
  by (auto simp: copy_shutdown_def Let_def quiet_def split: if_splits)

lemma copy_disect_quiet [quiet_dest]: "copy_disect k out w = Inr w' \<Longrightarrow> quiet w w'"
  by (auto simp: copy_disect_def Let_def quiet_def split: if_splits)

lemma copy_finish_quiet:
  assumes "copy_finish sd w = Inr (n, w')"
  shows "quiet w w' \<and> current_connections (cw_glob w') = current_connections (cw_glob w) - (if n = DONE then 1 else 0)"
proof -
  have glob: "copy_compute_interests sd w = Inr (n, w') \<Longrightarrow> cw_glob w' = cw_glob w" for sd w n w'
    by (auto simp: copy_compute_interests_def set_interest_def Let_def split: if_splits)
  obtain m1 w1 d m2 w2 where 1: "copy_compute_interests sd w = Inr (m1, w1)" "get_copy sd (cw_conn w1) = Inr d"
    "copy_compute_interests (cp_other d) w1 = Inr (m2, w2)"
    using assms by (auto simp: copy_finish_def)
  then have w': "w' = (if n = DONE then upd_glob (\<lambda>g. g\<lparr>current_connections := current_connections g - 1\<rparr>) w2 else w2)"
    using assms by (auto simp: copy_finish_def split: if_splits)
  have "quiet w w2" using quiet_trans [OF copy_compute_quiet copy_compute_quiet] 1 by blast
  then have "quiet w w'" by (simp add: w' quiet_def)
  with 1 glob w' show ?thesis by simp
qed

lemma unregister_quiet [quiet_dest]: "unregister_fd f w = Inr (st, w') \<Longrightarrow> quiet w w'"
  by (erule unregister_fd_cases) (auto simp: quiet_def socks5_destroy_def socks5_destroy_now_def)

lemma close_fds_quiet [quiet_dest]: "close_fds fs w = Inr w' \<Longrightarrow> quiet w w'"
proof (induction fs arbitrary: w)
  case (Cons f fs)
  show ?case
  proof (cases "f = -1")
    case False
    with Cons.prems obtain st w1 where 1: "unregister_fd f w = Inr (st, w1)"
      "close_fds fs (emit (Ev_close f) w1) = Inr w'"
      by (auto split: if_splits)
    have "quiet w1 (emit (Ev_close f) w1)" by (rule quiet_emit) simp
    with unregister_quiet [OF 1(1)] Cons.IH [OF 1(2)] show ?thesis by (blast intro: quiet_trans)
  qed (use Cons in simp)
qed simp


section \<open>Streams\<close>

definition relayed :: "cworld \<Rightarrow> cworld \<Rightarrow> bool" where
  "relayed w w' \<longleftrightarrow> client_fd (cw_conn w') = client_fd (cw_conn w) \<and> origin_fd (cw_conn w') = origin_fd (cw_conn w) \<and>
     (\<exists>ext. cw_out w' = cw_out w @ ext \<and>
        buffer_bytes (read_buffer (cw_conn w)) @ received (client_fd (cw_conn w)) ext =
          sent (origin_fd (cw_conn w)) ext @ buffer_bytes (read_buffer (cw_conn w')) \<and>
        buffer_bytes (write_buffer (cw_conn w)) @ received (origin_fd (cw_conn w)) ext =
          sent (client_fd (cw_conn w)) ext @ buffer_bytes (write_buffer (cw_conn w')))"

lemma relayed_refl [simp, intro]: "relayed w w"
  by (auto simp: relayed_def)

lemma relayed_trans [trans]:
  assumes "relayed w w1" "relayed w1 w2"
  shows "relayed w w2"
proof -
  let ?c = "client_fd (cw_conn w)" and ?o = "origin_fd (cw_conn w)"
  obtain e1 where e1: "cw_out w1 = cw_out w @ e1"
    "buffer_bytes (read_buffer (cw_conn w)) @ received ?c e1 = sent ?o e1 @ buffer_bytes (read_buffer (cw_conn w1))"
    "buffer_bytes (write_buffer (cw_conn w)) @ received ?o e1 = sent ?c e1 @ buffer_bytes (write_buffer (cw_conn w1))"
    using assms(1) by (auto simp: relayed_def)
  obtain e2 where e2: "cw_out w2 = cw_out w1 @ e2"
    "buffer_bytes (read_buffer (cw_conn w1)) @ received ?c e2 = sent ?o e2 @ buffer_bytes (read_buffer (cw_conn w2))"
    "buffer_bytes (write_buffer (cw_conn w1)) @ received ?o e2 = sent ?c e2 @ buffer_bytes (write_buffer (cw_conn w2))"
    using assms by (auto simp: relayed_def)
  have "buffer_bytes (read_buffer (cw_conn w)) @ received ?c (e1 @ e2) =
      sent ?o (e1 @ e2) @ buffer_bytes (read_buffer (cw_conn w2))"
    "buffer_bytes (write_buffer (cw_conn w)) @ received ?o (e1 @ e2) =
      sent ?c (e1 @ e2) @ buffer_bytes (write_buffer (cw_conn w2))"
    using e1(2,3) e2(2,3) by (simp_all only: received_append sent_append append_assoc [symmetric]) (simp_all only: append_assoc)
  with e1(1) e2(1) assms show ?thesis by (auto simp: relayed_def intro!: exI [of _ "e1 @ e2"])
qed

lemma quiet_relayed: "quiet w w' \<Longrightarrow> relayed w w'"
  by (auto simp: quiet_def relayed_def)

text \<open>The end of the relay an event is for.\<close>

lemma copy_ptr_side:
  assumes live: "copy_live w" and "copy_ptr k w = Inr sd" "get_copy sd (cw_conn w) = Inr d"
    "get_fd (cp_fd d) (cw_conn w) = key_fd (fst k)"
  shows "sd = Client_side \<and> key_fd (fst k) = client_fd (cw_conn w) \<and> cp_rb d = Read_buffer \<and> cp_wb d = Write_buffer \<or>
    sd = Origin_side \<and> key_fd (fst k) = origin_fd (cw_conn w) \<and> cp_rb d = Write_buffer \<and> cp_wb d = Read_buffer"
proof -
  obtain dc where dc: "so_client (cw_conn w) = C_copy dc" "cp_fd dc = Client_fd" "cp_rb dc = Read_buffer"
    "cp_wb dc = Write_buffer" "cp_other dc = Origin_side"
    using live by (cases "so_client (cw_conn w)") (auto simp: copy_live_def)
  obtain e where e: "so_orig (cw_conn w) = O_copy e" "cp_fd e = Origin_fd" "cp_rb e = Write_buffer"
    "cp_wb e = Read_buffer" "cp_other e = Client_side"
    using live by (cases "so_orig (cw_conn w)") (auto simp: copy_live_def)
  show ?thesis using assms(2-4) dc e by (cases sd) (auto simp: copy_ptr_def split: if_splits)
qed

lemma copy_r_relayed:
  assumes "copy_live w" "bufs_ok (cw_conn w)" "client_fd (cw_conn w) \<noteq> origin_fd (cw_conn w)"
    "copy_r k w = Inr (n, w')"
  shows "relayed w w'"
proof -
  obtain sd d m w1 w2 where 1: "copy_ptr k w = Inr sd" "get_copy sd (cw_conn w) = Inr d"
    "get_fd (cp_fd d) (cw_conn w) = key_fd (fst k)" "conn_recv k (cp_rb d) w = Inr (m, w1)"
    "(if m \<le> 0 then copy_shutdown sd SHUT_RD OP_READ SHUT_WR OP_WRITE w1 else Inr w1) = Inr w2"
    "copy_finish sd w2 = Inr (n, w')"
    using assms(4) by (auto simp: copy_r_def)
  have side: "sd = Client_side \<and> key_fd (fst k) = client_fd (cw_conn w) \<and> cp_rb d = Read_buffer \<and> cp_wb d = Write_buffer \<or>
    sd = Origin_side \<and> key_fd (fst k) = origin_fd (cw_conn w) \<and> cp_rb d = Write_buffer \<and> cp_wb d = Read_buffer"
    by (rule copy_ptr_side [OF assms(1) 1(1-3)])
  obtain b xs where "buffer_bytes b = buffer_bytes (get_buf (cp_rb d) (cw_conn w)) @ xs" and
    w1: "w1 = (if xs = [] then id else emit (Ev_recv (key_fd (fst k)) xs)) (upd_conn (set_buf (cp_rb d) b) w)"
    using conn_recv_spec [where k = k, OF bufs_okD [OF assms(2), of "cp_rb d"]] 1(4) by (metis Pair_inject sum.inject(2))
  then have "relayed w w1" using side assms(3) by (auto simp: relayed_def)
  also have "quiet w1 w2" using 1(5) by (auto split: if_splits dest: quiet_dest)
  then have "relayed w1 w'" using copy_finish_quiet [OF 1(6)] by (blast intro: quiet_relayed quiet_trans)
  finally show ?thesis .
qed

lemma copy_w_relayed:
  assumes "copy_live w" "bufs_ok (cw_conn w)" "client_fd (cw_conn w) \<noteq> origin_fd (cw_conn w)"
    "copy_w k w = Inr (n, w')"
  shows "relayed w w'"
proof -
  obtain sd d m out w1 w3 where 1: "copy_ptr k w = Inr sd" "get_copy sd (cw_conn w) = Inr d"
    "get_fd (cp_fd d) (cw_conn w) = key_fd (fst k)" "conn_send k (cp_wb d) w = Inr (m, out, w1)"
    "(if m = -1 then copy_shutdown sd SHUT_WR OP_WRITE SHUT_RD OP_READ w1
      else rbind (copy_disect k out w1) (\<lambda>w2. rbind (buffer_read_adv (get_buf (cp_wb d) (cw_conn w2)) m) (\<lambda>b.
        Inr (upd_glob (\<lambda>g. g\<lparr>bytes_transferred := bytes_transferred g + of_int m\<rparr>)
          (upd_conn (set_buf (cp_wb d) b) w2))))) = Inr w3"
    "copy_finish sd w3 = Inr (n, w')"
    using assms(4) by (auto simp: copy_w_def)
  have side: "sd = Client_side \<and> key_fd (fst k) = client_fd (cw_conn w) \<and> cp_rb d = Read_buffer \<and> cp_wb d = Write_buffer \<or>
    sd = Origin_side \<and> key_fd (fst k) = origin_fd (cw_conn w) \<and> cp_rb d = Write_buffer \<and> cp_wb d = Read_buffer"
    by (rule copy_ptr_side [OF assms(1) 1(1-3)])
  let ?B = "get_buf (cp_wb d) (cw_conn w)"
  obtain b where m: "m = send_ret (length (buffer_bytes ?B)) (kr_send (snd k))" "out = take (nat m) (buffer_bytes ?B)"
    "w1 = (if m = -1 then w else emit (Ev_send (key_fd (fst k)) out) w)"
    "buffer_read_adv ?B m = Inr b" "buffer_bytes b = drop (nat m) (buffer_bytes ?B)"
    by (rule conn_send_spec [where k = k, OF bufs_okD [OF assms(2), of "cp_wb d"]]) (use 1(4) in auto)
  have "relayed w w3"
  proof (cases "m = -1")
    case True
    with 1(5) m(3) show ?thesis by (auto intro: quiet_relayed quiet_dest)
  next
    case False
    obtain w2 where w2: "copy_disect k out w1 = Inr w2" using 1(5) False by auto
    then have q: "quiet w1 w2" by (rule copy_disect_quiet)
    then have B: "get_buf (cp_wb d) (cw_conn w2) = ?B" using m(3) False by (cases "cp_wb d") (auto simp: quiet_def)
    have w3: "w3 = upd_glob (\<lambda>g. g\<lparr>bytes_transferred := bytes_transferred g + of_int m\<rparr>) (upd_conn (set_buf (cp_wb d) b) w2)"
      using 1(5) w2 B m(4) False by simp
    obtain ext where "cw_out w2 = cw_out w @ Ev_send (key_fd (fst k)) out # ext" "\<And>f. received f ext = [] \<and> sent f ext = []"
      using q m(3) False by (auto simp: quiet_def)
    with q m side assms(3) False show ?thesis
      by (auto simp: relayed_def w3 quiet_def intro!: exI [of _ "Ev_send (key_fd (fst k)) out # ext"])
  qed
  also have "relayed w3 w'" using copy_finish_quiet [OF 1(6)] by (blast intro: quiet_relayed)
  finally show ?thesis .
qed


section \<open>Events in COPY\<close>

lemma copy_event:
  assumes "machine_ok ERROR HELLO_READ (get_stm w)" "stm_current (get_stm w) = Some COPY"
    "ready (client_statbl ! COPY) = Some f" "f = copy_r \<or> f = copy_w"
    "stm_handler ready get_stm put_stm client_statbl k w = Inr (n, w')"
  obtains w1 where "f k w = Inr (n, w1)" "w' = w1 \<or> n = DONE \<and> w' = put_stm ((get_stm w1)\<lparr>stm_current := Some DONE\<rparr>) w1"
proof -
  obtain w1 where w1: "f k w = Inr (n, w1)" "jump get_stm put_stm client_statbl n k w1 = Inr w'"
    using assms by (auto simp: stm_handler_def handle_first_def s5.table_at)
  have n: "n = COPY \<or> n = DONE" using assms(4) w1(1) copy_r_next copy_w_next by blast
  have "get_stm w1 = get_stm w" using assms(4) w1(1) copy_r_keeps copy_w_keeps keeps_stm by blast
  then show thesis
    using that [OF w1(1)] w1(2) n assms(1,2)
    by (auto simp: jump_def leave_state_def s5.table_at run_hook_def no_hooks_def Let_def machine_ok_def split: if_splits)
qed

lemma put_stm_quiet [simp]: "quiet w (put_stm m w') = quiet w w'"
  by (simp add: quiet_def put_stm_def)

lemma event_relayed:
  assumes "conn_holds (\<lambda>w. bufs_ok (cw_conn w)) layout_at w" "stm_current (get_stm w) = Some COPY"
    "client_fd (cw_conn w) \<noteq> origin_fd (cw_conn w)"
    "socksv5_read k w = Inr w' \<or> socksv5_write k w = Inr w'"
  shows "relayed w w'"
proof -
  have ok: "machine_ok ERROR HELLO_READ (get_stm w)" and live: "copy_live w" "bufs_ok (cw_conn w)"
    using assms(1,2) by (auto simp: conn_holds_def copy_live_def)
  obtain ready f n w2 where f: "ready (client_statbl ! COPY) = Some f" "f = copy_r \<or> f = copy_w"
    and run: "stm_handler ready get_stm put_stm client_statbl k w = Inr (n, w2)" "socksv5_finish k (n, w2) = Inr w'"
  proof (cases "socksv5_read k w = Inr w'")
    case True
    then show thesis
      using that [of on_read_ready copy_r] by (auto simp: socksv5_read_def stm_handler_read_def no_hooks_def)
  next
    case False
    then show thesis
      using assms(4) that [of on_write_ready copy_w] by (auto simp: socksv5_write_def stm_handler_write_def no_hooks_def)
  qed
  obtain w1 where w1: "f k w = Inr (n, w1)" "w2 = w1 \<or> n = DONE \<and> w2 = put_stm ((get_stm w1)\<lparr>stm_current := Some DONE\<rparr>) w1"
    by (rule copy_event [OF ok assms(2) f run(1)])
  have "relayed w w1" using f(2) w1(1) copy_r_relayed [OF live assms(3)] copy_w_relayed [OF live assms(3)] by blast
  also have "quiet w1 w2" using w1(2) by auto
  then have "quiet w1 w'"
    using run(2) by (auto simp: socksv5_finish_def socksv5_done_def simp del: close_fds.simps split: if_splits
        dest: close_fds_quiet intro: quiet_trans)
  then have "relayed w1 w'" by (rule quiet_relayed)
  finally show ?thesis .
qed

text \<open>Any sequence of events delivered to a connection in COPY, between which the rest of the server
  runs.\<close>

inductive copying :: "cworld \<Rightarrow> cworld \<Rightarrow> bool" where
  copying_start: "copying w w"
| copying_event: "copying w w1 \<Longrightarrow> stm_current (get_stm w1) = Some COPY \<Longrightarrow>
    socksv5_read k w1 = Inr w2 \<or> socksv5_write k w1 = Inr w2 \<Longrightarrow> copying w w2"
| copying_env: "copying w w1 \<Longrightarrow> (is_auth_on g \<Longrightarrow> is_auth_on (cw_glob w1)) \<Longrightarrow>
    copying w (w1\<lparr>cw_sel := s, cw_glob := g\<rparr>)"

lemma copying_relayed:
  assumes "copying w w'" "conn_holds (\<lambda>w. bufs_ok (cw_conn w)) layout_at w"
    "client_fd (cw_conn w) \<noteq> origin_fd (cw_conn w)"
  shows "relayed w w' \<and> conn_holds (\<lambda>w. bufs_ok (cw_conn w)) layout_at w'"
  using assms
proof (induction rule: copying.induct)
  case (copying_event w w1 k w2)
  then have 1: "relayed w w1" "conn_holds (\<lambda>w. bufs_ok (cw_conn w)) layout_at w1" by blast+
  then have "client_fd (cw_conn w1) \<noteq> origin_fd (cw_conn w1)" using copying_event.prems(2) by (simp add: relayed_def)
  then have "relayed w1 w2" using event_relayed [OF 1(2)] copying_event.hyps by blast
  moreover have "conn_holds (\<lambda>w. bufs_ok (cw_conn w)) layout_at w2"
    using shape.holds_events [OF 1(2)] copying_event.hyps(3) by blast
  ultimately show ?case using relayed_trans [OF 1(1)] by blast
next
  case (copying_env w w1 g s)
  moreover have "conn_holds (\<lambda>w. bufs_ok (cw_conn w)) layout_at (w1\<lparr>cw_sel := s, cw_glob := g\<rparr>)"
    if "conn_holds (\<lambda>w. bufs_ok (cw_conn w)) layout_at w1"
    using that layout_at_keeps [of _ w1 "w1\<lparr>cw_sel := s, cw_glob := g\<rparr>"]
    by (auto simp: conn_holds_def get_stm_def keeps_layout_def split: option.splits)
  ultimately show ?case by (auto simp: relayed_def)
qed auto

end
