(* ===== verification/Dial.thy ===== *)
theory Dial
  imports Relay
begin

text \<open>
  From an authenticated client to a relayed connection: the functional behaviour of the REQUEST states
  on complete requests and on what the kernel and the resolver answer, event by event.
\<close>

section \<open>Connecting\<close>

abbreviation fds_of :: "cworld \<Rightarrow> fd set" where
  "fds_of w \<equiv> dom (interest_of (cw_sel w))"

lemma set_interest_ok:
  assumes "sel_inv (cw_sel w)" "interest_of (cw_sel w) f = Some i0"
  obtains s where "set_interest f i w = Inr (SELECTOR_SUCCESS, w\<lparr>cw_sel := s\<rparr>)" "sel_inv s"
    "interest_of s = (interest_of (cw_sel w))(f \<mapsto> i)" "handler_of s = handler_of (cw_sel w)"
  using selector_set_interest_ok [OF assms, of i] that by (auto simp: set_interest_def)

text \<open>The kernel lets a connection attempt begin on the descriptor \<open>h\<close>, which is not among those in use.\<close>

definition dial_begins :: "ckey \<Rightarrow> fd \<Rightarrow> fd set \<Rightarrow> bool" where
  "dial_begins k h used \<longleftrightarrow> kr_socket (snd k) = h \<and> 0 \<le> h \<and> h < 1024 \<and> h \<notin> used \<and>
     selector_fd_set_nio (kr_getfd (snd k)) (kr_setfl (snd k)) \<noteq> -1 \<and>
     kr_connect (snd k) = Connect_errno EINPROGRESS \<and> kr_malloc (snd k)"

text \<open>A connection that waits for the origin server on descriptor \<open>h\<close>.\<close>

definition dialing :: "fd \<Rightarrow> fd \<Rightarrow> cworld \<Rightarrow> bool" where
  "dialing f h w \<longleftrightarrow> conn_idle f OP_NOOP [] [] w \<and> interest_of (cw_sel w) h = Some OP_WRITE \<and>
     handler_of (cw_sel w) h = Some H_socks5 \<and> origin_fd (cw_conn w) = h \<and> f \<noteq> h \<and>
     references (cw_conn w) = 2 \<and> cw_life w = Alive"

text \<open>\<open>request_connect\<close> from the world \<open>w1\<close> it reaches once an earlier attempt is closed.\<close>

lemma request_connect_from:
  assumes start: "get_request (cw_conn w) = Inr d"
      "(case stm_current (so_stm (cw_conn w)) of None \<Rightarrow> Inl Null_deref
        | Some st \<Rightarrow> if st = REQUEST_CONNECTING
            then rbind (unregister_fd (origin_fd (cw_conn w)) w) (\<lambda>(_, w0). Inr (emit (Ev_close (origin_fd (cw_conn w0))) w0))
            else Inr w) = Inr w1"
    and w1: "conn_idle f i [] [] w1" "references (cw_conn w1) = 1" "cw_life w1 = Alive"
    and k: "dial_begins k h (fds_of w1)"
  obtains w' where "request_connect k w = Inr (REQUEST_CONNECTING, w')" "dialing f h w'"
    "cw_conn w' = (cw_conn w1)\<lparr>origin_fd := h, references := 2\<rparr>" "cw_glob w' = cw_glob w1" "cw_out w' = cw_out w1"
    "fds_of w' = insert h (fds_of w1)"
proof -
  have sel: "sel_inv (cw_sel w1)" "interest_of (cw_sel w1) f = Some i" "handler_of (cw_sel w1) f = Some H_socks5"
    "client_fd (cw_conn w1) = f" using w1(1) by (simp_all add: conn_idle_def)
  have h: "0 \<le> h" "h < 1024" "interest_of (cw_sel w1) h = None" "h \<noteq> -1" "f \<noteq> h"
    using k sel(2) by (auto simp: dial_begins_def)
  define w2 where "w2 = upd_conn (\<lambda>c. c\<lparr>origin_fd := h\<rparr>) w1"
  obtain s where s: "set_interest f OP_NOOP w2 = Inr (SELECTOR_SUCCESS, w2\<lparr>cw_sel := s\<rparr>)" "sel_inv s"
    "interest_of s = (interest_of (cw_sel w2))(f \<mapsto> OP_NOOP)" "handler_of s = handler_of (cw_sel w2)"
    by (rule set_interest_ok [of w2 f i OP_NOOP]) (use sel in \<open>simp_all add: w2_def\<close>)
  have free: "interest_of s h = None" using s(3) h by (simp add: w2_def)
  obtain s' where s': "selector_register True s h (Some H_socks5) OP_WRITE (key_data (fst k)) = Inr (SELECTOR_SUCCESS, s')"
    "sel_inv s'" "interest_of s' = (interest_of s)(h \<mapsto> OP_WRITE)" "handler_of s' = (handler_of s)(h \<mapsto> H_socks5)"
    by (rule selector_register_grow [OF s(2) free h(1,2)])
  define w' where "w' = (upd_conn (\<lambda>c. c\<lparr>references := 2\<rparr>) w2)\<lparr>cw_sel := s'\<rparr>"
  have "request_connect k w = Inr (REQUEST_CONNECTING, w')"
    using w1(2) k s(1) s'(1) sel(4) h(4) unfolding request_connect_def start
    by (simp add: dial_begins_def request_connect_finally_def Let_def w'_def w2_def)
  moreover have "dialing f h w'"
    using w1(1,3) s s' h by (simp add: dialing_def conn_idle_def w'_def w2_def)
  moreover have "fds_of w' = insert h (fds_of w1)" using s(3) s'(3) sel(2) by (auto simp: w'_def w2_def)
  ultimately show thesis by (intro that [of w']) (simp_all add: w'_def w2_def)
qed

lemma request_connect_begins:
  assumes w: "conn_idle f i [] [] w" "so_client (cw_conn w) = C_request d" "get_stm w = machine_at st"
      "st \<noteq> REQUEST_CONNECTING" "references (cw_conn w) = 1" "cw_life w = Alive"
    and k: "dial_begins k h (fds_of w)"
  obtains w' where "request_connect k w = Inr (REQUEST_CONNECTING, w')" "dialing f h w'"
    "cw_conn w' = (cw_conn w)\<lparr>origin_fd := h, references := 2\<rparr>" "cw_glob w' = cw_glob w" "cw_out w' = cw_out w"
    "fds_of w' = insert h (fds_of w)"
  by (rule request_connect_from [OF _ _ w(1,5,6) k, of w d]) (use w(2-4) in \<open>simp_all add: get_request_def get_stm_def\<close>)

text \<open>A further attempt: the socket of the previous one is unregistered and closed first.\<close>

lemma request_connect_again:
  assumes w: "dialing f g w" "so_client (cw_conn w) = C_request d" "get_stm w = machine_at REQUEST_CONNECTING"
    and k: "dial_begins k h (fds_of w - {g})"
  obtains w' where "request_connect k w = Inr (REQUEST_CONNECTING, w')" "dialing f h w'"
    "cw_conn w' = (cw_conn w)\<lparr>origin_fd := h\<rparr>" "cw_glob w' = cw_glob w" "cw_out w' = cw_out w @ [Ev_close g]"
    "fds_of w' = insert h (fds_of w - {g})"
proof -
  have g: "sel_inv (cw_sel w)" "interest_of (cw_sel w) g = Some OP_WRITE" "handler_of (cw_sel w) g = Some H_socks5"
    and rest: "origin_fd (cw_conn w) = g" "references (cw_conn w) = 2" "f \<noteq> g" "conn_idle f OP_NOOP [] [] w" "cw_life w = Alive"
    using w(1) by (simp_all add: dialing_def conn_idle_def)
  obtain s where s: "unregister_fd g w = Inr (SELECTOR_SUCCESS, (socks5_destroy w)\<lparr>cw_sel := s\<rparr>)" "sel_inv s"
    "interest_of s = (interest_of (cw_sel w))(g := None)" "handler_of s = (handler_of (cw_sel w))(g := None)"
    by (rule unregister_ok [OF g])
  define w1 where "w1 = emit (Ev_close g) ((upd_conn (\<lambda>c. c\<lparr>references := 1\<rparr>) w)\<lparr>cw_sel := s\<rparr>)"
  have destroy: "socks5_destroy w = upd_conn (\<lambda>c. c\<lparr>references := 1\<rparr>) w"
    using rest(2) by (simp add: socks5_destroy_def)
  have two: "(cw_conn w)\<lparr>origin_fd := h, references := 2\<rparr> = (cw_conn w)\<lparr>origin_fd := h\<rparr>"
    using rest(2) by (cases "cw_conn w") simp
  obtain w' where w': "request_connect k w = Inr (REQUEST_CONNECTING, w')" "dialing f h w'"
    "cw_conn w' = (cw_conn w1)\<lparr>origin_fd := h, references := 2\<rparr>" "cw_glob w' = cw_glob w1" "cw_out w' = cw_out w1"
    "fds_of w' = insert h (fds_of w1)"
  proof (rule request_connect_from [where w = w and ?w1.0 = w1 and f = f and i = OP_NOOP and k = k and h = h and d = d])
    show "conn_idle f OP_NOOP [] [] w1" using rest s by (simp add: conn_idle_def w1_def)
    show "dial_begins k h (fds_of w1)" using k s(3) by (simp add: w1_def dom_fun_upd)
  qed (use w(2,3) rest s(1) destroy in \<open>simp_all add: get_request_def get_stm_def w1_def\<close>)
  show thesis by (rule that [of w']) (use w' two s(3) in \<open>simp_all add: w1_def\<close>)
qed

section \<open>Reading a request\<close>

lemma fresh_request_bufs [simp]: "rs_rb fresh_request = Read_buffer" "rs_wb fresh_request = Write_buffer"
  by (simp_all add: fresh_request_def)

lemma rbind_pair [simp]: "rbind m (\<lambda>(a, b). Inr (a, b)) = m"
  by (cases m) auto

lemma request_read_parsed:
  assumes w: "conn_idle f i [] [] w" "so_client (cw_conn w) = C_request fresh_request"
    and k: "key_fd (fst k) = f" "kr_recv (snd k) = Recv_data (request_message cmd rsv d port)"
    and d: "valid_dest d" "length port = 2"
  obtains b p where "buf_ok b" "buffer_bytes b = []"
    "rp_request p = \<lparr>r_cmd = cmd, r_dest_addr_type = dest_atyp d, r_dest_addr = dest_memory d, r_dest_port = port\<rparr>"
    "request_read k w = request_process k
       (upd_conn (\<lambda>c. c\<lparr>read_buffer := b, so_client := C_request (fresh_request\<lparr>rs_parser := p\<rparr>)\<rparr>)
         (emit (Ev_recv f (request_message cmd rsv d port)) w))"
proof -
  let ?m = "request_message cmd rsv d port"
  have len: "?m \<noteq> []" "length ?m \<le> RAW_BUFFER_SIZE"
    using d by (cases d; simp add: request_message_def RAW_BUFFER_SIZE_def)+
  obtain b where b: "conn_recv k Read_buffer w = Inr (int (length ?m),
      emit (Ev_recv f ?m) (upd_conn (\<lambda>c. c\<lparr>read_buffer := b\<rparr>) w))" "buf_ok b" "buffer_bytes b = ?m"
    by (rule recv_message [OF w(1) k(2) len k(1)])
  obtain p where p: "parse_list request_parser_feed request_fin (rs_parser fresh_request) (Some False) (buffer_bytes b) =
      Inr ([], p, Some False)" "rp_state p = request_done"
    "rp_request p = \<lparr>r_cmd = cmd, r_dest_addr_type = dest_atyp d, r_dest_addr = dest_memory d, r_dest_port = port\<rparr>"
    using request_feed_message [OF d, of request_parser_blank "Some False" cmd rsv "[]"] b(3)
    by (auto simp: fresh_request_def)
  have wf: "wf_buffer b" using b(2) by (simp add: buf_ok_def)
  obtain b' where b': "parse_loop request_parser_feed request_fin b (rs_parser fresh_request) (Some False) =
      Inr (b', p, Some False)" "buffer_bytes b' = []"
    by (rule parse_loop_InrI [OF wf p(1)])
  then have c: "request_consume b (rs_parser fresh_request) (Some False) = Inr (request_done, b', p, Some False)"
    using p(2) by (simp add: request_consume_def)
  have "request_read k w = request_process k
       (upd_conn (\<lambda>c. c\<lparr>read_buffer := b', so_client := C_request (fresh_request\<lparr>rs_parser := p\<rparr>)\<rparr>)
         (emit (Ev_recv f ?m) w))"
    using w(2) b(1) c len(1) by (simp add: request_read_def get_request_def Let_def set_request_def emit_def)
  with that [OF consume_buf_ok(3) [OF c b(2)] b'(2) p(3)] show thesis .
qed

text \<open>The socket address of a numeric destination: family, port in network order, address.\<close>

fun sockaddr_of :: "socks_dest \<Rightarrow> byte list \<Rightarrow> byte list" where
  "sockaddr_of (Dest_ipv4 a) port = AF_INET_bytes @ port @ a @ replicate 8 0"
| "sockaddr_of (Dest_ipv6 a) port = AF_INET6_bytes @ port @ replicate 4 0 @ a @ replicate 4 0"
| "sockaddr_of (Dest_fqdn a) port = []"

fun numeric_dest :: "socks_dest \<Rightarrow> bool" where
  "numeric_dest (Dest_ipv4 a) \<longleftrightarrow> True"
| "numeric_dest (Dest_ipv6 a) \<longleftrightarrow> True"
| "numeric_dest (Dest_fqdn a) \<longleftrightarrow> False"

lemma dest_sockaddr:
  assumes "valid_dest d" "length port = 2"
  shows "d = Dest_ipv4 a \<Longrightarrow> take 16 (overwrite (dest_memory d) 2 port) = sockaddr_of d port"
    "d = Dest_ipv6 a \<Longrightarrow> take 28 (overwrite (dest_memory d) 2 port) = sockaddr_of d port"
  using assms by (simp_all add: overwrite_def AF_INET_bytes_def AF_INET6_bytes_def numeral_eq_Suc)

text \<open>What a request leaves for the later states: its destination type, and the reply still to be chosen.\<close>

definition asked :: "byte \<Rightarrow> cworld \<Rightarrow> bool" where
  "asked ty w \<longleftrightarrow> (\<exists>d. so_client (cw_conn w) = C_request d \<and> rs_wb d = Write_buffer \<and>
     r_dest_addr_type (rp_request (rs_parser d)) = ty)"

lemma request_process_numeric:
  assumes w: "conn_idle f i [] [] w" "so_client (cw_conn w) = C_request rq" "rs_wb rq = Write_buffer"
      "get_stm w = machine_at REQUEST_READ" "references (cw_conn w) = 1" "cw_life w = Alive"
    and rq: "rp_request (rs_parser rq) = \<lparr>r_cmd = socks_req_cmd_connect, r_dest_addr_type = dest_atyp d,
        r_dest_addr = dest_memory d, r_dest_port = port\<rparr>"
    and d: "valid_dest d" "numeric_dest d" "length port = 2"
    and k: "dial_begins k h (fds_of w)"
  obtains w' where "request_process k w = Inr (REQUEST_CONNECTING, w')" "dialing f h w'" "asked (dest_atyp d) w'"
    "take (origin_addr_len (cw_conn w')) (origin_addr (cw_conn w')) = sockaddr_of d port"
    "client_uname (cw_conn w') = client_uname (cw_conn w)" "cw_glob w' = cw_glob w" "cw_out w' = cw_out w"
proof -
  define dm where "dm = (case d of Dest_ipv4 _ \<Rightarrow> AF_INET | _ \<Rightarrow> AF_INET6)"
  define len where "len = (case d of Dest_ipv4 _ \<Rightarrow> sizeof_sockaddr_in | _ \<Rightarrow> sizeof_sockaddr_in6)"
  let ?a = "overwrite (dest_memory d) 2 port"
  define w2 where "w2 = upd_conn (\<lambda>c. c\<lparr>origin_domain := dm, origin_addr_len := len,
      origin_addr := overwrite (origin_addr c) 0 (take len ?a),
      so_client := C_request (rq\<lparr>rs_parser := upd_request (\<lambda>r. r\<lparr>r_dest_addr := ?a\<rparr>) (rs_parser rq)\<rparr>)\<rparr>) w"
  have addr: "take len ?a = sockaddr_of d port" "length (sockaddr_of d port) = len"
    using d dest_sockaddr [OF d(1,3)]
    by (cases d; simp add: len_def sizeof_sockaddr_in_def sizeof_sockaddr_in6_def AF_INET_bytes_def AF_INET6_bytes_def)+
  have "set_origin_addr dm len w = Inr w2"
    using w(2) rq by (simp add: set_origin_addr_def get_request_def set_request_def Let_def w2_def)
  then have run: "request_process k w = request_connect k w2"
    using w(2) rq d(2)
    by (cases d) (simp_all add: request_process_def get_request_def Let_def dm_def len_def addrtype_defs)
  have w2: "conn_idle f i [] [] w2" "get_stm w2 = machine_at REQUEST_READ" "references (cw_conn w2) = 1"
    "cw_life w2 = Alive" "cw_sel w2 = cw_sel w"
    using w by (simp_all add: conn_idle_def w2_def get_stm_def)
  have rq2: "so_client (cw_conn w2) = C_request (rq\<lparr>rs_parser := upd_request (\<lambda>r. r\<lparr>r_dest_addr := ?a\<rparr>) (rs_parser rq)\<rparr>)"
    by (simp add: w2_def)
  obtain w' where w': "request_connect k w2 = Inr (REQUEST_CONNECTING, w')" "dialing f h w'"
    "cw_conn w' = (cw_conn w2)\<lparr>origin_fd := h, references := 2\<rparr>" "cw_glob w' = cw_glob w2" "cw_out w' = cw_out w2"
    by (rule request_connect_begins [OF w2(1) rq2 w2(2) _ w2(3,4)]) (use k w2(5) in \<open>simp_all add: st_defs\<close>)
  moreover have "asked (dest_atyp d) w'" using rq w(3) rq2 by (simp add: asked_def w'(3))
  moreover have "take (origin_addr_len (cw_conn w')) (origin_addr (cw_conn w')) = sockaddr_of d port"
    using addr by (simp add: w'(3) w2_def overwrite_def)
  ultimately show thesis using run by (intro that [of w']) (simp_all add: w2_def)
qed

text \<open>A connection that is about to read its request.\<close>

definition before_request :: "fd \<Rightarrow> cworld \<Rightarrow> bool" where
  "before_request f w \<longleftrightarrow> conn_idle f OP_READ [] [] w \<and> so_client (cw_conn w) = C_request fresh_request \<and>
     get_stm w = machine_at REQUEST_READ \<and> references (cw_conn w) = 1 \<and> origin_fd (cw_conn w) = -1 \<and> cw_life w = Alive"

lemma put_stm_frame [simp]:
  "cw_sel (put_stm m w) = cw_sel w" "cw_glob (put_stm m w) = cw_glob w" "cw_life (put_stm m w) = cw_life w"
  "cw_out (put_stm m w) = cw_out w" "client_uname (cw_conn (put_stm m w)) = client_uname (cw_conn w)"
  "origin_addr (cw_conn (put_stm m w)) = origin_addr (cw_conn w)" "client_fd (cw_conn (put_stm m w)) = client_fd (cw_conn w)"
  "origin_addr_len (cw_conn (put_stm m w)) = origin_addr_len (cw_conn w)" "origin_fd (cw_conn (put_stm m w)) = origin_fd (cw_conn w)"
  "references (cw_conn (put_stm m w)) = references (cw_conn w)" "so_client (cw_conn (put_stm m w)) = so_client (cw_conn w)"
  "so_orig (cw_conn (put_stm m w)) = so_orig (cw_conn w)" "read_buffer (cw_conn (put_stm m w)) = read_buffer (cw_conn w)"
  "write_buffer (cw_conn (put_stm m w)) = write_buffer (cw_conn w)" "bufs_ok (cw_conn (put_stm m w)) = bufs_ok (cw_conn w)"
  by (simp_all add: put_stm_def)

text \<open>The hooks between REQUEST_READ or REQUEST_RESOLV and REQUEST_CONNECTING.\<close>

lemma dialing_upd [simp]:
  "dialing f h (put_stm m w) = dialing f h w" "dialing f h (upd_conn (\<lambda>c. c\<lparr>so_orig := x\<rparr>) w) = dialing f h w"
  "asked ty (put_stm m w) = asked ty w" "asked ty (upd_conn (\<lambda>c. c\<lparr>so_orig := x\<rparr>) w) = asked ty w"
  by (simp_all add: dialing_def conn_idle_def put_stm_def asked_def)

lemma request_read_close_id:
  assumes "asked ty w"
  shows "request_read_close st k w = Inr w"
  using assms by (auto simp: request_read_close_def asked_def get_request_def request_close_def set_request_def)

lemma event_request_numeric:
  assumes w: "before_request f w"
    and k: "key_fd (fst k) = f" "kr_recv (snd k) = Recv_data (request_message socks_req_cmd_connect rsv d port)"
      "dial_begins k h (fds_of w)"
    and d: "valid_dest d" "numeric_dest d" "length port = 2"
  obtains w' where "socksv5_read k w = Inr w'" "get_stm w' = machine_at REQUEST_CONNECTING" "dialing f h w'"
    "so_orig (cw_conn w') = O_conn" "asked (dest_atyp d) w'"
    "take (origin_addr_len (cw_conn w')) (origin_addr (cw_conn w')) = sockaddr_of d port"
    "client_uname (cw_conn w') = client_uname (cw_conn w)" "cw_glob w' = cw_glob w"
    "cw_out w' = cw_out w @ [Ev_recv f (request_message socks_req_cmd_connect rsv d port)]"
proof -
  let ?m = "request_message socks_req_cmd_connect rsv d port"
  note w = w [unfolded before_request_def]
  obtain b p where p: "buf_ok b" "buffer_bytes b = []" "rp_request p = \<lparr>r_cmd = socks_req_cmd_connect,
      r_dest_addr_type = dest_atyp d, r_dest_addr = dest_memory d, r_dest_port = port\<rparr>"
    "request_read k w = request_process k (upd_conn (\<lambda>c. c\<lparr>read_buffer := b,
       so_client := C_request (fresh_request\<lparr>rs_parser := p\<rparr>)\<rparr>) (emit (Ev_recv f ?m) w))"
    by (rule request_read_parsed [OF conjunct1 [OF w] _ k(1,2) d(1,3)]) (use w in simp)
  define w1 where "w1 = upd_conn (\<lambda>c. c\<lparr>read_buffer := b, so_client := C_request (fresh_request\<lparr>rs_parser := p\<rparr>)\<rparr>)
    (emit (Ev_recv f ?m) w)"
  have w1: "conn_idle f OP_READ [] [] w1" "so_client (cw_conn w1) = C_request (fresh_request\<lparr>rs_parser := p\<rparr>)"
    "rs_wb (fresh_request\<lparr>rs_parser := p\<rparr>) = Write_buffer" "get_stm w1 = machine_at REQUEST_READ"
    "references (cw_conn w1) = 1" "cw_life w1 = Alive" "cw_sel w1 = cw_sel w"
    using w p(1,2) by (simp_all add: w1_def conn_idle_def bufs_ok_def get_stm_def)
  obtain w2 where w2: "request_process k w1 = Inr (REQUEST_CONNECTING, w2)" "dialing f h w2" "asked (dest_atyp d) w2"
    "take (origin_addr_len (cw_conn w2)) (origin_addr (cw_conn w2)) = sockaddr_of d port"
    "client_uname (cw_conn w2) = client_uname (cw_conn w1)" "cw_glob w2 = cw_glob w1" "cw_out w2 = cw_out w1"
    by (rule request_process_numeric [OF w1(1-6) _ d]) (use p(3) k(3) w1(7) in simp_all)
  define w' where "w' = upd_conn (\<lambda>c. c\<lparr>so_orig := O_conn\<rparr>) (put_stm (machine_at REQUEST_CONNECTING) w2)"
  have rd: "request_read k w = Inr (REQUEST_CONNECTING, w2)" using p(4) w2(1) by (simp add: w1_def)
  have run: "stm_handler on_read_ready get_stm put_stm client_statbl k w = Inr (REQUEST_CONNECTING, w') \<and>
      get_stm w' = machine_at REQUEST_CONNECTING"
    by (rule stm_step [where f = request_read and i = REQUEST_READ and ?w2.0 = w2 and ?w3.0 = w2])
      (use w rd keeps_stm [OF request_read_keeps [OF rd]] request_read_close_id [OF w2(3)]
        in \<open>simp_all add: no_hooks_def run_hook_def request_connecting_init_def w'_def\<close>)
  have "dialing f h w'" "asked (dest_atyp d) w'" using w2(2,3) by (simp_all add: w'_def)
  moreover have "so_orig (cw_conn w') = O_conn" "origin_addr_len (cw_conn w') = origin_addr_len (cw_conn w2)"
    "origin_addr (cw_conn w') = origin_addr (cw_conn w2)" "client_uname (cw_conn w') = client_uname (cw_conn w2)"
    "cw_glob w' = cw_glob w2" "cw_out w' = cw_out w2"
    by (simp_all add: w'_def put_stm_def)
  ultimately show thesis
    by (intro that [of w']) (use run w2(4-7) in \<open>simp_all add: socksv5_read_def stm_handler_read_def w1_def\<close>)
qed

section \<open>Name resolution\<close>

text \<open>A connection whose name is being resolved: the client is not watched.\<close>

definition resolving :: "fd \<Rightarrow> cworld \<Rightarrow> bool" where
  "resolving f w \<longleftrightarrow> conn_idle f OP_NOOP [] [] w \<and> asked socks_req_addrtype_domain w \<and>
     get_stm w = machine_at REQUEST_RESOLV \<and> references (cw_conn w) = 1 \<and> origin_fd (cw_conn w) = -1 \<and> cw_life w = Alive"

lemma event_request_name:
  assumes w: "before_request f w"
    and k: "key_fd (fst k) = f" "kr_recv (snd k) = Recv_data (request_message socks_req_cmd_connect rsv (Dest_fqdn name) port)"
      "kr_malloc (snd k)" "kr_pthread (snd k) \<noteq> -1"
    and d: "valid_dest (Dest_fqdn name)" "length port = 2"
  obtains w' where "socksv5_read k w = Inr w'" "resolving f w'"
    "client_uname (cw_conn w') = client_uname (cw_conn w)" "cw_glob w' = cw_glob w"
    "cw_out w' = cw_out w @ [Ev_recv f (request_message socks_req_cmd_connect rsv (Dest_fqdn name) port), Ev_thread]"
    "fds_of w' = fds_of w"
proof -
  let ?m = "request_message socks_req_cmd_connect rsv (Dest_fqdn name) port"
  note w = w [unfolded before_request_def]
  obtain b p where p: "buf_ok b" "buffer_bytes b = []" "rp_request p = \<lparr>r_cmd = socks_req_cmd_connect,
      r_dest_addr_type = dest_atyp (Dest_fqdn name), r_dest_addr = dest_memory (Dest_fqdn name), r_dest_port = port\<rparr>"
    "request_read k w = request_process k (upd_conn (\<lambda>c. c\<lparr>read_buffer := b,
       so_client := C_request (fresh_request\<lparr>rs_parser := p\<rparr>)\<rparr>) (emit (Ev_recv f ?m) w))"
    by (rule request_read_parsed [OF conjunct1 [OF w] _ k(1,2) d]) (use w in simp)
  define w1 where "w1 = emit Ev_thread (upd_conn (\<lambda>c. c\<lparr>read_buffer := b,
    so_client := C_request (fresh_request\<lparr>rs_parser := p\<rparr>)\<rparr>) (emit (Ev_recv f ?m) w))"
  obtain s where s: "set_interest_key k OP_NOOP w1 = Inr (SELECTOR_SUCCESS, w1\<lparr>cw_sel := s\<rparr>)" "sel_inv s"
    "interest_of s = (interest_of (cw_sel w1))(key_fd (fst k) \<mapsto> OP_NOOP)" "handler_of s = handler_of (cw_sel w1)"
    by (rule set_interest_key_ok [of w1 k OP_READ OP_NOOP]) (use w k(1) in \<open>simp_all add: conn_idle_def w1_def\<close>)
  define w2 where "w2 = w1\<lparr>cw_sel := s\<rparr>"
  have rd: "request_read k w = Inr (REQUEST_RESOLV, w2)"
    using p(3) k(3,4) s(1) unfolding p(4)
    by (simp add: request_process_def get_request_def Let_def addrtype_defs w1_def w2_def)
  have asked: "asked socks_req_addrtype_domain w2" using p(3) by (simp add: asked_def w2_def w1_def)
  have run: "stm_handler on_read_ready get_stm put_stm client_statbl k w =
      Inr (REQUEST_RESOLV, put_stm (machine_at REQUEST_RESOLV) w2) \<and>
      get_stm (put_stm (machine_at REQUEST_RESOLV) w2) = machine_at REQUEST_RESOLV"
    by (rule stm_step [where f = request_read and i = REQUEST_READ and ?w2.0 = w2 and ?w3.0 = w2])
      (use w rd keeps_stm [OF request_read_keeps [OF rd]] request_read_close_id [OF asked]
        in \<open>simp_all add: no_hooks_def run_hook_def\<close>)
  have "resolving f (put_stm (machine_at REQUEST_RESOLV) w2)"
    using w s k(1) p(1,2) asked run by (simp add: resolving_def conn_idle_def bufs_ok_def w2_def w1_def)
  then show thesis
    by (intro that [of "put_stm (machine_at REQUEST_RESOLV) w2"])
      (use run s(3) w k(1) in \<open>auto simp: socksv5_read_def stm_handler_read_def w2_def w1_def conn_idle_def\<close>)
qed

text \<open>The thread of the resolver: it stores the addresses and queues the wake-up.\<close>

lemma notify_block_sel [simp]:
  "sel_inv (snd (selector_notify_block ok s f)) = sel_inv s"
  "interest_of (snd (selector_notify_block ok s f)) = interest_of s"
  "handler_of (snd (selector_notify_block ok s f)) = handler_of s"
  by (simp_all add: selector_notify_block_def sel_inv_def interest_of_def [abs_def] handler_of_def [abs_def] wants_def sel_item_def)

lemma thread_resolved:
  assumes "resolving f w"
  obtains w' where "request_resolv_blocking (Some ais) ok f w = Inr w'" "resolving f w'"
    "origin_resolution (cw_conn w') = Some ais" "client_uname (cw_conn w') = client_uname (cw_conn w)"
    "cw_glob w' = cw_glob w" "cw_out w' = cw_out w" "fds_of w' = fds_of w"
proof -
  obtain d where d: "get_request (cw_conn w) = Inr d" using assms by (auto simp: resolving_def asked_def get_request_def)
  define w' where "w' = (upd_conn (\<lambda>c. c\<lparr>origin_resolution := Some ais\<rparr>) w)\<lparr>
    cw_sel := snd (selector_notify_block ok (cw_sel w) f)\<rparr>"
  have "request_resolv_blocking (Some ais) ok f w = Inr w'"
    using d by (simp add: request_resolv_blocking_def Let_def w'_def)
  moreover have "resolving f w'" using assms by (simp add: resolving_def conn_idle_def asked_def get_stm_def w'_def)
  ultimately show thesis by (rule that) (simp_all add: w'_def)
qed

text \<open>The wake-up: the first address is dialled.\<close>

definition dialed :: "addrinfo list \<Rightarrow> cworld \<Rightarrow> bool" where
  "dialed ais w \<longleftrightarrow> ais \<noteq> [] \<and> origin_resolution_current (cw_conn w) = Some ais \<and>
     take (origin_addr_len (cw_conn w)) (origin_addr (cw_conn w)) = ai_addr (hd ais)"

lemma event_resolved:
  assumes w: "resolving f w" "origin_resolution (cw_conn w) = Some (a # ais)"
    and k: "dial_begins k h (fds_of w)"
  obtains w' where "socksv5_block k w = Inr w'" "get_stm w' = machine_at REQUEST_CONNECTING" "dialing f h w'"
    "so_orig (cw_conn w') = O_conn" "asked socks_req_addrtype_domain w'" "dialed (a # ais) w'"
    "client_uname (cw_conn w') = client_uname (cw_conn w)" "cw_glob w' = cw_glob w" "cw_out w' = cw_out w"
    "fds_of w' = insert h (fds_of w)"
proof -
  obtain d where d: "so_client (cw_conn w) = C_request d"
    using w(1) by (auto simp: resolving_def asked_def)
  define w1 where "w1 = upd_conn (\<lambda>c. c\<lparr>origin_resolution_current := Some (a # ais), origin_domain := ai_family a,
    origin_addr_len := length (ai_addr a), origin_addr := overwrite (origin_addr c) 0 (ai_addr a)\<rparr>) w"
  have w1: "conn_idle f OP_NOOP [] [] w1" "so_client (cw_conn w1) = C_request d" "get_stm w1 = machine_at REQUEST_RESOLV"
    "references (cw_conn w1) = 1" "cw_life w1 = Alive" "cw_sel w1 = cw_sel w" "asked socks_req_addrtype_domain w1"
    "dialed (a # ais) w1"
    using w(1) d by (simp_all add: w1_def resolving_def conn_idle_def get_stm_def asked_def dialed_def overwrite_def)
  obtain w2 where w2: "request_connect k w1 = Inr (REQUEST_CONNECTING, w2)" "dialing f h w2"
    "cw_conn w2 = (cw_conn w1)\<lparr>origin_fd := h, references := 2\<rparr>" "cw_glob w2 = cw_glob w1" "cw_out w2 = cw_out w1"
    "fds_of w2 = insert h (fds_of w1)"
    by (rule request_connect_begins [OF w1(1-3) _ w1(4,5)]) (use k w1(6) in simp_all)
  have h: "request_resolv_done k w = Inr (REQUEST_CONNECTING, w2)"
    using d w(2) w2(1) by (simp add: request_resolv_done_def get_request_def use_address_def w1_def)
  define w' where "w' = upd_conn (\<lambda>c. c\<lparr>so_orig := O_conn\<rparr>) (put_stm (machine_at REQUEST_CONNECTING) w2)"
  have run: "stm_handler on_block_ready get_stm put_stm client_statbl k w = Inr (REQUEST_CONNECTING, w') \<and>
      get_stm w' = machine_at REQUEST_CONNECTING"
    by (rule stm_step [where f = request_resolv_done and i = REQUEST_RESOLV and ?w2.0 = w2 and ?w3.0 = w2])
      (use w(1) h keeps_stm [OF request_resolv_done_keeps [OF h]]
        in \<open>simp_all add: resolving_def no_hooks_def run_hook_def request_connecting_init_def w'_def\<close>)
  have "dialing f h w'" using w2(2) by (simp add: w'_def)
  moreover have "asked socks_req_addrtype_domain w'" "dialed (a # ais) w'" "so_orig (cw_conn w') = O_conn"
    "client_uname (cw_conn w') = client_uname (cw_conn w1)" "cw_glob w' = cw_glob w1" "cw_out w' = cw_out w1"
    "fds_of w' = insert h (fds_of w1)"
    using w1(7,8) w2(3-6) by (simp_all add: asked_def dialed_def w'_def put_stm_def)
  ultimately show thesis
    by (intro that [of w']) (use run in \<open>simp_all add: socksv5_block_def stm_handler_block_def w1_def\<close>)
qed

section \<open>The outcome\<close>

definition reply_bytes_of :: "socks_response_status \<Rightarrow> byte list" where
  "reply_bytes_of st = [0x05, socks_status_byte st, 0, 1, 0, 0, 0, 0, 0, 0]"

text \<open>The reply with status \<open>st\<close> waits for the client; the origin server is not watched.\<close>

definition replying :: "fd \<Rightarrow> fd \<Rightarrow> socks_response_status \<Rightarrow> cworld \<Rightarrow> bool" where
  "replying f h st w \<longleftrightarrow> conn_idle f OP_WRITE [] (reply_bytes_of st) w \<and> interest_of (cw_sel w) h = Some OP_NOOP \<and>
     handler_of (cw_sel w) h = Some H_socks5 \<and> origin_fd (cw_conn w) = h \<and> f \<noteq> h \<and>
     references (cw_conn w) = 2 \<and> cw_life w = Alive \<and>
     (\<exists>d. so_client (cw_conn w) = C_request d \<and> rs_wb d = Write_buffer \<and> rs_status d = st)"

lemma replying_upd [simp]: "replying f h st (put_stm m w) = replying f h st w"
  by (simp add: replying_def conn_idle_def put_stm_def)

lemma connecting_reply_written:
  assumes w: "dialing f h w" "so_client (cw_conn w) = C_request d" "rs_wb d = Write_buffer" and k: "key_fd (fst k) = h"
  obtains w' where "request_connecting_reply k w = Inr (REQUEST_WRITE, w')" "replying f h (rs_status d) w'"
    "client_uname (cw_conn w') = client_uname (cw_conn w)" "cw_glob w' = cw_glob w" "cw_out w' = cw_out w"
proof -
  define w1 where "w1 = (if r_dest_addr_type (rp_request (rs_parser d)) = socks_req_addrtype_domain
    then upd_conn (\<lambda>c. c\<lparr>origin_resolution := None, origin_resolution_current := None\<rparr>) w else w)"
  have frame: "conn_idle f OP_NOOP [] [] w1" "cw_sel w1 = cw_sel w" "cw_glob w1 = cw_glob w" "cw_life w1 = Alive"
    "cw_out w1 = cw_out w" "client_uname (cw_conn w1) = client_uname (cw_conn w)" "origin_fd (cw_conn w1) = h"
    "references (cw_conn w1) = 2" "so_client (cw_conn w1) = C_request d" "client_fd (cw_conn w1) = f"
    using w by (simp_all add: w1_def dialing_def conn_idle_def)
  have sel: "interest_of (cw_sel w) h = Some OP_WRITE" "handler_of (cw_sel w) h = Some H_socks5" "f \<noteq> h"
    using w(1) by (simp_all add: dialing_def)
  have wb: "buf_ok (write_buffer (cw_conn w1))" "buffer_bytes (write_buffer (cw_conn w1)) = []"
    using frame(1) by (simp_all add: conn_idle_def bufs_ok_def)
  obtain b where b: "request_marshall (write_buffer (cw_conn w1)) (rs_status d) = Inr (10, b)"
    "buffer_bytes b = reply_bytes_of (rs_status d)"
    using request_marshall_ok [of "write_buffer (cw_conn w1)" "rs_status d"] wb buf_ok_space [OF wb]
    by (auto simp: buf_ok_def RAW_BUFFER_SIZE_def reply_bytes_of_def)
  have okb: "buf_ok b" using marshall_buf_ok(3) [OF b(1) wb(1)] .
  define w2 where "w2 = upd_conn (\<lambda>c. c\<lparr>write_buffer := b\<rparr>) w1"
  obtain s where s: "set_interest f OP_WRITE w2 = Inr (SELECTOR_SUCCESS, w2\<lparr>cw_sel := s\<rparr>)" "sel_inv s"
    "interest_of s = (interest_of (cw_sel w2))(f \<mapsto> OP_WRITE)" "handler_of s = handler_of (cw_sel w2)"
    by (rule set_interest_ok [of w2 f OP_NOOP OP_WRITE]) (use frame(1) in \<open>simp_all add: w2_def conn_idle_def\<close>)
  define w3 where "w3 = w2\<lparr>cw_sel := s\<rparr>"
  obtain s' where s': "set_interest_key k OP_NOOP w3 = Inr (SELECTOR_SUCCESS, w3\<lparr>cw_sel := s'\<rparr>)" "sel_inv s'"
    "interest_of s' = (interest_of s)(h \<mapsto> OP_NOOP)" "handler_of s' = handler_of s"
    by (rule set_interest_key_ok [of w3 k OP_WRITE OP_NOOP])
      (use k s frame(2) sel in \<open>simp_all add: w3_def w2_def\<close>)
  have "request_connecting_reply k w = Inr (REQUEST_WRITE, w3\<lparr>cw_sel := s'\<rparr>)"
  proof -
    have "request_connecting_reply k w =
        rbind (set_interest f OP_WRITE w2) (\<lambda>(s1, w2). rbind (set_interest_key k OP_NOOP w2) (\<lambda>(s2, w3).
          Inr (if SELECTOR_SUCCESS = s1 \<and> SELECTOR_SUCCESS = s2 then REQUEST_WRITE else ERROR, w3)))"
      using w(2,3) b(1) frame(10)
      by (simp add: request_connecting_reply_def get_request_def Let_def flip: w1_def) (simp add: w2_def)
    then show ?thesis using s(1) s'(1) by (simp add: w3_def)
  qed
  moreover have "replying f h (rs_status d) (w3\<lparr>cw_sel := s'\<rparr>)"
    using frame s s' b(2) okb sel w(3)
    by (simp add: replying_def conn_idle_def w3_def w2_def bufs_ok_def)
  ultimately show thesis by (rule that) (use frame(3,5,6) in \<open>simp_all add: w3_def w2_def\<close>)
qed

text \<open>What \<open>getsockopt (SO_ERROR)\<close> reports decides the reply.\<close>

definition outcome_status :: "int option \<Rightarrow> socks_response_status" where
  "outcome_status r =
     (case r of None \<Rightarrow> status_general_SOCKS_server_failure
      | Some e \<Rightarrow> if e = 0 then status_succeeded else errno_to_socks e)"

text \<open>There is no other address to try: the destination was numeric, or this is the last address.\<close>

definition last_address :: "cworld \<Rightarrow> bool" where
  "last_address w \<longleftrightarrow> \<not> asked socks_req_addrtype_domain w \<or> (\<exists>a. origin_resolution_current (cw_conn w) = Some [a])"

lemma numeric_last: "asked (dest_atyp d) w \<Longrightarrow> numeric_dest d \<Longrightarrow> last_address w"
  by (cases d) (auto simp: last_address_def asked_def addrtype_defs)

lemma event_outcome:
  assumes w: "get_stm w = machine_at REQUEST_CONNECTING" "dialing f h w" "so_orig (cw_conn w) = O_conn" "asked ty w"
      "last_address w \<or> kr_sockopt (snd k) = Some 0 \<or> kr_sockopt (snd k) = None"
    and k: "key_fd (fst k) = h"
  obtains w' where "socksv5_write k w = Inr w'" "get_stm w' = machine_at REQUEST_WRITE"
    "replying f h (outcome_status (kr_sockopt (snd k))) w'"
    "client_uname (cw_conn w') = client_uname (cw_conn w)" "cw_glob w' = cw_glob w" "cw_out w' = cw_out w"
proof -
  let ?st = "outcome_status (kr_sockopt (snd k))"
  obtain d where d: "so_client (cw_conn w) = C_request d" "rs_wb d = Write_buffer"
    using w(4) by (auto simp: asked_def)
  define w1 where "w1 = set_request (d\<lparr>rs_status := ?st\<rparr>) w"
  have h: "origin_fd (cw_conn w) = h" using w(2) by (simp add: dialing_def)
  have w1: "dialing f h w1" "so_client (cw_conn w1) = C_request (d\<lparr>rs_status := ?st\<rparr>)"
    "rs_wb (d\<lparr>rs_status := ?st\<rparr>) = Write_buffer"
    using w(2) d(2) by (simp_all add: w1_def set_request_def dialing_def conn_idle_def)
  have same: "upd_conn (\<lambda>c. c\<lparr>origin_fd := h\<rparr>) w1 = w1" using h by (simp add: w1_def set_request_def)
  have more: "r_dest_addr_type (rp_request (rs_parser d)) = socks_req_addrtype_domain \<Longrightarrow>
      next_address (cw_conn w) = Inr []" if "last_address w"
    using that d(1,2) by (auto simp: last_address_def asked_def next_address_def)
  have step: "request_connecting k w = request_connecting_reply k w1"
    using w(3,5) d k more same
    by (auto simp: request_connecting_def get_conn_def get_request_def outcome_status_def Let_def w1_def
        split: option.split)
  obtain w2 where w2: "request_connecting_reply k w1 = Inr (REQUEST_WRITE, w2)" "replying f h ?st w2"
    "client_uname (cw_conn w2) = client_uname (cw_conn w1)" "cw_glob w2 = cw_glob w1" "cw_out w2 = cw_out w1"
    by (rule connecting_reply_written [OF w1 k]) simp
  have run: "stm_handler on_write_ready get_stm put_stm client_statbl k w =
      Inr (REQUEST_WRITE, put_stm (machine_at REQUEST_WRITE) w2) \<and>
      get_stm (put_stm (machine_at REQUEST_WRITE) w2) = machine_at REQUEST_WRITE"
    by (rule stm_step [OF w(1), where f = request_connecting and ?w2.0 = w2 and ?w3.0 = w2])
      (use step w2(1) keeps_stm [OF request_connecting_keeps, of k w REQUEST_WRITE w2]
        in \<open>simp_all add: no_hooks_def run_hook_def\<close>)
  show thesis
    by (rule that [of "put_stm (machine_at REQUEST_WRITE) w2"])
      (use run w2 in \<open>simp_all add: socksv5_write_def stm_handler_write_def w1_def set_request_def\<close>)
qed

lemma event_connected:
  assumes w: "get_stm w = machine_at REQUEST_CONNECTING" "dialing f h w" "so_orig (cw_conn w) = O_conn" "asked ty w"
    and k: "key_fd (fst k) = h" "kr_sockopt (snd k) = Some 0"
  obtains w' where "socksv5_write k w = Inr w'" "get_stm w' = machine_at REQUEST_WRITE" "replying f h status_succeeded w'"
    "client_uname (cw_conn w') = client_uname (cw_conn w)" "cw_glob w' = cw_glob w" "cw_out w' = cw_out w"
  by (rule event_outcome [OF w _ k(1)]) (use k(2) in \<open>simp_all add: outcome_status_def\<close>)

text \<open>An address that refuses is followed by the next one.\<close>

lemma stm_stay:
  assumes "get_stm w = machine_at i" "i \<le> ERROR" "ready (client_statbl ! i) = Some f" "f k w = Inr (i, w')" "get_stm w' = get_stm w"
  shows "stm_handler ready get_stm put_stm client_statbl k w = Inr (i, w')"
  using assms by (simp add: stm_handler_def handle_first_def s5.table_at jump_def leave_state_def Let_def)

lemma event_next_address:
  assumes w: "get_stm w = machine_at REQUEST_CONNECTING" "dialing f g w" "so_orig (cw_conn w) = O_conn"
      "asked socks_req_addrtype_domain w" "dialed (a # b # ais) w"
    and k: "key_fd (fst k) = g" "kr_sockopt (snd k) = Some e" "e \<noteq> 0"
      "dial_begins k h (fds_of w - {g})"
  obtains w' where "socksv5_write k w = Inr w'" "get_stm w' = machine_at REQUEST_CONNECTING" "dialing f h w'"
    "so_orig (cw_conn w') = O_conn" "asked socks_req_addrtype_domain w'" "dialed (b # ais) w'"
    "client_uname (cw_conn w') = client_uname (cw_conn w)" "cw_glob w' = cw_glob w" "cw_out w' = cw_out w @ [Ev_close g]"
    "fds_of w' = insert h (fds_of w - {g})"
proof -
  obtain d where d: "so_client (cw_conn w) = C_request d"
    "r_dest_addr_type (rp_request (rs_parser d)) = socks_req_addrtype_domain"
    using w(4) by (auto simp: asked_def)
  define w1 where "w1 = upd_conn (\<lambda>c. c\<lparr>origin_resolution_current := Some (b # ais), origin_domain := ai_family b,
    origin_addr_len := length (ai_addr b), origin_addr := overwrite (origin_addr c) 0 (ai_addr b)\<rparr>) w"
  have w1: "dialing f g w1" "so_client (cw_conn w1) = C_request d" "get_stm w1 = machine_at REQUEST_CONNECTING"
    "cw_sel w1 = cw_sel w" "asked socks_req_addrtype_domain w1" "dialed (b # ais) w1" "so_orig (cw_conn w1) = O_conn"
    using w d(1) by (simp_all add: w1_def dialing_def conn_idle_def get_stm_def asked_def dialed_def overwrite_def)
  obtain w' where w': "request_connect k w1 = Inr (REQUEST_CONNECTING, w')" "dialing f h w'"
    "cw_conn w' = (cw_conn w1)\<lparr>origin_fd := h\<rparr>" "cw_glob w' = cw_glob w1" "cw_out w' = cw_out w1 @ [Ev_close g]"
    "fds_of w' = insert h (fds_of w1 - {g})"
    by (rule request_connect_again [OF w1(1-3)]) (use k(4) w1(4) in simp_all)
  have h: "request_connecting k w = Inr (REQUEST_CONNECTING, w')"
    using d w(3,5) w'(1) k(2,3)
    by (simp add: request_connecting_def get_conn_def get_request_def dialed_def next_address_def use_address_def w1_def)
  have run: "stm_handler on_write_ready get_stm put_stm client_statbl k w = Inr (REQUEST_CONNECTING, w')"
    by (rule stm_stay [OF w(1), where f = request_connecting])
      (use h keeps_stm [OF request_connecting_keeps [OF h]] in \<open>simp_all add: no_hooks_def\<close>)
  show thesis
    by (rule that [of w'])
      (use run w' w1 in \<open>simp_all add: socksv5_write_def stm_handler_write_def get_stm_def asked_def dialed_def\<close>,
       simp_all add: w1_def)
qed

section \<open>The reply\<close>

lemma request_write_drain:
  assumes w: "replying f h st w" and k: "key_fd (fst k) = f" "kr_send (snd k) = Send_ok n" "10 \<le> n"
  defines "ok \<equiv> st = status_succeeded"
  obtains w' where "request_write k w = Inr (if ok then COPY else ERROR, w')"
    "conn_idle f (if ok then OP_READ else OP_NOOP) [] [] w'"
    "interest_of (cw_sel w') h = Some (if ok then OP_READ else OP_NOOP)" "handler_of (cw_sel w') h = Some H_socks5"
    "origin_fd (cw_conn w') = h" "references (cw_conn w') = 2" "cw_life w' = Alive"
    "cw_out w' = cw_out w @ [Ev_send f (reply_bytes_of st), Ev_log_request st (client_uname (cw_conn w))]"
    "client_uname (cw_conn w') = client_uname (cw_conn w)"
    "cw_glob w' = (if ok then (cw_glob w)\<lparr>historic_connections := historic_connections (cw_glob w) + 1,
       current_connections := current_connections (cw_glob w) + 1\<rparr> else cw_glob w)"
proof -
  obtain d where d: "so_client (cw_conn w) = C_request d" "rs_wb d = Write_buffer" "rs_status d = st"
    and idle: "conn_idle f OP_WRITE [] (reply_bytes_of st) w" and h: "f \<noteq> h" "origin_fd (cw_conn w) = h"
      "interest_of (cw_sel w) h = Some OP_NOOP" "handler_of (cw_sel w) h = Some H_socks5"
    and rest: "references (cw_conn w) = 2" "cw_life w = Alive"
    using w by (auto simp: replying_def)
  have len: "length (reply_bytes_of st) \<le> n" using k(3) by (simp add: reply_bytes_of_def)
  obtain b where b: "conn_send k Write_buffer w = Inr (int (length (reply_bytes_of st)), reply_bytes_of st,
      emit (Ev_send f (reply_bytes_of st)) w)"
    "buffer_read_adv (write_buffer (cw_conn w)) (int (length (reply_bytes_of st))) = Inr b" "buf_ok b"
    "buffer_bytes b = []" "\<not> buffer_can_read b"
    by (rule send_all [OF idle k(2) len k(1)])
  let ?i = "if ok then OP_READ else OP_NOOP"
  define w2 where "w2 = upd_conn (\<lambda>c. c\<lparr>write_buffer := b\<rparr>) (emit (Ev_send f (reply_bytes_of st)) w)"
  have f: "client_fd (cw_conn w) = f" using idle by (simp add: conn_idle_def)
  obtain s where s: "set_interest f ?i w2 = Inr (SELECTOR_SUCCESS, w2\<lparr>cw_sel := s\<rparr>)" "sel_inv s"
    "interest_of s = (interest_of (cw_sel w))(f \<mapsto> ?i)" "handler_of s = handler_of (cw_sel w)"
    by (rule set_interest_ok [of w2 f OP_WRITE ?i]) (use idle in \<open>simp_all add: w2_def conn_idle_def\<close>)
  define w3 where "w3 = w2\<lparr>cw_sel := s\<rparr>"
  obtain s' where s': "set_interest h ?i w3 = Inr (SELECTOR_SUCCESS, w3\<lparr>cw_sel := s'\<rparr>)" "sel_inv s'"
    "interest_of s' = (interest_of s)(h \<mapsto> ?i)" "handler_of s' = handler_of s"
    by (rule set_interest_ok [of w3 h OP_NOOP ?i]) (use h s in \<open>simp_all add: w3_def\<close>)
  define w4 where "w4 = w3\<lparr>cw_sel := s'\<rparr>"
  define r where "r = rp_request (rs_parser d)"
  define w5 where "w5 = (if ok then upd_glob (\<lambda>g. g\<lparr>historic_connections := historic_connections g + 1,
      current_connections := current_connections g + 1\<rparr>)
      (upd_conn (\<lambda>c. c\<lparr>dest_addr := r_dest_addr r, dest_addr_type := r_dest_addr_type r\<rparr>) w4) else w4)"
  have fds: "client_fd (cw_conn w2) = f" "origin_fd (cw_conn w3) = h" "h \<noteq> -1"
    using f h interest_of_range [of "cw_sel w" h] idle by (auto simp: w3_def w2_def conn_idle_def)
  have run: "request_write k w = Inr (if ok then COPY else ERROR, emit (Ev_log_request st (client_uname (cw_conn w))) w5)"
  proof -
    have 1: "request_write k w = rbind
        (if st = status_succeeded then
           rbind (set_interest f OP_READ w2) (\<lambda>(_, w3). rbind (set_interest (origin_fd (cw_conn w3)) OP_READ w3) (\<lambda>(_, w4).
             Inr (COPY, upd_glob (\<lambda>g. g\<lparr>historic_connections := historic_connections g + 1,
                 current_connections := current_connections g + 1\<rparr>)
               (upd_conn (\<lambda>c. c\<lparr>dest_addr := r_dest_addr r, dest_addr_type := r_dest_addr_type r\<rparr>) w4))))
         else rbind (set_interest f OP_NOOP w2) (\<lambda>(_, w3). rbind
             (if -1 \<noteq> origin_fd (cw_conn w3) then set_interest (origin_fd (cw_conn w3)) OP_NOOP w3
              else Inr (SELECTOR_SUCCESS, w3)) (\<lambda>(_, w4). Inr (ERROR, w4))))
        (\<lambda>(ret, w6). Inr (ret, emit (Ev_log_request st (client_uname (cw_conn w6))) w6))"
      using d b f
      by (simp add: request_write_def get_request_def Let_def r_def w2_def emit_def cong: if_cong)
    show ?thesis
    proof (cases ok)
      case True
      then have "set_interest f OP_READ w2 = Inr (SELECTOR_SUCCESS, w3)" "set_interest h OP_READ w3 = Inr (SELECTOR_SUCCESS, w4)"
        using s(1) s'(1) by (simp_all add: w3_def w4_def)
      with True fds show ?thesis by (simp add: 1 ok_def w5_def) (simp add: w4_def w3_def w2_def)
    next
      case False
      then have "set_interest f OP_NOOP w2 = Inr (SELECTOR_SUCCESS, w3)" "set_interest h OP_NOOP w3 = Inr (SELECTOR_SUCCESS, w4)"
        using s(1) s'(1) by (simp_all add: w3_def w4_def)
      with False fds show ?thesis by (simp add: 1 ok_def w5_def) (simp add: w4_def w3_def w2_def)
    qed
  qed
  have "conn_idle f ?i [] [] (emit (Ev_log_request st (client_uname (cw_conn w))) w5)"
    using idle s s' h b by (simp add: conn_idle_def w5_def w4_def w3_def w2_def bufs_ok_def)
  with run show thesis
    by (rule that) (use s s' h rest in \<open>simp_all add: w5_def w4_def w3_def w2_def\<close>)
qed

text \<open>A connection that relays in both directions and has nothing buffered.\<close>

definition relaying :: "fd \<Rightarrow> fd \<Rightarrow> cworld \<Rightarrow> bool" where
  "relaying f h w \<longleftrightarrow> get_stm w = machine_at COPY \<and> conn_idle f OP_READ [] [] w \<and>
     interest_of (cw_sel w) h = Some OP_READ \<and> handler_of (cw_sel w) h = Some H_socks5 \<and> origin_fd (cw_conn w) = h \<and>
     f \<noteq> h \<and> references (cw_conn w) = 2 \<and> cw_life w = Alive \<and>
     so_client (cw_conn w) = C_copy \<lparr>cp_fd = Client_fd, cp_rb = Read_buffer, cp_wb = Write_buffer,
       cp_duplex = OP_READ OR OP_WRITE, cp_other = Origin_side\<rparr> \<and>
     so_orig (cw_conn w) = O_copy \<lparr>cp_fd = Origin_fd, cp_rb = Write_buffer, cp_wb = Read_buffer,
       cp_duplex = OP_READ OR OP_WRITE, cp_other = Client_side\<rparr>"

lemma event_reply_succeeded:
  assumes w: "get_stm w = machine_at REQUEST_WRITE" "replying f h status_succeeded w"
    and k: "key_fd (fst k) = f" "kr_send (snd k) = Send_ok n" "10 \<le> n"
  obtains w' where "socksv5_write k w = Inr w'" "relaying f h w'"
    "cw_out w' = cw_out w @ [Ev_send f (reply_bytes_of status_succeeded),
       Ev_log_request status_succeeded (client_uname (cw_conn w))]"
    "client_uname (cw_conn w') = client_uname (cw_conn w)"
    "cw_glob w' = (cw_glob w)\<lparr>historic_connections := historic_connections (cw_glob w) + 1,
       current_connections := current_connections (cw_glob w) + 1\<rparr>"
proof -
  obtain w2 where w2: "request_write k w = Inr (COPY, w2)" "conn_idle f OP_READ [] [] w2"
    "interest_of (cw_sel w2) h = Some OP_READ" "handler_of (cw_sel w2) h = Some H_socks5"
    "origin_fd (cw_conn w2) = h" "references (cw_conn w2) = 2" "cw_life w2 = Alive"
    "cw_out w2 = cw_out w @ [Ev_send f (reply_bytes_of status_succeeded),
       Ev_log_request status_succeeded (client_uname (cw_conn w))]"
    "client_uname (cw_conn w2) = client_uname (cw_conn w)"
    "cw_glob w2 = (cw_glob w)\<lparr>historic_connections := historic_connections (cw_glob w) + 1,
       current_connections := current_connections (cw_glob w) + 1\<rparr>"
    by (rule request_write_drain [OF w(2) k]) simp_all
  define w3 where "w3 = put_stm (machine_at COPY) w2"
  obtain w' where w': "copy_init COPY k w3 = Inr w'" by (simp add: copy_init_def)
  have run: "stm_handler on_write_ready get_stm put_stm client_statbl k w = Inr (COPY, w') \<and> get_stm w' = machine_at COPY"
    by (rule stm_step [OF w(1), where f = request_write and ?w2.0 = w2 and ?w3.0 = w2])
      (use w2(1) w' keeps_stm [OF request_write_keeps [OF w2(1)]] in \<open>simp_all add: no_hooks_def run_hook_def w3_def\<close>)
  have "relaying f h w'"
    using run w' w2(2-7) w(2) by (auto simp: relaying_def copy_init_def conn_idle_def replying_def w3_def)
  moreover have "cw_out w' = cw_out w3" "client_uname (cw_conn w') = client_uname (cw_conn w3)" "cw_glob w' = cw_glob w3"
    using w' by (auto simp: copy_init_def)
  ultimately show thesis
    by (intro that [of w']) (use run w2(8-10) in \<open>simp_all add: socksv5_write_def stm_handler_write_def w3_def\<close>)
qed

lemma event_reply_failed:
  assumes w: "get_stm w = machine_at REQUEST_WRITE" "replying f h st w" "st \<noteq> status_succeeded"
    and k: "key_fd (fst k) = f" "kr_send (snd k) = Send_ok n" "10 \<le> n"
  obtains w' where "socksv5_write k w = Inr w'" "cw_life w' \<noteq> Alive"
    "cw_out w' = cw_out w @ [Ev_send f (reply_bytes_of st), Ev_log_request st (client_uname (cw_conn w)),
       Ev_close f, Ev_close h]"
    "interest_of (cw_sel w') f = None" "interest_of (cw_sel w') h = None" "sel_inv (cw_sel w')"
proof -
  obtain w2 where w2: "request_write k w = Inr (ERROR, w2)" "conn_idle f OP_NOOP [] [] w2"
    "interest_of (cw_sel w2) h = Some OP_NOOP" "handler_of (cw_sel w2) h = Some H_socks5"
    "origin_fd (cw_conn w2) = h" "references (cw_conn w2) = 2"
    "cw_out w2 = cw_out w @ [Ev_send f (reply_bytes_of st), Ev_log_request st (client_uname (cw_conn w))]"
    by (rule request_write_drain [OF w(2) k]) (use w(3) in simp_all)
  define w3 where "w3 = put_stm (machine_at ERROR) w2"
  have run: "stm_handler on_write_ready get_stm put_stm client_statbl k w = Inr (ERROR, w3) \<and> get_stm w3 = machine_at ERROR"
    by (rule stm_step [OF w(1), where f = request_write and ?w2.0 = w2 and ?w3.0 = w2])
      (use w2(1) keeps_stm [OF request_write_keeps [OF w2(1)]] in \<open>simp_all add: no_hooks_def run_hook_def w3_def\<close>)
  have w3: "sel_inv (cw_sel w3)" "interest_of (cw_sel w3) (client_fd (cw_conn w3)) = Some OP_NOOP"
    "interest_of (cw_sel w3) (origin_fd (cw_conn w3)) = Some OP_NOOP"
    "handler_of (cw_sel w3) (client_fd (cw_conn w3)) = Some H_socks5"
    "handler_of (cw_sel w3) (origin_fd (cw_conn w3)) = Some H_socks5"
    "client_fd (cw_conn w3) \<noteq> origin_fd (cw_conn w3)" "references (cw_conn w3) = 2"
    "client_fd (cw_conn w3) = f" "origin_fd (cw_conn w3) = h"
    using w2(2-6) w(2) by (auto simp: w3_def conn_idle_def replying_def)
  obtain w' where w': "socksv5_done k w3 = Inr w'" "cw_out w' = cw_out w3 @ [Ev_close f, Ev_close h]" "cw_life w' \<noteq> Alive"
    "sel_inv (cw_sel w')" "interest_of (cw_sel w') = (interest_of (cw_sel w3))(f := None, h := None)"
    by (rule done_both [OF w3(1-7), where k = k, unfolded w3(8,9)])
  show thesis
    by (rule that [of w'])
      (use run w' w2(7) in \<open>simp_all add: socksv5_write_def stm_handler_write_def socksv5_finish_def w3_def\<close>)
qed

section \<open>Sequences of events\<close>

datatype conn_event = On_read ckey | On_write ckey | On_block ckey | Resolver "addrinfo list option" bool fd

fun conn_step :: "conn_event \<Rightarrow> cworld \<Rightarrow> cworld res" where
  "conn_step (On_read k) w = socksv5_read k w"
| "conn_step (On_write k) w = socksv5_write k w"
| "conn_step (On_block k) w = socksv5_block k w"
| "conn_step (Resolver ais ok f) w = request_resolv_blocking ais ok f w"

fun run_events :: "conn_event list \<Rightarrow> cworld \<Rightarrow> cworld res" where
  "run_events [] w = Inr w"
| "run_events (e # es) w = rbind (conn_step e w) (run_events es)"

lemma run_events_append: "run_events (es @ es') w = rbind (run_events es w) (run_events es')"
proof (induction es arbitrary: w)
  case (Cons e es)
  then show ?case by (cases "conn_step e w") simp_all
qed simp

text \<open>Failed attempts one after another: each key reports an error on the descriptor of the attempt
  before it and the kernel gives the next attempt another descriptor.\<close>

fun attempts :: "fd \<Rightarrow> (ckey \<times> fd) list \<Rightarrow> fd set \<Rightarrow> bool" where
  "attempts g [] used \<longleftrightarrow> True"
| "attempts g ((k, h) # ts) used \<longleftrightarrow>
     key_fd (fst k) = g \<and> (\<exists>e. kr_sockopt (snd k) = Some e \<and> e \<noteq> 0) \<and> dial_begins k h (used - {g}) \<and>
     attempts h ts (insert h (used - {g}))"

definition awaiting :: "fd \<Rightarrow> fd \<Rightarrow> addrinfo list \<Rightarrow> cworld \<Rightarrow> bool" where
  "awaiting f h ais w \<longleftrightarrow> get_stm w = machine_at REQUEST_CONNECTING \<and> dialing f h w \<and> so_orig (cw_conn w) = O_conn \<and>
     asked socks_req_addrtype_domain w \<and> dialed ais w"

lemma event_awaited:
  assumes "awaiting f h ais w" "key_fd (fst k) = h" "kr_sockopt (snd k) = Some 0"
  obtains w' where "socksv5_write k w = Inr w'" "get_stm w' = machine_at REQUEST_WRITE" "replying f h status_succeeded w'"
    "client_uname (cw_conn w') = client_uname (cw_conn w)" "cw_glob w' = cw_glob w" "cw_out w' = cw_out w"
  by (rule event_connected [OF _ _ _ _ assms(2,3)]) (use assms(1) in \<open>unfold awaiting_def, blast+\<close>)

lemma failover:
  assumes "awaiting f g (pre @ a # post) w" "length pre = length ts" "attempts g ts (fds_of w)"
  shows "\<exists>w'. run_events (map (\<lambda>t. On_write (fst t)) ts) w = Inr w' \<and> awaiting f (last (g # map snd ts)) (a # post) w' \<and>
     client_uname (cw_conn w') = client_uname (cw_conn w) \<and> cw_glob w' = cw_glob w \<and>
     cw_out w' = cw_out w @ map Ev_close (butlast (g # map snd ts))"
  using assms
proof (induction ts arbitrary: pre g w)
  case (Cons t ts)
  obtain k h where t: "t = (k, h)" by (cases t)
  obtain b pre' where pre: "pre = b # pre'" "length pre' = length ts" using Cons.prems(2) by (cases pre) auto
  obtain c rest where next_one: "pre' @ a # post = c # rest" by (cases pre') auto
  have st: "get_stm w = machine_at REQUEST_CONNECTING" "dialing f g w" "so_orig (cw_conn w) = O_conn"
    "asked socks_req_addrtype_domain w" "dialed (b # c # rest) w"
    using Cons.prems(1) pre next_one by (simp_all add: awaiting_def)
  obtain e where k: "key_fd (fst k) = g" "kr_sockopt (snd k) = Some e" "e \<noteq> 0" "dial_begins k h (fds_of w - {g})"
    "attempts h ts (insert h (fds_of w - {g}))"
    using Cons.prems(3) by (auto simp: t)
  obtain w1 where w1: "socksv5_write k w = Inr w1" "get_stm w1 = machine_at REQUEST_CONNECTING" "dialing f h w1"
    "so_orig (cw_conn w1) = O_conn" "asked socks_req_addrtype_domain w1" "dialed (c # rest) w1"
    "client_uname (cw_conn w1) = client_uname (cw_conn w)" "cw_glob w1 = cw_glob w" "cw_out w1 = cw_out w @ [Ev_close g]"
    "fds_of w1 = insert h (fds_of w - {g})"
    by (rule event_next_address [OF st k(1-4)])
  have "awaiting f h (pre' @ a # post) w1" using w1(2-6) next_one by (simp add: awaiting_def)
  moreover have "attempts h ts (fds_of w1)" using k(5) w1(10) by simp
  ultimately obtain w' where
    "run_events (map (\<lambda>t. On_write (fst t)) ts) w1 = Inr w'" "awaiting f (last (h # map snd ts)) (a # post) w'"
    "client_uname (cw_conn w') = client_uname (cw_conn w1)" "cw_glob w' = cw_glob w1"
    "cw_out w' = cw_out w1 @ map Ev_close (butlast (h # map snd ts))"
    using Cons.IH [OF _ pre(2)] by blast
  with w1 show ?case by (intro exI [of _ w']) (simp add: t)
qed (auto intro: exI)

text \<open>The client of \<open>demo_session\<close> in a server where no other descriptor is registered.\<close>

lemma demo_before_request:
  obtains w where "reach w" "before_request 3 w" "fds_of w = {3}"
proof -
  obtain w where w: "reach w" "is_auth_on (cw_glob w)" "get_stm w = machine_at REQUEST_READ" "conn_idle 3 OP_READ [] [] w"
    "so_client (cw_conn w) = C_request fresh_request" "origin_fd (cw_conn w) = -1" "references (cw_conn w) = 1"
    "cw_life w = Alive"
    by (rule demo_session)
  obtain s0 :: selector where s0: "sel_inv s0" "interest_of s0 = Map.empty" "4 < fd_size s0" by (rule new_selector)
  obtain s :: selector where s: "sel_inv s" "interest_of s = [3 \<mapsto> OP_READ]" "handler_of s 3 = Some H_socks5"
    using selector_register_ok [OF s0(1), of 3 True H_socks5 OP_READ "Some 0"] s0(2,3) by auto
  have "reach (w\<lparr>cw_sel := s, cw_glob := cw_glob w\<rparr>)" using w(1) by (rule reach_env)
  moreover have "before_request 3 (w\<lparr>cw_sel := s, cw_glob := cw_glob w\<rparr>)"
    using w s by (simp add: before_request_def conn_idle_def get_stm_def)
  ultimately show thesis by (rule that) (simp add: s)
qed

lemma demo_dial: "4 \<notin> used \<Longrightarrow> dial_begins (demo_key f r s) 4 used"
  by (simp add: demo_key_def dial_begins_def selector_fd_set_nio_def)

lemma demo_sockopt: "kr_sockopt (snd (demo_key f r s)) = Some 0"
  by (simp add: demo_key_def)

definition failing_key :: "fd \<Rightarrow> int \<Rightarrow> ckey" where
  "failing_key f e = (fst (demo_key f Recv_err Send_err), (snd (demo_key f Recv_err Send_err))\<lparr>kr_sockopt := Some e\<rparr>)"

end
