(* ===== verification/Forward.thy ===== *)
theory Forward
  imports Dial
begin

text \<open>
  The COPY state event by event: what one read, one write and one end of stream do to a connection that
  relays in both directions.
\<close>

section \<open>A relaying connection\<close>

fun other_side :: "side \<Rightarrow> side" where
  "other_side Client_side = Origin_side"
| "other_side Origin_side = Client_side"

text \<open>The buffer an end reads into; the other end writes from it.\<close>

fun in_buf :: "side \<Rightarrow> bufref" where
  "in_buf Client_side = Read_buffer"
| "in_buf Origin_side = Write_buffer"

fun end_fd :: "side \<Rightarrow> fdref" where
  "end_fd Client_side = Client_fd"
| "end_fd Origin_side = Origin_fd"

definition copy_end :: "side \<Rightarrow> copy" where
  "copy_end sd = \<lparr>cp_fd = end_fd sd, cp_rb = in_buf sd, cp_wb = in_buf (other_side sd),
     cp_duplex = OP_READ OR OP_WRITE, cp_other = other_side sd\<rparr>"

abbreviation fd_at :: "side \<Rightarrow> cworld \<Rightarrow> fd" where
  "fd_at sd w \<equiv> get_fd (end_fd sd) (cw_conn w)"

abbreviation held :: "side \<Rightarrow> cworld \<Rightarrow> byte list" where
  "held sd w \<equiv> buffer_bytes (get_buf (in_buf sd) (cw_conn w))"

definition same_fds :: "cworld \<Rightarrow> cworld \<Rightarrow> bool" where
  "same_fds w w' \<longleftrightarrow> client_fd (cw_conn w') = client_fd (cw_conn w) \<and> origin_fd (cw_conn w') = origin_fd (cw_conn w)"

lemma same_fds_at: "same_fds w w' \<Longrightarrow> fd_at x w' = fd_at x w"
  by (cases x) (simp_all add: same_fds_def)

text \<open>What an end is watched for: reading while its buffer has room, writing while the other end has
  left something.\<close>

abbreviation watch_of :: "side \<Rightarrow> cworld \<Rightarrow> fd_interest" where
  "watch_of sd w \<equiv> copy_interests (copy_end sd) (cw_conn w)"

definition pumping :: "cworld \<Rightarrow> bool" where
  "pumping w \<longleftrightarrow> get_stm w = machine_at COPY \<and> sel_inv (cw_sel w) \<and> bufs_ok (cw_conn w) \<and>
     fd_at Client_side w \<noteq> fd_at Origin_side w \<and> references (cw_conn w) = 2 \<and> cw_life w = Alive \<and>
     (\<forall>sd. get_copy sd (cw_conn w) = Inr (copy_end sd) \<and> interest_of (cw_sel w) (fd_at sd w) = Some (watch_of sd w) \<and>
        handler_of (cw_sel w) (fd_at sd w) = Some H_socks5)"

lemma other_other [simp]: "other_side (other_side sd) = sd"
  by (cases sd) simp_all

lemma other_neq [simp]: "other_side sd \<noteq> sd" "sd \<noteq> other_side sd"
  by (cases sd; simp)+

lemma copy_end_simps [simp]:
  "cp_fd (copy_end sd) = end_fd sd" "cp_rb (copy_end sd) = in_buf sd" "cp_wb (copy_end sd) = in_buf (other_side sd)"
  "cp_duplex (copy_end sd) = OP_READ OR OP_WRITE" "cp_other (copy_end sd) = other_side sd"
  by (simp_all add: copy_end_def)

lemma side_all: "(\<forall>sd. P sd) \<longleftrightarrow> P Client_side \<and> P Origin_side"
  by (metis side.exhaust)

lemma duplex_simps [simp]:
  "(OP_READ OR OP_WRITE) AND OP_READ \<noteq> 0" "(OP_READ OR OP_WRITE) AND OP_WRITE \<noteq> 0" "OP_READ OR OP_WRITE \<noteq> OP_NOOP"
  by (simp_all add: op_defs)

lemma empty_buffer: "buf_ok b \<Longrightarrow> buffer_bytes b = [] \<Longrightarrow> buffer_can_write b \<and> \<not> buffer_can_read b"
  using buf_ok_space [of b] by (simp add: buffer_can_write_iff buffer_can_read_iff buf_ok_def RAW_BUFFER_SIZE_def)

lemma watch_empty:
  assumes "bufs_ok c" "buffer_bytes (read_buffer c) = []" "buffer_bytes (write_buffer c) = []"
  shows "copy_interests (copy_end sd) c = OP_READ"
  using assms empty_buffer by (cases sd) (simp_all add: copy_interests_def bufs_ok_def OP_NOOP_def)

lemma relaying_pumping: "relaying f h w \<Longrightarrow> pumping w"
  by (auto simp: relaying_def pumping_def conn_idle_def side_all copy_end_def watch_empty [unfolded copy_end_def])

text \<open>Two descriptors of one connection.\<close>

lemma pumping_ends:
  assumes "pumping w"
  shows "fd_at sd w \<noteq> fd_at (other_side sd) w" "get_copy sd (cw_conn w) = Inr (copy_end sd)"
    "interest_of (cw_sel w) (fd_at sd w) = Some (watch_of sd w)" "handler_of (cw_sel w) (fd_at sd w) = Some H_socks5"
proof -
  show "fd_at sd w \<noteq> fd_at (other_side sd) w" using assms unfolding pumping_def by (cases sd) simp_all
qed (use assms in \<open>unfold pumping_def, blast+\<close>)

text \<open>\<open>copy_finish\<close> brings what both ends are watched for up to date.\<close>

definition pump_body :: "cworld \<Rightarrow> bool" where
  "pump_body w \<longleftrightarrow> get_stm w = machine_at COPY \<and> sel_inv (cw_sel w) \<and> bufs_ok (cw_conn w) \<and>
     fd_at Client_side w \<noteq> fd_at Origin_side w \<and> references (cw_conn w) = 2 \<and> cw_life w = Alive \<and>
     (\<forall>sd. get_copy sd (cw_conn w) = Inr (copy_end sd) \<and> interest_of (cw_sel w) (fd_at sd w) \<noteq> None \<and>
        handler_of (cw_sel w) (fd_at sd w) = Some H_socks5)"

lemma pumping_body: "pumping w \<Longrightarrow> pump_body w"
  unfolding pumping_def pump_body_def by blast

lemma copy_finish_watch:
  assumes w: "sel_inv (cw_sel w)" "interest_of (cw_sel w) (fd_at sd w) \<noteq> None"
      "interest_of (cw_sel w) (fd_at (other_side sd) w) \<noteq> None" "fd_at sd w \<noteq> fd_at (other_side sd) w"
    and d: "get_copy sd (cw_conn w) = Inr d" "cp_fd d = end_fd sd" "cp_other d = other_side sd"
    and e: "get_copy (other_side sd) (cw_conn w) = Inr e" "cp_fd e = end_fd (other_side sd)"
  obtains s where "copy_finish sd w =
      Inr (if cp_duplex d = OP_NOOP
           then (DONE, upd_glob (\<lambda>g. g\<lparr>current_connections := current_connections g - 1\<rparr>) (w\<lparr>cw_sel := s\<rparr>))
           else (COPY, w\<lparr>cw_sel := s\<rparr>))" "sel_inv s"
    "interest_of s = (interest_of (cw_sel w))(fd_at sd w \<mapsto> copy_interests d (cw_conn w),
       fd_at (other_side sd) w \<mapsto> copy_interests e (cw_conn w))" "handler_of s = handler_of (cw_sel w)"
proof -
  let ?o = "other_side sd"
  obtain i where i: "interest_of (cw_sel w) (fd_at sd w) = Some i" using w(2) by blast
  obtain j where j: "interest_of (cw_sel w) (fd_at ?o w) = Some j" using w(3) by blast
  obtain s1 where s1: "set_interest (fd_at sd w) (copy_interests d (cw_conn w)) w = Inr (SELECTOR_SUCCESS, w\<lparr>cw_sel := s1\<rparr>)"
    "sel_inv s1" "interest_of s1 = (interest_of (cw_sel w))(fd_at sd w \<mapsto> copy_interests d (cw_conn w))"
    "handler_of s1 = handler_of (cw_sel w)"
    by (rule set_interest_ok [OF w(1) i])
  obtain s2 where s2: "set_interest (fd_at ?o w) (copy_interests e (cw_conn w)) (w\<lparr>cw_sel := s1\<rparr>) =
      Inr (SELECTOR_SUCCESS, w\<lparr>cw_sel := s2\<rparr>)"
    "sel_inv s2" "interest_of s2 = (interest_of s1)(fd_at ?o w \<mapsto> copy_interests e (cw_conn w))" "handler_of s2 = handler_of s1"
    by (rule set_interest_ok [of "w\<lparr>cw_sel := s1\<rparr>" "fd_at ?o w" j]) (use s1 j w(4) in simp_all)
  show thesis
    by (rule that [of s2])
      (use d e s1 s2 in \<open>simp_all add: copy_finish_def copy_compute_interests_def Let_def del: get_copy.simps\<close>)
qed

lemma copy_finish_ok:
  assumes "pump_body w"
  obtains s where "copy_finish sd w = Inr (COPY, w\<lparr>cw_sel := s\<rparr>)" "pumping (w\<lparr>cw_sel := s\<rparr>)"
proof -
  let ?o = "other_side sd"
  have w: "get_copy x (cw_conn w) = Inr (copy_end x)" "interest_of (cw_sel w) (fd_at x w) \<noteq> None"
    "handler_of (cw_sel w) (fd_at x w) = Some H_socks5" "sel_inv (cw_sel w)" for x
    using assms unfolding pump_body_def by blast+
  have neq: "fd_at sd w \<noteq> fd_at ?o w" using assms unfolding pump_body_def by (cases sd) simp_all
  obtain s where s: "copy_finish sd w = Inr (COPY, w\<lparr>cw_sel := s\<rparr>)" "sel_inv s"
    "interest_of s = (interest_of (cw_sel w))(fd_at sd w \<mapsto> watch_of sd w, fd_at ?o w \<mapsto> watch_of ?o w)"
    "handler_of s = handler_of (cw_sel w)"
    by (rule copy_finish_watch [OF w(4,2,2) neq w(1) _ _ w(1)]) simp_all
  have "interest_of s (fd_at x w) = Some (watch_of x w) \<and> handler_of s (fd_at x w) = Some H_socks5" for x
    using s(3,4) neq w(3) [of x] by (cases x; cases sd) auto
  then have "pumping (w\<lparr>cw_sel := s\<rparr>)"
    using assms s(2) unfolding pumping_def pump_body_def by (simp add: get_stm_def del: get_copy.simps)
  with s(1) show thesis by (rule that)
qed

section \<open>One read, one write\<close>

lemma pump_frame:
  assumes "pump_body w" "get_stm w' = get_stm w" "cw_sel w' = cw_sel w" "bufs_ok (cw_conn w')"
    "client_fd (cw_conn w') = client_fd (cw_conn w)" "origin_fd (cw_conn w') = origin_fd (cw_conn w)"
    "references (cw_conn w') = references (cw_conn w)" "cw_life w' = cw_life w"
    "so_client (cw_conn w') = so_client (cw_conn w)" "so_orig (cw_conn w') = so_orig (cw_conn w)"
  shows "pump_body w'"
proof -
  have "get_copy sd (cw_conn w') = get_copy sd (cw_conn w)" "fd_at sd w' = fd_at sd w" for sd
    using assms(5,6,9,10) by (cases sd; simp)+
  with assms show ?thesis unfolding pump_body_def by simp
qed

lemma copy_ptr_end:
  assumes "pump_body w" "key_fd (fst k) = fd_at sd w"
  shows "copy_ptr k w = Inr sd"
proof -
  have "get_copy Client_side (cw_conn w) = Inr (copy_end Client_side)" "fd_at Client_side w \<noteq> fd_at Origin_side w"
    using assms(1) unfolding pump_body_def by blast+
  with assms(2) show ?thesis by (cases sd) (simp_all add: copy_ptr_def del: get_copy.simps)
qed

lemma get_fd_set_buf [simp]: "get_fd fr (set_buf r b c) = get_fd fr c"
  by (cases r; cases fr; simp)+

lemma set_buf_other [simp]: "get_buf (in_buf (other_side sd)) (set_buf (in_buf sd) b c) = get_buf (in_buf (other_side sd)) c"
  by (cases sd) simp_all

lemma event_copy_read:
  assumes w: "pumping w" and k: "key_fd (fst k) = fd_at sd w" "kr_recv (snd k) = Recv_data xs" "xs \<noteq> []"
    and room: "buffer_space (get_buf (in_buf sd) (cw_conn w)) \<noteq> 0"
  defines "ys \<equiv> take (buffer_space (get_buf (in_buf sd) (cw_conn w))) xs"
  obtains w' where "socksv5_read k w = Inr w'" "pumping w'" "held sd w' = held sd w @ ys"
    "held (other_side sd) w' = held (other_side sd) w" "cw_out w' = cw_out w @ [Ev_recv (fd_at sd w) ys]" "cw_glob w' = cw_glob w"
    "same_fds w w'" "so_dp (cw_conn w') = so_dp (cw_conn w)"
proof -
  note body = pumping_body [OF w]
  have B: "buf_ok (get_buf (in_buf sd) (cw_conn w))" using w by (simp add: pumping_def bufs_okD)
  have ys: "ys \<noteq> []" using k(3) room by (simp add: ys_def)
  obtain b where b: "conn_recv k (in_buf sd) w = Inr (int (length ys),
      emit (Ev_recv (fd_at sd w) ys) (upd_conn (set_buf (in_buf sd) b) w))" "buf_ok b"
    "buffer_bytes b = held sd w @ ys"
    by (rule conn_recv_spec [where k = k, OF B]) (use k ys in \<open>simp add: ys_def\<close>)
  define w1 where "w1 = emit (Ev_recv (fd_at sd w) ys) (upd_conn (set_buf (in_buf sd) b) w)"
  have body1: "pump_body w1"
    by (rule pump_frame [OF body]) (use b(2) body in \<open>simp_all add: w1_def get_stm_def pump_body_def\<close>)
  obtain s where s: "copy_finish sd w1 = Inr (COPY, w1\<lparr>cw_sel := s\<rparr>)" "pumping (w1\<lparr>cw_sel := s\<rparr>)"
    by (rule copy_finish_ok [OF body1])
  have rd: "copy_r k w = Inr (COPY, w1\<lparr>cw_sel := s\<rparr>)"
    using copy_ptr_end [OF body k(1)] pumping_ends(2) [OF w] k(1) b(1) ys s(1)
    by (simp add: copy_r_def w1_def del: get_copy.simps)
  have "stm_handler on_read_ready get_stm put_stm client_statbl k w = Inr (COPY, w1\<lparr>cw_sel := s\<rparr>)"
    by (rule stm_stay [where f = copy_r])
      (use w rd keeps_stm [OF copy_r_keeps [OF rd]] in \<open>simp_all add: pumping_def no_hooks_def\<close>)
  then show thesis
    by (intro that [of "w1\<lparr>cw_sel := s\<rparr>"])
      (use s(2) b(3) in \<open>simp_all add: socksv5_read_def stm_handler_read_def w1_def same_fds_def\<close>)
qed

lemma event_copy_write:
  assumes w: "pumping w" and k: "key_fd (fst k) = fd_at (other_side sd) w" "kr_send (snd k) = Send_ok n"
    and off: "\<not> is_disector_on (cw_glob w)"
  defines "m \<equiv> min n (length (held sd w))"
  obtains w' where "socksv5_write k w = Inr w'" "pumping w'" "held sd w' = drop m (held sd w)"
    "held (other_side sd) w' = held (other_side sd) w"
    "cw_out w' = cw_out w @ [Ev_send (fd_at (other_side sd) w) (take m (held sd w))]"
    "cw_glob w' = (cw_glob w)\<lparr>bytes_transferred := bytes_transferred (cw_glob w) + of_nat m\<rparr>" "same_fds w w'"
proof -
  note body = pumping_body [OF w]
  have B: "buf_ok (get_buf (in_buf sd) (cw_conn w))" using w by (simp add: pumping_def bufs_okD)
  have ret: "send_ret (length (held sd w)) (kr_send (snd k)) = int m" using k(2) by (simp add: m_def)
  obtain b where b: "conn_send k (in_buf sd) w = Inr (int m, take m (held sd w),
      emit (Ev_send (fd_at (other_side sd) w) (take m (held sd w))) w)"
    "buffer_read_adv (get_buf (in_buf sd) (cw_conn w)) (int m) = Inr b" "buf_ok b" "buffer_bytes b = drop m (held sd w)"
    by (rule conn_send_spec [where k = k, OF B]) (use k(1) ret in simp)
  define w1 where "w1 = upd_glob (\<lambda>g. g\<lparr>bytes_transferred := bytes_transferred g + of_int (int m)\<rparr>)
    (upd_conn (set_buf (in_buf sd) b) (emit (Ev_send (fd_at (other_side sd) w) (take m (held sd w))) w))"
  have body1: "pump_body w1"
    by (rule pump_frame [OF body]) (use b(3) body in \<open>simp_all add: w1_def get_stm_def pump_body_def\<close>)
  obtain s where s: "copy_finish (other_side sd) w1 = Inr (COPY, w1\<lparr>cw_sel := s\<rparr>)" "pumping (w1\<lparr>cw_sel := s\<rparr>)"
    by (rule copy_finish_ok [OF body1])
  have wr: "copy_w k w = Inr (COPY, w1\<lparr>cw_sel := s\<rparr>)"
    using copy_ptr_end [OF body k(1)] pumping_ends(2) [OF w] k(1) b(1,2) s(1) off
    by (simp add: copy_w_def copy_disect_def disector_watches_def w1_def del: get_copy.simps)
  have "stm_handler on_write_ready get_stm put_stm client_statbl k w = Inr (COPY, w1\<lparr>cw_sel := s\<rparr>)"
    by (rule stm_stay [where f = copy_w])
      (use w wr keeps_stm [OF copy_w_keeps [OF wr]] in \<open>simp_all add: pumping_def no_hooks_def\<close>)
  then show thesis
    by (intro that [of "w1\<lparr>cw_sel := s\<rparr>"])
      (use s(2) b(4) in \<open>simp_all add: socksv5_write_def stm_handler_write_def w1_def same_fds_def\<close>)
qed

section \<open>The end of a stream\<close>

text \<open>The peer at \<open>sd\<close> has finished: this end only writes, the other end only reads.\<close>

definition half_closed :: "side \<Rightarrow> cworld \<Rightarrow> bool" where
  "half_closed sd w \<longleftrightarrow> get_stm w = machine_at COPY \<and> sel_inv (cw_sel w) \<and> bufs_ok (cw_conn w) \<and>
     fd_at sd w \<noteq> fd_at (other_side sd) w \<and> references (cw_conn w) = 2 \<and> cw_life w = Alive \<and>
     get_copy sd (cw_conn w) = Inr ((copy_end sd)\<lparr>cp_duplex := OP_WRITE\<rparr>) \<and>
     get_copy (other_side sd) (cw_conn w) = Inr ((copy_end (other_side sd))\<lparr>cp_duplex := OP_READ\<rparr>) \<and>
     interest_of (cw_sel w) (fd_at sd w) = Some (if held (other_side sd) w \<noteq> [] then OP_WRITE else OP_NOOP) \<and>
     interest_of (cw_sel w) (fd_at (other_side sd) w) =
       Some (if buffer_can_write (get_buf (in_buf (other_side sd)) (cw_conn w)) then OP_READ else OP_NOOP) \<and>
     handler_of (cw_sel w) (fd_at sd w) = Some H_socks5 \<and> handler_of (cw_sel w) (fd_at (other_side sd) w) = Some H_socks5"

lemma set_copy_bufs_ok [simp]: "bufs_ok (set_copy sd d c) = bufs_ok c"
  by (cases sd) simp_all

lemma duplex_off [simp]:
  "(OP_READ OR OP_WRITE) AND NOT OP_READ = OP_WRITE" "(OP_READ OR OP_WRITE) AND NOT OP_WRITE = OP_READ"
  "OP_READ AND NOT OP_READ = OP_NOOP" "OP_WRITE AND NOT OP_WRITE = OP_NOOP" "OP_WRITE \<noteq> OP_NOOP" "OP_READ \<noteq> OP_NOOP"
  by (simp_all add: op_defs)

lemma conn_recv_end:
  assumes "buf_ok (get_buf r (cw_conn w))" "kr_recv (snd k) = Recv_eof \<or> kr_recv (snd k) = Recv_err"
  obtains n b where "conn_recv k r w = Inr (n, upd_conn (set_buf r b) w)" "n \<le> 0" "buf_ok b"
    "buffer_bytes b = buffer_bytes (get_buf r (cw_conn w))"
proof -
  have "recv_bytes m (kr_recv (snd k)) = []" "recv_ret m (kr_recv (snd k)) \<le> 0" for m using assms(2) by auto
  note ends = this
  let ?n = "recv_ret (buffer_space (get_buf r (cw_conn w))) (kr_recv (snd k))"
  obtain b where "conn_recv k r w = Inr (?n, upd_conn (set_buf r b) w)" "buf_ok b"
    "buffer_bytes b = buffer_bytes (get_buf r (cw_conn w))"
    by (rule conn_recv_spec [where k = k, OF assms(1)]) (simp add: ends(1))
  with ends(2) show thesis by (intro that)
qed

lemma event_copy_eof:
  assumes w: "pumping w" and k: "key_fd (fst k) = fd_at sd w" "kr_recv (snd k) = Recv_eof \<or> kr_recv (snd k) = Recv_err"
  obtains w' where "socksv5_read k w = Inr w'" "half_closed sd w'" "held sd w' = held sd w"
    "held (other_side sd) w' = held (other_side sd) w" "cw_glob w' = cw_glob w"
    "cw_out w' = cw_out w @ [Ev_shutdown (fd_at sd w) SHUT_RD, Ev_shutdown (fd_at (other_side sd) w) SHUT_WR]"
    "same_fds w w'"
proof -
  let ?o = "other_side sd"
  note body = pumping_body [OF w]
  have B: "buf_ok (get_buf (in_buf sd) (cw_conn w))" using w by (simp add: pumping_def bufs_okD)
  obtain n b where b: "conn_recv k (in_buf sd) w = Inr (n, upd_conn (set_buf (in_buf sd) b) w)" "n \<le> 0" "buf_ok b"
    "buffer_bytes b = held sd w"
    by (rule conn_recv_end [OF B k(2)])
  let ?d = "(copy_end sd)\<lparr>cp_duplex := OP_WRITE\<rparr>" and ?e = "(copy_end ?o)\<lparr>cp_duplex := OP_READ\<rparr>"
  define w1 where "w1 = upd_conn (set_buf (in_buf sd) b) w"
  define w2 where "w2 = upd_conn (\<lambda>c. set_copy ?o ?e (set_copy sd ?d c))
    (emit (Ev_shutdown (fd_at ?o w) SHUT_WR) (emit (Ev_shutdown (fd_at sd w) SHUT_RD) w1))"
  have ends: "get_copy x (cw_conn w1) = Inr (copy_end x)" "fd_at x w1 = fd_at x w" for x
    using pumping_ends(2) [OF w, of x] by (cases x; simp add: w1_def)+
  have "fd_at ?o w \<noteq> -1"
    using interest_of_range [OF _ pumping_ends(3) [OF w, of ?o]] w by (auto simp: pumping_def)
  then have shut: "copy_shutdown sd SHUT_RD OP_READ SHUT_WR OP_WRITE w1 = Inr w2"
    using ends by (simp add: copy_shutdown_def Let_def w2_def emit_def del: get_copy.simps)
  have w2: "sel_inv (cw_sel w2)" "interest_of (cw_sel w2) (fd_at x w2) = Some (watch_of x w)"
    "handler_of (cw_sel w2) (fd_at x w2) = Some H_socks5" "fd_at sd w2 \<noteq> fd_at ?o w2" "fd_at x w2 = fd_at x w"
    "bufs_ok (cw_conn w2)" "get_copy sd (cw_conn w2) = Inr ?d" "get_copy ?o (cw_conn w2) = Inr ?e"
    "held sd w2 = held sd w" "held ?o w2 = held ?o w" for x
    using w pumping_ends [OF w] b(3,4)
    by (simp_all add: w2_def w1_def pumping_def del: get_copy.simps)
  obtain s where s: "copy_finish sd w2 = Inr (COPY, w2\<lparr>cw_sel := s\<rparr>)" "sel_inv s"
    "interest_of s = (interest_of (cw_sel w2))(fd_at sd w2 \<mapsto> copy_interests ?d (cw_conn w2),
       fd_at ?o w2 \<mapsto> copy_interests ?e (cw_conn w2))" "handler_of s = handler_of (cw_sel w2)"
    by (rule copy_finish_watch [OF w2(1) _ _ w2(4,7) _ _ w2(8)]) (use w2(2) in simp_all)
  define w' where "w' = w2\<lparr>cw_sel := s\<rparr>"
  have rd: "copy_r k w = Inr (COPY, w')"
    using copy_ptr_end [OF body k(1)] pumping_ends(2) [OF w] k(1) b(1,2) shut s(1)
    by (simp add: copy_r_def w1_def w'_def del: get_copy.simps)
  have run: "stm_handler on_read_ready get_stm put_stm client_statbl k w = Inr (COPY, w')"
    by (rule stm_stay [where f = copy_r])
      (use w rd keeps_stm [OF copy_r_keeps [OF rd]] in \<open>simp_all add: pumping_def no_hooks_def\<close>)
  have "get_stm w' = machine_at COPY" using w keeps_stm [OF copy_r_keeps [OF rd]] by (simp add: pumping_def)
  moreover have "copy_interests ?d (cw_conn w2) = (if held ?o w2 \<noteq> [] then OP_WRITE else OP_NOOP)"
    "copy_interests ?e (cw_conn w2) = (if buffer_can_write (get_buf (in_buf ?o) (cw_conn w2)) then OP_READ else OP_NOOP)"
    using bufs_okD [OF w2(6)] by (auto simp: copy_interests_def OP_NOOP_def buffer_can_read_iff buf_ok_def)
  ultimately have "half_closed sd w'"
    using w w2 s(2-4) by (simp add: half_closed_def w'_def pumping_def w2_def w1_def del: get_copy.simps)
  then show thesis
    by (rule that [rotated])
      (use run w2 in \<open>simp_all add: socksv5_read_def stm_handler_read_def w'_def w2_def w1_def same_fds_def\<close>)
qed

lemma close_fds_current:
  "close_fds fs w = Inr w' \<Longrightarrow> current_connections (cw_glob w') = current_connections (cw_glob w)"
proof (induction fs arbitrary: w)
  case (Cons f fs)
  show ?case
  proof (cases "f = -1")
    case False
    with Cons.prems obtain st w1 where 1: "unregister_fd f w = Inr (st, w1)"
      "close_fds fs (emit (Ev_close f) w1) = Inr w'"
      by (auto split: if_splits)
    have "current_connections (cw_glob w1) = current_connections (cw_glob w)"
      using 1(1) by (rule unregister_fd_cases) (simp_all add: socks5_destroy_def socks5_destroy_now_def)
    with Cons.IH [OF 1(2)] show ?thesis by simp
  qed (use Cons in simp)
qed simp

text \<open>The second end of stream finishes the connection.\<close>

lemma event_second_eof:
  assumes w: "half_closed sd w"
    and k: "key_fd (fst k) = fd_at (other_side sd) w" "kr_recv (snd k) = Recv_eof \<or> kr_recv (snd k) = Recv_err"
  obtains w' where "socksv5_read k w = Inr w'" "cw_life w' \<noteq> Alive"
    "current_connections (cw_glob w') = current_connections (cw_glob w) - 1"
    "cw_out w' = cw_out w @ [Ev_shutdown (fd_at (other_side sd) w) SHUT_RD, Ev_shutdown (fd_at sd w) SHUT_WR,
       Ev_close (client_fd (cw_conn w)), Ev_close (origin_fd (cw_conn w))]"
    "interest_of (cw_sel w') (client_fd (cw_conn w)) = None" "interest_of (cw_sel w') (origin_fd (cw_conn w)) = None"
proof -
  let ?o = "other_side sd"
  let ?d = "(copy_end sd)\<lparr>cp_duplex := OP_WRITE\<rparr>" and ?e = "(copy_end ?o)\<lparr>cp_duplex := OP_READ\<rparr>"
  have H: "get_stm w = machine_at COPY" "sel_inv (cw_sel w)" "bufs_ok (cw_conn w)" "fd_at sd w \<noteq> fd_at ?o w"
    "references (cw_conn w) = 2" "get_copy sd (cw_conn w) = Inr ?d" "get_copy ?o (cw_conn w) = Inr ?e"
    "interest_of (cw_sel w) (fd_at sd w) \<noteq> None" "interest_of (cw_sel w) (fd_at ?o w) \<noteq> None"
    "handler_of (cw_sel w) (fd_at sd w) = Some H_socks5" "handler_of (cw_sel w) (fd_at ?o w) = Some H_socks5"
    using w by (simp_all add: half_closed_def del: get_copy.simps)
  obtain n b where b: "conn_recv k (in_buf ?o) w = Inr (n, upd_conn (set_buf (in_buf ?o) b) w)" "n \<le> 0"
    by (rule conn_recv_end [OF bufs_okD [OF H(3)] k(2)])
  let ?d' = "?d\<lparr>cp_duplex := OP_NOOP\<rparr>" and ?e' = "?e\<lparr>cp_duplex := OP_NOOP\<rparr>"
  define w1 where "w1 = upd_conn (set_buf (in_buf ?o) b) w"
  define w2 where "w2 = upd_conn (\<lambda>c. set_copy sd ?d' (set_copy ?o ?e' c))
    (emit (Ev_shutdown (fd_at sd w) SHUT_WR) (emit (Ev_shutdown (fd_at ?o w) SHUT_RD) w1))"
  have ends: "get_copy sd (cw_conn w1) = Inr ?d" "get_copy ?o (cw_conn w1) = Inr ?e" "fd_at sd w1 = fd_at sd w" "fd_at ?o w1 = fd_at ?o w"
    using H(6,7) by (cases sd; simp add: w1_def)+
  have ptr: "copy_ptr k w = Inr ?o"
    using H(4,6,7) k(1) by (cases sd) (simp_all add: copy_ptr_def del: get_copy.simps)
  have "fd_at sd w \<noteq> -1" using interest_of_range [OF H(2), of "fd_at sd w"] H(8) by auto
  then have shut: "copy_shutdown ?o SHUT_RD OP_READ SHUT_WR OP_WRITE w1 = Inr w2"
    using ends by (simp add: copy_shutdown_def Let_def w2_def emit_def OP_NOOP_def del: get_copy.simps)
  have w2: "sel_inv (cw_sel w2)" "interest_of (cw_sel w2) (fd_at ?o w2) \<noteq> None" "interest_of (cw_sel w2) (fd_at sd w2) \<noteq> None"
    "fd_at ?o w2 \<noteq> fd_at sd w2" "get_copy ?o (cw_conn w2) = Inr ?e'" "get_copy sd (cw_conn w2) = Inr ?d'"
    using H by (simp_all add: w2_def w1_def eq_commute [of "fd_at ?o w"] del: get_copy.simps)
  obtain s where s: "copy_finish ?o w2 = Inr (DONE, upd_glob (\<lambda>g. g\<lparr>current_connections := current_connections g - 1\<rparr>) (w2\<lparr>cw_sel := s\<rparr>))"
    "sel_inv s" "interest_of s = (interest_of (cw_sel w2))(fd_at ?o w2 \<mapsto> copy_interests ?e' (cw_conn w2),
       fd_at sd w2 \<mapsto> copy_interests ?d' (cw_conn w2))" "handler_of s = handler_of (cw_sel w2)"
    by (rule copy_finish_watch [of w2 ?o, simplified other_other, OF w2(1-5) _ _ w2(6)]) simp_all
  define w3 where "w3 = upd_glob (\<lambda>g. g\<lparr>current_connections := current_connections g - 1\<rparr>) (w2\<lparr>cw_sel := s\<rparr>)"
  have rd: "copy_r k w = Inr (DONE, w3)"
    using ptr H(7) k(1) b shut s(1) by (simp add: copy_r_def w1_def w3_def del: get_copy.simps)
  define w4 where "w4 = put_stm (machine_at DONE) w3"
  have run: "stm_handler on_read_ready get_stm put_stm client_statbl k w = Inr (DONE, w4) \<and> get_stm w4 = machine_at DONE"
    by (rule stm_step [OF H(1), where f = copy_r and ?w2.0 = w3 and ?w3.0 = w3])
      (use rd keeps_stm [OF copy_r_keeps [OF rd]] in \<open>simp_all add: no_hooks_def run_hook_def w4_def\<close>)
  have fds: "client_fd (cw_conn w4) = client_fd (cw_conn w)" "origin_fd (cw_conn w4) = origin_fd (cw_conn w)"
    "references (cw_conn w4) = 2" "sel_inv (cw_sel w4)"
    using H(5) s(2) by (simp_all add: w4_def w3_def w2_def w1_def)
  have reg: "\<exists>i. interest_of (cw_sel w4) (fd_at x w) = Some i" "handler_of (cw_sel w4) (fd_at x w) = Some H_socks5" for x
    using H(8-11) s(3,4) by (cases x; cases sd; simp add: w4_def w3_def w2_def w1_def)+
  obtain i j where ij: "interest_of (cw_sel w4) (client_fd (cw_conn w4)) = Some i" "interest_of (cw_sel w4) (origin_fd (cw_conn w4)) = Some j"
    using reg(1) [of Client_side] reg(1) [of Origin_side] fds by auto
  obtain w' where w': "socksv5_done k w4 = Inr w'"
    "cw_out w' = cw_out w4 @ [Ev_close (client_fd (cw_conn w4)), Ev_close (origin_fd (cw_conn w4))]" "cw_life w' \<noteq> Alive"
    "interest_of (cw_sel w') = (interest_of (cw_sel w4))(client_fd (cw_conn w4) := None, origin_fd (cw_conn w4) := None)"
    by (rule done_both [OF fds(4) ij, where k = k])
      (use reg(2) [of Client_side] reg(2) [of Origin_side] fds H(4) in \<open>cases sd; simp\<close>)+
  have "current_connections (cw_glob w') = current_connections (cw_glob w) - 1"
    using close_fds_current w'(1) by (simp add: socksv5_done_def w4_def w3_def w2_def w1_def del: close_fds.simps)
  with w' run show thesis
    by (intro that [of w']) (use fds in \<open>simp_all add: socksv5_read_def stm_handler_read_def socksv5_finish_def\<close>,
      simp add: w4_def w3_def w2_def w1_def)
qed

section \<open>A relaying connection for the witnesses\<close>

lemma demo_relaying:
  obtains w where "reach w" "relaying 3 4 w" "\<not> is_disector_on (cw_glob w)"
proof -
  let ?d = "Dest_ipv4 [127, 0, 0, 1]"
  let ?k1 = "demo_key 3 (Recv_data (request_message socks_req_cmd_connect 0 ?d [0, 80])) Send_err"
  let ?k2 = "demo_key 4 Recv_err Send_err" and ?k3 = "demo_key 3 Recv_err (Send_ok 10)"
  obtain w where w: "reach w" "before_request 3 w" "fds_of w = {3}" by (rule demo_before_request)
  obtain w1 where w1: "socksv5_read ?k1 w = Inr w1" "get_stm w1 = machine_at REQUEST_CONNECTING" "dialing 3 4 w1"
    "so_orig (cw_conn w1) = O_conn" "asked (dest_atyp ?d) w1"
    by (rule event_request_numeric [OF w(2), where k = ?k1 and d = ?d and port = "[0, 80]" and h = 4 and rsv = 0])
      (use w(3) in \<open>simp_all add: demo_dial\<close>)
  obtain w2 where w2: "socksv5_write ?k2 w1 = Inr w2" "get_stm w2 = machine_at REQUEST_WRITE" "replying 3 4 status_succeeded w2"
    by (rule event_connected [OF w1(2-5), where k = ?k2]) (simp_all add: demo_sockopt)
  obtain w3 where w3: "socksv5_write ?k3 w2 = Inr w3" "relaying 3 4 w3"
    by (rule event_reply_succeeded [OF w2(2,3), where k = ?k3 and n = 10]) simp_all
  have "reach w1" using w(1) _ w1(1) by (rule reach_read) (use w(2) in \<open>simp add: before_request_def\<close>)
  then have "reach w2" by (rule reach_write [OF _ _ w2(1)]) (use w1(3) in \<open>simp add: dialing_def\<close>)
  then have "reach w3" by (rule reach_write [OF _ _ w3(1)]) (use w2(3) in \<open>simp add: replying_def\<close>)
  then have "reach (w3\<lparr>cw_sel := cw_sel w3, cw_glob := (cw_glob w3)\<lparr>is_disector_on := False\<rparr>\<rparr>)"
    by (rule reach_env) simp
  moreover have "relaying 3 4 (w3\<lparr>cw_sel := cw_sel w3, cw_glob := (cw_glob w3)\<lparr>is_disector_on := False\<rparr>\<rparr>)"
    using w3(2) by (simp add: relaying_def conn_idle_def get_stm_def)
  ultimately show thesis by (rule that) simp
qed

end
