(* ===== verification/Monitor.thy ===== *)
theory Monitor
  imports Consume
begin

text \<open>
  Model of \<open>src/server/monitor.c\<close> and \<open>src/include/monitor.h\<close>: the parser of the monitoring protocol
  and the marshalling of its replies.

  \<open>union data\<close> is its 512 bytes: \<open>user\<close> is at offset 0, \<open>pass\<close> and \<open>token\<close> of the two structs at
  offset 256, \<open>disector_data_params\<close> the little-endian integer in the first four bytes. A store
  outside the union is a fault; a store that leaves an array but stays in the union lands in the
  member that is there. The two members of \<open>union monitor_target\<close> are enumerations with the same
  representation, and are one value. The fields \<open>method\<close> and \<open>target\<close> hold whatever byte arrived.

  The two variables \<open>combinedlen\<close> and \<open>username_len_with_null\<close> are static: every connection shares
  them. They are \<open>monitor_statics\<close>, passed along with the parser.
\<close>

section \<open>Data\<close>

definition TOKEN_SIZE :: nat where "TOKEN_SIZE = 16"

definition USERNAME_SIZE :: nat where "USERNAME_SIZE = 256"

definition PASSWORD_SIZE :: nat where "PASSWORD_SIZE = 256"

definition sizeof_data :: nat where "sizeof_data = USERNAME_SIZE + PASSWORD_SIZE"

datatype monitor_state =
    monitor_version
  | monitor_token
  | monitor_method
  | monitor_target
  | monitor_dlen
  | monitor_data
  | monitor_done
  | monitor_error
  | monitor_error_unsupported_version
  | monitor_error_invalid_token
  | monitor_error_unsupported_method
  | monitor_error_unsupported_target
  | monitor_error_invalid_data

fun monitor_state_num :: "monitor_state \<Rightarrow> nat" where
  "monitor_state_num monitor_version = 0"
| "monitor_state_num monitor_token = 1"
| "monitor_state_num monitor_method = 2"
| "monitor_state_num monitor_target = 3"
| "monitor_state_num monitor_dlen = 4"
| "monitor_state_num monitor_data = 5"
| "monitor_state_num monitor_done = 6"
| "monitor_state_num monitor_error = 7"
| "monitor_state_num monitor_error_unsupported_version = 8"
| "monitor_state_num monitor_error_invalid_token = 9"
| "monitor_state_num monitor_error_unsupported_method = 10"
| "monitor_state_num monitor_error_unsupported_target = 11"
| "monitor_state_num monitor_error_invalid_data = 12"

lemma monitor_state_num_inj: "monitor_state_num x = monitor_state_num y \<Longrightarrow> x = y"
  by (cases x; cases y) simp_all

instantiation monitor_state :: linorder
begin

definition less_eq_monitor_state :: "monitor_state \<Rightarrow> monitor_state \<Rightarrow> bool" where
  "x \<le> y \<longleftrightarrow> monitor_state_num x \<le> monitor_state_num y"

definition less_monitor_state :: "monitor_state \<Rightarrow> monitor_state \<Rightarrow> bool" where
  "x < y \<longleftrightarrow> monitor_state_num x < monitor_state_num y"

instance
  by standard (auto simp: less_eq_monitor_state_def less_monitor_state_def intro: monitor_state_num_inj)

end

datatype monitor_response_status =
    monitor_status_succeeded
  | monitor_status_invalid_version
  | monitor_status_invalid_method
  | monitor_status_invalid_target
  | monitor_status_invalid_data
  | monitor_status_error_auth
  | monitor_status_server_error

fun monitor_status_byte :: "monitor_response_status \<Rightarrow> byte" where
  "monitor_status_byte monitor_status_succeeded = 0x00"
| "monitor_status_byte monitor_status_invalid_version = 0x01"
| "monitor_status_byte monitor_status_invalid_method = 0x02"
| "monitor_status_byte monitor_status_invalid_target = 0x03"
| "monitor_status_byte monitor_status_invalid_data = 0x04"
| "monitor_status_byte monitor_status_error_auth = 0x05"
| "monitor_status_byte monitor_status_server_error = 0x06"

abbreviation (input) monitor_method_get :: byte where "monitor_method_get \<equiv> 0x00"

abbreviation (input) monitor_method_config :: byte where "monitor_method_config \<equiv> 0x01"

abbreviation (input) monitor_target_get_historic :: byte where "monitor_target_get_historic \<equiv> 0x00"

abbreviation (input) monitor_target_get_concurrent :: byte where "monitor_target_get_concurrent \<equiv> 0x01"

abbreviation (input) monitor_target_get_transfered :: byte where "monitor_target_get_transfered \<equiv> 0x02"

abbreviation (input) monitor_target_get_proxyusers :: byte where "monitor_target_get_proxyusers \<equiv> 0x03"

abbreviation (input) monitor_target_get_adminusers :: byte where "monitor_target_get_adminusers \<equiv> 0x04"

abbreviation (input) monitor_target_config_pop3disector :: byte where "monitor_target_config_pop3disector \<equiv> 0x00"

abbreviation (input) monitor_target_config_add_proxyuser :: byte where "monitor_target_config_add_proxyuser \<equiv> 0x01"

abbreviation (input) monitor_target_config_delete_proxyuser :: byte where "monitor_target_config_delete_proxyuser \<equiv> 0x02"

abbreviation (input) monitor_target_config_add_admin :: byte where "monitor_target_config_add_admin \<equiv> 0x03"

abbreviation (input) monitor_target_config_delete_admin :: byte where "monitor_target_config_delete_admin \<equiv> 0x04"

record monitor =
  m_token :: "byte list"
  m_method :: byte
  m_target :: byte
  m_dlen :: u16
  m_data :: "byte list"

record monitor_parser =
  mp_monitor :: monitor
  mp_state :: monitor_state
  mp_len :: u16
  mp_i :: u16
  mp_separated :: bool

record monitor_statics =
  ms_combinedlen :: "byte list"
  ms_username_len_with_null :: nat

definition monitor_statics_init :: monitor_statics where
  "monitor_statics_init = \<lparr>ms_combinedlen = [0, 0], ms_username_len_with_null = 0\<rparr>"

section \<open>The parser\<close>

definition IS_ALNUM :: "byte \<Rightarrow> bool" where
  "IS_ALNUM x \<longleftrightarrow> (x \<ge> 0x61 \<and> x \<le> 0x7a) \<or> (x \<ge> 0x41 \<and> x \<le> 0x5a) \<or> (x \<ge> 0x30 \<and> x \<le> 0x39)"

definition remaining_set_monitor :: "monitor_parser \<Rightarrow> u16 \<Rightarrow> monitor_parser" where
  "remaining_set_monitor p len = p\<lparr>mp_i := 0, mp_len := len\<rparr>"

definition remaining_is_done_monitor :: "monitor_parser \<Rightarrow> bool" where
  "remaining_is_done_monitor p \<longleftrightarrow> mp_i p \<ge> mp_len p"

definition monitor_zero :: monitor where
  "monitor_zero = \<lparr>m_token = replicate TOKEN_SIZE 0, m_method = 0, m_target = 0, m_dlen = 0,
     m_data = replicate sizeof_data 0\<rparr>"

definition monitor_parser_init :: "monitor_parser \<Rightarrow> monitor_parser" where
  "monitor_parser_init p = p\<lparr>mp_state := monitor_version, mp_monitor := monitor_zero\<rparr>"

definition version_monitor :: "byte \<Rightarrow> monitor_parser \<Rightarrow> monitor_state \<times> monitor_parser" where
  "version_monitor c p =
     (if c = 0x01 then (monitor_token, remaining_set_monitor p (of_nat TOKEN_SIZE))
      else (monitor_error_unsupported_version, p))"

definition token_monitor :: "byte \<Rightarrow> monitor_parser \<Rightarrow> (monitor_state \<times> monitor_parser) res" where
  "token_monitor c p =
     rbind (mem_set (m_token (mp_monitor p)) (uint (mp_i p)) c) (\<lambda>t.
       let p1 = p\<lparr>mp_monitor := (mp_monitor p)\<lparr>m_token := t\<rparr>, mp_i := mp_i p + 1\<rparr>
       in Inr (if remaining_is_done_monitor p1 then monitor_method else monitor_token, p1))"

definition method_monitor :: "byte \<Rightarrow> monitor_parser \<Rightarrow> monitor_state \<times> monitor_parser" where
  "method_monitor c p =
     (let p1 = p\<lparr>mp_monitor := (mp_monitor p)\<lparr>m_method := c\<rparr>\<rparr>
      in (if m_method (mp_monitor p1) \<in> {monitor_method_get, monitor_method_config} then monitor_target
          else monitor_error_unsupported_method, p1))"

text \<open>The variable \<open>next\<close> of \<open>target\<close> and of \<open>data\<close> is set in every branch but one, the branch the
  source calls impossible: there the model has the fault \<open>Uninit_read\<close>.\<close>

definition target_monitor :: "byte \<Rightarrow> monitor_parser \<Rightarrow> (monitor_state \<times> monitor_parser) res" where
  "target_monitor c p =
     (if m_method (mp_monitor p) = monitor_method_get then
        if c \<in> {monitor_target_get_historic, monitor_target_get_concurrent, monitor_target_get_transfered,
                monitor_target_get_proxyusers, monitor_target_get_adminusers}
        then Inr (monitor_done, p\<lparr>mp_monitor := (mp_monitor p)\<lparr>m_target := c\<rparr>\<rparr>)
        else Inr (monitor_error_unsupported_target, p)
      else if m_method (mp_monitor p) = monitor_method_config then
        if c \<in> {monitor_target_config_pop3disector, monitor_target_config_add_proxyuser,
                monitor_target_config_delete_proxyuser, monitor_target_config_add_admin,
                monitor_target_config_delete_admin}
        then Inr (monitor_dlen, remaining_set_monitor (p\<lparr>mp_monitor := (mp_monitor p)\<lparr>m_target := c\<rparr>\<rparr>) 2)
        else Inr (monitor_error_unsupported_target, p)
      else Inl Uninit_read)"

definition dlen_monitor ::
  "byte \<Rightarrow> monitor_parser \<Rightarrow> monitor_statics \<Rightarrow> (monitor_state \<times> monitor_parser \<times> monitor_statics) res" where
  "dlen_monitor c p s =
     rbind (mem_set (ms_combinedlen s) (uint (mp_i p)) c) (\<lambda>cl.
       let p1 = p\<lparr>mp_i := mp_i p + 1\<rparr>;
           s1 = s\<lparr>ms_combinedlen := cl\<rparr>
       in if remaining_is_done_monitor p1 then
            let p2 = p1\<lparr>mp_monitor := (mp_monitor p1)\<lparr>m_dlen := be16_dec cl\<rparr>\<rparr>;
                t = m_target (mp_monitor p2)
            in Inr (if t = monitor_target_config_pop3disector then (monitor_data, p2, s1)
                    else if t \<in> {monitor_target_config_add_proxyuser, monitor_target_config_delete_proxyuser,
                                 monitor_target_config_add_admin, monitor_target_config_delete_admin}
                    then (monitor_data, remaining_set_monitor p2 (m_dlen (mp_monitor p2)), s1)
                    else (monitor_error, p2, s1))
          else Inr (monitor_dlen, p1, s1))"

text \<open>A store at an offset of \<open>union data\<close>.\<close>

definition put_data :: "monitor_parser \<Rightarrow> int \<Rightarrow> byte \<Rightarrow> monitor_parser res" where
  "put_data p off v =
     rbind (mem_set (m_data (mp_monitor p)) off v) (\<lambda>d.
       Inr (p\<lparr>mp_monitor := (mp_monitor p)\<lparr>m_data := d\<rparr>\<rparr>))"

text \<open>The two cases of \<open>data\<close> that add an account, \<open>monitor_target_config_add_proxyuser\<close> and
  \<open>monitor_target_config_add_admin\<close>: the same code over \<open>pass\<close> and over \<open>token\<close>, which have the
  same offset. The index \<open>p->i - username_len_with_null\<close> may be negative.\<close>

definition data_add ::
  "byte \<Rightarrow> monitor_parser \<Rightarrow> monitor_statics \<Rightarrow> (monitor_state \<times> monitor_parser \<times> monitor_statics) res" where
  "data_add c p s =
     (if mp_i p = 0 \<and> c = 0 then Inr (monitor_error_invalid_data, p, s)
      else rbind
        (if IS_ALNUM c then
           rbind (put_data p
               (if \<not> mp_separated p then uint (mp_i p)
                else int USERNAME_SIZE + (uint (mp_i p) - int (ms_username_len_with_null s))) c)
             (\<lambda>p1. Inr (Some (p1\<lparr>mp_i := mp_i p1 + 1\<rparr>, s)))
         else if c = 0 \<and> \<not> mp_separated p then
           rbind (put_data p (uint (mp_i p)) c) (\<lambda>p1.
             let p2 = p1\<lparr>mp_i := mp_i p1 + 1, mp_separated := True\<rparr>
             in Inr (Some (p2, s\<lparr>ms_username_len_with_null := unat (mp_i p2)\<rparr>)))
         else Inr None)
        (\<lambda>r. case r of
               None \<Rightarrow> Inr (monitor_error_invalid_data, p, s)
             | Some (p1, s1) \<Rightarrow>
                 if remaining_is_done_monitor p1
                 then rbind (put_data p1 (int USERNAME_SIZE + uint (mp_i p1)) 0)
                        (\<lambda>p2. Inr (monitor_done, p2\<lparr>mp_separated := False\<rparr>, s1))
                 else Inr (monitor_data, p1, s1)))"

text \<open>The two cases that delete an account.\<close>

definition data_delete :: "byte \<Rightarrow> monitor_parser \<Rightarrow> (monitor_state \<times> monitor_parser) res" where
  "data_delete c p =
     (if IS_ALNUM c then
        rbind (put_data p (uint (mp_i p)) c) (\<lambda>p1.
          let p2 = p1\<lparr>mp_i := mp_i p1 + 1\<rparr>
          in if remaining_is_done_monitor p2
             then rbind (put_data p2 (uint (mp_i p2)) 0) (\<lambda>p3. Inr (monitor_done, p3))
             else Inr (monitor_data, p2))
      else Inr (monitor_error_invalid_data, p))"

definition data_monitor ::
  "byte \<Rightarrow> monitor_parser \<Rightarrow> monitor_statics \<Rightarrow> (monitor_state \<times> monitor_parser \<times> monitor_statics) res" where
  "data_monitor c p s =
     (let t = m_target (mp_monitor p)
      in if t = monitor_target_config_pop3disector then
           Inr (monitor_done,
             p\<lparr>mp_monitor := (mp_monitor p)\<lparr>m_data := overwrite (m_data (mp_monitor p)) 0 [c, 0, 0, 0]\<rparr>\<rparr>, s)
         else if t = monitor_target_config_add_proxyuser \<or> t = monitor_target_config_add_admin then
           data_add c p s
         else if t = monitor_target_config_delete_proxyuser \<or> t = monitor_target_config_delete_admin then
           rbind (data_delete c p) (\<lambda>(nxt, p1). Inr (nxt, p1, s))
         else Inl Uninit_read)"

definition monitor_parser_feed ::
  "monitor_parser \<times> monitor_statics \<Rightarrow> byte \<Rightarrow> (monitor_parser \<times> monitor_statics) res" where
  "monitor_parser_feed ps c =
     (case ps of (p, s) \<Rightarrow>
      rbind
        (case mp_state p of
           monitor_version \<Rightarrow> (case version_monitor c p of (nxt, p1) \<Rightarrow> Inr (nxt, p1, s))
         | monitor_token \<Rightarrow> rbind (token_monitor c p) (\<lambda>(nxt, p1). Inr (nxt, p1, s))
         | monitor_method \<Rightarrow> (case method_monitor c p of (nxt, p1) \<Rightarrow> Inr (nxt, p1, s))
         | monitor_target \<Rightarrow> rbind (target_monitor c p) (\<lambda>(nxt, p1). Inr (nxt, p1, s))
         | monitor_dlen \<Rightarrow> dlen_monitor c p s
         | monitor_data \<Rightarrow> data_monitor c p s
         | _ \<Rightarrow> Inr (mp_state p, p, s))
        (\<lambda>(nxt, p1, s1). Inr (p1\<lparr>mp_state := nxt\<rparr>, s1)))"

definition monitor_is_done :: "monitor_state \<Rightarrow> bool" where
  "monitor_is_done st \<longleftrightarrow> st \<ge> monitor_done"

abbreviation monitor_fin :: "monitor_parser \<times> monitor_statics \<Rightarrow> unit \<Rightarrow> bool \<times> unit" where
  "monitor_fin ps e \<equiv> (monitor_is_done (mp_state (fst ps)), e)"

definition monitor_consume ::
  "buffer \<Rightarrow> monitor_parser \<Rightarrow> monitor_statics \<Rightarrow> (monitor_state \<times> buffer \<times> monitor_parser \<times> monitor_statics) res"
where
  "monitor_consume b p s =
     rbind (parse_loop monitor_parser_feed monitor_fin b (p, s) ())
       (\<lambda>(b', (p', s'), _). Inr (mp_state p', b', p', s'))"

section \<open>Replies\<close>

definition monitor_error_status :: "monitor_state \<Rightarrow> monitor_response_status" where
  "monitor_error_status st =
     (case st of
        monitor_error_unsupported_version \<Rightarrow> monitor_status_invalid_version
      | monitor_error_invalid_token \<Rightarrow> monitor_status_error_auth
      | monitor_error_unsupported_method \<Rightarrow> monitor_status_invalid_method
      | monitor_error_unsupported_target \<Rightarrow> monitor_status_invalid_target
      | monitor_error_invalid_data \<Rightarrow> monitor_status_invalid_data
      | _ \<Rightarrow> monitor_status_server_error)"

definition monitor_error_marshall :: "buffer \<Rightarrow> monitor_parser \<Rightarrow> (int \<times> buffer) res" where
  "monitor_error_marshall b p =
     rbind (buffer_write_ptr b) (\<lambda>(_, n).
       if n < 4 then Inr (-1, b)
       else rbind (buffer_write b (monitor_status_byte (monitor_error_status (mp_state p)))) (\<lambda>b1.
            rbind (buffer_write b1 (be16 1 ! 0)) (\<lambda>b2.
            rbind (buffer_write b2 (be16 1 ! 1)) (\<lambda>b3.
            rbind (buffer_write b3 0) (\<lambda>b4. Inr (4, b4))))))"

text \<open>The argument \<open>data\<close> of \<open>monitor_marshall\<close> with \<open>numeric_data\<close>: NULL, a pointer to an
  \<open>uint32_t\<close> with \<open>numeric_data\<close> set, or a pointer to bytes.\<close>

datatype reply_data = Data_null | Data_number u32 | Data_bytes "byte list"

text \<open>The loop over \<open>databytes\<close>: the indices \<open>i, ..., dlen - 1\<close>.\<close>

fun write_databytes :: "buffer \<Rightarrow> byte list \<Rightarrow> nat list \<Rightarrow> buffer res" where
  "write_databytes b ds [] = Inr b"
| "write_databytes b ds (i # is) =
     rbind (mem_get ds (int i)) (\<lambda>c. rbind (buffer_write b c) (\<lambda>b1. write_databytes b1 ds is))"

definition monitor_marshall ::
  "buffer \<Rightarrow> monitor_response_status \<Rightarrow> u16 \<Rightarrow> reply_data \<Rightarrow> (int \<times> buffer) res" where
  "monitor_marshall b status dlen data =
     rbind (buffer_write_ptr b) (\<lambda>(_, n).
       if n < unat dlen + 3 then Inr (-1, b)
       else rbind (buffer_write b (monitor_status_byte status)) (\<lambda>b1.
            rbind (buffer_write b1 (be16 dlen ! 0)) (\<lambda>b2.
            rbind (buffer_write b2 (be16 dlen ! 1)) (\<lambda>b3.
            rbind (case data of
                     Data_number v \<Rightarrow> buffer_write_all b3 (be32 v)
                   | Data_null \<Rightarrow> buffer_write b3 0
                   | Data_bytes ds \<Rightarrow> write_databytes b3 ds [0..<unat dlen])
              (\<lambda>b4. Inr (uint dlen + 3, b4))))))"

section \<open>Invariant\<close>

definition monitor_inv :: "monitor_parser \<times> monitor_statics \<Rightarrow> bool" where
  "monitor_inv ps \<longleftrightarrow>
     (case ps of (p, s) \<Rightarrow>
        length (m_token (mp_monitor p)) = TOKEN_SIZE \<and> length (m_data (mp_monitor p)) = sizeof_data \<and>
        length (ms_combinedlen s) = 2 \<and>
        (mp_state p = monitor_token \<longrightarrow> mp_len p = 16 \<and> unat (mp_i p) < 16) \<and>
        (mp_state p = monitor_target \<longrightarrow> m_method (mp_monitor p) \<in> {0, 1}) \<and>
        (mp_state p = monitor_dlen \<longrightarrow> mp_len p = 2 \<and> unat (mp_i p) < 2) \<and>
        (mp_state p \<in> {monitor_dlen, monitor_data} \<longrightarrow> m_target (mp_monitor p) \<in> {0, 1, 2, 3, 4}) \<and>
        (mp_state p = monitor_data \<and> m_target (mp_monitor p) \<noteq> 0 \<longrightarrow>
           mp_len p = m_dlen (mp_monitor p) \<and> (mp_i p = 0 \<or> mp_i p < mp_len p)) \<and>
        (mp_separated p \<and> \<not> monitor_is_done (mp_state p) \<longrightarrow>
           mp_state p = monitor_data \<and> ms_username_len_with_null s \<le> unat (mp_i p)))"

definition monitor_final :: "monitor_parser \<times> monitor_statics \<Rightarrow> bool" where
  "monitor_final ps \<longleftrightarrow> monitor_is_done (mp_state (fst ps))"

text \<open>The announced length is too long for \<open>union data\<close>.\<close>

definition data_too_long :: "monitor_parser \<times> monitor_statics \<Rightarrow> bool" where
  "data_too_long ps \<longleftrightarrow> mp_state (fst ps) = monitor_data \<and> m_target (mp_monitor (fst ps)) \<noteq> 0 \<and>
     256 \<le> unat (m_dlen (mp_monitor (fst ps)))"

lemma monitor_is_done_simps [simp]:
  "monitor_is_done monitor_version = False" "monitor_is_done monitor_token = False"
  "monitor_is_done monitor_method = False" "monitor_is_done monitor_target = False"
  "monitor_is_done monitor_dlen = False" "monitor_is_done monitor_data = False"
  "monitor_is_done monitor_done = True" "monitor_is_done monitor_error = True"
  "monitor_is_done monitor_error_unsupported_version = True"
  "monitor_is_done monitor_error_invalid_token = True"
  "monitor_is_done monitor_error_unsupported_method = True"
  "monitor_is_done monitor_error_unsupported_target = True"
  "monitor_is_done monitor_error_invalid_data = True"
  by (simp_all add: monitor_is_done_def less_eq_monitor_state_def)

lemmas monitor_sizes = TOKEN_SIZE_def USERNAME_SIZE_def PASSWORD_SIZE_def sizeof_data_def

lemma u16_counter:
  assumes "(i :: u16) = 0 \<or> i < len"
  shows "unat (i + 1) = Suc (unat i)"
  using assms unat_u16_less [of len]
  by (intro unat_u16_Suc) (auto simp: word_less_nat_alt simp del: unat_u16_less)

lemma put_data_eq:
  "put_data p off v =
     (if 0 \<le> off \<and> off < int (length (m_data (mp_monitor p)))
      then Inr (p\<lparr>mp_monitor := (mp_monitor p)\<lparr>m_data := (m_data (mp_monitor p))[nat off := v]\<rparr>\<rparr>)
      else Inl Out_of_bounds)"
  by (simp add: put_data_def mem_set_def)

lemma put_data_InrE [elim!]:
  assumes "put_data p off v = Inr p'"
  obtains d where "p' = p\<lparr>mp_monitor := (mp_monitor p)\<lparr>m_data := d\<rparr>\<rparr>"
    "length d = length (m_data (mp_monitor p))"
  using assms by (auto simp: put_data_eq split: if_splits)

text \<open>What a step in the data keeps: everything but the bytes of the union, the counter and the flag.\<close>

definition same_frame :: "monitor_parser \<Rightarrow> monitor_parser \<Rightarrow> bool" where
  "same_frame p p' \<longleftrightarrow> mp_len p' = mp_len p \<and> m_token (mp_monitor p') = m_token (mp_monitor p) \<and>
     m_target (mp_monitor p') = m_target (mp_monitor p) \<and> m_dlen (mp_monitor p') = m_dlen (mp_monitor p) \<and>
     length (m_data (mp_monitor p')) = length (m_data (mp_monitor p))"

lemma same_frame_refl [simp]: "same_frame p p"
  by (simp add: same_frame_def)

lemma data_add_step:
  assumes "data_add c p s = Inr (nxt, p', s')"
  shows "same_frame p p' \<and> ms_combinedlen s' = ms_combinedlen s \<and>
     (nxt = monitor_data \<and> mp_i p' = mp_i p + 1 \<and> mp_i p' < mp_len p \<and>
        (mp_separated p' \<longrightarrow> ms_username_len_with_null s' = unat (mp_i p') \<or> mp_separated p \<and> s' = s) \<or>
      monitor_is_done nxt)"
  using assms
  by (auto simp: data_add_def same_frame_def remaining_is_done_monitor_def Let_def not_le split: if_splits)

lemma data_delete_step:
  assumes "data_delete c p = Inr (nxt, p')"
  shows "same_frame p p' \<and> mp_separated p' = mp_separated p \<and>
     (nxt = monitor_data \<and> mp_i p' = mp_i p + 1 \<and> mp_i p' < mp_len p \<or> monitor_is_done nxt)"
  using assms
  by (auto simp: data_delete_def same_frame_def remaining_is_done_monitor_def Let_def not_le split: if_splits)

lemma data_monitor_step:
  assumes "data_monitor c p s = Inr (nxt, p', s')" "length (m_data (mp_monitor p)) = sizeof_data"
  shows "same_frame p p' \<and> ms_combinedlen s' = ms_combinedlen s \<and>
     (nxt = monitor_data \<and> mp_i p' = mp_i p + 1 \<and> mp_i p' < mp_len p \<and> m_target (mp_monitor p) \<noteq> 0 \<and>
        (mp_separated p' \<longrightarrow> ms_username_len_with_null s' = unat (mp_i p') \<or> mp_separated p \<and> s' = s) \<or>
      monitor_is_done nxt)"
  using assms data_add_step [of c p s nxt p' s'] data_delete_step [of c p nxt p']
  by (auto simp: data_monitor_def Let_def same_frame_def monitor_sizes split: if_splits)

lemma monitor_inv_data:
  assumes "monitor_inv (p, s)" "mp_state p = monitor_data" "data_monitor c p s = Inr (nxt, p', s')"
  shows "monitor_inv (p'\<lparr>mp_state := nxt\<rparr>, s')"
proof -
  have len: "length (m_data (mp_monitor p)) = sizeof_data" using assms(1) by (simp add: monitor_inv_def)
  note step = data_monitor_step [OF assms(3) len]
  show ?thesis
  proof (cases "monitor_is_done nxt")
    case True
    then have "nxt \<notin> {monitor_token, monitor_target, monitor_dlen, monitor_data}" by auto
    with step assms(1) show ?thesis by (auto simp: monitor_inv_def same_frame_def)
  next
    case False
    then have nxt: "nxt = monitor_data" using step by blast
    have "unat (mp_i p + 1) = Suc (unat (mp_i p))"
      using assms(1,2) step False by (intro u16_counter [where len = "mp_len p"]) (auto simp: monitor_inv_def)
    with step False assms(1,2) nxt show ?thesis
      by (auto simp: monitor_inv_def same_frame_def le_SucI)
  qed
qed

lemma monitor_inv_token:
  assumes "monitor_inv (p, s)" "mp_state p = monitor_token"
  obtains nxt p' where "token_monitor c p = Inr (nxt, p')" "monitor_inv (p'\<lparr>mp_state := nxt\<rparr>, s)"
proof -
  let ?t = "(m_token (mp_monitor p))[unat (mp_i p) := c]"
  let ?p' = "p\<lparr>mp_monitor := (mp_monitor p)\<lparr>m_token := ?t\<rparr>, mp_i := mp_i p + 1\<rparr>"
  have i: "unat (mp_i p) < 16" "mp_len p = 16" using assms by (auto simp: monitor_inv_def)
  then have step: "token_monitor c p =
      Inr (if 15 \<le> unat (mp_i p) then monitor_method else monitor_token, ?p')"
    using assms by (simp add: token_monitor_def monitor_inv_def remaining_is_done_monitor_def TOKEN_SIZE_def
        word_le_nat_alt unat_u16_Suc)
  moreover have "unat (mp_i p + 1) = Suc (unat (mp_i p))" using i by (simp add: unat_u16_Suc)
  ultimately show thesis using assms i by (intro that [OF step]) (simp add: monitor_inv_def)
qed

lemma dlen_first:
  assumes "mp_i p = 0" "mp_len p = 2" "ms_combinedlen s = [x, y]"
  shows "dlen_monitor c p s = Inr (monitor_dlen, p\<lparr>mp_i := 1\<rparr>, s\<lparr>ms_combinedlen := [c, y]\<rparr>)"
proof -
  have "\<not> (2 :: u16) \<le> 1" by (simp add: word_le_nat_alt)
  with assms show ?thesis by (simp add: dlen_monitor_def mem_set_def remaining_is_done_monitor_def)
qed

lemma dlen_second:
  assumes "mp_i p = 1" "mp_len p = 2" "ms_combinedlen s = [x, y]" "m_target (mp_monitor p) \<in> {0, 1, 2, 3, 4}"
  shows "dlen_monitor c p s =
     Inr (monitor_data,
       if m_target (mp_monitor p) = 0
       then p\<lparr>mp_i := 2, mp_monitor := (mp_monitor p)\<lparr>m_dlen := be16_dec [x, c]\<rparr>\<rparr>
       else p\<lparr>mp_i := 0, mp_len := be16_dec [x, c], mp_monitor := (mp_monitor p)\<lparr>m_dlen := be16_dec [x, c]\<rparr>\<rparr>,
       s\<lparr>ms_combinedlen := [x, c]\<rparr>)"
  using assms
  by (auto simp: dlen_monitor_def mem_set_def remaining_is_done_monitor_def remaining_set_monitor_def Let_def)

lemma monitor_inv_dlen:
  assumes "monitor_inv (p, s)" "mp_state p = monitor_dlen"
  obtains nxt p' s' where "dlen_monitor c p s = Inr (nxt, p', s')" "monitor_inv (p'\<lparr>mp_state := nxt\<rparr>, s')"
proof -
  have i: "mp_i p = 0 \<or> mp_i p = 1" and len: "mp_len p = 2" "length (ms_combinedlen s) = 2"
    and t: "m_target (mp_monitor p) \<in> {0, 1, 2, 3, 4}"
    using assms by (auto simp: monitor_inv_def word_unat_eq_iff)
  obtain x y where xy: "ms_combinedlen s = [x, y]" using len(2) by (auto simp: length_Suc_conv numeral_2_eq_2)
  from i show thesis
  proof
    assume "mp_i p = 0"
    from dlen_first [OF this len(1) xy] show thesis
      by (rule that) (use assms in \<open>simp add: monitor_inv_def\<close>)
  next
    assume "mp_i p = 1"
    from dlen_second [OF this len(1) xy t] show thesis
      by (rule that) (use assms in \<open>auto simp: monitor_inv_def simp del: be16_dec.simps\<close>)
  qed
qed

lemma monitor_inv_feed:
  assumes "monitor_inv ps" "monitor_parser_feed ps c = Inr ps'"
  shows "monitor_inv ps'"
proof -
  obtain p s where ps: "ps = (p, s)" by force
  show ?thesis
  proof (cases "mp_state p")
    case monitor_token
    with assms show ?thesis
      using monitor_inv_token [of p s c] by (fastforce simp: ps monitor_parser_feed_def)
  next
    case monitor_dlen
    with assms show ?thesis
      using monitor_inv_dlen [of p s c] by (fastforce simp: ps monitor_parser_feed_def)
  next
    case monitor_data
    with assms show ?thesis
      using monitor_inv_data [of p s c] by (auto simp: ps monitor_parser_feed_def)
  qed (use assms in \<open>auto simp: ps monitor_parser_feed_def monitor_inv_def version_monitor_def method_monitor_def
      target_monitor_def remaining_set_monitor_def TOKEN_SIZE_def Let_def split: if_splits\<close>)
qed

lemma u16_counter_index:
  assumes "unat (i :: u16) = k" "k < 65535"
  shows "uint i = int k" "uint (i + 1) = int (Suc k)" "unat (i + 1) = Suc k"
  using assms unat_u16_Suc [of i] by (simp_all add: uint_nat)

lemma data_add_fits:
  assumes "length (m_data (mp_monitor p)) = 512" "unat (mp_i p) < 255"
    "mp_separated p \<Longrightarrow> ms_username_len_with_null s \<le> unat (mp_i p)"
  shows "\<exists>r. data_add c p s = Inr r"
proof -
  obtain k where k: "unat (mp_i p) = k" by simp
  with assms(2) have lt: "k < 255" "k < 65535" by simp_all
  show ?thesis
    using assms(1,3) lt by (simp add: k data_add_def put_data_eq USERNAME_SIZE_def u16_counter_index [OF k lt(2)] Let_def)
qed

lemma data_delete_fits:
  assumes "length (m_data (mp_monitor p)) = 512" "unat (mp_i p) < 255"
  shows "\<exists>r. data_delete c p = Inr r"
proof -
  obtain k where k: "unat (mp_i p) = k" by simp
  with assms(2) have lt: "k < 255" "k < 65535" by simp_all
  show ?thesis
    using assms(1) lt by (simp add: data_delete_def put_data_eq u16_counter_index [OF k lt(2)] Let_def)
qed

lemma data_monitor_fits:
  assumes "monitor_inv (p, s)" "mp_state p = monitor_data" "\<not> data_too_long (p, s)"
  shows "\<exists>r. data_monitor c p s = Inr r"
proof (cases "m_target (mp_monitor p) = 0")
  case False
  let ?t = "m_target (mp_monitor p)"
  have t: "?t \<in> {1, 2, 3, 4}" and cnt: "mp_i p = 0 \<or> mp_i p < mp_len p" and len: "unat (mp_len p) < 256"
    and mem: "length (m_data (mp_monitor p)) = 512"
    and sep: "mp_separated p \<Longrightarrow> ms_username_len_with_null s \<le> unat (mp_i p)"
    using assms False by (auto simp: monitor_inv_def data_too_long_def monitor_sizes)
  have i: "unat (mp_i p) < 255" using cnt len by (auto simp: word_less_nat_alt)
  show ?thesis
    using t data_add_fits [OF mem i, of s c] sep data_delete_fits [OF mem i, of c]
    by (auto simp: data_monitor_def Let_def)
qed (simp add: data_monitor_def)

lemma monitor_feed_fits:
  assumes "monitor_inv ps" "\<not> data_too_long ps"
  shows "\<exists>ps'. monitor_parser_feed ps c = Inr ps'"
proof -
  obtain p s where ps: "ps = (p, s)" by force
  show ?thesis
  proof (cases "mp_state p")
    case monitor_token
    obtain nxt p' where "token_monitor c p = Inr (nxt, p')"
      by (rule monitor_inv_token [OF assms(1) [unfolded ps] monitor_token])
    with monitor_token show ?thesis by (simp add: ps monitor_parser_feed_def)
  next
    case monitor_dlen
    obtain nxt p' s' where "dlen_monitor c p s = Inr (nxt, p', s')"
      by (rule monitor_inv_dlen [OF assms(1) [unfolded ps] monitor_dlen])
    with monitor_dlen show ?thesis by (simp add: ps monitor_parser_feed_def)
  next
    case monitor_data
    with assms data_monitor_fits [of p s c] show ?thesis by (auto simp: ps monitor_parser_feed_def)
  qed (use assms in \<open>auto simp: ps monitor_parser_feed_def monitor_inv_def target_monitor_def split: prod.splits\<close>)
qed

interpretation monitor: byte_parser monitor_parser_feed monitor_fin monitor_final monitor_inv
proof unfold_locales
  fix ps ps' :: "monitor_parser \<times> monitor_statics" and c :: byte and e :: unit
  show "fst (monitor_fin ps e) = monitor_final ps" by (simp add: monitor_final_def)
  show "monitor_inv ps \<Longrightarrow> monitor_parser_feed ps c = Inr ps' \<Longrightarrow> monitor_inv ps'"
    by (rule monitor_inv_feed)
  show "monitor_inv ps \<Longrightarrow> monitor_final ps \<Longrightarrow> monitor_parser_feed ps c = Inr ps"
    by (cases ps; cases "mp_state (fst ps)") (auto simp: monitor_final_def monitor_parser_feed_def)
qed

lemma monitor_init_inv:
  assumes "length (ms_combinedlen s) = 2" "\<not> mp_separated p"
  shows "monitor_inv (monitor_parser_init p, s)"
  using assms by (simp add: monitor_inv_def monitor_parser_init_def monitor_zero_def)

text \<open>The parser fails only after it has accepted a length that does not fit.\<close>

lemma monitor_parse_fault:
  assumes "monitor_inv ps" "parse_list monitor_parser_feed monitor_fin ps () xs = Inl err"
  shows "\<exists>ys zs ps'. xs = ys @ zs \<and> parse_list monitor_parser_feed monitor_fin ps () ys = Inr ([], ps', ()) \<and>
     data_too_long ps'"
  using assms
proof (induction xs arbitrary: ps)
  case (Cons c cs)
  show ?case
  proof (cases "data_too_long ps")
    case True
    then show ?thesis by (intro exI [of _ "[]"] exI [of _ "c # cs"] exI [of _ ps]) simp
  next
    case False
    then obtain ps1 where ps1: "monitor_parser_feed ps c = Inr ps1"
      using monitor_feed_fits [OF Cons.prems(1)] by blast
    with Cons.prems have nd: "\<not> monitor_is_done (mp_state (fst ps1))"
      and run: "parse_list monitor_parser_feed monitor_fin ps1 () cs = Inl err"
      by (auto split: if_splits)
    obtain ys zs ps' where "cs = ys @ zs" "parse_list monitor_parser_feed monitor_fin ps1 () ys = Inr ([], ps', ())"
      "data_too_long ps'"
      using Cons.IH [OF monitor_inv_feed [OF Cons.prems(1) ps1] run] by blast
    with ps1 nd show ?thesis by (intro exI [of _ "c # ys"] exI [of _ zs] exI [of _ ps']) simp
  qed
qed simp

section \<open>Functional lemmas\<close>

text \<open>The requests of the protocol and their encoding, as \<open>monitor.h\<close> documents them.\<close>

datatype monitor_request =
    Get_historic | Get_concurrent | Get_transfered | Get_proxyusers | Get_adminusers
  | Set_disector bool
  | Add_proxyuser "byte list" "byte list"
  | Delete_proxyuser "byte list"
  | Add_admin "byte list" "byte list"
  | Delete_admin "byte list"

definition get_message :: "byte list \<Rightarrow> byte \<Rightarrow> byte list" where
  "get_message tok t = 0x01 # tok @ [monitor_method_get, t, 0x00, 0x01, 0x00]"

definition config_message :: "byte list \<Rightarrow> byte \<Rightarrow> byte list \<Rightarrow> byte list" where
  "config_message tok t ds = 0x01 # tok @ [monitor_method_config, t] @ be16 (of_nat (length ds)) @ ds"

fun monitor_message :: "byte list \<Rightarrow> monitor_request \<Rightarrow> byte list" where
  "monitor_message tok Get_historic = get_message tok monitor_target_get_historic"
| "monitor_message tok Get_concurrent = get_message tok monitor_target_get_concurrent"
| "monitor_message tok Get_transfered = get_message tok monitor_target_get_transfered"
| "monitor_message tok Get_proxyusers = get_message tok monitor_target_get_proxyusers"
| "monitor_message tok Get_adminusers = get_message tok monitor_target_get_adminusers"
| "monitor_message tok (Set_disector on) = config_message tok monitor_target_config_pop3disector [of_bool on]"
| "monitor_message tok (Add_proxyuser u pw) = config_message tok monitor_target_config_add_proxyuser (u @ 0 # pw)"
| "monitor_message tok (Delete_proxyuser u) = config_message tok monitor_target_config_delete_proxyuser u"
| "monitor_message tok (Add_admin u t) = config_message tok monitor_target_config_add_admin (u @ 0 # t)"
| "monitor_message tok (Delete_admin u) = config_message tok monitor_target_config_delete_admin u"

text \<open>The bytes of \<open>union data\<close> for one and for two strings.\<close>

definition one_string :: "byte list \<Rightarrow> byte list" where
  "one_string u = strncpy_bytes sizeof_data u"

definition two_strings :: "byte list \<Rightarrow> byte list \<Rightarrow> byte list" where
  "two_strings u v = strncpy_bytes USERNAME_SIZE u @ strncpy_bytes PASSWORD_SIZE v"

fun holds_request :: "monitor \<Rightarrow> monitor_request \<Rightarrow> bool" where
  "holds_request m Get_historic = (m_method m = monitor_method_get \<and> m_target m = monitor_target_get_historic)"
| "holds_request m Get_concurrent = (m_method m = monitor_method_get \<and> m_target m = monitor_target_get_concurrent)"
| "holds_request m Get_transfered = (m_method m = monitor_method_get \<and> m_target m = monitor_target_get_transfered)"
| "holds_request m Get_proxyusers = (m_method m = monitor_method_get \<and> m_target m = monitor_target_get_proxyusers)"
| "holds_request m Get_adminusers = (m_method m = monitor_method_get \<and> m_target m = monitor_target_get_adminusers)"
| "holds_request m (Set_disector on) =
     (m_method m = monitor_method_config \<and> m_target m = monitor_target_config_pop3disector \<and>
      take 4 (m_data m) = [of_bool on, 0, 0, 0])"
| "holds_request m (Add_proxyuser u pw) =
     (m_method m = monitor_method_config \<and> m_target m = monitor_target_config_add_proxyuser \<and>
      m_data m = two_strings u pw)"
| "holds_request m (Delete_proxyuser u) =
     (m_method m = monitor_method_config \<and> m_target m = monitor_target_config_delete_proxyuser \<and>
      m_data m = one_string u)"
| "holds_request m (Add_admin u t) =
     (m_method m = monitor_method_config \<and> m_target m = monitor_target_config_add_admin \<and>
      m_data m = two_strings u t)"
| "holds_request m (Delete_admin u) =
     (m_method m = monitor_method_config \<and> m_target m = monitor_target_config_delete_admin \<and>
      m_data m = one_string u)"

fun request_fits :: "monitor_request \<Rightarrow> bool" where
  "request_fits (Add_proxyuser u pw) =
     (u \<noteq> [] \<and> list_all IS_ALNUM u \<and> list_all IS_ALNUM pw \<and> length u + 1 + length pw < 256)"
| "request_fits (Add_admin u t) =
     (u \<noteq> [] \<and> list_all IS_ALNUM u \<and> list_all IS_ALNUM t \<and> length u + 1 + length t < 256)"
| "request_fits (Delete_proxyuser u) = (u \<noteq> [] \<and> list_all IS_ALNUM u \<and> length u < 512)"
| "request_fits (Delete_admin u) = (u \<noteq> [] \<and> list_all IS_ALNUM u \<and> length u < 512)"
| "request_fits _ = True"

abbreviation run_monitor ::
  "monitor_parser \<times> monitor_statics \<Rightarrow> byte list \<Rightarrow> (byte list \<times> (monitor_parser \<times> monitor_statics) \<times> unit) res" where
  "run_monitor ps xs \<equiv> parse_list monitor_parser_feed monitor_fin ps () xs"

lemma unat_of_nat_u16: "n < 65536 \<Longrightarrow> unat (of_nat n :: u16) = n"
  by (simp add: unat_of_nat)

lemma u16_le_of_nat: "n < 65536 \<Longrightarrow> (of_nat n :: u16) \<ge> len \<longleftrightarrow> unat len \<le> n"
  by (simp add: word_le_nat_alt unat_of_nat)

lemma monitor_feed_token:
  assumes "ts \<noteq> []" "k + length ts = 16" "mp_state p = monitor_token" "mp_i p = of_nat k" "mp_len p = 16"
    "length (m_token (mp_monitor p)) = 16"
  shows "run_monitor (p, s) (ts @ rest) =
     run_monitor (p\<lparr>mp_monitor := (mp_monitor p)\<lparr>m_token := overwrite (m_token (mp_monitor p)) k ts\<rparr>,
       mp_i := 16, mp_state := monitor_method\<rparr>, s) rest"
  using assms
proof (induction ts arbitrary: p k)
  case (Cons t ts)
  have k: "k < 16" "unat (of_nat k :: u16) = k" using Cons.prems(2) by (simp_all add: unat_of_nat)
  have le: "(16 :: u16) \<le> 1 + of_nat k \<longleftrightarrow> 15 \<le> k"
    using u16_le_of_nat [of "Suc k" 16] k(1) by simp
  have step: "monitor_parser_feed (p, s) t =
      Inr (p\<lparr>mp_monitor := (mp_monitor p)\<lparr>m_token := (m_token (mp_monitor p))[k := t]\<rparr>,
        mp_i := of_nat (Suc k), mp_state := if 16 \<le> Suc k then monitor_method else monitor_token\<rparr>, s)"
    using Cons.prems k le
    by (simp add: monitor_parser_feed_def token_monitor_def mem_set_def remaining_is_done_monitor_def Let_def
        u16_counter_index(1) [OF k(2)] add.commute)
  show ?case
  proof (cases "ts = []")
    case True
    with Cons.prems show ?thesis by (simp add: step flip: overwrite_update)
  next
    case False
    then have "\<not> 16 \<le> Suc k" using Cons.prems(2) by (cases ts) auto
    then show ?thesis
      using Cons.prems False by (simp add: step Cons.IH [where k = "Suc k"] overwrite_update)
  qed
qed simp

text \<open>The state after the header of a CONFIG request.\<close>

definition config_parser :: "byte list \<Rightarrow> byte \<Rightarrow> u16 \<Rightarrow> monitor_parser" where
  "config_parser tok t n =
     \<lparr>mp_monitor = monitor_zero\<lparr>m_token := tok, m_method := 1, m_target := t, m_dlen := n\<rparr>, mp_state = monitor_data,
      mp_len = (if t = 0 then 2 else n), mp_i = (if t = 0 then 2 else 0), mp_separated = False\<rparr>"

lemma run_method:
  assumes "length tok = 16" "\<not> mp_separated p"
  shows "\<exists>i l. run_monitor (monitor_parser_init p, s) (0x01 # tok @ rest) =
     run_monitor (\<lparr>mp_monitor = monitor_zero\<lparr>m_token := tok\<rparr>, mp_state = monitor_method, mp_len = l, mp_i = i,
       mp_separated = False\<rparr>, s) rest"
proof -
  let ?p = "(monitor_parser_init p)\<lparr>mp_i := 0, mp_len := 16, mp_state := monitor_token\<rparr>"
  have "run_monitor (monitor_parser_init p, s) (0x01 # tok @ rest) = run_monitor (?p, s) (tok @ rest)"
    by (simp add: monitor_parser_feed_def monitor_parser_init_def version_monitor_def remaining_set_monitor_def
        TOKEN_SIZE_def)
  also have "\<dots> = run_monitor (?p\<lparr>mp_monitor := (mp_monitor ?p)\<lparr>m_token := overwrite (m_token (mp_monitor ?p)) 0 tok\<rparr>,
       mp_i := 16, mp_state := monitor_method\<rparr>, s) rest"
    by (rule monitor_feed_token)
      (use assms in \<open>auto simp: monitor_parser_init_def monitor_zero_def TOKEN_SIZE_def\<close>)
  also have "?p\<lparr>mp_monitor := (mp_monitor ?p)\<lparr>m_token := overwrite (m_token (mp_monitor ?p)) 0 tok\<rparr>,
       mp_i := 16, mp_state := monitor_method\<rparr> = \<lparr>mp_monitor = monitor_zero\<lparr>m_token := tok\<rparr>, mp_state = monitor_method,
       mp_len = 16, mp_i = 16, mp_separated = False\<rparr>"
    using assms by (simp add: monitor_parser_init_def monitor_zero_def overwrite_zero_block TOKEN_SIZE_def)
  finally show ?thesis by blast
qed

lemma be16_bytes: "\<exists>x y. be16 n = [x, y] \<and> be16_dec [x, y] = n"
  using be16_dec_be16 [of n "[]"] by (auto simp: be16_def)

lemma run_config_header:
  assumes "length tok = 16" "\<not> mp_separated p" "t \<in> {0, 1, 2, 3, 4}" "length (ms_combinedlen s) = 2"
  shows "run_monitor (monitor_parser_init p, s) (0x01 # tok @ [0x01, t] @ be16 n @ rest) =
     run_monitor (config_parser tok t n, s\<lparr>ms_combinedlen := be16 n\<rparr>) rest"
proof -
  obtain x y where xy: "be16 n = [x, y]" "be16_dec [x, y] = n" using be16_bytes by blast
  obtain a b where ab: "ms_combinedlen s = [a, b]" using assms(4) by (auto simp: length_Suc_conv numeral_2_eq_2)
  obtain i l where "run_monitor (monitor_parser_init p, s) (0x01 # tok @ [0x01, t] @ be16 n @ rest) =
      run_monitor (\<lparr>mp_monitor = monitor_zero\<lparr>m_token := tok\<rparr>, mp_state = monitor_method, mp_len = l, mp_i = i,
        mp_separated = False\<rparr>, s) ([0x01, t] @ be16 n @ rest)"
    using run_method [OF assms(1,2), of s "[0x01, t] @ be16 n @ rest"] by auto
  also have "\<dots> = run_monitor (\<lparr>mp_monitor = monitor_zero\<lparr>m_token := tok, m_method := 1, m_target := t\<rparr>,
      mp_state = monitor_dlen, mp_len = 2, mp_i = 0, mp_separated = False\<rparr>, s) ([x, y] @ rest)"
    using assms(3) by (auto simp: xy monitor_parser_feed_def method_monitor_def target_monitor_def
        remaining_set_monitor_def monitor_zero_def)
  also have "\<dots> = run_monitor (config_parser tok t n, s\<lparr>ms_combinedlen := be16 n\<rparr>) rest"
    using assms(3) by (auto simp: monitor_parser_feed_def dlen_first [OF _ _ ab] dlen_second config_parser_def xy
        monitor_zero_def simp del: be16_dec.simps)
  finally show ?thesis .
qed

lemma alnum_nonzero: "IS_ALNUM c \<Longrightarrow> c \<noteq> 0"
  by (auto simp: IS_ALNUM_def word_le_nat_alt)

lemma u16_count:
  assumes "Suc k \<le> unat (len :: u16)"
  shows "k < 65535" "uint (of_nat k :: u16) = int k" "uint (of_nat k + 1 :: u16) = int (Suc k)"
    "unat (of_nat k + 1 :: u16) = Suc k" "len \<le> of_nat k + 1 \<longleftrightarrow> unat len = Suc k"
    "of_nat k = (0 :: u16) \<longleftrightarrow> k = 0"
proof -
  show lt: "k < 65535" using assms unat_u16_less [of len] by linarith
  then have k: "unat (of_nat k :: u16) = k" by (simp add: unat_of_nat)
  from u16_counter_index [OF this lt] show idx: "uint (of_nat k :: u16) = int k"
    "uint (of_nat k + 1 :: u16) = int (Suc k)" "unat (of_nat k + 1 :: u16) = Suc k"
    by simp_all
  show "len \<le> of_nat k + 1 \<longleftrightarrow> unat len = Suc k" using assms idx(3) by (auto simp: word_le_nat_alt)
  show "of_nat k = (0 :: u16) \<longleftrightarrow> k = 0"
  proof
    assume "of_nat k = (0 :: u16)"
    then have "unat (of_nat k :: u16) = 0" by simp
    with k show "k = 0" by simp
  qed simp
qed

lemma feed_data_add:
  assumes "mp_state p = monitor_data" "m_target (mp_monitor p) \<in> {1, 3}"
  shows "monitor_parser_feed (p, s) c = rbind (data_add c p s) (\<lambda>(nxt, p1, s1). Inr (p1\<lparr>mp_state := nxt\<rparr>, s1))"
proof -
  have "data_monitor c p s = data_add c p s" using assms(2) by (auto simp: data_monitor_def)
  with assms(1) show ?thesis by (simp add: monitor_parser_feed_def)
qed

lemma feed_data_delete:
  assumes "mp_state p = monitor_data" "m_target (mp_monitor p) \<in> {2, 4}"
  shows "monitor_parser_feed (p, s) c = rbind (data_delete c p) (\<lambda>(nxt, p1). Inr (p1\<lparr>mp_state := nxt\<rparr>, s))"
proof -
  have "data_monitor c p s = rbind (data_delete c p) (\<lambda>(nxt, p1). Inr (nxt, p1, s))"
    using assms(2) by (auto simp: data_monitor_def)
  with assms(1) show ?thesis by (simp add: monitor_parser_feed_def rbind_assoc split_def)
qed

lemma feed_user_byte:
  assumes "mp_state p = monitor_data" "m_target (mp_monitor p) \<in> {1, 3}" "\<not> mp_separated p" "IS_ALNUM c"
    "mp_i p = of_nat k" "Suc k < unat (mp_len p)" "k < length (m_data (mp_monitor p))"
  shows "monitor_parser_feed (p, s) c =
     Inr (p\<lparr>mp_monitor := (mp_monitor p)\<lparr>m_data := (m_data (mp_monitor p))[k := c]\<rparr>, mp_i := of_nat k + 1\<rparr>, s)"
proof -
  have "Suc k \<le> unat (mp_len p)" using assms(6) by simp
  note cnt = u16_count [OF this]
  show ?thesis
    unfolding feed_data_add [OF assms(1,2)]
    using assms(1,3-7) alnum_nonzero [OF assms(4)]
    by (simp add: data_add_def put_data_eq remaining_is_done_monitor_def cnt)
qed

lemma feed_separator:
  assumes "mp_state p = monitor_data" "m_target (mp_monitor p) \<in> {1, 3}" "\<not> mp_separated p"
    "mp_i p = of_nat k" "k \<noteq> 0" "Suc k \<le> unat (mp_len p)" "k < 512" "length (m_data (mp_monitor p)) = 512"
  defines "d \<equiv> (m_data (mp_monitor p))[k := 0]"
  shows "monitor_parser_feed (p, s) 0 =
     (if Suc k < unat (mp_len p)
      then Inr (p\<lparr>mp_monitor := (mp_monitor p)\<lparr>m_data := d\<rparr>, mp_i := of_nat k + 1,
             mp_separated := True\<rparr>, s\<lparr>ms_username_len_with_null := Suc k\<rparr>)
      else if Suc k < 256
      then Inr (p\<lparr>mp_monitor := (mp_monitor p)\<lparr>m_data := d[256 + Suc k := 0]\<rparr>, mp_i := of_nat k + 1,
             mp_separated := False, mp_state := monitor_done\<rparr>, s\<lparr>ms_username_len_with_null := Suc k\<rparr>)
      else Inl Out_of_bounds)"
proof -
  note cnt = u16_count [OF assms(6)]
  have "\<not> IS_ALNUM 0" using alnum_nonzero by blast
  moreover have off: "int USERNAME_SIZE + int (Suc k) = int (256 + Suc k)" by (simp add: USERNAME_SIZE_def)
  moreover have "unat (mp_len p) = Suc k \<longleftrightarrow> \<not> Suc k < unat (mp_len p)" using assms(6) by auto
  ultimately show ?thesis
    unfolding feed_data_add [OF assms(1,2)] d_def
    using assms(1,3-5,7,8)
    by (simp add: data_add_def put_data_eq remaining_is_done_monitor_def cnt Let_def del: of_nat_Suc of_nat_add)
qed

text \<open>A byte of the password or token at position \<open>k\<close>, when the static variable holds \<open>u\<close>:
  the length of the name and its separator, unless another connection has set it since.\<close>

lemma feed_pass_byte:
  assumes "mp_state p = monitor_data" "m_target (mp_monitor p) \<in> {1, 3}" "mp_separated p" "IS_ALNUM c"
    "mp_i p = of_nat k" "Suc k \<le> unat (mp_len p)" "ms_username_len_with_null s = u" "u \<le> 256 + k" "k \<noteq> 0"
    "256 + k - u < 512" "length (m_data (mp_monitor p)) = 512"
  defines "d \<equiv> (m_data (mp_monitor p))[256 + k - u := c]"
  shows "monitor_parser_feed (p, s) c =
     (if Suc k < unat (mp_len p)
      then Inr (p\<lparr>mp_monitor := (mp_monitor p)\<lparr>m_data := d\<rparr>, mp_i := of_nat k + 1\<rparr>, s)
      else if Suc k < 256
      then Inr (p\<lparr>mp_monitor := (mp_monitor p)\<lparr>m_data := d[256 + Suc k := 0]\<rparr>, mp_i := of_nat k + 1,
                  mp_separated := False, mp_state := monitor_done\<rparr>, s)
      else Inl Out_of_bounds)"
proof -
  note cnt = u16_count [OF assms(6)]
  have off: "int USERNAME_SIZE + (int k - int u) = int (256 + k - u)" "int USERNAME_SIZE + int (Suc k) = int (256 + Suc k)"
    using assms(8) by (simp_all add: USERNAME_SIZE_def)
  have eq: "unat (mp_len p) = Suc k \<longleftrightarrow> \<not> Suc k < unat (mp_len p)" "k \<noteq> 0" using assms(6,9) by auto
  show ?thesis
    unfolding feed_data_add [OF assms(1,2)] d_def
    using assms(1,3-5,7,10,11) eq
    by (simp add: data_add_def put_data_eq remaining_is_done_monitor_def cnt off del: of_nat_Suc of_nat_add)
qed

lemma run_user:
  assumes "mp_state p = monitor_data" "m_target (mp_monitor p) \<in> {1, 3}" "\<not> mp_separated p" "list_all IS_ALNUM us"
    "mp_i p = of_nat k" "k + length us < unat (mp_len p)" "k + length us \<le> length (m_data (mp_monitor p))"
  shows "run_monitor (p, s) (us @ rest) =
     run_monitor (p\<lparr>mp_monitor := (mp_monitor p)\<lparr>m_data := overwrite (m_data (mp_monitor p)) k us\<rparr>,
       mp_i := of_nat (k + length us)\<rparr>, s) rest"
  using assms
proof (induction us arbitrary: p k)
  case (Cons c us)
  let ?p1 = "p\<lparr>mp_monitor := (mp_monitor p)\<lparr>m_data := (m_data (mp_monitor p))[k := c]\<rparr>, mp_i := of_nat k + 1\<rparr>"
  have "monitor_parser_feed (p, s) c = Inr (?p1, s)"
    by (rule feed_user_byte) (use Cons.prems in auto)
  moreover have "run_monitor (?p1, s) (us @ rest) =
      run_monitor (?p1\<lparr>mp_monitor := (mp_monitor ?p1)\<lparr>m_data := overwrite (m_data (mp_monitor ?p1)) (Suc k) us\<rparr>,
        mp_i := of_nat (Suc k + length us)\<rparr>, s) rest"
    by (rule Cons.IH) (use Cons.prems in auto)
  ultimately show ?case using Cons.prems by (simp add: overwrite_update)
next
  case Nil
  then have "p\<lparr>mp_i := of_nat k\<rparr> = p" by (cases p) simp
  then show ?case by simp
qed

lemma run_pass:
  assumes "mp_state p = monitor_data" "m_target (mp_monitor p) \<in> {1, 3}" "mp_separated p" "list_all IS_ALNUM us"
    "us \<noteq> []" "mp_i p = of_nat k" "unat (mp_len p) = k + length us" "ms_username_len_with_null s = u" "u \<le> 256 + k" "k \<noteq> 0"
    "256 + k - u + length us \<le> 512" "length (m_data (mp_monitor p)) = 512"
  shows "run_monitor (p, s) (us @ rest) =
     (if k + length us < 256
      then Inr (rest, (p\<lparr>mp_monitor := (mp_monitor p)\<lparr>m_data :=
              (overwrite (m_data (mp_monitor p)) (256 + k - u) us)[256 + (k + length us) := 0]\<rparr>,
              mp_i := of_nat (k + length us), mp_separated := False, mp_state := monitor_done\<rparr>, s), ())
      else Inl Out_of_bounds)"
  using assms
proof (induction us arbitrary: p k)
  case (Cons c us)
  let ?d = "(m_data (mp_monitor p))[256 + k - u := c]"
  let ?p1 = "p\<lparr>mp_monitor := (mp_monitor p)\<lparr>m_data := ?d\<rparr>, mp_i := of_nat k + 1\<rparr>"
  have step: "monitor_parser_feed (p, s) c =
     (if Suc k < unat (mp_len p) then Inr (?p1, s)
      else if Suc k < 256
      then Inr (p\<lparr>mp_monitor := (mp_monitor p)\<lparr>m_data := ?d[256 + Suc k := 0]\<rparr>, mp_i := of_nat k + 1,
                  mp_separated := False, mp_state := monitor_done\<rparr>, s)
      else Inl Out_of_bounds)"
    by (rule feed_pass_byte) (use Cons.prems in auto)
  have lt: "256 + k - u < 512" and suc: "256 + Suc k - u = Suc (256 + k - u)" using Cons.prems(9,11) by simp_all
  have ow: "overwrite ?d (256 + Suc k - u) us = overwrite (m_data (mp_monitor p)) (256 + k - u) (c # us)"
    unfolding suc using lt Cons.prems(12) by (simp add: overwrite_update)
  show ?case
  proof (cases "us = []")
    case True
    with Cons.prems step ow show ?thesis by (simp add: add.commute)
  next
    case False
    have "run_monitor (?p1, s) (us @ rest) =
      (if Suc k + length us < 256
       then Inr (rest, (?p1\<lparr>mp_monitor := (mp_monitor ?p1)\<lparr>m_data :=
              (overwrite (m_data (mp_monitor ?p1)) (256 + Suc k - u) us)[256 + (Suc k + length us) := 0]\<rparr>,
              mp_i := of_nat (Suc k + length us), mp_separated := False, mp_state := monitor_done\<rparr>, s), ())
       else Inl Out_of_bounds)"
      by (rule Cons.IH) (use Cons.prems False in auto)
    moreover have "monitor_parser_feed (p, s) c = Inr (?p1, s)" using step Cons.prems False by simp
    ultimately show ?thesis using Cons.prems(1) ow by simp
  qed
qed simp

lemma run_delete:
  assumes "mp_state p = monitor_data" "m_target (mp_monitor p) \<in> {2, 4}" "list_all IS_ALNUM us"
    "us \<noteq> []" "mp_i p = of_nat k" "unat (mp_len p) = k + length us" "k + length us < 512"
    "length (m_data (mp_monitor p)) = 512"
  shows "run_monitor (p, s) (us @ rest) =
     Inr (rest, (p\<lparr>mp_monitor := (mp_monitor p)\<lparr>m_data :=
              (overwrite (m_data (mp_monitor p)) k us)[k + length us := 0]\<rparr>,
              mp_i := of_nat (k + length us), mp_state := monitor_done\<rparr>, s), ())"
  using assms
proof (induction us arbitrary: p k)
  case (Cons c us)
  let ?d = "(m_data (mp_monitor p))[k := c]"
  let ?p1 = "p\<lparr>mp_monitor := (mp_monitor p)\<lparr>m_data := ?d\<rparr>, mp_i := of_nat k + 1\<rparr>"
  have "Suc k \<le> unat (mp_len p)" using Cons.prems by simp
  note cnt = u16_count [OF this]
  have step: "monitor_parser_feed (p, s) c =
     (if Suc k < unat (mp_len p) then Inr (?p1, s)
      else Inr (?p1\<lparr>mp_monitor := (mp_monitor p)\<lparr>m_data := ?d[Suc k := 0]\<rparr>, mp_state := monitor_done\<rparr>, s))"
    unfolding feed_data_delete [OF Cons.prems(1,2)]
    using Cons.prems(1,3-)
    by (simp add: data_delete_def put_data_eq remaining_is_done_monitor_def cnt Let_def del: of_nat_Suc)
  have ow: "overwrite ?d (Suc k) us = overwrite (m_data (mp_monitor p)) k (c # us)"
    using Cons.prems by (simp add: overwrite_update)
  show ?case
  proof (cases "us = []")
    case True
    with Cons.prems step ow show ?thesis by (simp add: add.commute)
  next
    case False
    have "run_monitor (?p1, s) (us @ rest) =
      Inr (rest, (?p1\<lparr>mp_monitor := (mp_monitor ?p1)\<lparr>m_data :=
              (overwrite (m_data (mp_monitor ?p1)) (Suc k) us)[Suc k + length us := 0]\<rparr>,
              mp_i := of_nat (Suc k + length us), mp_state := monitor_done\<rparr>, s), ())"
      by (rule Cons.IH) (use Cons.prems False in auto)
    moreover have "monitor_parser_feed (p, s) c = Inr (?p1, s)" using step Cons.prems False by simp
    ultimately show ?thesis using Cons.prems(1) ow by simp
  qed
qed simp

text \<open>The whole data of a request that adds an account: the two strings land in the two arrays when
  the announced length is below 256; from 256 on the final terminator is stored outside the union.\<close>

lemma config_parser_simps [simp]:
  "mp_state (config_parser tok t n) = monitor_data" "m_target (mp_monitor (config_parser tok t n)) = t"
  "m_token (mp_monitor (config_parser tok t n)) = tok" "m_method (mp_monitor (config_parser tok t n)) = 1"
  "m_data (mp_monitor (config_parser tok t n)) = replicate 512 0" "mp_separated (config_parser tok t n) = False"
  by (simp_all add: config_parser_def monitor_zero_def monitor_sizes)

lemma config_parser_counters:
  "t \<noteq> 0 \<Longrightarrow> mp_i (config_parser tok t n) = 0" "t \<noteq> 0 \<Longrightarrow> mp_len (config_parser tok t n) = n"
  by (simp_all add: config_parser_def)

lemma replicate_update [simp]: "(replicate n x)[i := x] = replicate n x"
proof (induction n arbitrary: i)
  case (Suc n)
  then show ?case by (cases i) simp_all
qed simp

lemma two_strings_memory:
  assumes "length u < 256" "length v \<le> 256" "m \<ge> length v" "m < 256"
  shows "(overwrite ((overwrite (replicate 512 0) 0 u)[length u := 0]) 256 v)[256 + m := 0] = two_strings u v"
proof -
  have "(overwrite (replicate 512 0) 0 u)[length u := 0] = u @ replicate (512 - length u) 0"
    using assms(1) by (simp add: overwrite_zero_block list_update_append)
  moreover have "replicate (512 - length u) (0 :: byte) = replicate (256 - length u) 0 @ replicate 256 0"
    using assms(1) by (simp flip: replicate_add)
  moreover have "(v @ replicate (256 - length v) 0)[m := 0] = v @ replicate (256 - length v) (0 :: byte)"
    using assms(3) by (simp add: list_update_append)
  ultimately show ?thesis
    using assms
    by (simp add: two_strings_def strncpy_bytes_def monitor_sizes overwrite_def list_update_append drop_append)
qed

lemma run_add:
  fixes tok :: "byte list"
  assumes "t \<in> {1, 3}" "u \<noteq> []" "list_all IS_ALNUM u" "list_all IS_ALNUM pw"
    "length u < 256" "length pw < 256"
  defines "n \<equiv> length u + 1 + length pw"
  shows "if n < 256
    then \<exists>p' s'. run_monitor (config_parser tok t (of_nat n), s) ((u @ 0 # pw) @ rest) = Inr (rest, (p', s'), ()) \<and>
      mp_state p' = monitor_done \<and> m_token (mp_monitor p') = tok \<and> m_method (mp_monitor p') = 1 \<and>
      m_target (mp_monitor p') = t \<and> m_data (mp_monitor p') = two_strings u pw \<and>
      ms_combinedlen s' = ms_combinedlen s
    else run_monitor (config_parser tok t (of_nat n), s) ((u @ 0 # pw) @ rest) = Inl Out_of_bounds"
proof -
  let ?p = "config_parser tok t (of_nat n)" and ?k = "length u"
  have t: "t \<noteq> 0" using assms(1) by auto
  have n: "unat (of_nat n :: u16) = n" using assms(5,6) by (intro unat_of_nat_u16) (simp add: n_def)
  have len: "unat (mp_len ?p) = n" using n t by (simp add: config_parser_counters)
  let ?p1 = "?p\<lparr>mp_monitor := (mp_monitor ?p)\<lparr>m_data := overwrite (replicate 512 0) 0 u\<rparr>, mp_i := of_nat ?k\<rparr>"
  let ?d = "(overwrite (replicate 512 0) 0 u)[?k := 0]"
  let ?p2 = "?p1\<lparr>mp_monitor := (mp_monitor ?p1)\<lparr>m_data := ?d\<rparr>, mp_i := of_nat ?k + 1, mp_separated := True\<rparr>"
  let ?s2 = "s\<lparr>ms_username_len_with_null := Suc ?k\<rparr>"
  have "run_monitor (?p, s) (u @ (0 # pw @ rest)) =
      run_monitor (?p\<lparr>mp_monitor := (mp_monitor ?p)\<lparr>m_data := overwrite (m_data (mp_monitor ?p)) 0 u\<rparr>,
        mp_i := of_nat (0 + length u)\<rparr>, s) (0 # pw @ rest)"
    by (rule run_user) (use assms t len in \<open>auto simp: config_parser_counters n_def\<close>)
  then have 1: "run_monitor (?p, s) (u @ (0 # pw @ rest)) = run_monitor (?p1, s) (0 # pw @ rest)" by simp
  have sep: "monitor_parser_feed (?p1, s) 0 =
     (if Suc ?k < unat (mp_len ?p1) then Inr (?p2, ?s2)
      else if Suc ?k < 256
      then Inr (?p1\<lparr>mp_monitor := (mp_monitor ?p1)\<lparr>m_data := ?d[256 + Suc ?k := 0]\<rparr>, mp_i := of_nat ?k + 1,
             mp_separated := False, mp_state := monitor_done\<rparr>, ?s2)
      else Inl Out_of_bounds)"
    using feed_separator [where p = ?p1 and k = ?k and s = s] assms len by (simp add: n_def)
  show ?thesis
  proof (cases "pw = []")
    case True
    then show ?thesis
      using 1 sep len two_strings_memory [OF assms(5), of "[]" "Suc ?k"] by (simp add: n_def)
  next
    case False
    then have "run_monitor (?p1, s) (0 # pw @ rest) = run_monitor (?p2, ?s2) (pw @ rest)"
      using sep len by (simp add: n_def)
    moreover have "run_monitor (?p2, ?s2) (pw @ rest) =
     (if Suc ?k + length pw < 256
      then Inr (rest, (?p2\<lparr>mp_monitor := (mp_monitor ?p2)\<lparr>m_data :=
              (overwrite (m_data (mp_monitor ?p2)) (256 + Suc ?k - Suc ?k) pw)[256 + (Suc ?k + length pw) := 0]\<rparr>,
              mp_i := of_nat (Suc ?k + length pw), mp_separated := False, mp_state := monitor_done\<rparr>, ?s2), ())
      else Inl Out_of_bounds)"
      by (rule run_pass) (use assms len False in \<open>auto simp: n_def add.commute\<close>)
    ultimately show ?thesis
      using 1 two_strings_memory [OF assms(5) less_imp_le [OF assms(6)], of "Suc ?k + length pw"] by (simp add: n_def)
  qed
qed

lemma one_string_memory:
  assumes "length u < 512"
  shows "(overwrite (replicate 512 0) 0 u)[length u := 0] = one_string u"
  using assms
  by (simp add: one_string_def strncpy_bytes_def monitor_sizes overwrite_zero_block list_update_append)

text \<open>Every request that fits is parsed to what it says.\<close>

lemma run_get:
  assumes "length tok = 16" "\<not> mp_separated p" "t \<in> {0, 1, 2, 3, 4}"
  shows "\<exists>p'. run_monitor (monitor_parser_init p, s) (get_message tok t @ rest) =
      Inr ([0, 1, 0] @ rest, (p', s), ()) \<and> mp_state p' = monitor_done \<and> m_token (mp_monitor p') = tok \<and>
      m_method (mp_monitor p') = 0 \<and> m_target (mp_monitor p') = t"
proof -
  obtain i l where "run_monitor (monitor_parser_init p, s) (0x01 # tok @ ([0, t] @ [0, 1, 0] @ rest)) =
      run_monitor (\<lparr>mp_monitor = monitor_zero\<lparr>m_token := tok\<rparr>, mp_state = monitor_method, mp_len = l, mp_i = i,
        mp_separated = False\<rparr>, s) ([0, t] @ [0, 1, 0] @ rest)"
    using run_method [OF assms(1,2)] by blast
  also have "\<dots> = Inr ([0, 1, 0] @ rest, (\<lparr>mp_monitor = monitor_zero\<lparr>m_token := tok, m_method := 0, m_target := t\<rparr>,
      mp_state = monitor_done, mp_len = l, mp_i = i, mp_separated = False\<rparr>, s), ())"
    using assms(3) by (auto simp: monitor_parser_feed_def method_monitor_def target_monitor_def)
  finally show ?thesis by (simp add: get_message_def)
qed

lemma run_config:
  assumes "length tok = 16" "\<not> mp_separated p" "t \<in> {0, 1, 2, 3, 4}" "length (ms_combinedlen s) = 2"
  shows "run_monitor (monitor_parser_init p, s) (config_message tok t ds @ rest) =
     run_monitor (config_parser tok t (of_nat (length ds)), s\<lparr>ms_combinedlen := be16 (of_nat (length ds))\<rparr>) (ds @ rest)"
  using run_config_header [OF assms, of "of_nat (length ds)" "ds @ rest"] by (simp add: config_message_def)

definition parses_to ::
  "byte list \<Rightarrow> (byte list \<times> (monitor_parser \<times> monitor_statics) \<times> unit) res \<Rightarrow> monitor_request \<Rightarrow> bool" where
  "parses_to tok res r \<longleftrightarrow>
     (\<exists>rest p s. res = Inr (rest, (p, s), ()) \<and> mp_state p = monitor_done \<and> m_token (mp_monitor p) = tok \<and>
        holds_request (mp_monitor p) r \<and> length (ms_combinedlen s) = 2)"

lemma run_delete_message:
  assumes "length tok = 16" "\<not> mp_separated p" "t \<in> {2, 4}" "length (ms_combinedlen s) = 2"
    "u \<noteq> []" "list_all IS_ALNUM u" "length u < 512"
  shows "\<exists>p' s'. run_monitor (monitor_parser_init p, s) (config_message tok t u @ rest) = Inr (rest, (p', s'), ()) \<and>
      mp_state p' = monitor_done \<and> m_token (mp_monitor p') = tok \<and> m_method (mp_monitor p') = 1 \<and>
      m_target (mp_monitor p') = t \<and> m_data (mp_monitor p') = one_string u \<and> length (ms_combinedlen s') = 2"
proof -
  let ?p = "config_parser tok t (of_nat (length u))" and ?s = "s\<lparr>ms_combinedlen := be16 (of_nat (length u))\<rparr>"
  have t: "t \<in> {0, 1, 2, 3, 4}" "t \<noteq> 0" using assms(3) by auto
  have len: "unat (mp_len ?p) = length u"
    using t assms(7) unat_of_nat_u16 [of "length u"] by (simp add: config_parser_counters)
  have "run_monitor (?p, ?s) (u @ rest) =
     Inr (rest, (?p\<lparr>mp_monitor := (mp_monitor ?p)\<lparr>m_data :=
              (overwrite (m_data (mp_monitor ?p)) 0 u)[0 + length u := 0]\<rparr>,
              mp_i := of_nat (0 + length u), mp_state := monitor_done\<rparr>, ?s), ())"
    by (rule run_delete) (use assms t len in \<open>auto simp: config_parser_counters\<close>)
  then show ?thesis
    using run_config [OF assms(1,2) t(1) assms(4), of u rest] one_string_memory [OF assms(7)] by simp
qed

lemma run_add_message:
  assumes "length tok = 16" "\<not> mp_separated p" "t \<in> {1, 3}" "length (ms_combinedlen s) = 2"
    "u \<noteq> []" "list_all IS_ALNUM u" "list_all IS_ALNUM pw" "length u < 256" "length pw < 256"
  shows "if length u + 1 + length pw < 256
    then \<exists>p' s'. run_monitor (monitor_parser_init p, s) (config_message tok t (u @ 0 # pw) @ rest) = Inr (rest, (p', s'), ()) \<and>
      mp_state p' = monitor_done \<and> m_token (mp_monitor p') = tok \<and> m_method (mp_monitor p') = 1 \<and>
      m_target (mp_monitor p') = t \<and> m_data (mp_monitor p') = two_strings u pw \<and> length (ms_combinedlen s') = 2
    else run_monitor (monitor_parser_init p, s) (config_message tok t (u @ 0 # pw) @ rest) = Inl Out_of_bounds"
proof -
  have t: "t \<in> {0, 1, 2, 3, 4}" using assms(3) by auto
  let ?s = "s\<lparr>ms_combinedlen := be16 (of_nat (length (u @ 0 # pw)))\<rparr>"
  show ?thesis
    using run_add [OF assms(3,5-9), of tok ?s rest] run_config [OF assms(1,2) t assms(4), of "u @ 0 # pw" rest]
    by (auto split: if_splits)
qed

lemma run_message:
  assumes "length tok = 16" "\<not> mp_separated p" "length (ms_combinedlen s) = 2" "request_fits r"
  shows "parses_to tok (run_monitor (monitor_parser_init p, s) (monitor_message tok r @ rest)) r"
proof -
  note get = run_get [OF assms(1,2), of _ s rest]
  show ?thesis
  proof (cases r)
    case (Set_disector on)
    have "run_monitor (config_parser tok 0 1, s\<lparr>ms_combinedlen := be16 1\<rparr>) ([of_bool on] @ rest) =
        Inr (rest, ((config_parser tok 0 1)\<lparr>mp_state := monitor_done, mp_monitor := (mp_monitor (config_parser tok 0 1))
          \<lparr>m_data := overwrite (replicate 512 0) 0 [of_bool on, 0, 0, 0]\<rparr>\<rparr>, s\<lparr>ms_combinedlen := be16 1\<rparr>), ())"
      by (simp add: monitor_parser_feed_def data_monitor_def)
    with run_config [OF assms(1,2) _ assms(3), of 0 "[of_bool on]" rest] Set_disector show ?thesis
      by (simp add: parses_to_def overwrite_def)
  next
    case (Add_proxyuser u pw)
    with run_add_message [OF assms(1,2) _ assms(3), of 1 u pw rest] assms(4) show ?thesis
      by (auto simp: parses_to_def)
  next
    case (Add_admin u pw)
    with run_add_message [OF assms(1,2) _ assms(3), of 3 u pw rest] assms(4) show ?thesis
      by (auto simp: parses_to_def)
  next
    case (Delete_proxyuser u)
    with run_delete_message [OF assms(1,2) _ assms(3), of 2 u rest] assms(4) show ?thesis
      by (auto simp: parses_to_def)
  next
    case (Delete_admin u)
    with run_delete_message [OF assms(1,2) _ assms(3), of 4 u rest] assms(4) show ?thesis
      by (auto simp: parses_to_def)
  qed (use get [of 0] get [of 1] get [of 2] get [of 3] get [of 4] assms(3) in \<open>auto simp: parses_to_def\<close>)
qed

subsection \<open>Replies\<close>

fun reply_bytes :: "reply_data \<Rightarrow> byte list" where
  "reply_bytes Data_null = [0]"
| "reply_bytes (Data_number v) = be32 v"
| "reply_bytes (Data_bytes ds) = ds"

definition reply_message :: "monitor_response_status \<Rightarrow> reply_data \<Rightarrow> byte list" where
  "reply_message status d = monitor_status_byte status # be16 (of_nat (length (reply_bytes d))) @ reply_bytes d"

lemma length_reply_message: "length (reply_message status d) = length (reply_bytes d) + 3"
  by (simp add: reply_message_def)

lemma be16_split: "[be16 n ! 0, be16 n ! 1] = be16 n"
  by (simp add: be16_def)

lemma write_databytes_eq:
  "i + n \<le> length ds \<Longrightarrow> write_databytes b ds [i..<i + n] = buffer_write_all b (take n (drop i ds))"
proof (induction n arbitrary: i b)
  case (Suc n)
  then have "take (Suc n) (drop i ds) = ds ! i # take n (drop (Suc i) ds)"
    by (simp add: Cons_nth_drop_Suc [symmetric])
  moreover have "[i..<i + Suc n] = i # [Suc i..<Suc i + n]" by (simp add: upt_conv_Cons)
  ultimately show ?case using Suc.prems Suc.IH [of "Suc i"] by simp
qed simp

lemma monitor_marshall_eq:
  assumes "length (reply_bytes d) < 65536"
  shows "monitor_marshall b status (of_nat (length (reply_bytes d))) d =
     rbind (buffer_write_ptr b) (\<lambda>(_, n).
       if n < length (reply_message status d) then Inr (-1, b)
       else rbind (buffer_write_all b (reply_message status d))
         (\<lambda>b'. Inr (int (length (reply_message status d)), b')))"
proof -
  let ?n = "of_nat (length (reply_bytes d)) :: u16"
  have n: "unat ?n = length (reply_bytes d)" by (rule unat_of_nat_u16 [OF assms])
  then have ui: "uint ?n = int (length (reply_bytes d))" by (simp only: uint_nat)
  have payload: "(case d of Data_number v \<Rightarrow> buffer_write_all b3 (be32 v) | Data_null \<Rightarrow> buffer_write b3 0
      | Data_bytes ds \<Rightarrow> write_databytes b3 ds [0..<unat ?n]) = buffer_write_all b3 (reply_bytes d)" for b3
    using write_databytes_eq [of 0 "length (reply_bytes d)" "reply_bytes d" b3] n by (cases d) simp_all
  have "buffer_write_all b1 (be16 ?n @ reply_bytes d) = rbind (buffer_write b1 (be16 ?n ! 0)) (\<lambda>b2.
      rbind (buffer_write b2 (be16 ?n ! 1)) (\<lambda>b3. buffer_write_all b3 (reply_bytes d)))" for b1
    by (subst be16_split [symmetric]) (simp add: rbind_assoc)
  then show ?thesis
    unfolding monitor_marshall_def payload
    by (simp add: length_reply_message n ui reply_message_def rbind_assoc split_def add.commute numeral_3_eq_3
        cong: if_cong)
qed

lemma monitor_marshall_ok:
  assumes "wf_buffer b" "length (reply_message status d) \<le> buffer_space b" "length (reply_bytes d) < 65536"
  shows "\<exists>b'. monitor_marshall b status (of_nat (length (reply_bytes d))) d = Inr (int (length (reply_message status d)), b') \<and>
     wf_buffer b' \<and> buffer_bytes b' = buffer_bytes b @ reply_message status d \<and> blimit b' = blimit b"
  using buffer_write_all_ok [OF assms(1,2)] assms(2)
  by (auto simp: monitor_marshall_eq [OF assms(3)] buffer_write_ptr_eq assms(1))

lemma monitor_error_marshall_ok:
  assumes "wf_buffer b" "4 \<le> buffer_space b"
  shows "\<exists>b'. monitor_error_marshall b p = Inr (4, b') \<and> wf_buffer b' \<and> blimit b' = blimit b \<and>
     buffer_bytes b' = buffer_bytes b @ reply_message (monitor_error_status (mp_state p)) Data_null"
proof -
  let ?xs = "monitor_status_byte (monitor_error_status (mp_state p)) # be16 1 @ [0]"
  have "buffer_write_all b ?xs = rbind (buffer_write b (monitor_status_byte (monitor_error_status (mp_state p)))) (\<lambda>b1.
      rbind (buffer_write b1 (be16 1 ! 0)) (\<lambda>b2. rbind (buffer_write b2 (be16 1 ! 1)) (\<lambda>b3. buffer_write b3 0)))"
    by (subst be16_split [symmetric]) (simp add: rbind_assoc)
  with buffer_write_all_ok [OF assms(1), of ?xs] assms show ?thesis
    by (auto simp: monitor_error_marshall_def buffer_write_ptr_eq reply_message_def rbind_assoc)
qed

subsection \<open>Two connections at once\<close>

definition named_parser :: "byte list \<Rightarrow> byte \<Rightarrow> u16 \<Rightarrow> byte list \<Rightarrow> monitor_parser" where
  "named_parser tok t n u =
     (config_parser tok t n)\<lparr>mp_monitor := (mp_monitor (config_parser tok t n))\<lparr>m_data := one_string u\<rparr>,
        mp_i := of_nat (Suc (length u)), mp_separated := True\<rparr>"

lemma run_name:
  assumes "length tok = 16" "\<not> mp_separated p" "t \<in> {1, 3}" "length (ms_combinedlen s) = 2"
    "u \<noteq> []" "list_all IS_ALNUM u" "length u < 256" "Suc (length u) < unat n"
  shows "run_monitor (monitor_parser_init p, s) (0x01 # tok @ [0x01, t] @ be16 n @ u @ [0]) =
     Inr ([], (named_parser tok t n u, s\<lparr>ms_combinedlen := be16 n, ms_username_len_with_null := Suc (length u)\<rparr>), ())"
proof -
  let ?p = "config_parser tok t n" and ?s = "s\<lparr>ms_combinedlen := be16 n\<rparr>"
  let ?p1 = "?p\<lparr>mp_monitor := (mp_monitor ?p)\<lparr>m_data := overwrite (replicate 512 0) 0 u\<rparr>, mp_i := of_nat (length u)\<rparr>"
  have t: "t \<in> {0, 1, 2, 3, 4}" "t \<noteq> 0" using assms(3) by auto
  have "run_monitor (?p, ?s) (u @ [0]) =
      run_monitor (?p\<lparr>mp_monitor := (mp_monitor ?p)\<lparr>m_data := overwrite (m_data (mp_monitor ?p)) 0 u\<rparr>,
        mp_i := of_nat (0 + length u)\<rparr>, ?s) [0]"
    by (rule run_user) (use assms t in \<open>auto simp: config_parser_counters\<close>)
  moreover have "monitor_parser_feed (?p1, ?s) 0 =
      Inr (named_parser tok t n u, ?s\<lparr>ms_username_len_with_null := Suc (length u)\<rparr>)"
    using feed_separator [where p = ?p1 and k = "length u" and s = ?s] assms t one_string_memory [of u]
    by (simp add: config_parser_counters named_parser_def add.commute)
  moreover have "mp_state (named_parser tok t n u) = monitor_data" by (simp add: named_parser_def)
  ultimately show ?thesis using run_config_header [OF assms(1,2) t(1) assms(4), of n "u @ [0]"] by simp
qed

lemma pass_misplaced:
  assumes "length u + length pw \<le> length v" "length v < 256" "pw \<noteq> []"
  shows "cstr ((overwrite (one_string u) (256 + Suc (length u) - Suc (length v)) pw)[256 + m := 0]) = cstr u"
    and "cstr (drop 256 ((overwrite (one_string u) (256 + Suc (length u) - Suc (length v)) pw)[256 + m := 0])) = []"
proof -
  let ?g = "256 + Suc (length u) - Suc (length v)"
  define z where "z = ?g - Suc (length u)"
  define y where "y = 256 - ?g - length pw"
  have "1 \<le> length pw" using assms(3) by (cases pw) simp_all
  then have g: "?g = Suc (length u) + z" "?g + length pw + y = 256" using assms by (auto simp: z_def y_def)
  then have sum: "length u + z + length pw + y = 255" by simp
  have one: "one_string u = u @ 0 # replicate (511 - length u) 0"
    using assms by (simp add: one_string_def strncpy_bytes_def monitor_sizes flip: replicate_Suc)
  have "overwrite (one_string u) ?g pw = (u @ 0 # replicate z 0) @ pw @ replicate (y + 256) 0"
    unfolding one g(1) using sum by (simp add: overwrite_def min_def) linarith
  also have "\<dots> = ((u @ 0 # replicate z 0) @ pw @ replicate y 0) @ replicate 256 0"
    by (simp add: replicate_add)
  finally have ow: "overwrite (one_string u) ?g pw = ((u @ 0 # replicate z 0) @ pw @ replicate y 0) @ replicate 256 0" .
  have len: "length ((u @ 0 # replicate z 0) @ pw @ replicate y 0) = 256" using sum by simp
  then have eq: "(overwrite (one_string u) ?g pw)[256 + m := 0] =
      ((u @ 0 # replicate z 0) @ pw @ replicate y 0) @ replicate 256 0"
    unfolding ow by (subst list_update_append) simp
  show "cstr ((overwrite (one_string u) ?g pw)[256 + m := 0]) = cstr u" unfolding eq by simp
  show "cstr (drop 256 ((overwrite (one_string u) ?g pw)[256 + m := 0])) = []"
    unfolding eq by (subst drop_append) (use len in simp)
qed

lemma consume_message:
  assumes "wf_buffer b" "buffer_bytes b = monitor_message tok r @ rest" "length tok = 16" "request_fits r"
    "\<not> mp_separated p" "length (ms_combinedlen s) = 2"
  shows "\<exists>b' p' s'. monitor_consume b (monitor_parser_init p) s = Inr (monitor_done, b', p', s') \<and> wf_buffer b' \<and>
     m_token (mp_monitor p') = tok \<and> holds_request (mp_monitor p') r"
proof -
  obtain rest' p' s' where run: "run_monitor (monitor_parser_init p, s) (buffer_bytes b) = Inr (rest', (p', s'), ())"
    and p': "mp_state p' = monitor_done" "m_token (mp_monitor p') = tok" "holds_request (mp_monitor p') r"
    using run_message [OF assms(3,5,6,4), of rest] unfolding assms(2) parses_to_def by blast
  obtain b' where "parse_loop monitor_parser_feed monitor_fin b (monitor_parser_init p, s) () = Inr (b', (p', s'), ())"
    "wf_buffer b'"
    by (rule parse_loop_InrI [OF assms(1) run])
  with p' show ?thesis by (simp add: monitor_consume_def)
qed

section \<open>Properties\<close>



text \<open>C26. The memory safety of the monitoring parser depends on one number: on a connection whose bytes
  are parsed without another one in between, a store outside \<open>union data\<close> can only happen after the
  parser has accepted a \<open>DLEN\<close> of 256 or more for an account request. Nothing else the client sends
  makes it leave its memory, read an uninitialised variable or fail in any other way.\<close>

theorem monitor_fault_only_long:
  assumes "length (ms_combinedlen s) = 2" "\<not> mp_separated p"
    "parse_list monitor_parser_feed monitor_fin (monitor_parser_init p, s) () xs = Inl err"
  shows "\<exists>ys zs p' s'. xs = ys @ zs \<and>
     parse_list monitor_parser_feed monitor_fin (monitor_parser_init p, s) () ys = Inr ([], (p', s'), ()) \<and>
     mp_state p' = monitor_data \<and> m_target (mp_monitor p') \<noteq> 0 \<and> 256 \<le> unat (m_dlen (mp_monitor p'))"
  using monitor_parse_fault [OF monitor_init_inv [OF assms(1,2)] assms(3)] by (fastforce simp: data_too_long_def)

text \<open>C35. That number is not checked: a request to add a proxy user or an administrator whose name and
  password are alphanumeric and of the lengths the protocol allows, but together reach 255 bytes,
  makes the parser store the final NUL outside \<open>union data\<close>, past the end of \<open>struct monitor\<close>. The
  token has not been compared with the administrators' when this happens, so any token does it.\<close>

theorem monitor_long_add_overflows:
  assumes "length tok = 16" "t \<in> {monitor_target_config_add_proxyuser, monitor_target_config_add_admin}"
    "u \<noteq> []" "list_all IS_ALNUM u" "list_all IS_ALNUM pw" "length u < 256" "length pw < 256"
    "256 \<le> length u + 1 + length pw" "length (ms_combinedlen s) = 2" "\<not> mp_separated p"
    "wf_buffer b" "buffer_bytes b = config_message tok t (u @ 0 # pw) @ rest"
  shows "monitor_consume b (monitor_parser_init p) s = Inl Out_of_bounds"
proof -
  have "run_monitor (monitor_parser_init p, s) (buffer_bytes b) = Inl Out_of_bounds"
    using run_add_message [OF assms(1,10,2,9,3-7), of rest] assms(8,12) by simp
  with parse_loop_list [OF assms(11), of monitor_parser_feed monitor_fin "(monitor_parser_init p, s)" "()"]
  show ?thesis by (simp add: monitor_consume_def)
qed

definition demo_parser :: monitor_parser where
  "demo_parser = \<lparr>mp_monitor = monitor_zero, mp_state = monitor_version, mp_len = 0, mp_i = 0, mp_separated = False\<rparr>"

theorem monitor_long_add_overflows_witness:
  "monitor_consume (buffer_init 300 (config_message (replicate 16 48) 1 (replicate 128 97 @ 0 # replicate 150 98))\<lparr>bwrite := 300\<rparr>)
     (monitor_parser_init demo_parser) monitor_statics_init = Inl Out_of_bounds"
proof -
  let ?u = "replicate 128 (97 :: byte)" and ?pw = "replicate 150 (98 :: byte)"
  let ?m = "config_message (replicate 16 48) 1 (?u @ 0 # ?pw)"
  have m: "length ?m = 300" by (simp add: config_message_def)
  have al: "list_all IS_ALNUM ?u" "list_all IS_ALNUM ?pw" by (simp_all add: list_all_iff IS_ALNUM_def word_le_nat_alt)
  show ?thesis
    by (rule monitor_long_add_overflows [where tok = "replicate 16 48" and t = 1 and u = ?u and pw = ?pw and rest = "[]"])
      (use al m in \<open>simp_all add: monitor_statics_init_def demo_parser_def wf_buffer_def buffer_init_def buffer_reset_def
        buffer_bytes_def\<close>)
qed

theorem monitor_fault_only_long_witness:
  "\<exists>ys zs p' s'. config_message (replicate 16 48) 1 (replicate 128 97 @ 0 # replicate 150 98) = ys @ zs \<and>
     parse_list monitor_parser_feed monitor_fin (monitor_parser_init demo_parser, monitor_statics_init) () ys =
       Inr ([], (p', s'), ()) \<and> 256 \<le> unat (m_dlen (mp_monitor p'))"
proof -
  let ?u = "replicate 128 (97 :: byte)" and ?pw = "replicate 150 (98 :: byte)"
  have al: "list_all IS_ALNUM ?u" "list_all IS_ALNUM ?pw" by (simp_all add: list_all_iff IS_ALNUM_def word_le_nat_alt)
  have st: "length (ms_combinedlen monitor_statics_init) = 2" "\<not> mp_separated demo_parser"
    by (simp_all add: monitor_statics_init_def demo_parser_def)
  have "run_monitor (monitor_parser_init demo_parser, monitor_statics_init)
      (config_message (replicate 16 48) 1 (?u @ 0 # ?pw) @ []) = Inl Out_of_bounds"
    using run_add_message [of "replicate 16 48" demo_parser 1 monitor_statics_init ?u ?pw "[]"] al st by simp
  with monitor_fault_only_long [OF st, of "config_message (replicate 16 48) 1 (?u @ 0 # ?pw)" Out_of_bounds]
  show ?thesis by (auto simp del: parse_list.simps)
qed

text \<open>C36. Two administrators at once: \<open>username_len_with_null\<close> is shared by all connections. When one
  client has sent the name of an account to add and its separator, a second one does the same with a
  longer name, and then the first sends its password, that password is stored in front of \<open>pass\<close>: the
  parser of the first connection ends in \<open>monitor_done\<close> with the right name and an empty password.\<close>

theorem monitor_shared_counter:
  assumes "length tok = 16" "length tok' = 16" "\<not> mp_separated p" "\<not> mp_separated p'"
    "length (ms_combinedlen s) = 2" "u \<noteq> []" "list_all IS_ALNUM u" "list_all IS_ALNUM v"
    "pw \<noteq> []" "list_all IS_ALNUM pw" "length u + length pw \<le> length v" "length v < 255" "Suc (length v) < unat m"
  shows "\<exists>pa sa pb sb pa' sa'.
     parse_list monitor_parser_feed monitor_fin (monitor_parser_init p, s) ()
       (0x01 # tok @ [0x01, 0x01] @ be16 (of_nat (length u + 1 + length pw)) @ u @ [0]) = Inr ([], (pa, sa), ()) \<and>
     parse_list monitor_parser_feed monitor_fin (monitor_parser_init p', sa) ()
       (0x01 # tok' @ [0x01, 0x01] @ be16 m @ v @ [0]) = Inr ([], (pb, sb), ()) \<and>
     parse_list monitor_parser_feed monitor_fin (pa, sb) () pw = Inr ([], (pa', sa'), ()) \<and>
     mp_state pa' = monitor_done \<and> cstr (m_data (mp_monitor pa')) = u \<and> cstr (drop 256 (m_data (mp_monitor pa'))) = []"
proof -
  define n :: u16 where "n = of_nat (length u + 1 + length pw)"
  have n: "unat n = length u + 1 + length pw"
    unfolding n_def using assms(11,12) by (intro unat_of_nat_u16) simp
  let ?pa = "named_parser tok 1 n u" and ?k = "Suc (length u)"
  let ?sa = "s\<lparr>ms_combinedlen := be16 n, ms_username_len_with_null := Suc (length u)\<rparr>"
  let ?sb = "?sa\<lparr>ms_combinedlen := be16 m, ms_username_len_with_null := Suc (length v)\<rparr>"
  have v: "v \<noteq> []" using assms(9,11) by (cases pw) auto
  have 1: "run_monitor (monitor_parser_init p, s) (0x01 # tok @ [0x01, 0x01] @ be16 n @ u @ [0]) = Inr ([], (?pa, ?sa), ())"
    by (rule run_name) (use assms n in auto)
  have 2: "run_monitor (monitor_parser_init p', ?sa) (0x01 # tok' @ [0x01, 0x01] @ be16 m @ v @ [0]) =
      Inr ([], (named_parser tok' 1 m v, ?sb), ())"
    using run_name [where p = p' and s = ?sa and t = 1 and tok = tok' and u = v and n = m] assms v by simp
  have len: "length (one_string u) = 512" "unat (mp_len ?pa) = ?k + length pw"
    using n by (simp_all add: one_string_def monitor_sizes named_parser_def config_parser_counters)
  have "run_monitor (?pa, ?sb) (pw @ []) = (if ?k + length pw < 256
      then Inr ([], (?pa\<lparr>mp_monitor := (mp_monitor ?pa)\<lparr>m_data :=
              (overwrite (m_data (mp_monitor ?pa)) (256 + ?k - Suc (length v)) pw)[256 + (?k + length pw) := 0]\<rparr>,
              mp_i := of_nat (?k + length pw), mp_separated := False, mp_state := monitor_done\<rparr>, ?sb), ())
      else Inl Out_of_bounds)"
    by (rule run_pass) (use assms len in \<open>auto simp: named_parser_def\<close>)
  moreover have "0 \<notin> set u" using assms(7) alnum_nonzero by (auto simp: list_all_iff)
  ultimately have 3: "\<exists>pa' sa'. run_monitor (?pa, ?sb) pw = Inr ([], (pa', sa'), ()) \<and> mp_state pa' = monitor_done \<and>
      cstr (m_data (mp_monitor pa')) = u \<and> cstr (drop 256 (m_data (mp_monitor pa'))) = []"
    using pass_misplaced [OF assms(11) _ assms(9), of "?k + length pw"] assms(11,12) by (simp add: named_parser_def)
  then show ?thesis using 1 2 unfolding n_def by blast
qed

theorem monitor_shared_counter_witness:
  "\<exists>pa sa pb sb pa' sa'.
     parse_list monitor_parser_feed monitor_fin (monitor_parser_init demo_parser, monitor_statics_init) ()
       (0x01 # replicate 16 48 @ [0x01, 0x01] @ be16 3 @ [97] @ [0]) = Inr ([], (pa, sa), ()) \<and>
     parse_list monitor_parser_feed monitor_fin (monitor_parser_init demo_parser, sa) ()
       (0x01 # replicate 16 49 @ [0x01, 0x01] @ be16 9 @ [98, 99, 100] @ [0]) = Inr ([], (pb, sb), ()) \<and>
     parse_list monitor_parser_feed monitor_fin (pa, sb) () [120] = Inr ([], (pa', sa'), ()) \<and>
     cstr (m_data (mp_monitor pa')) = [97] \<and> cstr (drop 256 (m_data (mp_monitor pa'))) = []"
proof -
  have al: "list_all IS_ALNUM [97]" "list_all IS_ALNUM [98, 99, 100]" "list_all IS_ALNUM [120]"
    by (simp_all add: IS_ALNUM_def word_le_nat_alt)
  have st: "length (ms_combinedlen monitor_statics_init) = 2" "\<not> mp_separated demo_parser"
    by (simp_all add: monitor_statics_init_def demo_parser_def)
  show ?thesis
    using monitor_shared_counter [of "replicate 16 48" "replicate 16 49" demo_parser demo_parser monitor_statics_init
        "[97]" "[98, 99, 100]" "[120]" 9, OF _ _ st(2) st(2) st(1) _ al(1,2) _ al(3)]
    by (simp del: parse_list.simps) blast
qed

end
