(* ===== verification/Monitornio.thy ===== *)
theory Monitornio
  imports Monitor Connection
begin

text \<open>
  Model of \<open>src/server/monitornio.c\<close>: the service that answers the requests of the monitoring protocol.

  \<open>struct connection\<close> is the record \<open>connection\<close>. The pointers of \<open>struct monitor_st\<close> always name the
  same fields (\<open>rb\<close> and \<open>wb\<close> the two buffers, \<open>parser.monitor\<close> the field \<open>monitor\<close>, which is
  \<open>mp_monitor\<close> of the parser), and are left out. A handler runs in an \<open>mworld\<close>: the selector, the
  globals of the proxy, the administrators, the static variables of the parser, the pool, and the
  connection of the key. What the kernel and \<open>malloc\<close> answer is a \<open>monitor_ret\<close>.

  \<open>exec_request\<close> is the specification: what a request does to the lists of accounts and the switch of
  the disector, and what it is answered. \<open>monitor_process\<close> refines it.
\<close>

section \<open>Data\<close>

record connection =
  mc_client_fd :: fd
  mc_parser :: monitor_parser
  mc_status :: monitor_response_status
  mc_read_buffer :: buffer
  mc_write_buffer :: buffer

record mworld =
  mw_sel :: selector
  mw_glob :: globals
  mw_admins :: registry
  mw_statics :: monitor_statics
  mw_pool_len :: nat
  mw_pool_size :: nat
  mw_conn :: connection
  mw_life :: life
  mw_out :: "out_event list"

record monitor_ret =
  mr_accept :: fd
  mr_getfd :: int
  mr_setfl :: "int \<Rightarrow> int"
  mr_malloc :: bool
  mr_alloc :: bool
  mr_recv :: recv_result
  mr_send :: send_result

type_synonym mkey = "nat selector_key \<times> monitor_ret"

abbreviation upd_mconn :: "(connection \<Rightarrow> connection) \<Rightarrow> mworld \<Rightarrow> mworld" where
  "upd_mconn f w \<equiv> w\<lparr>mw_conn := f (mw_conn w)\<rparr>"

definition memit :: "out_event \<Rightarrow> mworld \<Rightarrow> mworld" where
  "memit e w = w\<lparr>mw_out := mw_out w @ [e]\<rparr>"

section \<open>Connections and their pool\<close>

definition max_pool_monitor :: nat where "max_pool_monitor = 5"

definition MONITOR_BUFFER_SIZE :: nat where "MONITOR_BUFFER_SIZE = 0xffff"

text \<open>The struct after \<open>memset (ret, 0x00, sizeof (*ret))\<close>.\<close>

definition connection_zero :: connection where
  "connection_zero =
     \<lparr>mc_client_fd = 0,
      mc_parser = \<lparr>mp_monitor = monitor_zero, mp_state = monitor_version, mp_len = 0, mp_i = 0, mp_separated = False\<rparr>,
      mc_status = monitor_status_succeeded,
      mc_read_buffer = \<lparr>bdata = [], blimit = 0, bread = 0, bwrite = 0\<rparr>,
      mc_write_buffer = \<lparr>bdata = [], blimit = 0, bread = 0, bwrite = 0\<rparr>\<rparr>"

definition connection_new :: "bool \<Rightarrow> fd \<Rightarrow> mworld \<Rightarrow> connection option \<times> mworld" where
  "connection_new malloc_ok cfd w =
     (let (some, w1) = (if mw_pool_len w = 0 then (malloc_ok, w)
                        else (True, w\<lparr>mw_pool_len := mw_pool_len w - 1\<rparr>))
      in if \<not> some then (None, w1)
         else (Some (connection_zero\<lparr>mc_client_fd := cfd,
                mc_read_buffer := buffer_init MONITOR_BUFFER_SIZE (replicate MONITOR_BUFFER_SIZE 0),
                mc_write_buffer := buffer_init MONITOR_BUFFER_SIZE (replicate MONITOR_BUFFER_SIZE 0)\<rparr>), w1))"

text \<open>\<open>connection_destroy\<close> of the connection of the world; a call with NULL does nothing.\<close>

definition connection_destroy :: "mworld \<Rightarrow> mworld" where
  "connection_destroy w =
     (if mw_pool_size w < max_pool_monitor
      then w\<lparr>mw_pool_len := mw_pool_len w + 1, mw_pool_size := mw_pool_size w + 1, mw_life := Pooled\<rparr>
      else w\<lparr>mw_life := Freed\<rparr>)"

definition connection_pool_destroy :: "mworld \<Rightarrow> mworld" where
  "connection_pool_destroy w = w\<lparr>mw_pool_len := 0\<rparr>"

definition monitor_init :: "connection \<Rightarrow> connection" where
  "monitor_init c = c\<lparr>mc_status := monitor_status_server_error, mc_parser := monitor_parser_init (mc_parser c)\<rparr>"

text \<open>\<open>monitor_passive_accept\<close>: the connection it creates becomes the connection of the world; \<open>ident\<close>
  stands for the pointer given to the selector. \<open>mw_life\<close> is \<open>Alive\<close> afterwards if it was kept.\<close>

definition monitor_passive_accept :: "mkey \<Rightarrow> nat \<Rightarrow> mworld \<Rightarrow> mworld res" where
  "monitor_passive_accept k ident w =
     (let client = mr_accept (snd k)
      in if client = -1 then Inr w
         else if selector_fd_set_nio (mr_getfd (snd k)) (mr_setfl (snd k)) = -1 then Inr (memit (Ev_close client) w)
         else case connection_new (mr_malloc (snd k)) client w of
           (None, w1) \<Rightarrow> Inr (memit (Ev_close client) w1)
         | (Some c, w1) \<Rightarrow>
             rbind (selector_register (mr_alloc (snd k)) (mw_sel w1) client (Some H_monitor) OP_READ (Some ident))
               (\<lambda>(st, s).
                 let w2 = w1\<lparr>mw_sel := s, mw_conn := c, mw_life := Alive\<rparr>
                 in if SELECTOR_SUCCESS \<noteq> st then Inr (connection_destroy (memit (Ev_close client) w2))
                    else Inr (upd_mconn monitor_init w2)))"

section \<open>Finishing\<close>

definition monitor_close :: "(handler_id, nat, mworld) callback" where
  "monitor_close key = (\<lambda>(s, w). Inr (s, connection_destroy w))"

definition monitor_close_handlers :: "handler_id \<Rightarrow> (handler_id, nat, mworld) fd_handler" where
  "monitor_close_handlers h =
     \<lparr>handle_read = None, handle_write = None, handle_block = None,
      handle_close = (if h = H_monitor then Some monitor_close else None)\<rparr>"

definition monitor_finish :: "mkey \<Rightarrow> mworld \<Rightarrow> mworld res" where
  "monitor_finish k w =
     (let f = mc_client_fd (mw_conn w)
      in if f \<noteq> -1 then
           rbind (selector_unregister_fd monitor_close_handlers f (mw_sel w, w)) (\<lambda>(st, s, w1).
             if SELECTOR_SUCCESS \<noteq> st then Inl Abort_call
             else Inr (memit (Ev_close f) (w1\<lparr>mw_sel := s\<rparr>)))
         else Inr w)"

section \<open>Processing a request\<close>

definition usernames_size :: nat where "usernames_size = MAX_USERS * 0xff"

text \<open>\<open>data = malloc (dlen)\<close> and a store through it: NULL unless \<open>malloc_ok\<close>, and the store then a
  fault, except for the copy of no bytes.\<close>

definition number_reply :: "bool \<Rightarrow> u32 \<Rightarrow> (monitor_response_status \<times> u16 \<times> reply_data) res" where
  "number_reply malloc_ok v =
     (if malloc_ok then Inr (monitor_status_succeeded, 4, Data_number v) else Inl Null_deref)"

definition list_reply :: "bool \<Rightarrow> u16 \<times> byte list \<Rightarrow> (monitor_response_status \<times> u16 \<times> reply_data) res" where
  "list_reply malloc_ok = (\<lambda>(dlen, names).
     if malloc_ok then Inr (monitor_status_succeeded, dlen, Data_bytes (take (unat dlen) names))
     else if dlen = 0 then Inr (monitor_status_succeeded, dlen, Data_null)
     else Inl Null_deref)"

definition process_get :: "bool \<Rightarrow> byte \<Rightarrow> mworld \<Rightarrow> (monitor_response_status \<times> u16 \<times> reply_data) res" where
  "process_get malloc_ok t w =
     (if t = monitor_target_get_concurrent then
        number_reply malloc_ok (socksv5_current_connections (mw_glob w))
      else if t = monitor_target_get_historic then
        number_reply malloc_ok (socksv5_historic_connections (mw_glob w))
      else if t = monitor_target_get_transfered then
        number_reply malloc_ok (socksv5_bytes_transferred (mw_glob w))
      else if t = monitor_target_get_proxyusers then
        rbind (socksv5_get_users (g_users (mw_glob w)) (replicate usernames_size 0)) (list_reply malloc_ok)
      else if t = monitor_target_get_adminusers then
        rbind (monitor_get_admins (mw_admins w) (replicate usernames_size 0)) (list_reply malloc_ok)
      else Inr (monitor_status_invalid_target, 1, Data_null))"

definition set_users :: "int \<times> registry \<Rightarrow> mworld \<Rightarrow> int \<times> mworld" where
  "set_users r w = (fst r, w\<lparr>mw_glob := (mw_glob w)\<lparr>g_users := snd r\<rparr>\<rparr>)"

definition set_admins :: "int \<times> registry \<Rightarrow> mworld \<Rightarrow> int \<times> mworld" where
  "set_admins r w = (fst r, w\<lparr>mw_admins := snd r\<rparr>)"

text \<open>The CONFIG targets: the status, \<open>error_response\<close> and the new world.\<close>

definition process_config :: "monitor \<Rightarrow> mworld \<Rightarrow> (monitor_response_status \<times> int \<times> mworld) res" where
  "process_config m w =
     (let t = m_target m;
          user = read_cstr (m_data m);
          second = read_cstr (drop USERNAME_SIZE (m_data m))
      in if t = monitor_target_config_pop3disector then
           Inr (monitor_status_succeeded, 0,
                w\<lparr>mw_glob := socksv5_toggle_disector (take 4 (m_data m) = [1, 0, 0, 0]) (mw_glob w)\<rparr>)
         else if t = monitor_target_config_add_proxyuser then
           rbind user (\<lambda>u. rbind second (\<lambda>pw.
             rbind (socksv5_register_user u pw (g_users (mw_glob w))) (\<lambda>r.
               Inr (monitor_status_succeeded, set_users r w))))
         else if t = monitor_target_config_delete_proxyuser then
           rbind user (\<lambda>u. rbind (socksv5_unregister_user u (g_users (mw_glob w))) (\<lambda>r.
             Inr (monitor_status_succeeded, set_users r w)))
         else if t = monitor_target_config_add_admin then
           rbind user (\<lambda>u. rbind second (\<lambda>tok.
             rbind (monitor_register_admin u tok (mw_admins w)) (\<lambda>r.
               Inr (monitor_status_succeeded, set_admins r w))))
         else if t = monitor_target_config_delete_admin then
           rbind user (\<lambda>u. rbind (monitor_unregister_admin u (mw_admins w)) (\<lambda>r.
             Inr (monitor_status_succeeded, set_admins r w)))
         else Inr (monitor_status_invalid_target, 0, w))"

text \<open>What follows the label \<open>finally\<close>.\<close>

definition process_finally ::
  "monitor_response_status \<Rightarrow> int \<Rightarrow> u16 \<Rightarrow> reply_data \<Rightarrow> mworld \<Rightarrow> mworld res" where
  "process_finally status error_response dlen data w =
     (let status' = (if error_response \<noteq> 0 then monitor_status_invalid_data else status)
      in rbind (monitor_marshall (mc_write_buffer (mw_conn w)) status' dlen data) (\<lambda>(n, b).
           if -1 = n then Inl Abort_call
           else Inr (upd_mconn (\<lambda>c. c\<lparr>mc_status := status', mc_write_buffer := b\<rparr>) w)))"

definition monitor_process :: "mkey \<Rightarrow> mworld \<Rightarrow> mworld res" where
  "monitor_process k w =
     (let m = mp_monitor (mc_parser (mw_conn w))
      in if \<not> monitor_is_admin (mw_admins w) (m_token m) then
           process_finally monitor_status_error_auth 0 1 Data_null w
         else if m_method m = monitor_method_get then
           rbind (process_get (mr_malloc (snd k)) (m_target m) w) (\<lambda>(status, dlen, data).
             process_finally status 0 dlen data w)
         else if m_method m = monitor_method_config then
           rbind (process_config m w) (\<lambda>(status, err, w1). process_finally status err 1 Data_null w1)
         else process_finally monitor_status_invalid_method 0 1 Data_null w)"

section \<open>Handlers\<close>

definition monitor_read :: "mkey \<Rightarrow> mworld \<Rightarrow> mworld res" where
  "monitor_read k w =
     rbind (buffer_recv (mc_read_buffer (mw_conn w)) (mr_recv (snd k))) (\<lambda>(n, b).
       let w0 = upd_mconn (\<lambda>c. c\<lparr>mc_read_buffer := b\<rparr>) w
       in if n \<le> 0 then monitor_finish k w0
          else
            rbind (buffer_write_adv b n) (\<lambda>b1.
            rbind (monitor_consume b1 (mc_parser (mw_conn w0)) (mw_statics w0)) (\<lambda>(st, b2, p, s).
              let w1 = (upd_mconn (\<lambda>c. c\<lparr>mc_read_buffer := b2, mc_parser := p\<rparr>) w0)\<lparr>mw_statics := s,
                   mw_out := mw_out w0 @ [Ev_recv (key_fd (fst k)) (take (nat n) (drop (bwrite b) (bdata b)))]\<rparr>
              in if monitor_is_done st then
                   rbind (if st \<ge> monitor_error then
                            rbind (monitor_error_marshall (mc_write_buffer (mw_conn w1)) p) (\<lambda>(r, wb).
                              if -1 = r then Inl Abort_call
                              else Inr (upd_mconn (\<lambda>c. c\<lparr>mc_write_buffer := wb\<rparr>) w1))
                          else monitor_process k w1) (\<lambda>w2.
                     rbind (selector_set_interest_key (mw_sel w2) (fst k) OP_WRITE) (\<lambda>(_, sel).
                       Inr (w2\<lparr>mw_sel := sel\<rparr>)))
                 else Inr w1)))"

definition monitor_write :: "mkey \<Rightarrow> mworld \<Rightarrow> mworld res" where
  "monitor_write k w =
     rbind (buffer_send (mc_write_buffer (mw_conn w)) (mr_send (snd k))) (\<lambda>(n, out).
       if n = -1 then monitor_finish k w
       else
         rbind (buffer_read_adv (mc_write_buffer (mw_conn w)) n) (\<lambda>b.
           let w1 = memit (Ev_send (key_fd (fst k)) out) (upd_mconn (\<lambda>c. c\<lparr>mc_write_buffer := b\<rparr>) w)
           in if \<not> buffer_can_read b then monitor_finish k w1 else Inr w1))"

section \<open>Specification\<close>

text \<open>What an administrator can see and change: the accounts, the switch of the disector, the counters.\<close>

record mspec =
  sp_users :: "(byte list \<times> byte list) list"
  sp_admins :: "(byte list \<times> byte list) list"
  sp_disector :: bool
  sp_historic :: u32
  sp_current :: u32
  sp_bytes :: u32

definition mon_abs :: "mworld \<Rightarrow> mspec" where
  "mon_abs w =
     \<lparr>sp_users = user_entries (g_users (mw_glob w)), sp_admins = admin_entries (mw_admins w),
      sp_disector = is_disector_on (mw_glob w), sp_historic = historic_connections (mw_glob w),
      sp_current = current_connections (mw_glob w), sp_bytes = bytes_transferred (mw_glob w)\<rparr>"

definition name_list :: "(byte list \<times> byte list) list \<Rightarrow> byte list" where
  "name_list es = butlast (joined (map fst es))"

definition account_reply :: "int \<Rightarrow> monitor_response_status \<times> reply_data" where
  "account_reply c = (if c = 0 then monitor_status_succeeded else monitor_status_invalid_data, Data_null)"

abbreviation user_spec :: "reg_op \<Rightarrow> mspec \<Rightarrow> int \<times> (byte list \<times> byte list) list" where
  "user_spec op a \<equiv> reg_spec MAX_USERS (\<lambda>_. False) op (sp_users a)"

abbreviation admin_spec :: "reg_op \<Rightarrow> mspec \<Rightarrow> int \<times> (byte list \<times> byte list) list" where
  "admin_spec op a \<equiv> reg_spec MAX_ADMINS (\<lambda>u. u = default_admin_uname) op (sp_admins a)"

definition spec_users :: "reg_op \<Rightarrow> mspec \<Rightarrow> (monitor_response_status \<times> reply_data) \<times> mspec" where
  "spec_users op a = (account_reply (fst (user_spec op a)), a\<lparr>sp_users := snd (user_spec op a)\<rparr>)"

definition spec_admins :: "reg_op \<Rightarrow> mspec \<Rightarrow> (monitor_response_status \<times> reply_data) \<times> mspec" where
  "spec_admins op a = (account_reply (fst (admin_spec op a)), a\<lparr>sp_admins := snd (admin_spec op a)\<rparr>)"

fun exec_request :: "monitor_request \<Rightarrow> mspec \<Rightarrow> (monitor_response_status \<times> reply_data) \<times> mspec" where
  "exec_request Get_historic a = ((monitor_status_succeeded, Data_number (sp_historic a)), a)"
| "exec_request Get_concurrent a = ((monitor_status_succeeded, Data_number (sp_current a)), a)"
| "exec_request Get_transfered a = ((monitor_status_succeeded, Data_number (sp_bytes a)), a)"
| "exec_request Get_proxyusers a = ((monitor_status_succeeded, Data_bytes (name_list (sp_users a))), a)"
| "exec_request Get_adminusers a = ((monitor_status_succeeded, Data_bytes (name_list (sp_admins a))), a)"
| "exec_request (Set_disector on) a = ((monitor_status_succeeded, Data_null), a\<lparr>sp_disector := on\<rparr>)"
| "exec_request (Add_proxyuser u pw) a = spec_users (Reg_add u pw) a"
| "exec_request (Delete_proxyuser u) a = spec_users (Reg_del u) a"
| "exec_request (Add_admin u t) a =
     (if length t \<noteq> 16 then ((monitor_status_invalid_data, Data_null), a) else spec_admins (Reg_add u t) a)"
| "exec_request (Delete_admin u) a = spec_admins (Reg_del u) a"

definition answer ::
  "byte list \<Rightarrow> monitor_request \<Rightarrow> mspec \<Rightarrow> (monitor_response_status \<times> reply_data) \<times> mspec" where
  "answer tok r a =
     (if tok \<in> snd ` set (sp_admins a) then exec_request r a else ((monitor_status_error_auth, Data_null), a))"

fun request_valid :: "monitor_request \<Rightarrow> bool" where
  "request_valid (Delete_proxyuser u) = (request_fits (Delete_proxyuser u) \<and> length u < 0xff)"
| "request_valid (Delete_admin u) = (request_fits (Delete_admin u) \<and> length u < 0xff)"
| "request_valid r = request_fits r"

definition mon_inv :: "mworld \<Rightarrow> bool" where
  "mon_inv w \<longleftrightarrow> users_inv (g_users (mw_glob w)) \<and> admins_inv (mw_admins w)"

section \<open>Refinement\<close>

lemma alnum_c_string: "list_all IS_ALNUM u \<Longrightarrow> length u < n \<Longrightarrow> c_string n u"
  using alnum_nonzero by (auto simp: c_string_def list_all_iff)

lemma two_strings_read:
  assumes "c_string USERNAME_SIZE u" "c_string PASSWORD_SIZE v"
  shows "read_cstr (two_strings u v) = Inr u" "read_cstr (drop USERNAME_SIZE (two_strings u v)) = Inr v"
proof -
  show "read_cstr (two_strings u v) = Inr u"
    using assms by (simp add: two_strings_def strncpy_split read_cstr_def c_string_def)
  have "drop USERNAME_SIZE (two_strings u v) = strncpy_bytes PASSWORD_SIZE v" by (simp add: two_strings_def)
  then show "read_cstr (drop USERNAME_SIZE (two_strings u v)) = Inr v"
    using assms(2) by (simp add: strncpy_split read_cstr_def c_string_def)
qed

lemma one_string_read:
  assumes "c_string USERNAME_SIZE u"
  shows "read_cstr (one_string u) = Inr u"
proof -
  have "c_string sizeof_data u" using assms by (simp add: c_string_def sizeof_data_def)
  then show ?thesis using assms by (simp add: one_string_def strncpy_split read_cstr_def c_string_def)
qed

text \<open>The two ends of \<open>monitor_process\<close> in terms of the specification: the world differs from \<open>w1\<close> in
  the reply only.\<close>

definition replied :: "monitor_response_status \<times> reply_data \<Rightarrow> mworld \<Rightarrow> mworld \<Rightarrow> bool" where
  "replied rep w1 w' \<longleftrightarrow> (\<exists>b st. w' = upd_mconn (\<lambda>c. c\<lparr>mc_status := st, mc_write_buffer := b\<rparr>) w1 \<and> wf_buffer b \<and>
     buffer_bytes b = buffer_bytes (mc_write_buffer (mw_conn w1)) @ reply_message (fst rep) (snd rep) \<and>
     blimit b = blimit (mc_write_buffer (mw_conn w1)))"

lemma process_finally_ok:
  assumes "wf_buffer (mc_write_buffer (mw_conn w))" "length (reply_bytes d) + 3 \<le> buffer_space (mc_write_buffer (mw_conn w))"
    "length (reply_bytes d) < 65536" "dlen = of_nat (length (reply_bytes d))"
  shows "\<exists>w'. process_finally st err dlen d w = Inr w' \<and>
     replied (if err \<noteq> 0 then monitor_status_invalid_data else st, d) w w'"
proof -
  let ?st = "if err \<noteq> 0 then monitor_status_invalid_data else st"
  obtain b where b: "monitor_marshall (mc_write_buffer (mw_conn w)) ?st dlen d = Inr (int (length (reply_message ?st d)), b)"
    "wf_buffer b" "buffer_bytes b = buffer_bytes (mc_write_buffer (mw_conn w)) @ reply_message ?st d"
    "blimit b = blimit (mc_write_buffer (mw_conn w))"
    using monitor_marshall_ok [OF assms(1) _ assms(3), of ?st] assms(2,4) by (auto simp: length_reply_message)
  then show ?thesis
    unfolding process_finally_def replied_def Let_def
    by (intro exI [of _ "upd_mconn (\<lambda>c. c\<lparr>mc_status := ?st, mc_write_buffer := b\<rparr>) w"]) auto
qed

lemma name_list_bound:
  assumes "mon_inv w"
  shows "length (name_list (sp_users (mon_abs w))) + 3 \<le> 65535" "length (name_list (sp_admins (mon_abs w))) + 3 \<le> 65535"
proof -
  have "length (joined (map fst es)) \<le> 0xff * length es"
    if "\<And>i. i < length es \<Longrightarrow> c_string 0xff (fst (es ! i))" for es :: "(byte list \<times> byte list) list"
    using length_joined [of "map fst es"] that by (fastforce simp: in_set_conv_nth c_string_def)
  note len = this
  have inv: "reg_inv 0xff MAX_USERS (g_users (mw_glob w))" "reg_inv 0x11 MAX_ADMINS (mw_admins w)"
    using assms by (simp_all add: mon_inv_def users_inv_def admins_inv_def)
  have "length (joined (map fst (user_entries (g_users (mw_glob w))))) \<le> 0xff * MAX_USERS"
    using len [of "user_entries (g_users (mw_glob w))"] reg_inv_record(2) [OF inv(1)] inv(1)
    by (force simp: user_entries_def sizeof_user_def reg_inv_def intro: order_trans)
  moreover have "length (joined (map fst (admin_entries (mw_admins w)))) \<le> 0xff * MAX_ADMINS"
    using len [of "admin_entries (mw_admins w)"] reg_inv_record(2) [OF inv(2)] inv(2)
    by (force simp: admin_entries_def sizeof_admin_def reg_inv_def intro: order_trans)
  ultimately show "length (name_list (sp_users (mon_abs w))) + 3 \<le> 65535"
    "length (name_list (sp_admins (mon_abs w))) + 3 \<le> 65535"
    by (simp_all add: name_list_def mon_abs_def MAX_USERS_def MAX_ADMINS_def)
qed

text \<open>A GET target, and the reply the specification gives it.\<close>

fun get_target :: "monitor_request \<Rightarrow> byte option" where
  "get_target Get_historic = Some monitor_target_get_historic"
| "get_target Get_concurrent = Some monitor_target_get_concurrent"
| "get_target Get_transfered = Some monitor_target_get_transfered"
| "get_target Get_proxyusers = Some monitor_target_get_proxyusers"
| "get_target Get_adminusers = Some monitor_target_get_adminusers"
| "get_target _ = None"

lemma mon_abs_counters:
  "sp_historic (mon_abs w) = historic_connections (mw_glob w)"
  "sp_current (mon_abs w) = current_connections (mw_glob w)"
  "sp_bytes (mon_abs w) = bytes_transferred (mw_glob w)"
  by (simp_all add: mon_abs_def)

lemma process_get_ok:
  assumes "mon_inv w" "get_target r = Some t"
  shows "\<exists>d. process_get True t w = Inr (monitor_status_succeeded, of_nat (length (reply_bytes d)), d) \<and>
     exec_request r (mon_abs w) = ((monitor_status_succeeded, d), mon_abs w) \<and> length (reply_bytes d) + 3 \<le> 65535"
proof -
  have size: "length (replicate usernames_size (0 :: byte)) = MAX_USERS * 0xff" by (simp add: usernames_size_def)
  obtain us where us: "socksv5_get_users (g_users (mw_glob w)) (replicate usernames_size 0) =
      Inr (of_nat (length (name_list (sp_users (mon_abs w)))), us)"
    "take (length (name_list (sp_users (mon_abs w)))) us = name_list (sp_users (mon_abs w))"
    using users_list_ok [OF _ size, of "g_users (mw_glob w)"] assms(1) by (auto simp: mon_inv_def mon_abs_def name_list_def)
  obtain as where as: "monitor_get_admins (mw_admins w) (replicate usernames_size 0) =
      Inr (of_nat (length (name_list (sp_admins (mon_abs w)))), as)"
    "take (length (name_list (sp_admins (mon_abs w)))) as = name_list (sp_admins (mon_abs w))"
    using admins_list_ok [OF _ size, of "mw_admins w"] assms(1) by (auto simp: mon_inv_def mon_abs_def name_list_def)
  have len: "unat (of_nat (length (name_list (sp_users (mon_abs w)))) :: u16) = length (name_list (sp_users (mon_abs w)))"
    "unat (of_nat (length (name_list (sp_admins (mon_abs w)))) :: u16) = length (name_list (sp_admins (mon_abs w)))"
    using name_list_bound [OF assms(1)] by (intro unat_of_nat_u16; linarith)+
  show ?thesis
    using assms(2) us as len name_list_bound [OF assms(1)]
    by (cases r) (auto simp: process_get_def number_reply_def list_reply_def socksv5_current_connections_def
        socksv5_historic_connections_def socksv5_bytes_transferred_def mon_abs_counters)
qed

definition same_io :: "mworld \<Rightarrow> mworld \<Rightarrow> bool" where
  "same_io w w' \<longleftrightarrow> mw_sel w' = mw_sel w \<and> mw_conn w' = mw_conn w \<and> mw_life w' = mw_life w \<and>
     mw_out w' = mw_out w \<and> mw_statics w' = mw_statics w \<and> mw_pool_len w' = mw_pool_len w \<and>
     mw_pool_size w' = mw_pool_size w"

text \<open>\<open>process_config\<close> meets the specification of the request \<open>r\<close>.\<close>

definition config_meets :: "monitor_request \<Rightarrow> mworld \<Rightarrow> (monitor_response_status \<times> int \<times> mworld) res \<Rightarrow> bool" where
  "config_meets r w res \<longleftrightarrow> (\<exists>err w1. res = Inr (monitor_status_succeeded, err, w1) \<and> mon_inv w1 \<and> same_io w w1 \<and>
     exec_request r (mon_abs w) =
       ((if err \<noteq> 0 then monitor_status_invalid_data else monitor_status_succeeded, Data_null), mon_abs w1))"

lemma set_users_meets:
  assumes "mon_inv w" "valid_user_op op" "exec_request r (mon_abs w) = spec_users op (mon_abs w)"
  shows "config_meets r w (rbind (reg_step socksv5_register_user socksv5_unregister_user op (g_users (mw_glob w)))
     (\<lambda>x. Inr (monitor_status_succeeded, set_users x w)))"
proof -
  obtain r' where r': "reg_step socksv5_register_user socksv5_unregister_user op (g_users (mw_glob w)) =
      Inr (fst (reg_spec MAX_USERS (\<lambda>_. False) op (user_entries (g_users (mw_glob w)))), r')" "users_inv r'"
    "user_entries r' = snd (reg_spec MAX_USERS (\<lambda>_. False) op (user_entries (g_users (mw_glob w))))"
    using users.step_refines [OF _ assms(2)] assms(1) by (auto simp: mon_inv_def)
  show ?thesis
    unfolding config_meets_def assms(3) r'(1)
    using assms(1) r'(2) by (auto simp: r'(3) set_users_def mon_inv_def same_io_def spec_users_def account_reply_def mon_abs_def)
qed

lemma set_admins_meets:
  assumes "mon_inv w" "valid_admin_op op" "exec_request r (mon_abs w) = spec_admins op (mon_abs w)"
  shows "config_meets r w (rbind (reg_step monitor_register_admin monitor_unregister_admin op (mw_admins w))
     (\<lambda>x. Inr (monitor_status_succeeded, set_admins x w)))"
proof -
  obtain r' where r': "reg_step monitor_register_admin monitor_unregister_admin op (mw_admins w) =
      Inr (fst (reg_spec MAX_ADMINS (\<lambda>u. u = default_admin_uname) op (admin_entries (mw_admins w))), r')" "admins_inv r'"
    "admin_entries r' = snd (reg_spec MAX_ADMINS (\<lambda>u. u = default_admin_uname) op (admin_entries (mw_admins w)))"
    using admins.step_refines [OF _ assms(2)] assms(1) by (auto simp: mon_inv_def)
  show ?thesis
    unfolding config_meets_def assms(3) r'(1)
    using assms(1) r'(2) by (auto simp: r'(3) set_admins_def mon_inv_def same_io_def spec_admins_def account_reply_def mon_abs_def)
qed

lemma bad_token_meets:
  assumes "mon_inv w" "length t \<noteq> 16"
  shows "config_meets (Add_admin u t) w (rbind (monitor_register_admin u t (mw_admins w))
     (\<lambda>x. Inr (monitor_status_succeeded, set_admins x w)))"
  using assms
  by (auto simp: monitor_register_admin_def config_meets_def set_admins_def same_io_def)

lemma process_config_ok:
  assumes "mon_inv w" "holds_request m r" "request_valid r" "get_target r = None"
  shows "config_meets r w (process_config m w)"
proof (cases r)
  case (Set_disector on)
  with assms show ?thesis
    by (auto simp: config_meets_def process_config_def socksv5_toggle_disector_def mon_inv_def same_io_def mon_abs_def)
next
  case (Add_proxyuser u pw)
  then have "c_string 0xff u" "c_string 0xff pw" "c_string USERNAME_SIZE u" "c_string PASSWORD_SIZE pw"
    using assms(3) by (auto simp: monitor_sizes intro!: alnum_c_string)
  then show ?thesis
    using set_users_meets [OF assms(1), of "Reg_add u pw" r] two_strings_read [of u pw] assms(2) Add_proxyuser
    by (simp add: process_config_def)
next
  case (Delete_proxyuser u)
  then have "c_string 0xff u" "c_string USERNAME_SIZE u"
    using assms(3) by (auto simp: monitor_sizes intro!: alnum_c_string)
  then show ?thesis
    using set_users_meets [OF assms(1), of "Reg_del u" r] one_string_read [of u] assms(2) Delete_proxyuser
    by (simp add: process_config_def)
next
  case (Add_admin u t)
  then have c: "c_string 0xff u" "c_string PASSWORD_SIZE t" "c_string USERNAME_SIZE u"
    using assms(3) by (auto simp: monitor_sizes intro!: alnum_c_string)
  show ?thesis
    using set_admins_meets [OF assms(1), of "Reg_add u t" r] bad_token_meets [OF assms(1), of t u] c
      two_strings_read [of u t] assms(2) Add_admin
    by (cases "length t = 16") (simp_all add: process_config_def, simp add: c_string_def)
next
  case (Delete_admin u)
  then have "c_string 0xff u" "c_string USERNAME_SIZE u"
    using assms(3) by (auto simp: monitor_sizes intro!: alnum_c_string)
  then show ?thesis
    using set_admins_meets [OF assms(1), of "Reg_del u" r] one_string_read [of u] assms(2) Delete_admin
    by (simp add: process_config_def)
qed (use assms(4) in simp_all)

definition mon_ready :: "mworld \<Rightarrow> bool" where
  "mon_ready w \<longleftrightarrow> mon_inv w \<and> wf_buffer (mc_write_buffer (mw_conn w)) \<and>
     65535 \<le> buffer_space (mc_write_buffer (mw_conn w))"

lemma monitor_process_ok:
  assumes "mon_ready w" "mr_malloc (snd k)" "m = mp_monitor (mc_parser (mw_conn w))"
    "length (m_token m) = 16" "holds_request m r" "request_valid r"
  shows "\<exists>w1 w'. monitor_process k w = Inr w' \<and> same_io w w1 \<and> mon_inv w1 \<and>
     mon_abs w1 = snd (answer (m_token m) r (mon_abs w)) \<and> replied (fst (answer (m_token m) r (mon_abs w))) w1 w'"
proof -
  have inv: "mon_inv w" and wf: "wf_buffer (mc_write_buffer (mw_conn w))"
    "65535 \<le> buffer_space (mc_write_buffer (mw_conn w))"
    using assms(1) by (simp_all add: mon_ready_def)
  have adm: "monitor_is_admin (mw_admins w) (m_token m) \<longleftrightarrow> m_token m \<in> snd ` set (sp_admins (mon_abs w))"
    using token_registered [OF _ assms(4)] inv by (simp add: mon_inv_def mon_abs_def)
  have refl: "same_io w w" by (simp add: same_io_def)
  show ?thesis
  proof (cases "monitor_is_admin (mw_admins w) (m_token m)")
    case False
    obtain w' where "process_finally monitor_status_error_auth 0 1 Data_null w = Inr w'"
      "replied (monitor_status_error_auth, Data_null) w w'"
      using process_finally_ok [OF wf(1), of Data_null 1 monitor_status_error_auth 0] wf(2) by auto
    with False adm inv refl show ?thesis
      by (intro exI [of _ w] exI [of _ w']) (simp add: monitor_process_def assms(3) answer_def)
  next
    case True
    show ?thesis
    proof (cases "get_target r")
      case (Some t)
      then have m: "m_method m = 0" "m_target m = t" using assms(5) by (cases r; simp)+
      obtain d where d: "process_get True t w = Inr (monitor_status_succeeded, of_nat (length (reply_bytes d)), d)"
        "exec_request r (mon_abs w) = ((monitor_status_succeeded, d), mon_abs w)" "length (reply_bytes d) + 3 \<le> 65535"
        using process_get_ok [OF inv Some] by blast
      obtain w' where "process_finally monitor_status_succeeded 0 (of_nat (length (reply_bytes d))) d w = Inr w'"
        "replied (monitor_status_succeeded, d) w w'"
        using process_finally_ok [OF wf(1), of d _ monitor_status_succeeded 0] wf(2) d(3) by auto
      with d True m adm inv refl assms(2) show ?thesis
        by (intro exI [of _ w] exI [of _ w']) (simp add: monitor_process_def assms(3) answer_def)
    next
      case None
      then have m: "m_method m = 1" using assms(5) by (cases r) simp_all
      obtain err w1 where w1: "process_config m w = Inr (monitor_status_succeeded, err, w1)" "mon_inv w1" "same_io w w1"
        "exec_request r (mon_abs w) =
          ((if err \<noteq> 0 then monitor_status_invalid_data else monitor_status_succeeded, Data_null), mon_abs w1)"
        using process_config_ok [OF inv assms(5,6) None] by (auto simp: config_meets_def)
      then have "mw_conn w1 = mw_conn w" by (simp add: same_io_def)
      then obtain w' where "process_finally monitor_status_succeeded err 1 Data_null w1 = Inr w'"
        "replied (if err \<noteq> 0 then monitor_status_invalid_data else monitor_status_succeeded, Data_null) w1 w'"
        using process_finally_ok [of w1 Data_null 1 monitor_status_succeeded err] wf by auto
      with w1 True m adm show ?thesis
        by (intro exI [of _ w1] exI [of _ w']) (simp add: monitor_process_def assms(3) answer_def)
    qed
  qed
qed

section \<open>One request from end to end\<close>

text \<open>A connection that has just been accepted on the descriptor \<open>f\<close>.\<close>

definition mon_fresh :: "fd \<Rightarrow> mworld \<Rightarrow> bool" where
  "mon_fresh f w \<longleftrightarrow> sel_inv (mw_sel w) \<and> interest_of (mw_sel w) f = Some OP_READ \<and>
     handler_of (mw_sel w) f = Some H_monitor \<and> mc_client_fd (mw_conn w) = f \<and> mw_life w = Alive \<and>
     (\<exists>p. mc_parser (mw_conn w) = monitor_parser_init p \<and> \<not> mp_separated p) \<and>
     wf_buffer (mc_read_buffer (mw_conn w)) \<and> buffer_bytes (mc_read_buffer (mw_conn w)) = [] \<and>
     buffer_space (mc_read_buffer (mw_conn w)) = 65535 \<and>
     wf_buffer (mc_write_buffer (mw_conn w)) \<and> buffer_bytes (mc_write_buffer (mw_conn w)) = [] \<and>
     buffer_space (mc_write_buffer (mw_conn w)) = 65535"

lemma connection_new_ok:
  obtains c w1 where "connection_new True f w = (Some c, w1)" "mc_client_fd c = f" "\<not> mp_separated (mc_parser c)"
    "mc_read_buffer c = buffer_init 65535 (replicate 65535 0)" "mc_write_buffer c = buffer_init 65535 (replicate 65535 0)"
    "mw_sel w1 = mw_sel w" "mw_glob w1 = mw_glob w" "mw_admins w1 = mw_admins w" "mw_statics w1 = mw_statics w"
    "mw_out w1 = mw_out w"
proof -
  let ?c = "connection_zero\<lparr>mc_client_fd := f, mc_read_buffer := buffer_init 65535 (replicate 65535 0),
      mc_write_buffer := buffer_init 65535 (replicate 65535 0)\<rparr>"
  let ?w = "if mw_pool_len w = 0 then w else w\<lparr>mw_pool_len := mw_pool_len w - 1\<rparr>"
  show thesis
    by (rule that [of ?c ?w])
      (simp_all add: connection_new_def MONITOR_BUFFER_SIZE_def connection_zero_def)
qed

lemma monitor_accept_ok:
  assumes "mr_accept (snd k) = f" "mr_getfd (snd k) \<noteq> -1" "\<And>x. mr_setfl (snd k) x \<noteq> -1"
    "mr_malloc (snd k)" "mr_alloc (snd k)" "sel_inv (mw_sel w)" "interest_of (mw_sel w) f = None" "0 \<le> f" "f < 1024"
  obtains w' where "monitor_passive_accept k ident w = Inr w'" "mon_fresh f w'" "mon_abs w' = mon_abs w"
    "mon_inv w' = mon_inv w" "mw_statics w' = mw_statics w" "mw_out w' = mw_out w"
    "interest_of (mw_sel w') = (interest_of (mw_sel w))(f \<mapsto> OP_READ)"
proof -
  obtain c w1 where c: "connection_new True f w = (Some c, w1)" "mc_client_fd c = f" "\<not> mp_separated (mc_parser c)"
    "mc_read_buffer c = buffer_init 65535 (replicate 65535 0)" "mc_write_buffer c = buffer_init 65535 (replicate 65535 0)"
    "mw_sel w1 = mw_sel w" "mw_glob w1 = mw_glob w" "mw_admins w1 = mw_admins w" "mw_statics w1 = mw_statics w"
    "mw_out w1 = mw_out w"
    by (rule connection_new_ok [of f w])
  obtain s where s: "selector_register True (mw_sel w) f (Some H_monitor) OP_READ (Some ident) = Inr (SELECTOR_SUCCESS, s)"
    "sel_inv s" "interest_of s = (interest_of (mw_sel w))(f \<mapsto> OP_READ)"
    "handler_of s = (handler_of (mw_sel w))(f \<mapsto> H_monitor)"
    by (rule selector_register_grow [OF assms(6-9), where h = H_monitor and i = OP_READ and d = "Some ident"])
  show thesis
  proof (rule that [of "upd_mconn monitor_init (w1\<lparr>mw_sel := s, mw_conn := c, mw_life := Alive\<rparr>)"])
    show "monitor_passive_accept k ident w = Inr (upd_mconn monitor_init (w1\<lparr>mw_sel := s, mw_conn := c, mw_life := Alive\<rparr>))"
      using assms c s by (simp add: monitor_passive_accept_def selector_fd_set_nio_def)
    show "mon_fresh f (upd_mconn monitor_init (w1\<lparr>mw_sel := s, mw_conn := c, mw_life := Alive\<rparr>))"
      using c s by (auto simp: mon_fresh_def monitor_init_def)
  qed (use c s in \<open>simp_all add: mon_abs_def mon_inv_def\<close>)
qed

lemma recv_event_bytes:
  assumes "wf_buffer b" "buffer_recv b (Recv_data xs) = Inr (n, b1)" "length xs \<le> buffer_space b"
  shows "take (nat n) (drop (bwrite b1) (bdata b1)) = xs" "n = int (length xs)"
proof -
  have "bwrite b + length xs \<le> length (bdata b)" using assms(1,3) by (auto simp: wf_buffer_def buffer_space_def)
  then show "take (nat n) (drop (bwrite b1) (bdata b1)) = xs" "n = int (length xs)"
    using assms overwrite_block [of "bwrite b" xs "bdata b"]
    by (auto simp: buffer_recv_def buffer_write_ptr_eq buffer_poke_def split: if_splits)
qed

lemma length_monitor_message:
  "length tok = 16 \<Longrightarrow> request_fits r \<Longrightarrow> 0 < length (monitor_message tok r) \<and> length (monitor_message tok r) \<le> 1000"
  by (cases r) (auto simp: get_message_def config_message_def)

text \<open>The connection between the request and its reply.\<close>

definition mon_replying :: "fd \<Rightarrow> byte list \<Rightarrow> mworld \<Rightarrow> bool" where
  "mon_replying f out w \<longleftrightarrow> sel_inv (mw_sel w) \<and> interest_of (mw_sel w) f = Some OP_WRITE \<and>
     handler_of (mw_sel w) f = Some H_monitor \<and> mc_client_fd (mw_conn w) = f \<and>
     wf_buffer (mc_write_buffer (mw_conn w)) \<and> buffer_bytes (mc_write_buffer (mw_conn w)) = out"

lemma monitor_read_request:
  assumes "mon_fresh f w" "mon_inv w" "length (ms_combinedlen (mw_statics w)) = 2" "length tok = 16" "request_valid r"
    "key_fd (fst k) = f" "mr_recv (snd k) = Recv_data (monitor_message tok r)" "mr_malloc (snd k)"
  defines "rep \<equiv> fst (answer tok r (mon_abs w))"
  obtains w' where "monitor_read k w = Inr w'" "mon_replying f (reply_message (fst rep) (snd rep)) w'" "mon_inv w'"
    "mon_abs w' = snd (answer tok r (mon_abs w))"
    "mw_out w' = mw_out w @ [Ev_recv f (monitor_message tok r)]"
proof -
  let ?msg = "monitor_message tok r" and ?rb = "mc_read_buffer (mw_conn w)"
  have fits: "request_fits r" using assms(5) by (cases r) auto
  have len: "0 < length ?msg" "length ?msg \<le> buffer_space ?rb"
    using length_monitor_message [OF assms(4) fits] assms(1) by (auto simp: mon_fresh_def)
  obtain p where p: "mc_parser (mw_conn w) = monitor_parser_init p" "\<not> mp_separated p"
    using assms(1) by (auto simp: mon_fresh_def)
  have wf: "wf_buffer ?rb" "buffer_bytes ?rb = []" using assms(1) by (simp_all add: mon_fresh_def)
  have ret: "recv_ret (buffer_space ?rb) (Recv_data ?msg) = int (length ?msg)"
    "recv_bytes (buffer_space ?rb) (Recv_data ?msg) = ?msg"
    using len(2) by simp_all
  obtain b1 b2 where b: "buffer_recv ?rb (Recv_data ?msg) = Inr (int (length ?msg), b1)"
    "buffer_write_adv b1 (int (length ?msg)) = Inr b2" "wf_buffer b2" "buffer_bytes b2 = buffer_bytes ?rb @ ?msg"
    by (rule buffer_recv_ok [OF wf(1), of "Recv_data ?msg", unfolded ret])
  have msg: "buffer_bytes b2 = ?msg @ []" using b(4) wf(2) by simp
  obtain rest p' s' where run: "run_monitor (monitor_parser_init p, mw_statics w) (buffer_bytes b2) = Inr (rest, (p', s'), ())"
    and p': "mp_state p' = monitor_done" "m_token (mp_monitor p') = tok" "holds_request (mp_monitor p') r"
    using run_message [OF assms(4) p(2) assms(3) fits, of "[]"] unfolding parses_to_def msg by blast
  obtain b3 where b3: "monitor_consume b2 (monitor_parser_init p) (mw_statics w) = Inr (monitor_done, b3, p', s')"
  proof -
    obtain b3 where "parse_loop monitor_parser_feed monitor_fin b2 (monitor_parser_init p, mw_statics w) () = Inr (b3, (p', s'), ())"
      by (rule parse_loop_InrI [OF b(3) run])
    with p'(1) show thesis by (intro that [of b3]) (simp add: monitor_consume_def)
  qed
  define w1 where "w1 = (upd_mconn (\<lambda>c. c\<lparr>mc_read_buffer := b3, mc_parser := p'\<rparr>) w)\<lparr>mw_statics := s',
      mw_out := mw_out w @ [Ev_recv f ?msg]\<rparr>"
  have conn1: "mc_parser (mw_conn w1) = p'" "mw_sel w1 = mw_sel w" "mc_client_fd (mw_conn w1) = f"
    "mon_abs w1 = mon_abs w" "mw_out w1 = mw_out w @ [Ev_recv f ?msg]" "buffer_bytes (mc_write_buffer (mw_conn w1)) = []"
    using assms(1) by (simp_all add: w1_def mon_fresh_def mon_abs_def)
  have ready: "mon_ready w1" using assms(1,2) by (simp add: mon_ready_def mon_fresh_def w1_def mon_inv_def)
  obtain w2 w3 where w3: "monitor_process k w1 = Inr w3" "same_io w1 w2" "mon_inv w2"
    "mon_abs w2 = snd (answer tok r (mon_abs w))" "replied rep w2 w3"
    using monitor_process_ok [OF ready assms(8) refl, of r] p' assms(4,5) conn1 unfolding rep_def by auto
  obtain b st where w3': "w3 = upd_mconn (\<lambda>c. c\<lparr>mc_status := st, mc_write_buffer := b\<rparr>) w2" "wf_buffer b"
    "buffer_bytes b = reply_message (fst rep) (snd rep)"
    using w3(2,5) conn1(6) by (auto simp: replied_def same_io_def)
  have sel: "sel_inv (mw_sel w)" "interest_of (mw_sel w) f = Some OP_READ" "handler_of (mw_sel w) f = Some H_monitor"
    using assms(1) by (simp_all add: mon_fresh_def)
  obtain s where s: "selector_set_interest (mw_sel w) f OP_WRITE = Inr (SELECTOR_SUCCESS, s)" "sel_inv s"
    "interest_of s = (interest_of (mw_sel w))(f \<mapsto> OP_WRITE)" "handler_of s = handler_of (mw_sel w)"
    using selector_set_interest_ok [OF sel(1,2), of OP_WRITE] by blast
  have inv: "\<not> INVALID_FD f" using interest_of_range [OF sel(1,2)] by (auto simp: INVALID_FD_def ITEMS_MAX_SIZE_def)
  have io: "mw_sel w3 = mw_sel w" "mw_out w3 = mw_out w1" "mc_client_fd (mw_conn w3) = f"
    "mc_write_buffer (mw_conn w3) = b" "mon_abs w3 = mon_abs w2" "mon_inv w3 = mon_inv w2"
    using w3(2) conn1 by (simp_all add: w3' same_io_def mon_abs_def mon_inv_def)
  have ev: "take (length ?msg) (drop (bwrite b1) (bdata b1)) = ?msg"
    using recv_event_bytes(1) [OF wf(1) b(1) len(2)] by simp
  have "monitor_read k w = Inr (w3\<lparr>mw_sel := s\<rparr>)"
    using assms(6,7) b(1,2) b3 len(1) p(1) w3(1) s(1) inv io(1)
    by (simp add: monitor_read_def ev selector_set_interest_key_def less_eq_monitor_state_def flip: w1_def)
  then show thesis
    using s sel(3) io w3' w3 conn1 by (intro that [of "w3\<lparr>mw_sel := s\<rparr>"])
      (simp_all add: mon_replying_def mon_abs_def mon_inv_def)
qed

lemma monitor_finish_ok:
  assumes "sel_inv (mw_sel w)" "interest_of (mw_sel w) f = Some i" "handler_of (mw_sel w) f = Some H_monitor"
    "mc_client_fd (mw_conn w) = f"
  obtains w' where "monitor_finish k w = Inr w'" "interest_of (mw_sel w') = (interest_of (mw_sel w))(f := None)"
    "sel_inv (mw_sel w')" "mw_life w' \<noteq> Alive" "mw_out w' = mw_out w @ [Ev_close f]" "mon_abs w' = mon_abs w"
    "mon_inv w' = mon_inv w"
proof -
  let ?d = "connection_destroy w"
  have f: "f \<noteq> -1" using interest_of_range [OF assms(1,2)] by auto
  obtain s where s: "selector_unregister_fd monitor_close_handlers f (mw_sel w, w) = Inr (SELECTOR_SUCCESS, s, ?d)"
    "sel_inv s" "interest_of s = (interest_of (mw_sel w))(f := None)"
    using selector_unregister_ok [OF assms(1-3), where handlers = monitor_close_handlers and g = w and ?s1.0 = "mw_sel w" and
        ?g1.0 = ?d, OF _ assms(1,2)]
    by (auto simp: monitor_close_handlers_def monitor_close_def)
  have d: "mw_life ?d \<noteq> Alive" "mw_out ?d = mw_out w" "mw_glob ?d = mw_glob w" "mw_admins ?d = mw_admins w"
    by (simp_all add: connection_destroy_def)
  show thesis
    by (rule that [of "memit (Ev_close f) (?d\<lparr>mw_sel := s\<rparr>)"])
      (use s d f assms(4) in \<open>simp_all add: monitor_finish_def memit_def mon_abs_def mon_inv_def\<close>)
qed

lemma monitor_write_all:
  assumes "mon_replying f out w" "key_fd (fst k) = f" "mr_send (snd k) = Send_ok n" "length out \<le> n"
  obtains w' where "monitor_write k w = Inr w'" "interest_of (mw_sel w') f = None" "mw_life w' \<noteq> Alive"
    "mw_out w' = mw_out w @ [Ev_send f out, Ev_close f]" "mon_abs w' = mon_abs w" "mon_inv w' = mon_inv w"
proof -
  let ?B = "mc_write_buffer (mw_conn w)"
  have wf: "wf_buffer ?B" "buffer_bytes ?B = out" using assms(1) by (simp_all add: mon_replying_def)
  obtain m o1 b where b: "buffer_send ?B (mr_send (snd k)) = Inr (m, o1)" "buffer_read_adv ?B m = Inr b" "wf_buffer b"
    "buffer_bytes ?B = o1 @ buffer_bytes b" "m = send_ret (length (buffer_bytes ?B)) (mr_send (snd k))"
    "o1 = take (nat m) (buffer_bytes ?B)"
    by (rule buffer_send_ok [OF wf(1), of "mr_send (snd k)"])
  have m: "m = int (length out)" "o1 = out" using b(5,6) assms(3,4) wf(2) by (simp_all add: min_def)
  then have empty: "\<not> buffer_can_read b" using wf(2) b(3,4) by (simp add: buffer_can_read_iff)
  define w1 where "w1 = memit (Ev_send f out) (upd_mconn (\<lambda>c. c\<lparr>mc_write_buffer := b\<rparr>) w)"
  have w1: "mw_sel w1 = mw_sel w" "mc_client_fd (mw_conn w1) = f" "mw_out w1 = mw_out w @ [Ev_send f out]"
    "mon_abs w1 = mon_abs w" "mon_inv w1 = mon_inv w"
    using assms(1) by (simp_all add: w1_def memit_def mon_replying_def mon_abs_def mon_inv_def)
  have "monitor_write k w = monitor_finish k w1"
    using b(1,2) m empty assms(2) by (simp add: monitor_write_def w1_def)
  moreover obtain w' where "monitor_finish k w1 = Inr w'" "interest_of (mw_sel w') = (interest_of (mw_sel w1))(f := None)"
    "mw_life w' \<noteq> Alive" "mw_out w' = mw_out w1 @ [Ev_close f]" "mon_abs w' = mon_abs w1" "mon_inv w' = mon_inv w1"
    by (rule monitor_finish_ok [of w1 f OP_WRITE k])
      (use assms(1) w1 in \<open>simp_all add: mon_replying_def\<close>)
  ultimately show thesis using w1 by (intro that [of w']) simp_all
qed

section \<open>Properties\<close>

text \<open>C5. Refinement: for a parsed request \<open>monitor_process\<close> does what the specification says. Without the
  token of an administrator nothing changes and the answer is \<open>error_auth\<close>; with it, the lists of
  accounts and the switch of the disector change as specified, the reply carries the specified status
  and data, and nothing else of the world is touched.\<close>

theorem monitor_process_refines:
  assumes "mon_inv w" "wf_buffer (mc_write_buffer (mw_conn w))" "65535 \<le> buffer_space (mc_write_buffer (mw_conn w))"
    "mr_malloc (snd k)" "m = mp_monitor (mc_parser (mw_conn w))" "length (m_token m) = 16" "holds_request m r"
    "request_valid r"
  shows "\<exists>w' b. monitor_process k w = Inr w' \<and> mon_inv w' \<and> mon_abs w' = snd (answer (m_token m) r (mon_abs w)) \<and>
     mw_sel w' = mw_sel w \<and> mw_out w' = mw_out w \<and> b = mc_write_buffer (mw_conn w') \<and> wf_buffer b \<and>
     buffer_bytes b = buffer_bytes (mc_write_buffer (mw_conn w)) @
       (let rep = fst (answer (m_token m) r (mon_abs w)) in reply_message (fst rep) (snd rep))"
proof -
  obtain w1 w' where w': "monitor_process k w = Inr w'" "same_io w w1" "mon_inv w1"
    "mon_abs w1 = snd (answer (m_token m) r (mon_abs w))" "replied (fst (answer (m_token m) r (mon_abs w))) w1 w'"
    using monitor_process_ok [OF _ assms(4-8)] assms(1-3) by (auto simp: mon_ready_def)
  then obtain b st where b: "w' = upd_mconn (\<lambda>c. c\<lparr>mc_status := st, mc_write_buffer := b\<rparr>) w1" "wf_buffer b"
    "buffer_bytes b = buffer_bytes (mc_write_buffer (mw_conn w)) @
       (let rep = fst (answer (m_token m) r (mon_abs w)) in reply_message (fst rep) (snd rep))"
    by (auto simp: replied_def same_io_def Let_def)
  then have "mon_abs w' = mon_abs w1" "mon_inv w' = mon_inv w1" "mw_sel w' = mw_sel w1" "mw_out w' = mw_out w1"
    "mc_write_buffer (mw_conn w') = b"
    by (simp_all add: mon_abs_def mon_inv_def)
  with w' b(2,3) show ?thesis by (intro exI [of _ w'] exI [of _ b]) (simp add: same_io_def)
qed

text \<open>C19. One monitoring session: a client whose connection is accepted and that sends a request of the
  protocol is answered with the reply of the specification and nothing else, the request has taken
  effect as specified, the connection is closed and unregistered, and its struct released.\<close>

theorem monitor_session:
  assumes "mon_inv w" "length (ms_combinedlen (mw_statics w)) = 2" "length tok = 16" "request_valid r"
    "sel_inv (mw_sel w)" "interest_of (mw_sel w) f = None" "0 \<le> f" "f < 1024"
    "mr_accept (snd k1) = f" "mr_getfd (snd k1) \<noteq> -1" "\<And>x. mr_setfl (snd k1) x \<noteq> -1" "mr_malloc (snd k1)" "mr_alloc (snd k1)"
    "key_fd (fst k2) = f" "mr_recv (snd k2) = Recv_data (monitor_message tok r)" "mr_malloc (snd k2)"
    "key_fd (fst k3) = f" "mr_send (snd k3) = Send_ok n"
    "out = (let rep = fst (answer tok r (mon_abs w)) in reply_message (fst rep) (snd rep))" "length out \<le> n"
  shows "\<exists>w1 w2 w3. monitor_passive_accept k1 ident w = Inr w1 \<and> monitor_read k2 w1 = Inr w2 \<and>
     monitor_write k3 w2 = Inr w3 \<and> mon_inv w3 \<and> mon_abs w3 = snd (answer tok r (mon_abs w)) \<and>
     mw_out w3 = mw_out w @ [Ev_recv f (monitor_message tok r), Ev_send f out, Ev_close f] \<and>
     interest_of (mw_sel w3) f = None \<and> mw_life w3 \<noteq> Alive"
proof -
  obtain w1 where w1: "monitor_passive_accept k1 ident w = Inr w1" "mon_fresh f w1" "mon_abs w1 = mon_abs w"
    "mon_inv w1 = mon_inv w" "mw_statics w1 = mw_statics w" "mw_out w1 = mw_out w"
    by (rule monitor_accept_ok [OF assms(9-13,5-8)])
  let ?rep = "fst (answer tok r (mon_abs w1))"
  obtain w2 where w2: "monitor_read k2 w1 = Inr w2" "mon_replying f (reply_message (fst ?rep) (snd ?rep)) w2" "mon_inv w2"
    "mon_abs w2 = snd (answer tok r (mon_abs w1))" "mw_out w2 = mw_out w1 @ [Ev_recv f (monitor_message tok r)]"
    by (rule monitor_read_request [OF w1(2) _ _ assms(3,4,14-16)]) (use w1 assms(1,2) in simp_all)
  have "reply_message (fst ?rep) (snd ?rep) = out" using assms(19) w1(3) by (simp add: Let_def)
  with w2(2) have "mon_replying f out w2" by simp
  from monitor_write_all [OF this assms(17,18,20)] obtain w3 where "monitor_write k3 w2 = Inr w3"
    "interest_of (mw_sel w3) f = None" "mw_life w3 \<noteq> Alive" "mw_out w3 = mw_out w2 @ [Ev_send f out, Ev_close f]"
    "mon_abs w3 = mon_abs w2" "mon_inv w3 = mon_inv w2" .
  with w1 w2 show ?thesis by auto
qed

text \<open>A server with \<open>root\<close> as its only administrator and no users.\<close>

definition demo_token :: "byte list" where "demo_token = replicate 16 65"

definition demo_mret :: "fd \<Rightarrow> recv_result \<Rightarrow> mkey" where
  "demo_mret f r = (\<lparr>key_fd = f, key_data = Some 0\<rparr>, \<lparr>mr_accept = f, mr_getfd = 0, mr_setfl = (\<lambda>_. 0), mr_malloc = True,
     mr_alloc = True, mr_recv = r, mr_send = Send_ok 100\<rparr>)"

lemma demo_mret_simps [simp]:
  "key_fd (fst (demo_mret f r)) = f" "mr_accept (snd (demo_mret f r)) = f" "mr_getfd (snd (demo_mret f r)) = 0"
  "mr_setfl (snd (demo_mret f r)) x = 0" "mr_malloc (snd (demo_mret f r))" "mr_alloc (snd (demo_mret f r))"
  "mr_recv (snd (demo_mret f r)) = r" "mr_send (snd (demo_mret f r)) = Send_ok 100"
  by (simp_all add: demo_mret_def)

lemma demo_mworld:
  obtains w where "mon_inv w" "sel_inv (mw_sel w)" "interest_of (mw_sel w) 5 = None" "mw_statics w = monitor_statics_init"
    "sp_admins (mon_abs w) = [(default_admin_uname, demo_token)]" "sp_users (mon_abs w) = []" "mw_out w = []"
    "sp_current (mon_abs w) = 7" "mw_conn w = connection_zero"
proof -
  obtain ad where ad: "admins_inv ad" "admin_entries ad = [(default_admin_uname, demo_token)]"
    using first_admin [of demo_token "[120]"] by (auto simp: c_string_def demo_token_def)
  obtain s :: selector where s: "sel_inv s" "interest_of s = Map.empty" by (rule new_selector)
  let ?g = "\<lparr>historic_connections = 9, current_connections = 7, bytes_transferred = 0, is_auth_on = True,
     is_disector_on = True, g_users = users_init, pool_len = 0, pool_size = 0\<rparr>"
  show thesis
    by (rule that [of "\<lparr>mw_sel = s, mw_glob = ?g, mw_admins = ad, mw_statics = monitor_statics_init, mw_pool_len = 0,
        mw_pool_size = 0, mw_conn = connection_zero, mw_life = Freed, mw_out = []\<rparr>"])
      (use ad s users_init_inv users_init_entries in \<open>simp_all add: mon_inv_def mon_abs_def\<close>)
qed

theorem monitor_session_witness:
  "\<exists>w w1 w2 w3. sp_users (mon_abs w) = [] \<and> monitor_passive_accept (demo_mret 5 Recv_eof) 0 w = Inr w1 \<and>
     monitor_read (demo_mret 5 (Recv_data (monitor_message demo_token (Add_proxyuser [97] [98])))) w1 = Inr w2 \<and>
     monitor_write (demo_mret 5 Recv_eof) w2 = Inr w3 \<and> sp_users (mon_abs w3) = [([97], [98])] \<and>
     mw_out w3 = [Ev_recv 5 (monitor_message demo_token (Add_proxyuser [97] [98])), Ev_send 5 [0, 0, 1, 0], Ev_close 5]"
proof -
  let ?r = "Add_proxyuser [97] [98]"
  obtain w where w: "mon_inv w" "sel_inv (mw_sel w)" "interest_of (mw_sel w) 5 = None" "mw_statics w = monitor_statics_init"
    "sp_admins (mon_abs w) = [(default_admin_uname, demo_token)]" "sp_users (mon_abs w) = []" "mw_out w = []"
    by (rule demo_mworld)
  have ans: "answer demo_token ?r (mon_abs w) = ((monitor_status_succeeded, Data_null), (mon_abs w)\<lparr>sp_users := [([97], [98])]\<rparr>)"
    by (simp add: answer_def w(5,6) spec_users_def account_reply_def MAX_USERS_def)
  have rep: "reply_message monitor_status_succeeded Data_null = [0, 0, 1, 0]" by (simp add: reply_message_def be16_def)
  have val: "request_valid ?r" "length (ms_combinedlen (mw_statics w)) = 2" "length demo_token = 16"
    by (simp_all add: IS_ALNUM_def word_le_nat_alt w(4) monitor_statics_init_def demo_token_def)
  show ?thesis
    using monitor_session [OF w(1) val(2,3,1) w(2,3), of "demo_mret 5 Recv_eof"
        "demo_mret 5 (Recv_data (monitor_message demo_token ?r))" "demo_mret 5 Recv_eof" 100 "[0, 0, 1, 0]" 0] w(6,7)
    by (simp add: ans rep del: monitor_message.simps) force
qed

theorem monitor_process_refines_witness:
  "\<exists>w w'. sp_current (mon_abs w) = 7 \<and> monitor_process (demo_mret 5 Recv_eof) w = Inr w' \<and>
     buffer_bytes (mc_write_buffer (mw_conn w')) = [0, 0, 4, 0, 0, 0, 7]"
proof -
  obtain w0 where w0: "mon_inv w0" "sp_admins (mon_abs w0) = [(default_admin_uname, demo_token)]" "sp_current (mon_abs w0) = 7"
    "mw_conn w0 = connection_zero"
    by (rule demo_mworld)
  let ?m = "monitor_zero\<lparr>m_token := demo_token, m_method := 0, m_target := 1\<rparr>"
  define w where "w = w0\<lparr>mw_conn := connection_zero\<lparr>mc_parser := demo_parser\<lparr>mp_monitor := ?m\<rparr>,
      mc_write_buffer := buffer_init 65535 (replicate 65535 0)\<rparr>\<rparr>"
  have w: "mon_inv w" "mon_abs w = mon_abs w0" "mp_monitor (mc_parser (mw_conn w)) = ?m"
    "wf_buffer (mc_write_buffer (mw_conn w))" "buffer_space (mc_write_buffer (mw_conn w)) = 65535"
    "buffer_bytes (mc_write_buffer (mw_conn w)) = []"
    using w0(1) by (simp_all add: w_def mon_inv_def mon_abs_def demo_parser_def)
  have ans: "answer demo_token Get_concurrent (mon_abs w) = ((monitor_status_succeeded, Data_number 7), mon_abs w)"
    using w0(2,3) w(2) by (simp add: answer_def)
  have "reply_message monitor_status_succeeded (Data_number 7) = [0, 0, 4, 0, 0, 0, 7]"
    by (simp add: reply_message_def be16_def be32_def)
  then obtain w' where "monitor_process (demo_mret 5 Recv_eof) w = Inr w'"
    "buffer_bytes (mc_write_buffer (mw_conn w')) = [0, 0, 4, 0, 0, 0, 7]"
    using monitor_process_refines [OF w(1,4), of "demo_mret 5 Recv_eof" ?m Get_concurrent] w ans
    by (auto simp: demo_token_def)
  with w(2) w0(3) show ?thesis by metis
qed

end
