(* ===== verification/Cli.thy ===== *)
theory Cli
  imports Registry
begin

text \<open>
  What the command lines of the server and of the client share: programs that may stop with
  \<open>exit\<close>, the parts of \<open>stdlib.h\<close> and \<open>string.h\<close> they call on their arguments, and the model of
  \<open>src/server/args.c\<close>.

  A string argument is the bytes before its terminator. The results of the successive calls of
  \<open>getopt\<close> are an argument of the model: a list of \<open>(c, optarg)\<close>, up to the call that returns \<open>-1\<close>,
  and the elements of \<open>argv\<close> from \<open>optind\<close> on after it. Messages on \<open>stderr\<close> are left out.
\<close>

section \<open>Programs that stop\<close>

datatype stop = Exit int | Fault c_error

type_synonym 'a prog = "stop + 'a"

definition pbind :: "'a prog \<Rightarrow> ('a \<Rightarrow> 'b prog) \<Rightarrow> 'b prog" where
  "pbind m f = (case m of Inl e \<Rightarrow> Inl e | Inr x \<Rightarrow> f x)"

definition lift_res :: "'a res \<Rightarrow> 'a prog" where
  "lift_res m = (case m of Inl e \<Rightarrow> Inl (Fault e) | Inr x \<Rightarrow> Inr x)"

lemma pbind_simps [simp]: "pbind (Inl e) f = Inl e" "pbind (Inr x) f = f x"
  by (simp_all add: pbind_def)

lemma lift_res_simps [simp]: "lift_res (Inl e) = Inl (Fault e)" "lift_res (Inr x) = Inr x"
  by (simp_all add: lift_res_def)

lemma pbind_InrE [elim!]:
  assumes "pbind m f = Inr y"
  obtains x where "m = Inr x" "f x = Inr y"
  using assms by (cases m) auto

section \<open>Numbers\<close>

definition is_digit :: "byte \<Rightarrow> bool" where
  "is_digit c \<longleftrightarrow> c \<ge> 0x30 \<and> c \<le> 0x39"

definition is_space :: "byte \<Rightarrow> bool" where
  "is_space c \<longleftrightarrow> c = 0x20 \<or> (c \<ge> 0x09 \<and> c \<le> 0x0d)"

fun digits_value :: "nat \<Rightarrow> byte list \<Rightarrow> nat" where
  "digits_value acc [] = acc"
| "digits_value acc (c # cs) = digits_value (acc * 10 + (unat c - 0x30)) cs"

definition LONG_MAX :: int where "LONG_MAX = 2 ^ 63 - 1"

definition LONG_MIN :: int where "LONG_MIN = - (2 ^ 63)"

text \<open>\<open>strtol (s, &end, 10)\<close>: the value, clamped to a \<open>long\<close>, and the number of bytes before \<open>end\<close>, which
  is 0 if there is no number.\<close>

definition strtol :: "byte list \<Rightarrow> int \<times> nat" where
  "strtol s =
     (let s1 = dropWhile is_space s;
          neg = (s1 \<noteq> [] \<and> hd s1 = 0x2d);
          s2 = (if s1 \<noteq> [] \<and> (hd s1 = 0x2d \<or> hd s1 = 0x2b) then tl s1 else s1);
          ds = takeWhile is_digit s2;
          v = int (digits_value 0 ds);
          w = (if neg then - v else v)
      in if ds = [] then (0, 0)
         else (max LONG_MIN (min LONG_MAX w), length s - (length s2 - length ds)))"

definition USHRT_MAX :: int where "USHRT_MAX = 65535"

text \<open>\<open>port\<close> of \<open>args.c\<close>. A value that \<open>strtol\<close> clamped is outside the range of a port, so \<open>errno\<close> does
  not matter.\<close>

definition port :: "byte list \<Rightarrow> u16 prog" where
  "port s =
     (let (sl, n) = strtol s
      in if n = 0 \<or> n \<noteq> length s \<or> sl < 0 \<or> sl > USHRT_MAX then Inl (Exit 1)
         else Inr (word_of_int sl))"

section \<open>Server arguments\<close>

record users_arg =
  ua_name :: "byte list option"
  ua_pass :: "byte list option"

record socks5args =
  socks_addr :: "byte list"
  is_default_socks_addr :: bool
  socks_port :: u16
  mng_addr :: "byte list"
  is_default_mng_addr :: bool
  mng_port :: u16
  disectors_enabled :: bool
  arg_users :: "users_arg list"

definition socks5args_init :: socks5args where
  "socks5args_init =
     \<lparr>socks_addr = bytes_of ''0.0.0.0'', is_default_socks_addr = True, socks_port = 1080,
      mng_addr = bytes_of ''127.0.0.1'', is_default_mng_addr = True, mng_port = 8080, disectors_enabled = True,
      arg_users = replicate MAX_USERS \<lparr>ua_name = None, ua_pass = None\<rparr>\<rparr>"

abbreviation colon :: byte where "colon \<equiv> 0x3a"

text \<open>\<open>user\<close>: the name is what precedes the first colon, which is overwritten by a NUL.\<close>

definition user_arg :: "byte list \<Rightarrow> users_arg prog" where
  "user_arg s =
     (if colon \<notin> set s then Inl (Exit 1)
      else if hd s = colon then Inl (Exit 1)
      else Inr \<lparr>ua_name = Some (takeWhile (\<lambda>c. c \<noteq> colon) s), ua_pass = Some (tl (dropWhile (\<lambda>c. c \<noteq> colon) s))\<rparr>)"

type_synonym getopt_result = "char \<times> byte list"

text \<open>The body of the loop of \<open>parse_args\<close>; \<open>nusers\<close> is the number of users so far.\<close>

definition server_option :: "getopt_result \<Rightarrow> nat \<times> socks5args \<Rightarrow> (nat \<times> socks5args) prog" where
  "server_option = (\<lambda>(c, optarg) (nusers, args).
     if c = CHR ''h'' then Inl (Exit 1)
     else if c = CHR ''l'' then Inr (nusers, args\<lparr>socks_addr := optarg, is_default_socks_addr := False\<rparr>)
     else if c = CHR ''L'' then Inr (nusers, args\<lparr>mng_addr := optarg, is_default_mng_addr := False\<rparr>)
     else if c = CHR ''N'' then Inr (nusers, args\<lparr>disectors_enabled := False\<rparr>)
     else if c = CHR ''p'' then pbind (port optarg) (\<lambda>p. Inr (nusers, args\<lparr>socks_port := p\<rparr>))
     else if c = CHR ''P'' then pbind (port optarg) (\<lambda>p. Inr (nusers, args\<lparr>mng_port := p\<rparr>))
     else if c = CHR ''u'' then
       if nusers \<ge> MAX_USERS then Inl (Exit 1)
       else pbind (user_arg optarg) (\<lambda>u. Inr (nusers + 1, args\<lparr>arg_users := (arg_users args)[nusers := u]\<rparr>))
     else if c = CHR ''v'' then Inl (Exit 0)
     else if c = CHR '':'' then Inl (Exit 1)
     else if c = CHR ''?'' then Inl (Exit 1)
     else Inr (nusers, args))"

fun server_options :: "getopt_result list \<Rightarrow> nat \<times> socks5args \<Rightarrow> (nat \<times> socks5args) prog" where
  "server_options [] st = Inr st"
| "server_options (o1 # os) st = pbind (server_option o1 st) (server_options os)"

definition parse_args :: "getopt_result list \<Rightarrow> byte list list \<Rightarrow> socks5args prog" where
  "parse_args opts rest =
     pbind (server_options opts (0, socks5args_init)) (\<lambda>(_, args).
       if rest \<noteq> [] then Inl (Exit 1) else Inr args)"

section \<open>Lemmas\<close>

lemma digits_value_append: "digits_value acc (xs @ [c]) = digits_value acc xs * 10 + (unat c - 0x30)"
  by (induction xs arbitrary: acc) simp_all

text \<open>The decimal digits of a number.\<close>

fun decimal :: "nat \<Rightarrow> byte list" where
  "decimal n = (if n < 10 then [of_nat (0x30 + n)] else decimal (n div 10) @ [of_nat (0x30 + n mod 10)])"

declare decimal.simps [simp del]

lemma digit_byte:
  assumes "d < 10"
  shows "is_digit (of_nat (0x30 + d))" "unat (of_nat (0x30 + d) :: byte) = 0x30 + d"
proof -
  show "unat (of_nat (0x30 + d) :: byte) = 0x30 + d" using assms by (intro unat_of_nat_byte) simp
  then show "is_digit (of_nat (0x30 + d))" using assms by (simp only: is_digit_def word_le_nat_alt) simp
qed

lemma decimal_digits: "decimal n \<noteq> [] \<and> list_all is_digit (decimal n) \<and> digits_value 0 (decimal n) = n"
proof (induction n rule: decimal.induct)
  case (1 n)
  show ?case
  proof (cases "n < 10")
    case True
    then show ?thesis using digit_byte [of n] by (simp add: decimal.simps [of n] del: of_nat_add)
  next
    case False
    have d: "is_digit (of_nat (0x30 + n mod 10))" "unat (of_nat (0x30 + n mod 10) :: byte) = 0x30 + n mod 10"
      using digit_byte [of "n mod 10"] by simp_all
    show ?thesis
      unfolding decimal.simps [of n]
      using False "1.IH" d by (simp add: digits_value_append del: of_nat_add)
  qed
qed

lemma strtol_digits:
  assumes "ds \<noteq> []" "list_all is_digit ds"
  shows "strtol ds = (min LONG_MAX (int (digits_value 0 ds)), length ds)"
proof -
  obtain d rest where ds: "ds = d # rest" using assms(1) by (cases ds) auto
  have d: "unat d \<ge> 48" "unat d \<le> 57" using assms(2) by (auto simp: ds is_digit_def word_le_nat_alt)
  then have "\<not> is_space d" "d \<noteq> 0x2d" "d \<noteq> 0x2b"
    by (auto simp: is_space_def word_le_nat_alt word_unat_eq_iff)
  moreover have "takeWhile is_digit ds = ds" using assms(2) by (auto simp: list_all_iff takeWhile_eq_all_conv)
  moreover have "max LONG_MIN (min LONG_MAX (int n)) = min LONG_MAX (int n)" for n
    by (simp add: LONG_MIN_def LONG_MAX_def)
  ultimately show ?thesis using assms(1) by (simp add: strtol_def ds Let_def)
qed

lemma port_digits:
  assumes "ds \<noteq> []" "list_all is_digit ds"
  shows "port ds = (if digits_value 0 ds \<le> 65535 then Inr (of_nat (digits_value 0 ds)) else Inl (Exit 1))"
  using assms by (auto simp: port_def strtol_digits USHRT_MAX_def LONG_MAX_def min_def)

end
