(* ===== verification/Client.thy ===== *)
theory Client
  imports Cli Monitor
begin

text \<open>
  Model of the monitoring client: \<open>src/client.c\<close> and \<open>src/client/\<close>.

  The union \<open>data\<close> of \<open>clientargs.h\<close> is its 512 bytes (511 and one of padding): \<open>user\<close> at offset 0,
  the separator at 255, \<open>pass\<close> and \<open>token\<close> at 256. The array \<open>args\<close> of \<open>main\<close> starts as zeroes.
  Text printed on \<open>stdout\<close> is a result of the model. \<open>inet_pton\<close>, \<open>socket\<close>, \<open>connect\<close>, \<open>send\<close> and
  \<open>recv\<close> are arguments.
\<close>

section \<open>Data\<close>

abbreviation (input) client_get :: byte where "client_get \<equiv> 0"

abbreviation (input) client_config :: byte where "client_config \<equiv> 1"

record client_request_args =
  ca_method :: byte
  ca_target :: byte
  ca_dlen :: u16
  ca_data :: "byte list"

definition client_args_zero :: client_request_args where
  "client_args_zero = \<lparr>ca_method = 0, ca_target = 0, ca_dlen = 0, ca_data = replicate 512 0\<rparr>"

definition MAX_CLIENT_REQUESTS :: nat where "MAX_CLIENT_REQUESTS = 20"

definition MAX_BYTES_DATA :: nat where "MAX_BYTES_DATA = 65535"

definition USERNAME_MAX :: nat where "USERNAME_MAX = 0xff"

definition SEPARATOR_OFFSET :: nat where "SEPARATOR_OFFSET = 255"

definition SECOND_OFFSET :: nat where "SECOND_OFFSET = 256"

text \<open>A copy of \<open>xs\<close> into an object at an offset.\<close>

definition mem_copy :: "byte list \<Rightarrow> nat \<Rightarrow> byte list \<Rightarrow> byte list res" where
  "mem_copy m off xs = (if off + length xs \<le> length m then Inr (overwrite m off xs) else Inl Out_of_bounds)"

section \<open>Arguments\<close>

definition port_client :: "byte list \<Rightarrow> u16 prog" where
  "port_client s =
     (let (sl, n) = strtol s
      in if n = 0 \<or> n \<noteq> length s \<or> sl < 0 \<or> sl > USHRT_MAX then Inl (Exit 1)
         else Inr (word_of_int sl))"

text \<open>\<open>token_check\<close> and \<open>string_check\<close>: the length and the destination, the bytes of \<open>m\<close> at \<open>off\<close>.\<close>

definition token_check :: "byte list \<Rightarrow> byte list \<Rightarrow> nat \<Rightarrow> (nat \<times> byte list) prog" where
  "token_check src m off =
     (if length src \<noteq> TOKEN_SIZE then Inl (Exit 1)
      else pbind (lift_res (mem_copy m off src)) (\<lambda>m'. Inr (TOKEN_SIZE, m')))"

definition string_check :: "byte list \<Rightarrow> byte list \<Rightarrow> nat \<Rightarrow> nat \<Rightarrow> (nat \<times> byte list) prog" where
  "string_check src m off max_len =
     (if length src > max_len then Inl (Exit 1)
      else pbind (lift_res (mem_copy m off src)) (\<lambda>m'. Inr (length src, m')))"

text \<open>\<open>strtok (src, ":")\<close>: the start and the length of the token, and \<open>src\<close> with the delimiter behind the
  token overwritten; \<open>None\<close> for the result NULL.\<close>

definition strtok_colon :: "byte list \<Rightarrow> (nat \<times> nat \<times> byte list) option" where
  "strtok_colon src =
     (let start = length (takeWhile (\<lambda>c. c = colon) src);
          len = length (takeWhile (\<lambda>c. c \<noteq> colon) (drop start src))
      in if len = 0 then None else Some (start, len, src[start + len := 0]))"

definition strchr_colon :: "byte list \<Rightarrow> nat option" where
  "strchr_colon src = (if colon \<in> set src then Some (length (takeWhile (\<lambda>c. c \<noteq> colon) src)) else None)"

definition username_with_password :: "byte list \<Rightarrow> byte list \<Rightarrow> (nat \<times> byte list) prog" where
  "username_with_password src m =
     (case strchr_colon src of
        None \<Rightarrow> Inl (Exit 1)
      | Some sep \<Rightarrow>
          if hd src = colon then Inl (Exit 1)
          else case strtok_colon src of
            None \<Rightarrow> Inl (Fault Null_deref)
          | Some (start, len, src') \<Rightarrow>
              let username = take len (drop start src');
                  password = cstr (drop (sep + 1) src')
              in pbind (string_check username m 0 USERNAME_MAX) (\<lambda>(n, m1).
                 pbind (lift_res (mem_copy m1 SEPARATOR_OFFSET [0])) (\<lambda>m2.
                 pbind (string_check password m2 SECOND_OFFSET USERNAME_MAX) (\<lambda>(k, m3).
                   Inr (n + 1 + k, m3)))))"

text \<open>Unlike the previous function, this one goes on when the name is missing.\<close>

definition username_with_token :: "byte list \<Rightarrow> byte list \<Rightarrow> (nat \<times> byte list) prog" where
  "username_with_token src m =
     (case strchr_colon src of
        None \<Rightarrow> Inl (Exit 1)
      | Some sep \<Rightarrow>
          case strtok_colon src of
            None \<Rightarrow> Inl (Fault Null_deref)
          | Some (start, len, src') \<Rightarrow>
              let username = take len (drop start src');
                  token = cstr (drop (sep + 1) src')
              in pbind (string_check username m 0 USERNAME_MAX) (\<lambda>(n, m1).
                 pbind (lift_res (mem_copy m1 SEPARATOR_OFFSET [0])) (\<lambda>m2.
                 pbind (token_check token m2 SECOND_OFFSET) (\<lambda>(k, m3).
                   Inr (n + 1 + k, m3)))))"

definition set_get_data :: "client_request_args \<Rightarrow> client_request_args" where
  "set_get_data a = a\<lparr>ca_method := client_get, ca_dlen := 1, ca_data := (ca_data a)[0 := 0]\<rparr>"

definition set_disector :: "byte \<Rightarrow> client_request_args \<Rightarrow> client_request_args" where
  "set_disector v a =
     a\<lparr>ca_method := client_config, ca_target := 0, ca_dlen := 1, ca_data := overwrite (ca_data a) 0 [v, 0, 0, 0]\<rparr>"

definition set_account :: "byte \<Rightarrow> (nat \<times> byte list) prog \<Rightarrow> client_request_args \<Rightarrow> client_request_args prog" where
  "set_account t r a =
     pbind r (\<lambda>(n, m). Inr (a\<lparr>ca_method := client_config, ca_target := t, ca_dlen := of_nat n, ca_data := m\<rparr>))"

definition client_option :: "getopt_result \<Rightarrow> client_request_args \<Rightarrow> client_request_args prog" where
  "client_option = (\<lambda>(c, optarg) a.
     if c = CHR ''h'' then Inl (Exit 1)
     else if c = CHR ''c'' then Inr ((set_get_data a)\<lparr>ca_target := 1\<rparr>)
     else if c = CHR ''C'' then Inr ((set_get_data a)\<lparr>ca_target := 0\<rparr>)
     else if c = CHR ''b'' then Inr ((set_get_data a)\<lparr>ca_target := 2\<rparr>)
     else if c = CHR ''a'' then Inr ((set_get_data a)\<lparr>ca_target := 3\<rparr>)
     else if c = CHR ''A'' then Inr ((set_get_data a)\<lparr>ca_target := 4\<rparr>)
     else if c = CHR ''n'' then Inr (set_disector 1 a)
     else if c = CHR ''N'' then Inr (set_disector 0 a)
     else if c = CHR ''u'' then set_account 1 (username_with_password optarg (ca_data a)) a
     else if c = CHR ''U'' then set_account 3 (username_with_token optarg (ca_data a)) a
     else if c = CHR ''d'' then set_account 2 (string_check optarg (ca_data a) 0 USERNAME_MAX) a
     else if c = CHR ''D'' then set_account 4 (string_check optarg (ca_data a) 0 USERNAME_MAX) a
     else if c = CHR ''v'' then Inl (Exit 0)
     else if c = CHR '':'' then Inl (Exit 1)
     else if c = CHR ''?'' then Inl (Exit 1)
     else Inr a)"

text \<open>The loop over the options: each fills one element of \<open>args\<close>, at most \<open>MAX_CLIENT_REQUESTS\<close>.\<close>

fun client_options :: "getopt_result list \<Rightarrow> client_request_args list prog" where
  "client_options [] = Inr []"
| "client_options (o1 # os) =
     pbind (client_option o1 client_args_zero) (\<lambda>a. pbind (client_options os) (\<lambda>as. Inr (a # as)))"

record sockaddr_client =
  sc_family :: int
  sc_port :: u16
  sc_addr :: "byte list"

record client_dest =
  cd_sin4 :: sockaddr_client
  cd_sin6 :: sockaddr_client
  cd_version :: nat

definition ip_check ::
  "(byte list \<Rightarrow> byte list option) \<Rightarrow> (byte list \<Rightarrow> byte list option) \<Rightarrow> byte list \<Rightarrow> client_dest \<Rightarrow> client_dest prog" where
  "ip_check pton4 pton6 src d =
     (case pton4 src of
        Some a \<Rightarrow> Inr (d\<lparr>cd_sin4 := (cd_sin4 d)\<lparr>sc_addr := a, sc_family := 2\<rparr>, cd_version := 4\<rparr>)
      | None \<Rightarrow>
          (case pton6 src of
             Some a \<Rightarrow> Inr (d\<lparr>cd_sin6 := (cd_sin6 d)\<lparr>sc_addr := a, sc_family := 10\<rparr>, cd_version := 6\<rparr>)
           | None \<Rightarrow> Inl (Exit 1)))"

definition port_check :: "byte list \<Rightarrow> client_dest \<Rightarrow> client_dest prog" where
  "port_check src d =
     (if cd_version d \<noteq> 4 \<and> cd_version d \<noteq> 6 then Inl (Exit 1)
      else pbind (port_client src) (\<lambda>p.
        Inr (if cd_version d = 4 then d\<lparr>cd_sin4 := (cd_sin4 d)\<lparr>sc_port := p\<rparr>\<rparr>
             else d\<lparr>cd_sin6 := (cd_sin6 d)\<lparr>sc_port := p\<rparr>\<rparr>)))"

text \<open>\<open>parse_args\<close> of the client: \<open>opts\<close> are the results of the calls of \<open>getopt\<close> and \<open>extra\<close> the elements
  of \<open>argv\<close> from \<open>optind\<close> on. The result holds the requests, the token and the destination.\<close>

definition client_parse_args ::
  "(byte list \<Rightarrow> byte list option) \<Rightarrow> (byte list \<Rightarrow> byte list option) \<Rightarrow> getopt_result list \<Rightarrow> byte list list
    \<Rightarrow> (client_request_args list \<times> byte list \<times> client_dest) prog" where
  "client_parse_args pton4 pton6 opts extra =
     pbind (port_client (bytes_of ''8080'')) (\<lambda>p0.
     let d0 = \<lparr>cd_sin4 = \<lparr>sc_family = 2, sc_port = p0,
                 sc_addr = (case pton4 (bytes_of ''127.0.0.1'') of Some a \<Rightarrow> a | None \<Rightarrow> replicate 4 0)\<rparr>,
               cd_sin6 = \<lparr>sc_family = 0, sc_port = 0, sc_addr = replicate 16 0\<rparr>, cd_version = 4\<rparr>
     in pbind (client_options (take MAX_CLIENT_REQUESTS opts)) (\<lambda>args.
          if extra = [] then Inl (Exit 1)
          else pbind (token_check (extra ! 0) (replicate TOKEN_SIZE 0) 0) (\<lambda>(_, tok).
               pbind (if length extra > 1 then ip_check pton4 pton6 (extra ! 1) d0 else Inr d0) (\<lambda>d1.
               pbind (if length extra > 2 then port_check (extra ! 2) d1 else Inr d1) (\<lambda>d2.
                 if length extra > 3 then Inl (Exit 1) else Inr (args, tok, d2))))))"

section \<open>Requests\<close>

definition FIELD_TARGET_INDEX :: nat where "FIELD_TARGET_INDEX = 18"

definition FIELD_DLEN_INDEX :: nat where "FIELD_DLEN_INDEX = 19"

definition FIELD_DATA_INDEX :: nat where "FIELD_DATA_INDEX = 21"

definition BASE_REQUEST_DATA :: nat where "BASE_REQUEST_DATA = 21"

definition add_account_data :: "client_request_args \<Rightarrow> byte list \<Rightarrow> byte list res" where
  "add_account_data a b =
     rbind (read_cstr (ca_data a)) (\<lambda>u.
     rbind (mem_copy b FIELD_DATA_INDEX u) (\<lambda>b1.
     rbind (mem_copy b1 (FIELD_DATA_INDEX + length u) [ca_data a ! SEPARATOR_OFFSET]) (\<lambda>b2.
     rbind (read_cstr (drop SECOND_OFFSET (ca_data a))) (\<lambda>p.
       mem_copy b2 (FIELD_DATA_INDEX + length u + 1) p))))"

definition serialize_config_data :: "client_request_args \<Rightarrow> byte list \<Rightarrow> byte list res" where
  "serialize_config_data a b =
     (if ca_target a = 0 then mem_copy b FIELD_DATA_INDEX [ca_data a ! 0]
      else if ca_target a = 1 \<or> ca_target a = 3 then add_account_data a b
      else if ca_target a = 2 \<or> ca_target a = 4 then
        mem_copy b FIELD_DATA_INDEX (take (unat (ca_dlen a)) (ca_data a))
      else Inr b)"

definition serialize_request :: "client_request_args \<Rightarrow> byte list \<Rightarrow> byte list \<Rightarrow> byte list res" where
  "serialize_request a token b =
     rbind (mem_copy b 0 [1]) (\<lambda>b1.
     rbind (mem_copy b1 1 (take TOKEN_SIZE token)) (\<lambda>b2.
     rbind (mem_copy b2 17 [ca_method a]) (\<lambda>b3.
     rbind (mem_copy b3 FIELD_DLEN_INDEX (be16 (ca_dlen a))) (\<lambda>b4.
       if ca_method a = client_get then
         rbind (mem_copy b4 FIELD_TARGET_INDEX [ca_target a]) (\<lambda>b5.
           mem_copy b5 FIELD_DATA_INDEX [ca_data a ! 0])
       else if ca_method a = client_config then
         rbind (mem_copy b4 FIELD_TARGET_INDEX [ca_target a]) (serialize_config_data a)
       else Inr b4))))"

section \<open>Responses\<close>

abbreviation newline :: byte where "newline \<equiv> 0x0a"

text \<open>The loop that prints the names: \<open>k\<close> is a \<open>uint16_t\<close> compared with the \<open>int\<close> \<open>dlen + 3\<close>; \<open>None\<close> if
  it does not end.\<close>

partial_function (option) print_names :: "byte list \<Rightarrow> u16 \<Rightarrow> u16 \<Rightarrow> byte list option" where
  "print_names buf dlen k =
     (if uint k < uint dlen + 3 then
        Option.bind (print_names buf dlen (k + 1))
          (\<lambda>rest. Some ((if buf ! unat k = 0 then newline else buf ! unat k) # rest))
      else Some [])"

definition response_dlen :: "byte list \<Rightarrow> u16" where
  "response_dlen buf = be16_dec [buf ! 1, buf ! 2]"

definition response_number :: "byte list \<Rightarrow> u32" where
  "response_number buf = be32_dec [buf ! 3, buf ! 4, buf ! 5, buf ! 6]"

definition handle_get_ok_status :: "client_request_args \<Rightarrow> byte list \<Rightarrow> byte list option" where
  "handle_get_ok_status a buf =
     (let dlen = response_dlen buf;
          n = decimal (unat (response_number buf)) @ [newline]
      in if ca_target a = 0 then Some (bytes_of ''The amount of historic connections is: '' @ n)
         else if ca_target a = 1 then Some (bytes_of ''The amount of concurrent connections is: '' @ n)
         else if ca_target a = 2 then Some (bytes_of ''The amount of transferred bytes is: '' @ n)
         else if ca_target a = 3 \<or> ca_target a = 4 then
           Option.bind (print_names buf dlen 3) (\<lambda>names.
             Some (bytes_of ''Printing '' @ bytes_of (if ca_target a = 3 then ''proxy'' else ''admin'') @
                   bytes_of '' user list:  '' @ [newline] @ names @ [newline]))
         else Some [])"

definition quoted_user :: "client_request_args \<Rightarrow> byte list" where
  "quoted_user a = [0x27] @ cstr (ca_data a) @ [0x27]"

definition handle_config_ok_status :: "client_request_args \<Rightarrow> byte list" where
  "handle_config_ok_status a =
     (if ca_target a = 0 then
        bytes_of ''The pop3 password disector is now: '' @
          bytes_of (if take 4 (ca_data a) = [0, 0, 0, 0] then ''OFF'' else ''ON'') @ [newline]
      else if ca_target a = 1 then
        bytes_of ''The proxy user: '' @ quoted_user a @ bytes_of '' is now added to the server'' @ [newline]
      else if ca_target a = 2 then
        bytes_of ''The proxy user: '' @ quoted_user a @ bytes_of '' is now deleted in the server'' @ [newline]
      else if ca_target a = 3 then
        bytes_of ''The admin: '' @ quoted_user a @ bytes_of '' is now added in the server'' @ [newline]
      else if ca_target a = 4 then
        bytes_of ''The admin: '' @ quoted_user a @ bytes_of '' is now deleted in the server'' @ [newline]
      else [])"

definition handle_error_response :: "client_request_args \<Rightarrow> byte \<Rightarrow> byte list" where
  "handle_error_response a status =
     (if status = 1 then bytes_of ''The version of the request you have sent is incorrect!'' @ [newline]
      else if status = 2 then bytes_of ''The method of the request you have sent is incorrect!'' @ [newline]
      else if status = 3 then bytes_of ''The target of the request you have sent is incorrect!'' @ [newline]
      else if status = 4 then
        bytes_of
          (if ca_target a = 0 then ''Error configuring the pop3 disector on/off, data must be 0 or 1!''
           else if ca_target a = 1 then
             ''Error adding the proxy user, user and password should be alphanumeric or user already exist!''
           else if ca_target a = 2 then
             ''Error deleting the proxy user, user name should be alphanumeric or user does not exist''
           else if ca_target a = 3 then
             ''Error adding the admin, admin and token should be alphanumeric or admin already exist!''
           else if ca_target a = 4 then
             ''Error deleting the admin, admin name should be alphanumeric, admin does not exist or is default admin!''
           else ''The data of the request you have sent is incorrect!'') @ [newline]
      else if status = 5 then bytes_of ''The token of the request you have sent is incorrect!'' @ [newline]
      else if status = 6 then bytes_of ''The server could not resolve your request!'' @ [newline]
      else [])"

definition process_response :: "byte \<Rightarrow> client_request_args \<Rightarrow> byte list \<Rightarrow> byte list option" where
  "process_response c a buf =
     (if c = 0 then
        if ca_method a = client_get then handle_get_ok_status a buf else Some (handle_config_ok_status a)
      else Some (handle_error_response a c))"

section \<open>The main loop\<close>

text \<open>What the system calls answer during one exchange: the data segments \<open>recv\<close> returns one by one and
  whether it then reports the end of the stream or an error.\<close>

record client_env =
  ce_socket :: int
  ce_connect :: int
  ce_send :: int
  ce_segments :: "byte list list"
  ce_eof :: bool
  ce_close :: int

definition response_size :: nat where "response_size = 3 + MAX_BYTES_DATA"

text \<open>The loop around \<open>recv\<close>: every call stores at the start of \<open>buf\<close>.\<close>

fun client_recv :: "byte list list \<Rightarrow> bool \<Rightarrow> byte list \<Rightarrow> byte list prog" where
  "client_recv [] eof buf = (if eof then Inr buf else Inl (Fault Abort_call))"
| "client_recv (seg # segs) eof buf = client_recv segs eof (overwrite buf 0 (take (length buf) seg))"

text \<open>The body of the loop of \<open>main\<close>: the bytes sent and the text printed (\<open>None\<close>: the printing never
  ends). \<open>wb\<close> and \<open>buf\<close> are the two buffers as the iteration finds them.\<close>

definition client_exchange ::
  "client_request_args \<Rightarrow> byte list \<Rightarrow> client_env \<Rightarrow> byte list \<Rightarrow> byte list \<Rightarrow> (byte list \<times> byte list option) prog" where
  "client_exchange a token env wb buf =
     (if ce_socket env < 0 then Inl (Exit 1)
      else if ce_connect env < 0 then Inl (Exit 1)
      else pbind (lift_res (serialize_request a token wb)) (\<lambda>wb1.
        if ce_send env < 0 then Inl (Exit 1)
        else pbind (client_recv (ce_segments env) (ce_eof env) buf) (\<lambda>buf1.
          case process_response (buf1 ! 0) a buf1 of
            None \<Rightarrow> Inr (take (BASE_REQUEST_DATA + unat (ca_dlen a)) wb1, None)
          | Some text \<Rightarrow>
              if ce_close env < 0 then Inl (Exit 1)
              else Inr (take (BASE_REQUEST_DATA + unat (ca_dlen a)) wb1, Some text))))"

text \<open>The loop of \<open>main\<close>, with the answers of the system calls in each iteration. It stays in an
  exchange whose printing does not end; after any other it clears the buffers.\<close>

fun client_requests ::
  "client_request_args list \<Rightarrow> byte list \<Rightarrow> client_env list \<Rightarrow> byte list \<Rightarrow> byte list \<Rightarrow>
   (byte list \<times> byte list option) list prog" where
  "client_requests (a # as) token (env # envs) wb buf =
     pbind (client_exchange a token env wb buf) (\<lambda>(sent, printed).
       if printed = None then Inr [(sent, None)]
       else pbind (client_requests as token envs (replicate (BASE_REQUEST_DATA + MAX_BYTES_DATA) 0) (replicate response_size 0))
              (\<lambda>rs. Inr ((sent, printed) # rs)))"
| "client_requests as token envs wb buf = Inr []"

definition client_main ::
  "(byte list \<Rightarrow> byte list option) \<Rightarrow> (byte list \<Rightarrow> byte list option) \<Rightarrow> getopt_result list \<Rightarrow> byte list list \<Rightarrow>
   client_env list \<Rightarrow> byte list \<Rightarrow> byte list \<Rightarrow> (client_dest \<times> (byte list \<times> byte list option) list) prog" where
  "client_main pton4 pton6 opts extra envs wb buf =
     pbind (client_parse_args pton4 pton6 opts extra) (\<lambda>(args, token, dest).
     pbind (client_requests args token envs wb buf) (\<lambda>rs. Inr (dest, rs)))"

section \<open>Lemmas on requests\<close>

text \<open>The request an option stands for.\<close>

definition option_request :: "getopt_result \<Rightarrow> monitor_request option" where
  "option_request = (\<lambda>(c, arg).
     let u = takeWhile (\<lambda>c. c \<noteq> colon) arg; v = tl (dropWhile (\<lambda>c. c \<noteq> colon) arg)
     in if c = CHR ''c'' then Some Get_concurrent
     else if c = CHR ''C'' then Some Get_historic
     else if c = CHR ''b'' then Some Get_transfered
     else if c = CHR ''a'' then Some Get_proxyusers
     else if c = CHR ''A'' then Some Get_adminusers
     else if c = CHR ''n'' then Some (Set_disector True)
     else if c = CHR ''N'' then Some (Set_disector False)
     else if c = CHR ''u'' then Some (Add_proxyuser u v)
     else if c = CHR ''U'' \<and> u \<noteq> [] then Some (Add_admin u v)
     else if c = CHR ''d'' then Some (Delete_proxyuser arg)
     else if c = CHR ''D'' then Some (Delete_admin arg)
     else None)"

lemma span_colon:
  "colon \<notin> set u \<Longrightarrow> takeWhile (\<lambda>c. c \<noteq> colon) (u @ colon # v) = u \<and> dropWhile (\<lambda>c. c \<noteq> colon) (u @ colon # v) = colon # v"
  by (induction u) auto

lemma colon_split:
  assumes "strchr_colon src = Some sep"
  obtains u v where "src = u @ colon # v" "colon \<notin> set u" "sep = length u"
proof -
  have "colon \<in> set src" and sep: "sep = length (takeWhile (\<lambda>c. c \<noteq> colon) src)"
    using assms by (auto simp: strchr_colon_def split: if_splits)
  then obtain u v where "src = u @ colon # v" "colon \<notin> set u" by (auto dest: split_list_first)
  with sep span_colon [of u v] show thesis by (intro that [of u v]) simp_all
qed

lemma strtok_name:
  assumes "src = u @ colon # v" "colon \<notin> set u" "u \<noteq> []" "0 \<notin> set src"
  shows "strtok_colon src = Some (0, length u, src[length u := 0])"
    and "take (length u) (src[length u := 0]) = u" "cstr (drop (Suc (length u)) (src[length u := 0])) = v"
proof -
  obtain x us where u: "u = x # us" "x \<noteq> colon" using assms(2,3) by (cases u) auto
  have "takeWhile (\<lambda>c. c = colon) src = []" using u assms(1) by simp
  moreover have "takeWhile (\<lambda>c. c \<noteq> colon) src = u" using assms(1,2) span_colon [of u v] by simp
  ultimately show "strtok_colon src = Some (0, length u, src[length u := 0])" using assms(3) by (simp add: strtok_colon_def Let_def)
  show "take (length u) (src[length u := 0]) = u" "cstr (drop (Suc (length u)) (src[length u := 0])) = v"
    using assms(1,4) by (simp_all add: list_update_append)
qed

text \<open>The union of an account request: a name of up to 255 bytes, the separator, the second string.\<close>

definition account_data :: "byte list \<Rightarrow> byte list \<Rightarrow> byte list" where
  "account_data u v = strncpy_bytes 255 u @ [0] @ strncpy_bytes 256 v"

lemma account_data_store:
  assumes "length u \<le> 255" "length v \<le> 255"
  shows "string_check u (replicate 512 0) 0 USERNAME_MAX = Inr (length u, u @ replicate (512 - length u) 0)"
    and "mem_copy (u @ replicate (512 - length u) 0) SEPARATOR_OFFSET [0] = Inr (u @ replicate (512 - length u) 0)"
    and "mem_copy (u @ replicate (512 - length u) 0) SECOND_OFFSET v = Inr (account_data u v)"
proof -
  let ?m = "u @ replicate (512 - length u) (0 :: byte)"
  show "string_check u (replicate 512 0) 0 USERNAME_MAX = Inr (length u, ?m)"
    using assms(1) by (simp add: string_check_def mem_copy_def USERNAME_MAX_def overwrite_zero_block)
  have "overwrite ?m 255 [0] = ?m[255 := 0]" using assms(1) by (simp add: overwrite_def upd_conv_take_nth_drop)
  also have "\<dots> = ?m" using assms(1) by (simp add: list_update_append)
  finally show "mem_copy ?m SEPARATOR_OFFSET [0] = Inr ?m"
    using assms(1) by (simp add: mem_copy_def SEPARATOR_OFFSET_def)
  have "512 - length u = (255 - length u) + (1 + 256)" using assms(1) by simp
  then have "replicate (512 - length u) (0 :: byte) = (replicate (255 - length u) 0 @ [0]) @ replicate 256 0"
    by (simp only: replicate_add) simp
  then have m: "?m = (u @ replicate (255 - length u) 0 @ [0]) @ replicate 256 0" by simp
  have "overwrite ?m 256 v = (u @ replicate (255 - length u) 0 @ [0]) @ v @ replicate (256 - length v) 0"
    unfolding m using assms by (simp add: overwrite_def)
  then show "mem_copy ?m SECOND_OFFSET v = Inr (account_data u v)"
    using assms by (simp add: mem_copy_def SECOND_OFFSET_def account_data_def strncpy_bytes_def)
qed

lemma account_data_read:
  assumes "length u \<le> 255" "length v \<le> 255" "0 \<notin> set u" "0 \<notin> set v"
  shows "read_cstr (account_data u v) = Inr u" "read_cstr (drop SECOND_OFFSET (account_data u v)) = Inr v"
    "account_data u v ! SEPARATOR_OFFSET = 0" "length (account_data u v) = 512"
proof -
  have "account_data u v = u @ 0 # drop (Suc (length u)) (account_data u v)"
  proof (cases "length u = 255")
    case True
    then show ?thesis by (simp add: account_data_def strncpy_bytes_def)
  next
    case False
    then have "255 - length u = Suc (254 - length u)" using assms(1) by simp
    then show ?thesis using assms(1) by (simp add: account_data_def strncpy_bytes_def)
  qed
  then have "0 \<in> set (account_data u v) \<and> cstr (account_data u v) = u"
    using assms(3) by (metis cstr_append_zero cstr_no_zero in_set_conv_decomp)
  then show "read_cstr (account_data u v) = Inr u" by (simp add: read_cstr_def)
  have "drop SECOND_OFFSET (account_data u v) = strncpy_bytes 256 v" using assms(1)
    by (simp add: account_data_def SECOND_OFFSET_def)
  moreover have "c_string 256 v" using assms(2,4) by (simp add: c_string_def)
  ultimately show "read_cstr (drop SECOND_OFFSET (account_data u v)) = Inr v"
    using assms(4) by (simp add: strncpy_split read_cstr_def)
  show "account_data u v ! SEPARATOR_OFFSET = 0" "length (account_data u v) = 512"
    by (simp_all add: account_data_def SEPARATOR_OFFSET_def nth_append)
qed

lemma second_string_ok:
  assumes "length u \<le> 255" "length v \<le> 255"
  shows "string_check v (u @ replicate (512 - length u) 0) SECOND_OFFSET USERNAME_MAX = Inr (length v, account_data u v)"
    and "length v = 16 \<Longrightarrow> token_check v (u @ replicate (512 - length u) 0) SECOND_OFFSET = Inr (16, account_data u v)"
  using account_data_store(3) [OF assms] assms by (simp_all add: string_check_def token_check_def USERNAME_MAX_def TOKEN_SIZE_def)

lemma string_check_cases:
  "string_check s m off mx = Inr r \<Longrightarrow> length s \<le> mx \<and> fst r = length s"
  by (auto simp: string_check_def split: if_splits)

text \<open>What the account options leave in \<open>args\<close>.\<close>

lemma username_with_password_ok:
  assumes "username_with_password (u @ colon # v) (replicate 512 0) = Inr r" "colon \<notin> set u" "0 \<notin> set (u @ v)"
  shows "u \<noteq> [] \<and> length u \<le> 255 \<and> length v \<le> 255 \<and> r = (length u + 1 + length v, account_data u v)"
proof -
  let ?src = "u @ colon # v"
  have u: "u \<noteq> []" using assms(1) by (cases u) (auto simp: username_with_password_def strchr_colon_def)
  have nz: "0 \<notin> set ?src" using assms(3) by auto
  have chr: "strchr_colon ?src = Some (length u)" using span_colon [OF assms(2), of v] by (simp add: strchr_colon_def)
  have hd: "hd ?src \<noteq> colon" using u assms(2) by (cases u) auto
  note tok = strtok_name [OF refl assms(2) u nz]
  have run: "username_with_password ?src (replicate 512 0) =
      pbind (string_check u (replicate 512 0) 0 USERNAME_MAX) (\<lambda>(n, m1).
      pbind (lift_res (mem_copy m1 SEPARATOR_OFFSET [0])) (\<lambda>m2.
      pbind (string_check v m2 SECOND_OFFSET USERNAME_MAX) (\<lambda>(k, m3). Inr (n + 1 + k, m3))))"
    using hd assms(3) by (simp add: username_with_password_def chr tok(1) Let_def)
  have len: "length u \<le> 255" "length v \<le> 255"
    using assms(1) by (auto simp: run USERNAME_MAX_def dest!: string_check_cases)
  then show ?thesis
    using assms(1) u account_data_store(1,2) [OF len] second_string_ok(1) [OF len] by (simp add: run)
qed

lemma username_with_token_ok:
  assumes "username_with_token (u @ colon # v) (replicate 512 0) = Inr r" "colon \<notin> set u" "0 \<notin> set (u @ v)" "u \<noteq> []"
  shows "length u \<le> 255 \<and> length v = 16 \<and> r = (length u + 1 + length v, account_data u v)"
proof -
  let ?src = "u @ colon # v"
  have nz: "0 \<notin> set ?src" using assms(3) by auto
  have chr: "strchr_colon ?src = Some (length u)" using span_colon [OF assms(2), of v] by (simp add: strchr_colon_def)
  note tok = strtok_name [OF refl assms(2,4) nz]
  have run: "username_with_token ?src (replicate 512 0) =
      pbind (string_check u (replicate 512 0) 0 USERNAME_MAX) (\<lambda>(n, m1).
      pbind (lift_res (mem_copy m1 SEPARATOR_OFFSET [0])) (\<lambda>m2.
      pbind (token_check v m2 SECOND_OFFSET) (\<lambda>(k, m3). Inr (n + 1 + k, m3))))"
    using assms(3) by (simp add: username_with_token_def chr tok(1) Let_def)
  have len: "length u \<le> 255" "length v = 16"
    using assms(1) by (auto simp: run USERNAME_MAX_def token_check_def TOKEN_SIZE_def dest!: string_check_cases split: if_splits)
  then show ?thesis
    using assms(1) account_data_store(1,2) [of u v] second_string_ok(2) [of u v] by (simp add: run)
qed

text \<open>The header of a request in the write buffer, and its data.\<close>

definition request_header :: "byte list \<Rightarrow> client_request_args \<Rightarrow> byte list" where
  "request_header tok a = [1] @ tok @ [ca_method a, ca_target a] @ be16 (ca_dlen a)"

lemma length_request_header: "length tok = 16 \<Longrightarrow> length (request_header tok a) = 21"
  by (simp add: request_header_def)

lemma mem_copy_ok: "off + length xs \<le> length m \<Longrightarrow> mem_copy m off xs = Inr (overwrite m off xs)"
  by (simp add: mem_copy_def)

lemma overwrite_append:
  "length xs = off \<Longrightarrow> overwrite (xs @ ys) off zs = xs @ zs @ drop (length zs) ys"
  by (auto simp: overwrite_def)

lemma list_of_two: "length xs = 2 \<Longrightarrow> \<exists>y z. xs = [y, z]"
  by (auto simp: length_Suc_conv numeral_2_eq_2)

lemma serialize_header:
  assumes "length tok = 16" "length b = 65556" "ca_method a \<in> {0, 1}"
  shows "serialize_request a tok b =
     (if ca_method a = 0 then mem_copy (request_header tok a @ drop 21 b) FIELD_DATA_INDEX [ca_data a ! 0]
      else serialize_config_data a (request_header tok a @ drop 21 b))"
proof -
  let ?h = "take 1 b" and ?t = "take 16 (drop 1 b)" and ?mt = "take 2 (drop 17 b)" and ?d = "take 2 (drop 19 b)"
  have "take (1 + (16 + (2 + 2))) b = ?h @ ?t @ ?mt @ ?d" unfolding take_add drop_drop by simp
  then have "take 21 b = ?h @ ?t @ ?mt @ ?d" by simp
  then have b: "b = ?h @ ?t @ ?mt @ ?d @ drop 21 b" by (metis append_assoc append_take_drop_id)
  obtain x where x: "?h = [x]" using assms(2) by (cases b) auto
  have "length ?mt = 2" using assms(2) by simp
  then obtain y z where yz: "?mt = [y, z]" using list_of_two by blast
  define t0 d0 r where "t0 = ?t" "d0 = ?d" "r = drop 21 b"
  have lens: "length t0 = 16" "length d0 = 2" "length r = 65535" using assms(2) by (simp_all add: t0_d0_r_def)
  have b: "b = [x] @ t0 @ [y, z] @ d0 @ r" using b x yz by (simp add: t0_d0_r_def)
  have "overwrite b 0 [1] = [1] @ t0 @ [y, z] @ d0 @ r" by (simp add: b overwrite_def)
  moreover have "overwrite ([1] @ t0 @ [y, z] @ d0 @ r) 1 tok = [1] @ tok @ [y, z] @ d0 @ r"
    using assms(1) lens by (simp add: overwrite_def)
  moreover have "overwrite ([1] @ tok @ [y, z] @ d0 @ r) 17 [ca_method a] = [1] @ tok @ [ca_method a, z] @ d0 @ r"
    using assms(1) lens by (simp add: overwrite_def)
  moreover have "overwrite ([1] @ tok @ [ca_method a, z] @ d0 @ r) 19 (be16 (ca_dlen a)) =
      [1] @ tok @ [ca_method a, z] @ be16 (ca_dlen a) @ r"
    using assms(1) lens by (simp add: overwrite_def)
  moreover have "overwrite ([1] @ tok @ [ca_method a, z] @ be16 (ca_dlen a) @ r) 18 [ca_target a] = request_header tok a @ r"
    using assms(1) lens by (simp add: overwrite_def request_header_def)
  ultimately show ?thesis
    using assms lens
    by (auto simp: serialize_request_def mem_copy_def TOKEN_SIZE_def FIELD_DLEN_INDEX_def FIELD_TARGET_INDEX_def
        FIELD_DATA_INDEX_def length_request_header t0_d0_r_def(3))
qed

lemma copy_behind:
  assumes "length h = off" "length ds \<le> length r"
  shows "mem_copy (h @ r) off ds = Inr (h @ ds @ drop (length ds) r)"
  using assms by (simp add: mem_copy_def overwrite_def)

lemma add_account_bytes:
  assumes "length h = 21" "length r = 65535" "ca_data a = account_data u v" "length u \<le> 255" "length v \<le> 255"
    "0 \<notin> set u" "0 \<notin> set v"
  shows "\<exists>r'. add_account_data a (h @ r) = Inr (h @ (u @ 0 # v) @ r')"
proof -
  note rd = account_data_read [OF assms(4-7)]
  have "mem_copy (h @ r) FIELD_DATA_INDEX u = Inr (h @ u @ drop (length u) r)"
    by (rule copy_behind) (use assms in \<open>simp_all add: FIELD_DATA_INDEX_def\<close>)
  moreover have "mem_copy ((h @ u) @ drop (length u) r) (FIELD_DATA_INDEX + length u) [0] =
      Inr ((h @ u) @ [0] @ drop 1 (drop (length u) r))"
    using copy_behind [of "h @ u" "FIELD_DATA_INDEX + length u" "[0]" "drop (length u) r"] assms
    by (simp add: FIELD_DATA_INDEX_def)
  moreover have "mem_copy ((h @ u @ [0]) @ drop 1 (drop (length u) r)) (FIELD_DATA_INDEX + length u + 1) v =
      Inr ((h @ u @ [0]) @ v @ drop (length v) (drop 1 (drop (length u) r)))"
    by (rule copy_behind) (use assms in \<open>simp_all add: FIELD_DATA_INDEX_def\<close>)
  ultimately show ?thesis by (simp add: add_account_data_def assms(3) rd)
qed

text \<open>The bytes the client sends for an option are the request of the protocol the option stands for.\<close>

lemma config_bytes:
  assumes "length tok = 16" "length b = 65556" "ca_method a = 1" "unat (ca_dlen a) = length ds"
    "\<exists>r'. serialize_config_data a (request_header tok a @ drop 21 b) = Inr (request_header tok a @ ds @ r')"
  shows "\<exists>b'. serialize_request a tok b = Inr b' \<and>
     take (BASE_REQUEST_DATA + unat (ca_dlen a)) b' = config_message tok (ca_target a) ds"
proof -
  have "(of_nat (length ds) :: u16) = ca_dlen a" by (simp flip: assms(4))
  then have "config_message tok (ca_target a) ds = request_header tok a @ ds"
    using assms(3) by (simp add: config_message_def request_header_def)
  then show ?thesis
    using assms by (auto simp: serialize_header BASE_REQUEST_DATA_def length_request_header)
qed

lemma get_bytes:
  assumes "length tok = 16" "length b = 65556" "ca_method a = 0" "ca_dlen a = 1" "ca_data a ! 0 = 0"
  shows "\<exists>b'. serialize_request a tok b = Inr b' \<and>
     take (BASE_REQUEST_DATA + unat (ca_dlen a)) b' = get_message tok (ca_target a)"
proof -
  have "mem_copy (request_header tok a @ drop 21 b) 21 [0] = Inr (request_header tok a @ [0] @ drop 1 (drop 21 b))"
    using copy_behind [of "request_header tok a" 21 "[0]" "drop 21 b"] assms(1,2) by (simp add: length_request_header)
  moreover have "get_message tok (ca_target a) = request_header tok a @ [0]"
    using assms(3,4) by (simp add: get_message_def request_header_def be16_def)
  ultimately show ?thesis
    using assms by (auto simp: serialize_header BASE_REQUEST_DATA_def FIELD_DATA_INDEX_def length_request_header)
qed

lemma account_option:
  assumes "length tok = 16" "length b = 65556" "length u \<le> 255" "length v \<le> 255" "0 \<notin> set u" "0 \<notin> set v" "t \<in> {1, 3}"
    "a = client_args_zero\<lparr>ca_method := 1, ca_target := t, ca_dlen := of_nat (length u + 1 + length v), ca_data := account_data u v\<rparr>"
  shows "\<exists>b'. serialize_request a tok b = Inr b' \<and>
     take (BASE_REQUEST_DATA + unat (ca_dlen a)) b' = config_message tok t (u @ 0 # v)"
proof -
  have n: "unat (of_nat (length u + 1 + length v) :: u16) = length (u @ 0 # v)"
    using unat_of_nat_u16 [of "length u + 1 + length v"] assms(3,4) by simp
  have "\<exists>r'. add_account_data a (request_header tok a @ drop 21 b) = Inr (request_header tok a @ (u @ 0 # v) @ r')"
    by (rule add_account_bytes) (use assms in \<open>simp_all add: length_request_header\<close>)
  then have "\<exists>r'. serialize_config_data a (request_header tok a @ drop 21 b) = Inr (request_header tok a @ (u @ 0 # v) @ r')"
    using assms(7,8) by (auto simp: serialize_config_data_def)
  from config_bytes [OF assms(1,2) _ _ this] show ?thesis using assms(8) n by simp
qed

lemma delete_option:
  assumes "length tok = 16" "length b = 65556" "string_check s (replicate 512 0) 0 USERNAME_MAX = Inr (n, m)" "t \<in> {2, 4}"
    "a = client_args_zero\<lparr>ca_method := 1, ca_target := t, ca_dlen := of_nat n, ca_data := m\<rparr>"
  shows "\<exists>b'. serialize_request a tok b = Inr b' \<and>
     take (BASE_REQUEST_DATA + unat (ca_dlen a)) b' = config_message tok t s"
proof -
  have len: "length s \<le> 255" using assms(3) by (auto simp: USERNAME_MAX_def dest: string_check_cases)
  then have nm: "n = length s" "m = s @ replicate (512 - length s) 0"
    using account_data_store(1) [of s "[]"] assms(3) by simp_all
  have n: "unat (of_nat (length s) :: u16) = length s" by (rule unat_of_nat_u16) (use len in simp)
  have "mem_copy (request_header tok a @ drop 21 b) FIELD_DATA_INDEX s =
      Inr (request_header tok a @ s @ drop (length s) (drop 21 b))"
    by (rule copy_behind) (use assms(1,2) len in \<open>simp_all add: length_request_header FIELD_DATA_INDEX_def\<close>)
  then have "\<exists>r'. serialize_config_data a (request_header tok a @ drop 21 b) = Inr (request_header tok a @ s @ r')"
    using assms(4,5) nm n by (auto simp: serialize_config_data_def)
  from config_bytes [OF assms(1,2) _ _ this] show ?thesis using assms(5) nm n by simp
qed

lemma disector_option:
  assumes "length tok = 16" "length b = 65556" "a = set_disector v client_args_zero"
  shows "\<exists>b'. serialize_request a tok b = Inr b' \<and>
     take (BASE_REQUEST_DATA + unat (ca_dlen a)) b' = config_message tok 0 [v]"
proof -
  have a: "ca_method a = 1" "ca_target a = 0" "ca_dlen a = 1" "ca_data a ! 0 = v"
    using assms(3) by (simp_all add: set_disector_def client_args_zero_def overwrite_def)
  have "mem_copy (request_header tok a @ drop 21 b) FIELD_DATA_INDEX [v] =
      Inr (request_header tok a @ [v] @ drop 1 (drop 21 b))"
    using copy_behind [of "request_header tok a" FIELD_DATA_INDEX "[v]" "drop 21 b"] assms(1,2)
    by (simp add: length_request_header FIELD_DATA_INDEX_def)
  then have "\<exists>r'. serialize_config_data a (request_header tok a @ drop 21 b) = Inr (request_header tok a @ [v] @ r')"
    using a by (simp add: serialize_config_data_def)
  from config_bytes [OF assms(1,2) a(1) _ this] show ?thesis using a by simp
qed

lemma serialize_option:
  assumes "client_option (c, arg) client_args_zero = Inr a" "option_request (c, arg) = Some r" "0 \<notin> set arg"
    "length tok = 16" "length b = 65556"
  shows "\<exists>b'. serialize_request a tok b = Inr b' \<and>
     take (BASE_REQUEST_DATA + unat (ca_dlen a)) b' = monitor_message tok r"
proof -
  have zero: "ca_data client_args_zero = replicate 512 0" by (simp add: client_args_zero_def)
  let ?get = "\<lambda>t. (set_get_data client_args_zero)\<lparr>ca_target := t\<rparr>"
  have get: "\<exists>b'. serialize_request (?get t) tok b = Inr b' \<and>
      take (BASE_REQUEST_DATA + unat (ca_dlen (?get t))) b' = get_message tok t" for t
    using get_bytes [OF assms(4,5), of "?get t"] by (simp add: set_get_data_def client_args_zero_def)
  consider "c \<in> {CHR ''c'', CHR ''C'', CHR ''b'', CHR ''a'', CHR ''A''}" | "c \<in> {CHR ''n'', CHR ''N''}" | "c = CHR ''u''" |
    "c = CHR ''U''" | "c \<in> {CHR ''d'', CHR ''D''}"
    using assms(2) by (auto simp: option_request_def Let_def split: if_splits)
  then show ?thesis
  proof cases
    case 1
    then show ?thesis using assms(1,2) get by (auto simp: client_option_def option_request_def Let_def)
  next
    case 2
    then show ?thesis
      using assms(1,2) disector_option [OF assms(4,5)] by (auto simp: client_option_def option_request_def Let_def)
  next
    case 3
    then obtain n m where nm: "username_with_password arg (replicate 512 0) = Inr (n, m)"
      and a: "a = client_args_zero\<lparr>ca_method := 1, ca_target := 1, ca_dlen := of_nat n, ca_data := m\<rparr>"
      using assms(1) zero by (auto simp: client_option_def set_account_def)
    obtain sep where "strchr_colon arg = Some sep" using nm by (auto simp: username_with_password_def split: option.splits)
    then obtain u v where uv: "arg = u @ colon # v" "colon \<notin> set u" by (rule colon_split)
    have ok: "length u \<le> 255" "length v \<le> 255" "n = length u + 1 + length v" "m = account_data u v"
      using username_with_password_ok [of u v "(n, m)"] nm uv assms(3) by auto
    have "r = Add_proxyuser u v" using assms(2) 3 span_colon [OF uv(2)] by (simp add: option_request_def uv(1))
    then show ?thesis using account_option [OF assms(4,5) ok(1,2), of 1 a] assms(3) uv(1) a ok by auto
  next
    case 4
    then obtain n m where nm: "username_with_token arg (replicate 512 0) = Inr (n, m)"
      and a: "a = client_args_zero\<lparr>ca_method := 1, ca_target := 3, ca_dlen := of_nat n, ca_data := m\<rparr>"
      using assms(1) zero by (auto simp: client_option_def set_account_def)
    obtain sep where "strchr_colon arg = Some sep" using nm by (auto simp: username_with_token_def split: option.splits)
    then obtain u v where uv: "arg = u @ colon # v" "colon \<notin> set u" by (rule colon_split)
    have r: "r = Add_admin u v" "u \<noteq> []"
      using assms(2) 4 span_colon [OF uv(2)] by (auto simp: option_request_def uv(1) Let_def split: if_splits)
    have ok: "length u \<le> 255" "length v = 16" "n = length u + 1 + length v" "m = account_data u v"
      using username_with_token_ok [of u v "(n, m)"] nm uv assms(3) r(2) by auto
    show ?thesis using account_option [OF assms(4,5) ok(1), of v 3 a] assms(3) uv(1) a ok r(1) by auto
  next
    case 5
    define t :: byte where "t = (if c = CHR ''d'' then 2 else 4)"
    obtain n m where nm: "string_check arg (replicate 512 0) 0 USERNAME_MAX = Inr (n, m)"
      "a = client_args_zero\<lparr>ca_method := 1, ca_target := t, ca_dlen := of_nat n, ca_data := m\<rparr>"
      using 5 assms(1) zero by (auto simp: client_option_def set_account_def t_def)
    have "monitor_message tok r = config_message tok t arg" "t \<in> {2, 4}"
      using 5 assms(2) by (auto simp: option_request_def Let_def t_def)
    with delete_option [OF assms(4,5) nm(1) _ nm(2)] show ?thesis by simp
  qed
qed

section \<open>Lemmas on responses\<close>

lemma print_names_step:
  "uint k < uint dlen + 3 \<Longrightarrow> print_names buf dlen k =
     Option.bind (print_names buf dlen (k + 1)) (\<lambda>rest. Some ((if buf ! unat k = 0 then newline else buf ! unat k) # rest))"
  "\<not> uint k < uint dlen + 3 \<Longrightarrow> print_names buf dlen k = Some []"
  by (simp_all add: print_names.simps)

definition printed :: "byte list \<Rightarrow> byte list" where
  "printed xs = map (\<lambda>c. if c = 0 then newline else c) xs"

lemma print_names_ends:
  assumes "unat dlen + 3 \<le> 65535" "m \<le> unat dlen + 3"
  shows "print_names buf dlen (of_nat m) = Some (map (\<lambda>i. if buf ! i = 0 then newline else buf ! i) [m..<unat dlen + 3])"
  using assms(2)
proof (induction "unat dlen + 3 - m" arbitrary: m)
  case 0
  then have m: "m = unat dlen + 3" by simp
  then have "unat (of_nat m :: u16) = m" using assms(1) by (intro unat_of_nat_u16) simp
  then have "uint (of_nat m :: u16) = int m" "uint dlen = int (unat dlen)" by (simp_all only: uint_nat)
  then have "\<not> uint (of_nat m :: u16) < uint dlen + 3" using m by linarith
  from print_names_step(2) [OF this] m show ?case by simp
next
  case (Suc d)
  then have lt: "m < unat dlen + 3" by simp
  then have um: "unat (of_nat m :: u16) = m" using assms(1) by (intro unat_of_nat_u16) simp
  then have "uint (of_nat m :: u16) = int m" by (simp only: uint_nat)
  moreover have "uint dlen = int (unat dlen)" by (simp only: uint_nat)
  ultimately have "uint (of_nat m :: u16) < uint dlen + 3" using lt by linarith
  moreover have "print_names buf dlen (of_nat (Suc m)) =
      Some (map (\<lambda>i. if buf ! i = 0 then newline else buf ! i) [Suc m..<unat dlen + 3])"
    using Suc.hyps(1) [of "Suc m"] Suc.hyps(2) lt by simp
  ultimately show ?case using lt um by (simp add: print_names_step(1) upt_conv_Cons add.commute)
qed

lemma print_names_loops:
  assumes "65533 \<le> unat dlen"
  shows "print_names buf dlen k = None"
proof -
  have "uint j < uint dlen + 3" for j :: u16
  proof -
    have "unat j < 65536" by simp
    then have "int (unat j) < int (unat dlen) + 3" using assms by linarith
    then show ?thesis by (simp only: uint_nat)
  qed
  then have all: "\<forall>j :: u16. uint j < uint dlen + 3" by blast
  have "\<not> (\<forall>j :: u16. uint j < uint dlen + 3)" if "print_names buf dlen k = Some r" for r
    by (rule print_names.raw_induct [where P = "\<lambda>buf dlen k r. \<not> (\<forall>j :: u16. uint j < uint dlen + 3)", OF _ that])
      (auto split: Option.bind_splits if_splits)
  with all have "print_names buf dlen k \<noteq> Some r" for r by blast
  then show ?thesis by (cases "print_names buf dlen k") auto
qed

lemma recv_one_segment:
  assumes "length xs \<le> response_size"
  shows "client_recv [xs] True (replicate response_size 0) = Inr (xs @ replicate (response_size - length xs) 0)"
  using assms by (simp add: overwrite_zero_block)

lemma reply_fields:
  assumes "length (reply_bytes d) \<le> 65532" "buf = reply_message st d @ zs"
  shows "buf ! 0 = monitor_status_byte st" "unat (response_dlen buf) = length (reply_bytes d)"
    "take (length (reply_bytes d)) (drop 3 buf) = reply_bytes d"
proof -
  obtain x y where xy: "be16 (of_nat (length (reply_bytes d))) = [x, y]" "be16_dec [x, y] = of_nat (length (reply_bytes d))"
    using be16_bytes by blast
  then have b: "buf = monitor_status_byte st # x # y # reply_bytes d @ zs" using assms(2) by (simp add: reply_message_def)
  then show "buf ! 0 = monitor_status_byte st" "take (length (reply_bytes d)) (drop 3 buf) = reply_bytes d" by simp_all
  have "response_dlen buf = of_nat (length (reply_bytes d))" using xy(2) by (simp add: response_dlen_def b del: be16_dec.simps)
  then show "unat (response_dlen buf) = length (reply_bytes d)" using assms(1) unat_of_nat_u16 [of "length (reply_bytes d)"] by simp
qed

lemma reply_number:
  assumes "buf = reply_message st (Data_number v) @ zs"
  shows "response_number buf = v"
proof -
  have "[buf ! 3, buf ! 4, buf ! 5, buf ! 6] = be32 v" using assms by (simp add: reply_message_def be16_def be32_def)
  then show ?thesis using be32_dec_be32 [of v "[]"] by (simp add: response_number_def del: be32_dec.simps)
qed

lemma reply_names:
  assumes "length ns \<le> 65532" "buf = reply_message st (Data_bytes ns) @ zs"
  shows "print_names buf (response_dlen buf) 3 = Some (printed ns)"
proof -
  note f = reply_fields [of "Data_bytes ns" buf st zs]
  have dlen: "unat (response_dlen buf) = length ns" and bytes: "take (length ns) (drop 3 buf) = ns"
    using f assms by simp_all
  have "map (\<lambda>i. if buf ! i = 0 then newline else buf ! i) [3..<length ns + 3] = printed ns"
  proof (rule nth_equalityI)
    fix i
    assume "i < length (map (\<lambda>i. if buf ! i = 0 then newline else buf ! i) [3..<length ns + 3])"
    then have i: "i < length ns" by simp
    have "buf ! (3 + i) = take (length ns) (drop 3 buf) ! i" using i assms(2) by (simp add: reply_message_def be16_def nth_append)
    then show "map (\<lambda>i. if buf ! i = 0 then newline else buf ! i) [3..<length ns + 3] ! i = printed ns ! i"
      using i bytes by (simp add: printed_def)
  qed (simp add: printed_def)
  then show ?thesis using print_names_ends [of "response_dlen buf" 3 buf] assms(1) dlen by simp
qed

text \<open>The list of names as lines.\<close>

lemma printed_joined:
  assumes "\<forall>n \<in> set ns. 0 \<notin> set n" "ns \<noteq> []"
  shows "printed (butlast (joined ns)) @ [newline] = concat (map (\<lambda>n. n @ [newline]) ns)"
proof -
  have "printed (joined ns) = concat (map (\<lambda>n. n @ [newline]) ns)"
    using assms(1) by (induction ns) (auto simp: printed_def intro!: map_idI)
  moreover have "joined ns = butlast (joined ns) @ [0]"
    using assms(2) by (induction ns rule: rev_induct) (simp_all add: joined_def butlast_append)
  moreover have "printed (xs @ [0]) = printed xs @ [newline]" for xs by (simp add: printed_def)
  ultimately show ?thesis by metis
qed

section \<open>Properties\<close>

text \<open>Ports: the decimal form of every number up to 65535 is read as that port and every larger
  number is refused with exit status 1, by the server and by the client. 0 is accepted too, although
  the error message says that ports start at 1.\<close>

theorem port_decimal:
  "port (decimal n) = (if n \<le> 65535 then Inr (of_nat n) else Inl (Exit 1)) \<and>
   port_client (decimal n) = (if n \<le> 65535 then Inr (of_nat n) else Inl (Exit 1))"
proof -
  have "port (decimal n) = (if n \<le> 65535 then Inr (of_nat n) else Inl (Exit 1))"
    using decimal_digits [of n] port_digits [of "decimal n"] by simp
  moreover have "port_client (decimal n) = port (decimal n)" by (simp add: port_client_def port_def)
  ultimately show ?thesis by simp
qed

text \<open>C15. Round trip of requests: the bytes the client sends for an option are parsed by the server to
  the request the option stands for, with the token the client was given, for every option and every
  argument the client accepts whose names and passwords fit the protocol.\<close>

theorem client_request_roundtrip:
  assumes "client_option (c, arg) client_args_zero = Inr a" "option_request (c, arg) = Some r" "0 \<notin> set arg"
    "length tok = 16" "length wb = BASE_REQUEST_DATA + MAX_BYTES_DATA" "request_fits r"
    "\<not> mp_separated p" "length (ms_combinedlen s) = 2"
  shows "\<exists>wb'. serialize_request a tok wb = Inr wb' \<and>
     (\<forall>b. wf_buffer b \<and> buffer_bytes b = take (BASE_REQUEST_DATA + unat (ca_dlen a)) wb' \<longrightarrow>
        (\<exists>b' p' s'. monitor_consume b (monitor_parser_init p) s = Inr (monitor_done, b', p', s') \<and>
           m_token (mp_monitor p') = tok \<and> holds_request (mp_monitor p') r))"
proof -
  have "length wb = 65556" using assms(5) by (simp add: BASE_REQUEST_DATA_def MAX_BYTES_DATA_def)
  from serialize_option [OF assms(1-4) this] obtain wb' where wb': "serialize_request a tok wb = Inr wb'"
    "take (BASE_REQUEST_DATA + unat (ca_dlen a)) wb' = monitor_message tok r @ []"
    by auto
  show ?thesis
    using wb' consume_message [OF _ _ assms(4,6-8), where rest = "[]"] by (intro exI [of _ wb']) metis
qed

theorem client_request_roundtrip_witness:
  "\<exists>a wb'. client_option (CHR ''u'', bytes_of ''ana:clave'') client_args_zero = Inr a \<and>
     serialize_request a (replicate 16 65) (replicate (BASE_REQUEST_DATA + MAX_BYTES_DATA) 0) = Inr wb'"
proof -
  let ?arg = "bytes_of ''ana'' @ colon # bytes_of ''clave''"
  have arg: "bytes_of ''ana:clave'' = ?arg" "colon \<notin> set (bytes_of ''ana'')" "0 \<notin> set ?arg"
    by (simp_all add: bytes_of_def)
  have "username_with_password ?arg (replicate 512 0) = Inr (9, account_data (bytes_of ''ana'') (bytes_of ''clave''))"
    using strtok_name [OF refl arg(2), of "bytes_of ''clave''"] account_data_store(1,2) [of "bytes_of ''ana''" "bytes_of ''clave''"]
      second_string_ok(1) [of "bytes_of ''ana''" "bytes_of ''clave''"]
    by (simp add: username_with_password_def strchr_colon_def bytes_of_def Let_def)
  then obtain a where a: "client_option (CHR ''u'', ?arg) client_args_zero = Inr a"
    by (simp add: client_option_def set_account_def client_args_zero_def)
  have r: "option_request (CHR ''u'', ?arg) = Some (Add_proxyuser (bytes_of ''ana'') (bytes_of ''clave''))"
    by (simp add: option_request_def bytes_of_def)
  have fits: "request_fits (Add_proxyuser (bytes_of ''ana'') (bytes_of ''clave''))"
    by (simp add: bytes_of_def IS_ALNUM_def word_le_nat_alt)
  have st: "\<not> mp_separated demo_parser" "length (ms_combinedlen monitor_statics_init) = 2"
    by (simp_all add: demo_parser_def monitor_statics_init_def)
  from client_request_roundtrip [OF a r arg(3) _ _ fits st, of "replicate 16 65"
      "replicate (BASE_REQUEST_DATA + MAX_BYTES_DATA) 0"] a arg(1)
  show ?thesis by (simp del: replicate_add) blast
qed



text \<open>C37. Printing a list ends for every length but the last three: the counter of the loop is a
  \<open>uint16_t\<close> compared with \<open>dlen + 3\<close>, and when the server announces 65533 bytes or more it wraps around
  and the client prints forever.\<close>

theorem client_list_terminates_iff:
  "handle_get_ok_status a buf = None \<longleftrightarrow> ca_target a \<in> {3, 4} \<and> 65533 \<le> unat (response_dlen buf)"
proof (cases "ca_target a \<in> {3, 4}")
  case True
  show ?thesis
  proof (cases "unat (response_dlen buf) \<le> 65532")
    case le: True
    have "\<exists>ns. print_names buf (response_dlen buf) 3 = Some ns"
      using print_names_ends [of "response_dlen buf" 3 buf] le by simp
    with True le show ?thesis by (auto simp: handle_get_ok_status_def Let_def)
  next
    case False
    then have "print_names buf (response_dlen buf) 3 = None" by (intro print_names_loops) simp
    with True False show ?thesis by (auto simp: handle_get_ok_status_def Let_def)
  qed
qed (auto simp: handle_get_ok_status_def Let_def)

text \<open>A reply that arrives in two segments is not put together: each \<open>recv\<close> stores at the start of
  \<open>buf\<close>, so what the client takes for the status and the length are the first bytes of the second
  segment.\<close>

theorem client_segments_overwrite:
  assumes "xs \<noteq> []" "ys \<noteq> []" "length xs \<le> response_size" "length ys \<le> response_size"
  shows "\<exists>buf. client_recv [xs, ys] True (replicate response_size 0) = Inr buf \<and> take (length ys) buf = ys"
proof -
  have "length (overwrite (replicate response_size 0) 0 xs) = response_size" using assms(3) by simp
  then show ?thesis using assms(3,4) by (simp add: overwrite_def)
qed

theorem client_segments_overwrite_witness:
  "\<exists>buf. client_recv [[0, 0], [4, 0, 0, 0, 7]] True (replicate response_size 0) = Inr buf \<and> take 5 buf = [4, 0, 0, 0, 7]"
proof -
  have "length [4, 0, 0, 0, 7 :: byte] = 5" "2 \<le> response_size" "5 \<le> response_size"
    by (simp_all add: response_size_def MAX_BYTES_DATA_def)
  then show ?thesis
    using client_segments_overwrite [of "[0, 0]" "[4, 0, 0, 0, 7]"] by (simp add: numeral_eq_Suc del: client_recv.simps)
qed

text \<open>An administrator without a name: where \<open>-u :password\<close> is refused, \<open>-U :token\<close> is not, because the
  branch that reports the missing name does not exit. \<open>strtok\<close> then takes the token for the name, and
  the client asks the server to add an administrator named like its own token.\<close>

theorem client_missing_name_accepted:
  assumes "length v = 16" "colon \<notin> set v" "0 \<notin> set v"
  shows "username_with_token (colon # v) (replicate 512 0) = Inr (33, account_data v v) \<and>
     username_with_password (colon # v) (replicate 512 0) = Inl (Exit 1)"
proof -
  have tw: "takeWhile (\<lambda>c. c \<noteq> colon) v = v" using assms(2) by (induction v) auto
  have len: "length (takeWhile (\<lambda>c. c \<noteq> colon) v) = 16" using assms(1) by (simp only: tw)
  have lead: "takeWhile (\<lambda>c. c = colon) (colon # v) = [colon]" using assms(1,2) by (cases v) auto
  have tok: "strtok_colon (colon # v) = Some (1, 16, colon # v)"
    unfolding strtok_colon_def Let_def lead using assms(1) by (simp add: len list_update_beyond)
  have chr: "strchr_colon (colon # v) = Some 0" by (simp add: strchr_colon_def)
  show ?thesis
    using assms account_data_store(1,2) [of v v] second_string_ok(2) [of v v]
    by (simp add: username_with_token_def username_with_password_def chr tok Let_def)
qed

theorem client_missing_name_accepted_witness:
  "username_with_token (colon # replicate 16 65) (replicate 512 0) = Inr (33, account_data (replicate 16 65) (replicate 16 65))"
  using client_missing_name_accepted [of "replicate 16 65"] by simp

end
