(* ===== verification/Refcount.thy ===== *)
theory Refcount
  imports Dial
begin

text \<open>
  Who owns a registered descriptor. \<open>entry_of\<close> abstracts the selector to the map from registered
  descriptors to interest, handler and data; the data of a descriptor of a proxied connection is the
  pointer to its \<open>struct socks5\<close>. \<open>owned p w\<close> says that the connection \<open>p\<close> of the world \<open>w\<close> is
  registered for its client, possibly for its origin server, and for nothing else, and that its field
  \<open>references\<close> counts these registrations. Every event handler keeps this until the teardown drops
  the last reference, and none touches a registration of somebody else.
\<close>

section \<open>The selector as one map\<close>

type_synonym entry = "fd_interest \<times> handler_id option \<times> nat option"

definition entry_of :: "selector \<Rightarrow> fd \<Rightarrow> entry option" where
  "entry_of s f = map_option (\<lambda>i. (i, handler_of s f, data_of s f)) (interest_of s f)"

lemma entry_None: "entry_of s f = None \<longleftrightarrow> interest_of s f = None"
  by (simp add: entry_of_def)

lemma entry_upd:
  assumes "interest_of s' = (interest_of s)(f \<mapsto> i)" "data_of s' = (data_of s)(f := d)" "handler_of s' = (handler_of s)(f := h)"
  shows "entry_of s' = (entry_of s)(f \<mapsto> (i, h, d))"
  using assms by (intro ext) (simp add: entry_of_def)

lemma set_interest_entry:
  assumes "sel_inv s" "selector_set_interest s f i = Inr (st, s')"
  shows "sel_inv s' \<and> resolution_jobs s' = resolution_jobs s \<and>
    (case entry_of s f of None \<Rightarrow> entry_of s' = entry_of s
     | Some (j, h, d) \<Rightarrow> st = SELECTOR_SUCCESS \<and> entry_of s' = (entry_of s)(f \<mapsto> (i, h, d)))"
proof (cases "interest_of s f")
  case None
  then have "s' = s"
    using assms(2) by (auto simp: selector_set_interest_def interest_of_def Let_def split: if_splits sum.splits)
  with None assms(1) entry_None [of s f] show ?thesis by simp
next
  case (Some j)
  obtain s1 where "selector_set_interest s f i = Inr (SELECTOR_SUCCESS, s1)" "sel_inv s1"
    "interest_of s1 = (interest_of s)(f \<mapsto> i)" "data_of s1 = data_of s" "handler_of s1 = handler_of s"
    "resolution_jobs s1 = resolution_jobs s"
    using selector_set_interest_ok [OF assms(1) Some, of i] by blast
  with assms(2) entry_upd [of s1 s f i "data_of s f" "handler_of s f"] Some show ?thesis
    by (simp add: entry_of_def fun_upd_idem)
qed

lemma ensure_capacity_entry:
  assumes "sel_inv s" "ensure_capacity alloc s n = Inr (st, s')"
  shows "sel_inv s' \<and> entry_of s' = entry_of s \<and> resolution_jobs s' = resolution_jobs s"
proof (cases "alloc \<and> n \<le> 1024")
  case True
  with assms ensure_capacity_ok [OF assms(1), of n] show ?thesis by (auto simp: entry_of_def fun_eq_iff)
next
  case False
  then have "s' = s"
    using assms by (auto simp: ensure_capacity_def ITEMS_MAX_SIZE_def sel_inv_def Let_def split: if_splits)
  with assms(1) show ?thesis by simp
qed

lemma register_entry:
  assumes "sel_inv s" "selector_register alloc s f (Some h) i d = Inr (st, s')"
  shows "sel_inv s' \<and> resolution_jobs s' = resolution_jobs s \<and>
    (if st = SELECTOR_SUCCESS then entry_of s f = None \<and> entry_of s' = (entry_of s)(f \<mapsto> (i, Some h, d))
     else entry_of s' = entry_of s)"
proof (cases "INVALID_FD f")
  case True
  with assms show ?thesis by (auto simp: selector_register_def)
next
  case False
  let ?cap = "if fd_size s \<le> nat f then ensure_capacity alloc s (nat f) else Inr (SELECTOR_SUCCESS, s)"
  obtain ret s1 where cap: "?cap = Inr (ret, s1)"
    using assms(2) False by (auto simp: selector_register_def split: if_splits)
  then have s1: "sel_inv s1" "entry_of s1 = entry_of s" "resolution_jobs s1 = resolution_jobs s"
    using ensure_capacity_entry [OF assms(1)] assms(1) by (auto split: if_splits)
  have f: "0 \<le> f" "f < 1024" using False by (auto simp: INVALID_FD_def ITEMS_MAX_SIZE_def)
  show ?thesis
  proof (cases "ret = SELECTOR_SUCCESS")
    case False
    with assms(2) cap s1 \<open>\<not> INVALID_FD f\<close> show ?thesis by (auto simp: selector_register_def split: if_splits)
  next
    case True
    then obtain it where it: "sel_item s1 f = Inr it"
      using assms(2) cap False by (auto simp: selector_register_def split: if_splits)
    then have lt: "f < int (fd_size s1)" using s1(1) by (auto simp: sel_item_def mem_get_def sel_inv_def split: if_splits)
    then have "\<not> fd_size s1 \<le> nat f" using f(1) by linarith
    then have reg: "selector_register alloc s f (Some h) i d = selector_register alloc s1 f (Some h) i d"
      using cap True False f by (simp add: selector_register_def split: if_splits)
    show ?thesis
    proof (cases "interest_of s1 f")
      case None
      with selector_register_ok [OF s1(1) None f lt, of alloc h i d] reg assms(2) s1
      show ?thesis using entry_upd [of s' s1 f i d "Some h"] entry_None [of s1 f] by auto
    next
      case (Some j)
      with selector_register_in_use [OF s1(1) Some] reg assms(2) s1 show ?thesis by auto
    qed
  qed
qed

lemma unregister_entry:
  assumes "sel_inv (cw_sel w)" "unregister_fd f w = Inr (st, w')"
    "entry_of (cw_sel w) f = None \<or> (\<exists>i d. entry_of (cw_sel w) f = Some (i, Some H_socks5, d))"
  shows "sel_inv (cw_sel w') \<and> resolution_jobs (cw_sel w') = resolution_jobs (cw_sel w) \<and>
    (if entry_of (cw_sel w) f = None then st \<noteq> SELECTOR_SUCCESS \<and> w' = w
     else st = SELECTOR_SUCCESS \<and> w' = (socks5_destroy w)\<lparr>cw_sel := cw_sel w'\<rparr> \<and>
       entry_of (cw_sel w') = (entry_of (cw_sel w))(f := None))"
proof (cases "interest_of (cw_sel w) f")
  case None
  then have "w' = w \<and> st = SELECTOR_IARGS"
    using assms(2) by (auto simp: unregister_fd_def selector_unregister_fd_def interest_of_def Let_def
        split: if_splits sum.splits)
  with None assms(1) show ?thesis by (simp add: entry_None)
next
  case (Some i)
  then have h: "handler_of (cw_sel w) f = Some H_socks5" using assms(3) by (auto simp: entry_of_def)
  obtain s where s: "selector_unregister_fd close_handlers f (cw_sel w, w) = Inr (SELECTOR_SUCCESS, s, socks5_destroy w)"
    "sel_inv s" "interest_of s = (interest_of (cw_sel w))(f := None)" "data_of s = (data_of (cw_sel w))(f := None)"
    "handler_of s = (handler_of (cw_sel w))(f := None)" "resolution_jobs s = resolution_jobs (cw_sel w)"
    using selector_unregister_ok [where handlers = close_handlers and g = w and ?s1.0 = "cw_sel w" and
        ?g1.0 = "socks5_destroy w", OF assms(1) Some h _ assms(1) Some]
    by (auto simp: close_handlers_def socksv5_close_def)
  then have "entry_of s = (entry_of (cw_sel w))(f := None)" by (intro ext) (simp add: entry_of_def)
  with s Some assms(2) show ?thesis by (auto simp: unregister_fd_def entry_None)
qed

section \<open>Ownership\<close>

definition own :: "nat \<Rightarrow> entry option \<Rightarrow> bool" where
  "own p e \<longleftrightarrow> (\<exists>i. e = Some (i, Some H_socks5, Some p))"

definition owned :: "nat \<Rightarrow> cworld \<Rightarrow> bool" where
  "owned p w \<longleftrightarrow>
     (let e = entry_of (cw_sel w); c = cw_conn w
      in sel_inv (cw_sel w) \<and> own p (e (client_fd c)) \<and> (e (origin_fd c) = None \<or> own p (e (origin_fd c))) \<and>
         (\<forall>f. own p (e f) \<longrightarrow> f = client_fd c \<or> f = origin_fd c) \<and>
         references c = (if own p (e (origin_fd c)) \<and> origin_fd c \<noteq> client_fd c then 2 else 1))"

text \<open>The registrations of everybody else.\<close>

definition foreign :: "nat \<Rightarrow> selector \<Rightarrow> fd \<Rightarrow> entry option" where
  "foreign p s f = (if own p (entry_of s f) then None else entry_of s f)"

definition threads_of :: "cworld \<Rightarrow> nat" where
  "threads_of w = length (filter ((=) Ev_thread) (cw_out w))"

text \<open>What the handlers keep during the event \<open>k\<close> that found the world \<open>w0\<close>; \<open>os\<close> are the values the
  descriptor of the origin may take.\<close>

definition base :: "fd set \<Rightarrow> nat \<Rightarrow> ckey \<Rightarrow> cworld \<Rightarrow> cworld \<Rightarrow> bool" where
  "base os p k w0 w \<longleftrightarrow> owned p w \<and> cw_life w = Alive \<and> foreign p (cw_sel w) = foreign p (cw_sel w0) \<and>
     resolution_jobs (cw_sel w) = resolution_jobs (cw_sel w0) \<and> threads_of w = threads_of w0 \<and>
     client_fd (cw_conn w) = client_fd (cw_conn w0) \<and> origin_fd (cw_conn w) \<in> os \<and>
     (entry_of (cw_sel w) (key_fd (fst k)) = None \<or> own p (entry_of (cw_sel w) (key_fd (fst k))))"

named_theorems base_dest \<open>operations that keep the registrations of the connection\<close>

lemma threads_simps [simp]:
  "threads_of (emit e w) = threads_of w + (if e = Ev_thread then 1 else 0)"
  "threads_of (w\<lparr>cw_sel := s\<rparr>) = threads_of w" "threads_of (w\<lparr>cw_conn := c\<rparr>) = threads_of w"
  "threads_of (w\<lparr>cw_glob := g\<rparr>) = threads_of w"
  by (simp_all add: threads_of_def emit_def)

lemma base_frame:
  assumes "cw_sel w' = cw_sel w" "cw_life w' = cw_life w" "threads_of w' = threads_of w"
    "client_fd (cw_conn w') = client_fd (cw_conn w)" "origin_fd (cw_conn w') = origin_fd (cw_conn w)"
    "references (cw_conn w') = references (cw_conn w)"
  shows "base os p k w0 w' = base os p k w0 w"
  using assms by (simp add: base_def owned_def Let_def)

lemma base_conn [simp]:
  "client_fd c = client_fd (cw_conn w) \<Longrightarrow> origin_fd c = origin_fd (cw_conn w) \<Longrightarrow>
   references c = references (cw_conn w) \<Longrightarrow> base os p k w0 (w\<lparr>cw_conn := c\<rparr>) = base os p k w0 w"
  by (simp add: base_def owned_def Let_def)

lemma base_emit [simp]: "e \<noteq> Ev_thread \<Longrightarrow> base os p k w0 (emit e w) = base os p k w0 w"
  by (simp add: base_def owned_def Let_def)

lemma base_emit_conn [simp]:
  "e \<noteq> Ev_thread \<Longrightarrow> base os p k w0 (emit e w\<lparr>cw_conn := c\<rparr>) = base os p k w0 (w\<lparr>cw_conn := c\<rparr>)"
  by (simp add: base_def owned_def Let_def)

lemma base_glob [simp]: "base os p k w0 (w\<lparr>cw_glob := g\<rparr>) = base os p k w0 w"
  by (simp add: base_def owned_def Let_def)

lemma base_sel:
  assumes "\<And>f. own p (entry_of s f) = own p (entry_of (cw_sel w) f)" "foreign p s = foreign p (cw_sel w)"
    "sel_inv s" "resolution_jobs s = resolution_jobs (cw_sel w)" "base os p k w0 w"
  shows "base os p k w0 (w\<lparr>cw_sel := s\<rparr>)"
proof -
  have ent: "entry_of s f = None \<longleftrightarrow> entry_of (cw_sel w) f = None" for f
    using fun_cong [OF assms(2), of f] assms(1) [of f] by (auto simp: foreign_def own_def split: if_splits)
  have "owned p w" using assms(5) by (simp add: base_def)
  then have "owned p (w\<lparr>cw_sel := s\<rparr>)" using ent assms(1,3) by (simp add: owned_def Let_def)
  moreover have "entry_of s (key_fd (fst k)) = None \<longleftrightarrow> entry_of (cw_sel w) (key_fd (fst k)) = None" using ent .
  ultimately show ?thesis using assms by (simp add: base_def)
qed

lemma set_buf_fds [simp]: "references (set_buf r b c) = references c"
  by (cases r) simp_all

lemma base_set_interest:
  assumes "base os p k w0 w" "set_interest f i w = Inr (st, w')"
    "f \<in> {client_fd (cw_conn w), origin_fd (cw_conn w), key_fd (fst k)}"
  shows "base os p k w0 w'"
proof -
  obtain s where s: "selector_set_interest (cw_sel w) f i = Inr (st, s)" "w' = w\<lparr>cw_sel := s\<rparr>"
    using assms(2) by (auto simp: set_interest_def)
  have inv: "sel_inv (cw_sel w)" using assms(1) by (simp add: base_def owned_def Let_def)
  show ?thesis
  proof (cases "entry_of (cw_sel w) f")
    case None
    with set_interest_entry [OF inv s(1)] assms(1) s(2) show ?thesis
      by (auto intro!: base_sel simp: foreign_def)
  next
    case (Some e)
    then obtain j where e: "entry_of (cw_sel w) f = Some (j, Some H_socks5, Some p)"
      using assms(1,3) by (auto simp: base_def owned_def Let_def own_def)
    then have upd: "sel_inv s" "resolution_jobs s = resolution_jobs (cw_sel w)"
      "entry_of s = (entry_of (cw_sel w))(f \<mapsto> (i, Some H_socks5, Some p))"
      using set_interest_entry [OF inv s(1)] by simp_all
    have own: "own p (entry_of s g) = own p (entry_of (cw_sel w) g)" for g
      using e by (simp add: upd(3) own_def)
    moreover have "foreign p s = foreign p (cw_sel w)"
      by (rule ext, simp add: foreign_def own) (simp add: upd(3) e own_def)
    ultimately show ?thesis using assms(1) upd(1,2) s(2) by (simp add: base_sel)
  qed
qed

lemma base_set_interest_key [base_dest]:
  "set_interest_key k i w = Inr (st, w') \<Longrightarrow> base os p k w0 w \<longrightarrow> base os p k w0 w'"
  using base_set_interest [of os p k w0 w "key_fd (fst k)" i st w']
  by (auto simp: set_interest_key_def selector_set_interest_key_def set_interest_def split: if_splits)

lemma base_set_interest_fd [base_dest]:
  "set_interest f i w = Inr (st, w') \<Longrightarrow>
    base os p k w0 w \<and> f \<in> {client_fd (cw_conn w), origin_fd (cw_conn w), key_fd (fst k)} \<longrightarrow> base os p k w0 w'"
  using base_set_interest [of os p k w0 w f i st w'] by blast

lemma base_recv [base_dest]: "conn_recv k r w = Inr (n, w') \<Longrightarrow> base os p k w0 w \<longrightarrow> base os p k w0 w'"
  by (auto simp: conn_recv_def split: if_splits)

lemma base_send [base_dest]: "conn_send k r w = Inr (n, out, w') \<Longrightarrow> base os p k w0 w \<longrightarrow> base os p k w0 w'"
  by (auto simp: conn_send_def split: if_splits)

section \<open>Handlers that register nothing\<close>

lemma base_fds [simp]:
  "references (set_copy sd d c) = references c" "client_fd (set_copy sd d c) = client_fd c"
  "origin_fd (set_copy sd d c) = origin_fd c"
  by (cases sd; simp)+

lemma set_request_fds [simp]:
  "client_fd (cw_conn (set_request d w)) = client_fd (cw_conn w)" "origin_fd (cw_conn (set_request d w)) = origin_fd (cw_conn w)"
  "references (cw_conn (set_request d w)) = references (cw_conn w)"
  by (simp_all add: set_request_def)

lemma base_set_request [simp]: "base os p k w0 (set_request d w) = base os p k w0 w"
  by (simp add: set_request_def)

lemma base_put_stm [simp]: "base os p k w0 (put_stm m w) = base os p k w0 w"
  by (simp add: put_stm_def)

lemma base_hello_process [base_dest]: "hello_process w = Inr (n, w') \<Longrightarrow> base os p k w0 w \<longrightarrow> base os p k w0 w'"
  by (auto simp: hello_process_def)

lemma base_hello [base_dest]:
  "hello_read k w = Inr (n, w') \<Longrightarrow> base os p k w0 w \<longrightarrow> base os p k w0 w'"
  "hello_write k w = Inr (n, w') \<Longrightarrow> base os p k w0 w \<longrightarrow> base os p k w0 w'"
  by (auto simp: hello_read_def hello_write_def Let_def split: if_splits prod.splits
      dest!: base_dest [where os = os and p = p and k = k and ?w0.0 = w0])

lemma base_auth_process [base_dest]: "auth_process k w = Inr (n, w') \<Longrightarrow> base os p k w0 w \<longrightarrow> base os p k w0 w'"
  by (auto simp: auth_process_def Let_def split: if_splits option.splits)

lemma base_auth [base_dest]:
  "auth_read k w = Inr (n, w') \<Longrightarrow> base os p k w0 w \<longrightarrow> base os p k w0 w'"
  "auth_write k w = Inr (n, w') \<Longrightarrow> base os p k w0 w \<longrightarrow> base os p k w0 w'"
  by (auto simp: auth_read_def auth_write_def Let_def split: if_splits prod.splits
      dest!: base_dest [where os = os and p = p and k = k and ?w0.0 = w0])

lemma base_error_write [base_dest]:
  "request_error_write k st w = Inr (n, w') \<Longrightarrow> base os p k w0 w \<longrightarrow> base os p k w0 w'"
  by (auto simp: request_error_write_def Let_def split: if_splits prod.splits
      dest!: base_dest [where os = os and p = p and k = k and ?w0.0 = w0])

lemma base_connecting_reply [base_dest]:
  "request_connecting_reply k w = Inr (n, w') \<Longrightarrow> base os p k w0 w \<longrightarrow> base os p k w0 w'"
  by (auto simp: request_connecting_reply_def Let_def split: if_splits prod.splits
      dest!: base_dest [where os = os and p = p and k = k and ?w0.0 = w0])

lemma base_request_write [base_dest]:
  "request_write k w = Inr (n, w') \<Longrightarrow> base os p k w0 w \<longrightarrow> base os p k w0 w'"
  by (auto simp: request_write_def Let_def split: if_splits prod.splits
      dest!: base_dest [where os = os and p = p and k = k and ?w0.0 = w0])

lemma get_fd_cases: "get_fd r c = client_fd c \<or> get_fd r c = origin_fd c"
  by (cases r) simp_all

lemma base_copy_steps [base_dest]:
  "copy_compute_interests sd w = Inr (i, w') \<Longrightarrow> base os p k w0 w \<longrightarrow> base os p k w0 w'"
  "copy_shutdown sd a b c d w = Inr w' \<Longrightarrow> base os p k w0 w \<longrightarrow> base os p k w0 w'"
  "copy_disect k out w = Inr w' \<Longrightarrow> base os p k w0 w \<longrightarrow> base os p k w0 w'"
  using get_fd_cases
  by (auto simp: copy_compute_interests_def copy_shutdown_def copy_disect_def Let_def
      split: if_splits prod.splits dest!: base_dest [where os = os and p = p and k = k and ?w0.0 = w0])

lemma base_copy_finish [base_dest]: "copy_finish sd w = Inr (n, w') \<Longrightarrow> base os p k w0 w \<longrightarrow> base os p k w0 w'"
  by (auto simp: copy_finish_def split: if_splits dest!: base_dest [where os = os and p = p and k = k and ?w0.0 = w0])

lemma base_copy [base_dest]:
  "copy_r k w = Inr (n, w') \<Longrightarrow> base os p k w0 w \<longrightarrow> base os p k w0 w'"
  "copy_w k w = Inr (n, w') \<Longrightarrow> base os p k w0 w \<longrightarrow> base os p k w0 w'"
  by (auto simp: copy_r_def copy_w_def split: if_splits dest!: base_dest [where os = os and p = p and k = k and ?w0.0 = w0])

lemma base_hooks:
  assumes "d \<in> set client_statbl" "base os p k w0 w"
  shows "run_hook (on_arrival d) st k w = Inr w' \<Longrightarrow> base os p k w0 w'"
    "run_hook (on_departure d) st k w = Inr w' \<Longrightarrow> base os p k w0 w'"
  using assms
  by (auto simp: client_statbl_def no_hooks_def run_hook_def hello_read_init_def hello_read_close_def auth_init_def
      request_init_def request_read_close_def request_connecting_init_def copy_init_def Let_def split: if_splits)

section \<open>Connecting\<close>

text \<open>\<open>socket\<close> returns a descriptor that is not open; the one just closed is not.\<close>

definition sock_fresh :: "ckey \<Rightarrow> cworld \<Rightarrow> bool" where
  "sock_fresh k w \<longleftrightarrow> entry_of (cw_sel w) (kr_socket (snd k)) = None \<or>
     stm_current (get_stm w) = Some REQUEST_CONNECTING \<and> kr_socket (snd k) = origin_fd (cw_conn w)"

text \<open>The descriptor of the origin before and while connecting.\<close>

definition placed :: "nat option \<Rightarrow> socks5 \<Rightarrow> bool" where
  "placed st c \<longleftrightarrow> (case st of None \<Rightarrow> origin_fd c = -1
     | Some st \<Rightarrow> (st < REQUEST_CONNECTING \<longrightarrow> origin_fd c = -1) \<and>
         (st = REQUEST_CONNECTING \<longrightarrow> origin_fd c \<noteq> client_fd c))"

lemma entry_range: "sel_inv s \<Longrightarrow> entry_of s f \<noteq> None \<Longrightarrow> 0 \<le> f \<and> f < 1024"
  using interest_of_range [of s f] by (auto simp: entry_of_def)

lemma base_ownedD:
  assumes "base os p k w0 w"
  shows "sel_inv (cw_sel w)" "own p (entry_of (cw_sel w) (client_fd (cw_conn w)))"
    "entry_of (cw_sel w) (-1) = None" "cw_life w = Alive"
proof -
  show "sel_inv (cw_sel w)" "own p (entry_of (cw_sel w) (client_fd (cw_conn w)))" "cw_life w = Alive"
    using assms unfolding base_def owned_def Let_def by blast+
  then show "entry_of (cw_sel w) (-1) = None" using entry_range [of "cw_sel w" "-1"] by fastforce
qed

lemma foreign_upd:
  assumes "entry_of s = (entry_of s0)(f := e)" "e = None \<or> own p e" "entry_of s0 f = None \<or> own p (entry_of s0 f)"
  shows "foreign p s = foreign p s0"
proof (rule ext)
  fix g
  show "foreign p s g = foreign p s0 g"
    using assms(2,3) by (cases "g = f") (auto simp: foreign_def assms(1) own_def)
qed

lemma base_unregister_origin:
  assumes "base os p k w0 w" "origin_fd (cw_conn w) \<noteq> client_fd (cw_conn w)"
    "unregister_fd (origin_fd (cw_conn w)) w = Inr (st, w')"
  shows "base os p k w0 w' \<and> entry_of (cw_sel w') = (entry_of (cw_sel w))(origin_fd (cw_conn w) := None) \<and>
     origin_fd (cw_conn w') = origin_fd (cw_conn w) \<and> so_client (cw_conn w') = so_client (cw_conn w)"
proof -
  let ?o = "origin_fd (cw_conn w)"
  have o: "entry_of (cw_sel w) ?o = None \<or> own p (entry_of (cw_sel w) ?o)" "sel_inv (cw_sel w)"
    using assms(1) by (simp_all add: base_def owned_def Let_def)
  then have u: "sel_inv (cw_sel w') \<and> resolution_jobs (cw_sel w') = resolution_jobs (cw_sel w) \<and>
    (if entry_of (cw_sel w) ?o = None then st \<noteq> SELECTOR_SUCCESS \<and> w' = w
     else st = SELECTOR_SUCCESS \<and> w' = (socks5_destroy w)\<lparr>cw_sel := cw_sel w'\<rparr> \<and>
       entry_of (cw_sel w') = (entry_of (cw_sel w))(?o := None))"
    using unregister_entry [OF _ assms(3)] by (auto simp: own_def)
  show ?thesis
  proof (cases "entry_of (cw_sel w) ?o = None")
    case True
    with u assms(1) show ?thesis by (auto simp: fun_upd_idem)
  next
    case False
    define s where "s = cw_sel w'"
    have 2: "references (cw_conn w) = 2" and own: "own p (entry_of (cw_sel w) ?o)"
      using assms(1,2) False o by (auto simp: base_def owned_def Let_def)
    then have w': "w' = (upd_conn (\<lambda>c. c\<lparr>references := 1\<rparr>) w)\<lparr>cw_sel := s\<rparr>"
      using u False by (simp add: socks5_destroy_def s_def)
    have s: "sel_inv s" "resolution_jobs s = resolution_jobs (cw_sel w)" "entry_of s = (entry_of (cw_sel w))(?o := None)"
      using u False by (simp_all add: s_def)
    have "foreign p s = foreign p (cw_sel w)"
      using foreign_upd [OF s(3)] own by simp
    moreover have "owned p w" using assms(1) by (simp add: base_def)
    then have "owned p w'" using assms(2) s by (auto simp: owned_def Let_def w' own_def)
    ultimately show ?thesis using assms(1) s by (auto simp: base_def w' threads_of_def)
  qed
qed

lemma base_new_origin:
  assumes "base os p k w0 w" "entry_of (cw_sel w) (origin_fd (cw_conn w)) = None" "entry_of (cw_sel w) f = None" "f \<in> os"
  shows "base os p k w0 (upd_conn (\<lambda>c. c\<lparr>origin_fd := f\<rparr>) w)"
proof -
  have "owned p w" using assms(1) by (simp add: base_def)
  then have "owned p (upd_conn (\<lambda>c. c\<lparr>origin_fd := f\<rparr>) w)"
    using assms(2,3) unfolding owned_def Let_def own_def by auto
  with assms(1,4) show ?thesis by (simp add: base_def)
qed

lemma base_register_origin:
  assumes "base os p k w0 w" "entry_of (cw_sel w) (origin_fd (cw_conn w)) = None"
    "selector_register alloc (cw_sel w) (origin_fd (cw_conn w)) (Some H_socks5) i (Some p) = Inr (SELECTOR_SUCCESS, s)"
  shows "base os p k w0 (upd_conn (\<lambda>c. c\<lparr>references := references c + 1\<rparr>) (w\<lparr>cw_sel := s\<rparr>))"
proof -
  let ?o = "origin_fd (cw_conn w)"
  have own: "owned p w" using assms(1) by (simp add: base_def)
  have s: "sel_inv s" "resolution_jobs s = resolution_jobs (cw_sel w)"
    "entry_of s = (entry_of (cw_sel w))(?o \<mapsto> (i, Some H_socks5, Some p))"
    using register_entry [OF base_ownedD(1) [OF assms(1)] assms(3)] by simp_all
  have ne: "?o \<noteq> client_fd (cw_conn w)" using base_ownedD(2) [OF assms(1)] assms(2) by (auto simp: own_def)
  have "foreign p s = foreign p (cw_sel w)"
    using foreign_upd [OF s(3)] assms(2) by (simp add: own_def)
  moreover have "owned p (upd_conn (\<lambda>c. c\<lparr>references := references c + 1\<rparr>) (w\<lparr>cw_sel := s\<rparr>))"
    using own ne s(1) assms(2) unfolding owned_def Let_def by (auto simp: s(3) own_def)
  ultimately show ?thesis using assms(1) s by (auto simp: base_def own_def)
qed

text \<open>While a connection to the origin is pending, the client is not watched.\<close>

definition quiet :: "cworld \<Rightarrow> bool" where
  "quiet w \<longleftrightarrow> entry_of (cw_sel w) (origin_fd (cw_conn w)) = None \<or>
     (\<exists>x. entry_of (cw_sel w) (client_fd (cw_conn w)) = Some (OP_NOOP, x))"

lemma error_write_origin:
  "request_error_write k st w = Inr (n, w') \<Longrightarrow> origin_fd (cw_conn w') = origin_fd (cw_conn w)"
  by (auto simp: request_error_write_def Let_def split: if_splits dest!: set_interest_frame)

lemma base_connect_finally:
  assumes "request_connect_finally k error st w = Inr (n, w')" "base os p k w0 w" "-1 \<in> os"
    "error \<Longrightarrow> entry_of (cw_sel w) (origin_fd (cw_conn w)) = None" "\<not> error \<Longrightarrow> quiet w"
  shows "base os p k w0 w' \<and> quiet w'"
proof (cases error)
  case True
  then have "base os p k w0 (upd_conn (\<lambda>c. c\<lparr>origin_fd := -1\<rparr>) w)"
    using assms(2-4) base_ownedD(3) by (blast intro: base_new_origin)
  with True assms(1,2) have "base os p k w0 w'"
    by (auto simp: request_connect_finally_def Let_def split: if_splits
        dest!: base_dest [where os = os and p = p and k = k and ?w0.0 = w0])
  moreover have "origin_fd (cw_conn w') = -1"
    using True assms(1) by (auto simp: request_connect_finally_def Let_def split: if_splits dest!: error_write_origin)
  ultimately show ?thesis using base_ownedD(3) [of os p k w0 w'] by (simp add: quiet_def)
next
  case False
  with assms show ?thesis by (simp add: request_connect_finally_def)
qed

lemma base_dial:
  assumes "base os p k w0 w" "entry_of (cw_sel w) (origin_fd (cw_conn w)) = None" "-1 \<in> os"
    "entry_of (cw_sel w) (client_fd (cw_conn w)) = Some (OP_NOOP, x)"
    "selector_register alloc (cw_sel w) (origin_fd (cw_conn w)) (Some H_socks5) i (Some p) = Inr (st, s)"
    "(if SELECTOR_SUCCESS \<noteq> st then request_connect_finally k True rs (w\<lparr>cw_sel := s\<rparr>)
      else request_connect_finally k False rs
             (upd_conn (\<lambda>c. c\<lparr>references := references c + 1\<rparr>) (w\<lparr>cw_sel := s\<rparr>))) = Inr (n, w')"
  shows "base os p k w0 w' \<and> quiet w'"
proof (cases "st = SELECTOR_SUCCESS")
  case True
  let ?w = "upd_conn (\<lambda>c. c\<lparr>references := references c + 1\<rparr>) (w\<lparr>cw_sel := s\<rparr>)"
  have "request_connect_finally k False rs ?w = Inr (n, w')" using assms(6) True by simp
  moreover have "base os p k w0 ?w" using base_register_origin [OF assms(1,2)] assms(5) True by blast
  moreover have "quiet ?w"
    using register_entry [OF base_ownedD(1) [OF assms(1)] assms(5)] True assms(2,4) by (auto simp: quiet_def)
  ultimately show ?thesis using assms(3) by (auto dest: base_connect_finally)
next
  case False
  with register_entry [OF base_ownedD(1) [OF assms(1)] assms(5)]
  have s: "entry_of s = entry_of (cw_sel w)" "sel_inv s" "resolution_jobs s = resolution_jobs (cw_sel w)" by simp_all
  have "base os p k w0 (w\<lparr>cw_sel := s\<rparr>)"
    by (rule base_sel) (use s assms(1) in \<open>auto simp: foreign_def\<close>)
  moreover have "request_connect_finally k True rs (w\<lparr>cw_sel := s\<rparr>) = Inr (n, w')" using assms(6) False by simp
  ultimately show ?thesis using assms(2,3) s(1) by (auto dest: base_connect_finally)
qed

text \<open>\<open>request_connect\<close> from the call of \<open>socket\<close> on.\<close>

definition connect_new :: "ckey \<Rightarrow> request_st \<Rightarrow> cworld \<Rightarrow> (nat \<times> cworld) res" where
  "connect_new k d w =
     (let fd = kr_socket (snd k);
          w2 = upd_conn (\<lambda>c. c\<lparr>origin_fd := fd\<rparr>) w
      in if fd = -1 then request_connect_finally k True status_general_SOCKS_server_failure w2
         else if selector_fd_set_nio (kr_getfd (snd k)) (kr_setfl (snd k)) = -1
         then request_connect_finally k False (rs_status d) w2
         else case kr_connect (snd k) of
           Connect_ok \<Rightarrow> Inl Abort_call
         | Connect_errno e \<Rightarrow>
             if e = EINPROGRESS then
               rbind (set_interest (client_fd (cw_conn w2)) OP_NOOP w2) (\<lambda>(st, w3).
                 if SELECTOR_SUCCESS \<noteq> st then request_connect_finally k True (rs_status d) w3
                 else
                   rbind (selector_register (kr_malloc (snd k)) (cw_sel w3) fd (Some H_socks5) OP_WRITE
                            (key_data (fst k))) (\<lambda>(st, s).
                     let w4 = w3\<lparr>cw_sel := s\<rparr>
                     in if SELECTOR_SUCCESS \<noteq> st then request_connect_finally k True (rs_status d) w4
                        else request_connect_finally k False (rs_status d)
                               (upd_conn (\<lambda>c. c\<lparr>references := references c + 1\<rparr>) w4)))
             else request_connect_finally k True (errno_to_socks e) w2)"

lemma request_connect_split:
  "request_connect k w =
     rbind (get_request (cw_conn w)) (\<lambda>d.
     rbind (case stm_current (so_stm (cw_conn w)) of
              None \<Rightarrow> Inl Null_deref
            | Some st \<Rightarrow>
                if st = REQUEST_CONNECTING then
                  rbind (unregister_fd (origin_fd (cw_conn w)) w) (\<lambda>(_, w0).
                    Inr (emit (Ev_close (origin_fd (cw_conn w0))) w0))
                else Inr w) (connect_new k d))"
  by (simp add: request_connect_def connect_new_def [abs_def])

lemma base_connect_new:
  assumes "connect_new k d w1 = Inr (n, w')" "base os p k w0 w1" "entry_of (cw_sel w1) (kr_socket (snd k)) = None"
    "entry_of (cw_sel w1) (origin_fd (cw_conn w1)) = None"
    "key_data (fst k) = Some p" "kr_socket (snd k) \<in> os" "-1 \<in> os"
  shows "base os p k w0 w' \<and> quiet w'"
proof -
  let ?f = "kr_socket (snd k)"
  define w2 where "w2 = upd_conn (\<lambda>c. c\<lparr>origin_fd := ?f\<rparr>) w1"
  have b2: "base os p k w0 w2" unfolding w2_def using assms by (intro base_new_origin) simp_all
  have e2: "entry_of (cw_sel w2) ?f = None" "origin_fd (cw_conn w2) = ?f" using assms(3) by (simp_all add: w2_def)
  have fin: "request_connect_finally k e rs w2 = Inr (n, w') \<Longrightarrow> base os p k w0 w' \<and> quiet w'" for e rs
    by (rule base_connect_finally [OF _ b2 assms(7)]) (simp_all add: e2 quiet_def)
  have set: "st = SELECTOR_SUCCESS \<and> base os p k w0 w3 \<and> cw_conn w3 = cw_conn w2 \<and> entry_of (cw_sel w3) ?f = None \<and>
      (\<exists>x. entry_of (cw_sel w3) (client_fd (cw_conn w3)) = Some (OP_NOOP, x))"
    if "set_interest (client_fd (cw_conn w2)) OP_NOOP w2 = Inr (st, w3)" for st w3
  proof -
    have "selector_set_interest (cw_sel w2) (client_fd (cw_conn w2)) OP_NOOP = Inr (st, cw_sel w3)"
      using that by (auto simp: set_interest_def)
    then show ?thesis
      using set_interest_entry [OF base_ownedD(1) [OF b2], of "client_fd (cw_conn w2)"] e2(1) base_ownedD(2) [OF b2]
        base_set_interest [OF b2 that] set_interest_frame [OF that] by (auto simp: own_def)
  qed
  have wait: "base os p k w0 w' \<and> quiet w'" if "set_interest (client_fd (cw_conn w2)) OP_NOOP w2 = Inr (SELECTOR_SUCCESS, w3)"
    "selector_register (kr_malloc (snd k)) (cw_sel w3) ?f (Some H_socks5) OP_WRITE (Some p) = Inr (st, s)"
    "(if SELECTOR_SUCCESS \<noteq> st then request_connect_finally k True (rs_status d) (w3\<lparr>cw_sel := s\<rparr>)
      else request_connect_finally k False (rs_status d)
             (upd_conn (\<lambda>c. c\<lparr>references := references c + 1\<rparr>) (w3\<lparr>cw_sel := s\<rparr>))) = Inr (n, w')" for w3 st s
    using set [OF that(1)] base_dial [of os p k w0 w3, OF _ _ assms(7), of _ "kr_malloc (snd k)" OP_WRITE st s "rs_status d" n w']
      that(2,3) e2(2) by auto
  show ?thesis
    using assms(1) wait unfolding connect_new_def Let_def w2_def [symmetric] assms(5)
    by (auto split: if_splits connect_result.splits prod.splits dest: fin set)
qed

lemma base_connect:
  assumes "request_connect k w = Inr (n, w')" "base os p k w0 w" "sock_fresh k w"
    "placed (stm_current (get_stm w)) (cw_conn w)" "stm_current (get_stm w) = Some i" "i \<le> REQUEST_CONNECTING"
    "key_data (fst k) = Some p" "kr_socket (snd k) \<in> os" "-1 \<in> os"
  shows "base os p k w0 w' \<and> quiet w'"
proof -
  obtain d where d: "get_request (cw_conn w) = Inr d" using assms(1) by (auto simp: request_connect_def)
  show ?thesis
  proof (cases "i = REQUEST_CONNECTING")
    case True
    then have ne: "origin_fd (cw_conn w) \<noteq> client_fd (cw_conn w)" using assms(4,5) by (simp add: placed_def)
    obtain st w1 where u: "unregister_fd (origin_fd (cw_conn w)) w = Inr (st, w1)"
      "connect_new k d (emit (Ev_close (origin_fd (cw_conn w1))) w1) = Inr (n, w')"
      using assms(1,5) d True by (auto simp: request_connect_split get_stm_def)
    note b = base_unregister_origin [OF assms(2) ne u(1)]
    have "entry_of (cw_sel w1) (kr_socket (snd k)) = None" using b assms(3) by (auto simp: sock_fresh_def)
    with b show ?thesis using assms(7-9) by - (rule base_connect_new [OF u(2)], simp_all)
  next
    case False
    then have "origin_fd (cw_conn w) = -1" using assms(4-6) by (simp add: placed_def)
    then have "entry_of (cw_sel w) (origin_fd (cw_conn w)) = None" using base_ownedD(3) [OF assms(2)] by metis
    moreover have "connect_new k d w = Inr (n, w')"
      using assms(1,5) d False by (simp add: request_connect_split get_stm_def)
    moreover have "entry_of (cw_sel w) (kr_socket (snd k)) = None" using assms(3,5) False by (simp add: sock_fresh_def)
    ultimately show ?thesis
      using assms(2,7-9) by - (rule base_connect_new, simp_all)
  qed
qed

section \<open>One event\<close>

text \<open>What is known when the handler of state \<open>i\<close> starts, and when it returns with the next state \<open>n\<close>.\<close>

definition event_pre :: "nat \<Rightarrow> ckey \<Rightarrow> cworld \<Rightarrow> nat \<Rightarrow> cworld \<Rightarrow> bool" where
  "event_pre p k w0 i w \<longleftrightarrow> base {origin_fd (cw_conn w0)} p k w0 w \<and> sock_fresh k w \<and> placed (Some i) (cw_conn w) \<and>
     key_data (fst k) = Some p \<and> own p (entry_of (cw_sel w) (key_fd (fst k))) \<and> stm_current (get_stm w) = Some i \<and>
     (i = REQUEST_CONNECTING \<and> key_fd (fst k) = client_fd (cw_conn w) \<longrightarrow> entry_of (cw_sel w) (origin_fd (cw_conn w)) = None)"

definition origins :: "ckey \<Rightarrow> cworld \<Rightarrow> fd set" where
  "origins k w0 = {origin_fd (cw_conn w0), kr_socket (snd k), -1}"

definition event_post :: "nat \<Rightarrow> ckey \<Rightarrow> cworld \<Rightarrow> nat \<Rightarrow> cworld \<Rightarrow> bool" where
  "event_post p k w0 n w \<longleftrightarrow> placed (Some n) (cw_conn w) \<and> (n = REQUEST_CONNECTING \<longrightarrow> quiet w) \<and>
     (base (insert (client_fd (cw_conn w0)) (origins k w0)) p k w0 w \<or>
      n = REQUEST_RESOLV \<and> base (origins k w0) p k w0 (w\<lparr>cw_out := cw_out w0\<rparr>) \<and> threads_of w = Suc (threads_of w0) \<and>
      key_fd (fst k) = client_fd (cw_conn w) \<and>
      entry_of (cw_sel w) (client_fd (cw_conn w)) = Some (OP_NOOP, Some H_socks5, Some p))"

lemma base_mono: "base os p k w0 w \<Longrightarrow> os \<subseteq> os' \<Longrightarrow> base os' p k w0 w"
  by (auto simp: base_def)

lemma baseD: "base os p k w0 w \<Longrightarrow> client_fd (cw_conn w) = client_fd (cw_conn w0) \<and> origin_fd (cw_conn w) \<in> os"
  by (simp add: base_def)

lemma event_same:
  assumes "base {origin_fd (cw_conn w0)} p k w0 w \<longrightarrow> base {origin_fd (cw_conn w0)} p k w0 w'"
    "event_pre p k w0 i w" "n \<noteq> REQUEST_CONNECTING" "i < REQUEST_CONNECTING \<or> REQUEST_CONNECTING < n"
  shows "event_post p k w0 n w'"
proof -
  have b: "base {origin_fd (cw_conn w0)} p k w0 w" "base {origin_fd (cw_conn w0)} p k w0 w'"
    using assms(1,2) by (simp_all add: event_pre_def)
  have "placed (Some n) (cw_conn w')"
    using assms(2-4) baseD [OF b(1)] baseD [OF b(2)] by (auto simp: placed_def event_pre_def)
  with base_mono [OF b(2)] assms(3) show ?thesis by (simp add: event_post_def origins_def)
qed

lemma event_pre_conn:
  assumes "client_fd c = client_fd (cw_conn w)" "origin_fd c = origin_fd (cw_conn w)"
    "references c = references (cw_conn w)" "so_stm c = so_stm (cw_conn w)"
  shows "event_pre p k w0 i (w\<lparr>cw_conn := c\<rparr>) = event_pre p k w0 i w"
  using assms by (simp add: event_pre_def sock_fresh_def placed_def get_stm_def)

lemma event_connect:
  assumes "request_connect k w = Inr (n, w')" "event_pre p k w0 i w" "i \<le> REQUEST_CONNECTING"
  shows "base (origins k w0) p k w0 w' \<and> quiet w' \<and> origin_fd (cw_conn w') \<noteq> client_fd (cw_conn w')"
proof -
  have b: "base (origins k w0) p k w0 w" and st: "stm_current (get_stm w) = Some i"
    using assms(2) by (auto simp: event_pre_def origins_def intro: base_mono)
  have q: "base (origins k w0) p k w0 w' \<and> quiet w'"
    by (rule base_connect [OF assms(1) b _ _ st assms(3)]) (use assms(2) st in \<open>simp_all add: event_pre_def origins_def\<close>)
  then have b': "base (origins k w0) p k w0 w'" ..
  have c: "own p (entry_of (cw_sel w) (client_fd (cw_conn w)))" "entry_of (cw_sel w) (-1) = None"
    using base_ownedD [OF b] by simp_all
  then have ne: "client_fd (cw_conn w) \<noteq> -1" by (auto simp: own_def)
  moreover have o: "origin_fd (cw_conn w) = origin_fd (cw_conn w0)" "origin_fd (cw_conn w) \<noteq> client_fd (cw_conn w)"
    using assms(2,3) ne baseD [of "{origin_fd (cw_conn w0)}" p k w0 w] by (auto simp: event_pre_def placed_def)
  moreover have "kr_socket (snd k) \<noteq> client_fd (cw_conn w)"
    using assms(2) c(1) o by (auto simp: event_pre_def sock_fresh_def own_def)
  ultimately show ?thesis using q baseD [OF b] baseD [OF b'] by (auto simp: origins_def)
qed

lemma event_connect_post:
  assumes "request_connect k w = Inr (n, w')" "event_pre p k w0 i w" "i = REQUEST_READ \<or> i = REQUEST_RESOLV \<or> i = REQUEST_CONNECTING"
  shows "event_post p k w0 n w'" "event_post p k w0 REQUEST_CONNECTING w'"
proof -
  have "i \<le> REQUEST_CONNECTING" using assms(3) by (auto simp: st_defs)
  note c = event_connect [OF assms(1,2) this]
  moreover have "REQUEST_CONNECTING \<le> n" using request_connect_next [OF assms(1)] by (auto simp: st_defs)
  ultimately show "event_post p k w0 n w'" "event_post p k w0 REQUEST_CONNECTING w'"
    by (auto simp: event_post_def placed_def intro: base_mono)
qed

lemma event_address:
  "set_origin_addr dm len w = Inr w' \<Longrightarrow> event_pre p k w0 i w \<longrightarrow> event_pre p k w0 i w'"
  "use_address ais w = Inr w' \<Longrightarrow> event_pre p k w0 i w \<longrightarrow> event_pre p k w0 i w'"
  by (auto simp: set_origin_addr_def use_address_def Let_def set_request_def event_pre_conn split: list.splits)

lemma event_thread:
  assumes "event_pre p k w0 REQUEST_READ w" "set_interest_key k OP_NOOP (emit Ev_thread w) = Inr (st, w')"
  shows "event_post p k w0 REQUEST_RESOLV w'"
proof -
  have b: "base (origins k w0) p k w0 w" and o: "origin_fd (cw_conn w) = -1" and key: "own p (entry_of (cw_sel w) (key_fd (fst k)))"
    using assms(1) by (auto simp: event_pre_def origins_def placed_def st_defs intro: base_mono)
  then have key: "key_fd (fst k) = client_fd (cw_conn w)" and inv: "sel_inv (cw_sel w)"
    using base_ownedD [OF b] by (auto simp: base_def owned_def Let_def own_def)
  obtain s where s: "selector_set_interest (cw_sel w) (client_fd (cw_conn w)) OP_NOOP = Inr (st, s)"
    "w' = emit Ev_thread (w\<lparr>cw_sel := s\<rparr>)"
    using assms(2) key entry_range [OF inv, of "client_fd (cw_conn w)"] base_ownedD(2) [OF b]
    by (auto simp: set_interest_key_def selector_set_interest_key_def emit_def INVALID_FD_def ITEMS_MAX_SIZE_def own_def)
  then have "set_interest (client_fd (cw_conn w)) OP_NOOP w = Inr (st, w\<lparr>cw_sel := s\<rparr>)" by (simp add: set_interest_def)
  then have "base (origins k w0) p k w0 (w\<lparr>cw_sel := s\<rparr>)" using base_set_interest [OF b] by simp
  moreover have "entry_of s (client_fd (cw_conn w)) = Some (OP_NOOP, Some H_socks5, Some p)"
    using set_interest_entry [OF inv s(1)] base_ownedD(2) [OF b] by (auto simp: own_def)
  moreover have t: "threads_of w = threads_of w0" using b by (simp add: base_def)
  moreover have "base (origins k w0) p k w0 (w'\<lparr>cw_out := cw_out w0\<rparr>) = base (origins k w0) p k w0 (w\<lparr>cw_sel := s\<rparr>)"
    by (rule base_frame) (use t s(2) in \<open>simp_all add: threads_of_def emit_def\<close>)
  ultimately show ?thesis using o s(2) key by (simp add: event_post_def placed_def st_defs)
qed

lemma event_error_write:
  assumes "request_error_write k st w = Inr (n, w')" "event_pre p k w0 i w"
  shows "event_post p k w0 n w'"
  using base_error_write [OF assms(1)] assms(2)
  by (rule event_same) (use request_error_write_next [OF assms(1)] in \<open>auto simp: st_defs\<close>)

lemma event_process:
  assumes "request_process k w = Inr (n, w')" "event_pre p k w0 REQUEST_READ w"
  shows "event_post p k w0 n w'"
proof -
  obtain d where d: "get_request (cw_conn w) = Inr d" using assms(1) by (auto simp: request_process_def)
  show ?thesis
    using assms d
    by (auto simp: request_process_def Let_def split: if_splits
        dest!: event_address [where p = p and k = k and ?w0.0 = w0 and i = REQUEST_READ]
        intro: event_error_write event_thread event_connect_post(1))
qed

lemma event_pre_emit: "e \<noteq> Ev_thread \<Longrightarrow> event_pre p k w0 i (emit e w) = event_pre p k w0 i w"
  by (simp add: event_pre_def sock_fresh_def get_stm_def)

lemma event_pre_simps [simp]:
  "event_pre p k w0 i (set_request d w) = event_pre p k w0 i w"
  "event_pre p k w0 i (upd_conn (set_buf r b) w) = event_pre p k w0 i w"
  by (cases r; simp add: set_request_def event_pre_conn)+

lemma event_pre_recv: "conn_recv k r w = Inr (n, w') \<Longrightarrow> event_pre p k w0 i w \<longrightarrow> event_pre p k w0 i w'"
  by (auto simp: conn_recv_def event_pre_emit split: if_splits)

lemma event_read_request:
  assumes "request_read k w = Inr (n, w')" "event_pre p k w0 REQUEST_READ w"
  shows "event_post p k w0 n w'"
proof -
  obtain d m w1 where d: "get_request (cw_conn w) = Inr d" and r: "conn_recv k (rs_rb d) w = Inr (m, w1)"
    using assms(1) by (auto simp: request_read_def)
  have pre: "event_pre p k w0 REQUEST_READ w1" using event_pre_recv [OF r] assms(2) by blast
  have keep: "event_post p k w0 ERROR w2" "event_post p k w0 REQUEST_READ w2" if "event_pre p k w0 REQUEST_READ w2" for w2
    by (rule event_same [OF _ that]; simp add: st_defs)+
  have proc: "request_process k w2 = Inr (n', w3) \<Longrightarrow> event_pre p k w0 REQUEST_READ w2 \<longrightarrow> event_post p k w0 n' w3"
    for w2 n' w3 using event_process by blast
  show ?thesis
    using assms(1) d r pre
    by (auto simp: request_read_def Let_def split: if_splits prod.splits intro!: keep dest!: proc)
qed

lemma event_resolved_owned:
  assumes "request_resolv_done k w = Inr (n, w')" "event_pre p k w0 REQUEST_RESOLV w"
  shows "event_post p k w0 n w'"
  using assms
  by (auto simp: request_resolv_done_def split: option.splits
      dest!: event_address [where p = p and k = k and ?w0.0 = w0 and i = REQUEST_RESOLV]
      intro: event_error_write event_connect_post(1))

lemma event_connecting:
  assumes "request_connecting k w = Inr (n, w')" "event_pre p k w0 REQUEST_CONNECTING w"
  shows "event_post p k w0 n w'"
proof -
  let ?os = "insert (client_fd (cw_conn w0)) (origins k w0)"
  have b: "base ?os p k w0 w" using assms(2) by (auto simp: event_pre_def origins_def intro: base_mono)
  have reply: "base ?os p k w0 w1 \<longrightarrow> event_post p k w0 n w'" if "request_connecting_reply k w1 = Inr (n, w')" for w1
    using base_connecting_reply [OF that, of ?os p w0] request_connecting_reply_next [OF that]
    by (auto simp: event_post_def placed_def st_defs)
  have dial: "event_pre p k w0 REQUEST_CONNECTING w1 \<longrightarrow> event_post p k w0 REQUEST_CONNECTING w'"
    if "request_connect k w1 = Inr (m, w')" for w1 m
    using event_connect_post(2) [OF that] by blast
  have "base ?os p k w0 (upd_conn (\<lambda>c. c\<lparr>origin_fd := key_fd (fst k)\<rparr>) w)"
  proof -
    have own: "owned p w" and key: "own p (entry_of (cw_sel w) (key_fd (fst k)))"
      and ne: "key_fd (fst k) = client_fd (cw_conn w) \<longrightarrow> entry_of (cw_sel w) (origin_fd (cw_conn w)) = None"
      using assms(2) by (auto simp: event_pre_def base_def)
    then have "key_fd (fst k) = client_fd (cw_conn w) \<or> key_fd (fst k) = origin_fd (cw_conn w)"
      by (auto simp: owned_def Let_def)
    then show ?thesis
    proof
      assume "key_fd (fst k) = origin_fd (cw_conn w)"
      with b show ?thesis by simp
    next
      assume c: "key_fd (fst k) = client_fd (cw_conn w)"
      with ne have "entry_of (cw_sel w) (origin_fd (cw_conn w)) = None" by simp
      with own c have "owned p (upd_conn (\<lambda>c. c\<lparr>origin_fd := key_fd (fst k)\<rparr>) w)"
        unfolding owned_def Let_def by (auto simp: own_def)
      with b c show ?thesis by (auto simp: base_def)
    qed
  qed
  then have ok: "base ?os p k w0 (upd_conn (\<lambda>c. c\<lparr>origin_fd := key_fd (fst k)\<rparr>) (set_request d w))" for d
    using base_conn [of "cw_conn w\<lparr>so_client := C_request d, origin_fd := key_fd (fst k)\<rparr>"
        "upd_conn (\<lambda>c. c\<lparr>origin_fd := key_fd (fst k)\<rparr>) w" ?os p k w0]
    by (simp add: set_request_def)
  show ?thesis
    using assms b ok
    by (auto simp: request_connecting_def Let_def split: option.splits if_splits
        dest!: event_address(2) [where p = p and k = k and ?w0.0 = w0 and i = REQUEST_CONNECTING] reply dial)
qed

text \<open>One event: the handlers of the three kinds.\<close>

lemma plain_handlers:
  assumes "f \<in> {hello_read, hello_write, auth_read, auth_write, request_write, copy_r, copy_w}" "f k w = Inr (n, w')"
  shows "base os p k w0 w \<longrightarrow> base os p k w0 w'"
  using assms by (elim insertE emptyE) (simp, erule base_dest)+

lemma event_handlers:
  assumes "event_pre p k w0 i w" "i \<le> ERROR" "ready \<in> {on_read_ready, on_write_ready, on_block_ready}"
    "ready (client_statbl ! i) = Some f" "f k w = Inr (n, w')"
  shows "event_post p k w0 n w'"
proof -
  have same: "event_post p k w0 n w'"
    if "base {origin_fd (cw_conn w0)} p k w0 w \<longrightarrow> base {origin_fd (cw_conn w0)} p k w0 w'"
      "n \<noteq> REQUEST_CONNECTING" "i < REQUEST_CONNECTING \<or> REQUEST_CONNECTING < n"
    using event_same that assms(1) by blast
  have n: "n \<in> set (successors i)"
    using assms(2-5) read_successor [of i f k w n w'] write_successor [of i f k w n w'] block_successor [of i f k w n w']
    by auto
  have less: "i < REQUEST_CONNECTING" "n \<noteq> REQUEST_CONNECTING"
    if "i = HELLO_READ \<or> i = HELLO_WRITE \<or> i = AUTH_READ \<or> i = AUTH_WRITE"
    using that n by (auto simp: st_defs successors_def)
  have more: "REQUEST_CONNECTING < n" if "i = REQUEST_WRITE \<or> i = COPY"
    using that n by (auto simp: st_defs successors_def)
  have plain: "f \<in> {hello_read, hello_write, auth_read, auth_write, request_write, copy_r, copy_w}"
    if "i = HELLO_READ \<or> i = HELLO_WRITE \<or> i = AUTH_READ \<or> i = AUTH_WRITE \<or> i = REQUEST_WRITE \<or> i = COPY"
    using that assms(3,4) by (auto simp: no_hooks_def)
  show ?thesis using assms(2)
  proof (cases rule: state_cases)
    case 5
    then show ?thesis using assms by (auto simp: no_hooks_def intro: event_read_request)
  next
    case 6
    then show ?thesis using assms by (auto simp: no_hooks_def intro: event_resolved_owned)
  next
    case 7
    then show ?thesis using assms by (auto simp: no_hooks_def intro: event_connecting)
  next
    case 10
    then show ?thesis using assms(3,4) by (auto simp: no_hooks_def)
  next
    case 11
    then show ?thesis using assms(3,4) by (auto simp: no_hooks_def)
  qed (rule same [OF plain_handlers [OF plain assms(5)]], use less more in auto)+
qed

lemma hook_kept:
  assumes "d \<in> set client_statbl" "h \<in> {on_arrival d, on_departure d}" "run_hook h st k w = Inr w'"
  shows "cw_sel w' = cw_sel w \<and> cw_life w' = cw_life w \<and> cw_out w' = cw_out w \<and> client_fd (cw_conn w') = client_fd (cw_conn w) \<and>
     origin_fd (cw_conn w') = origin_fd (cw_conn w) \<and> references (cw_conn w') = references (cw_conn w)"
  using assms
  by (auto simp: client_statbl_def no_hooks_def run_hook_def hello_read_init_def hello_read_close_def auth_init_def
      request_init_def request_read_close_def request_connecting_init_def copy_init_def set_request_def Let_def split: if_splits)

lemma event_post_frame:
  assumes "event_post p k w0 n w" "cw_sel w' = cw_sel w" "cw_life w' = cw_life w" "cw_out w' = cw_out w"
    "client_fd (cw_conn w') = client_fd (cw_conn w)" "origin_fd (cw_conn w') = origin_fd (cw_conn w)"
    "references (cw_conn w') = references (cw_conn w)"
  shows "event_post p k w0 n w'"
proof -
  have t: "threads_of w' = threads_of w" using assms(4) by (simp add: threads_of_def)
  then have "base os p k w0 w' = base os p k w0 w" for os using assms by (intro base_frame) simp_all
  moreover have "base os p k w0 (w'\<lparr>cw_out := cw_out w0\<rparr>) = base os p k w0 (w\<lparr>cw_out := cw_out w0\<rparr>)" for os
    using assms by (intro base_frame) (simp_all add: threads_of_def)
  ultimately show ?thesis using assms t by (simp add: event_post_def placed_def quiet_def)
qed

text \<open>The connection between two events, and an event the selector may deliver to it.\<close>

definition conn_ok :: "nat \<Rightarrow> cworld \<Rightarrow> bool" where
  "conn_ok p w \<longleftrightarrow> owned p w \<and> cw_life w = Alive \<and> machine_ok ERROR HELLO_READ (get_stm w) \<and>
     placed (stm_current (get_stm w)) (cw_conn w) \<and> (stm_current (get_stm w) = Some REQUEST_CONNECTING \<longrightarrow> quiet w)"

definition event_at :: "nat \<Rightarrow> ckey \<Rightarrow> cworld \<Rightarrow> bool" where
  "event_at p k w \<longleftrightarrow> key_data (fst k) = Some p \<and> own p (entry_of (cw_sel w) (key_fd (fst k))) \<and> sock_fresh k w \<and>
     (stm_current (get_stm w) = Some REQUEST_CONNECTING \<and> key_fd (fst k) = client_fd (cw_conn w) \<longrightarrow>
        entry_of (cw_sel w) (origin_fd (cw_conn w)) = None)"

lemma event_handled:
  assumes w: "conn_ok p w" "event_at p k w" and r: "ready \<in> {on_read_ready, on_write_ready, on_block_ready}"
    and run: "stm_handler ready get_stm put_stm client_statbl k w = Inr (n, w')"
  shows "event_post p k w n w' \<and> get_stm w' = (get_stm w)\<lparr>stm_current := Some n\<rparr> \<and> n \<le> ERROR"
proof -
  have ok: "machine_ok ERROR HELLO_READ (get_stm w)" using w(1) by (simp add: conn_ok_def)
  have frame: "get_stm w2 = get_stm w1" if "d \<in> set client_statbl" "ready d = Some g" "g key w1 = Inr (n, w2)"
    for d g key w1 n w2 using r that s5.read_frame s5.write_frame s5.block_frame by blast
  have b: "base {origin_fd (cw_conn w)} p k w w" using w by (simp add: base_def conn_ok_def event_at_def)
  have "event_post p k w n w'"
  proof (rule s5.handler_rule [OF ok run, where iv = "event_pre p k w" and post = "\<lambda>_. event_post p k w" and fin = "event_post p k w"])
    show "get_stm w2 = get_stm w1" if "d \<in> set client_statbl" "ready d = Some g" "g key w1 = Inr (n, w2)"
      for d g key w1 n w2 using frame [OF that] .
    show "event_pre p k w HELLO_READ w1" if none: "stm_current (get_stm w) = None"
      and hook: "run_hook (on_arrival (client_statbl ! HELLO_READ)) HELLO_READ k
        (put_stm ((get_stm w)\<lparr>stm_current := Some HELLO_READ\<rparr>) w) = Inr w1" for w1
    proof -
      have fr: "cw_sel w1 = cw_sel w" "client_fd (cw_conn w1) = client_fd (cw_conn w)" "origin_fd (cw_conn w1) = origin_fd (cw_conn w)"
        using hook_kept [OF s5.state_in_table [OF s5.init_le] _ hook] by simp_all
      have "base {origin_fd (cw_conn w)} p k w w1"
        using base_hooks(1) [OF s5.state_in_table [OF s5.init_le] _ hook] b by simp
      moreover have "stm_current (get_stm w1) = Some HELLO_READ"
        using hook by (auto simp: run_hook_def no_hooks_def get_stm_def put_stm_def dest!: hooks_keep)
      ultimately show ?thesis
        using w none fr by (auto simp: event_pre_def sock_fresh_def event_at_def conn_ok_def placed_def st_defs)
    qed
    show "event_pre p k w i w" if "stm_current (get_stm w) = Some i" for i
      using w that b by (auto simp: event_pre_def event_at_def conn_ok_def)
    show "event_post p k w n w2" if "i \<le> ERROR" "event_pre p k w i w1" "ready (client_statbl ! i) = Some f" "f k w1 = Inr (n, w2)"
      for i f w1 n w2 using event_handlers [OF that(2,1) r that(3,4)] .
    show "event_post p k w n w4" if "i \<le> ERROR" "n \<le> ERROR" "event_post p k w n w2"
      "run_hook (on_departure (client_statbl ! i)) i k w2 = Inr w3"
      "run_hook (on_arrival (client_statbl ! n)) n k (put_stm ((get_stm w3)\<lparr>stm_current := Some n\<rparr>) w3) = Inr w4"
      for i n w2 w3 w4
      using event_post_frame [OF that(3)] hook_kept [OF s5.state_in_table [OF that(1)] _ that(4)]
        hook_kept [OF s5.state_in_table [OF that(2)] _ that(5)] by simp
  qed
  moreover have "n \<le> ERROR \<and> get_stm w' = (get_stm w)\<lparr>stm_current := Some n\<rparr>"
    using s5.handler_state [OF ok run] frame by blast
  ultimately show ?thesis by simp
qed

text \<open>The teardown: nothing of the connection stays registered, and its struct is released.\<close>

definition torn :: "nat \<Rightarrow> cworld \<Rightarrow> cworld \<Rightarrow> bool" where
  "torn p w0 w \<longleftrightarrow> sel_inv (cw_sel w) \<and> cw_life w \<noteq> Alive \<and> (\<forall>f. \<not> own p (entry_of (cw_sel w) f)) \<and>
     foreign p (cw_sel w) = foreign p (cw_sel w0) \<and> resolution_jobs (cw_sel w) = resolution_jobs (cw_sel w0) \<and>
     threads_of w = threads_of w0"

lemma close_fds_Inr:
  assumes "close_fds (f # fs) w = Inr w'" "f \<noteq> -1" "sel_inv (cw_sel w)" "own p (entry_of (cw_sel w) f) \<or> entry_of (cw_sel w) f = None"
  obtains s where "own p (entry_of (cw_sel w) f)" "sel_inv s" "resolution_jobs s = resolution_jobs (cw_sel w)"
    "entry_of s = (entry_of (cw_sel w))(f := None)" "close_fds fs (emit (Ev_close f) ((socks5_destroy w)\<lparr>cw_sel := s\<rparr>)) = Inr w'"
proof -
  obtain st w1 where u: "unregister_fd f w = Inr (st, w1)" "SELECTOR_SUCCESS = st" "close_fds fs (emit (Ev_close f) w1) = Inr w'"
    using assms(1,2) by (auto split: if_splits)
  have e: "sel_inv (cw_sel w1) \<and> resolution_jobs (cw_sel w1) = resolution_jobs (cw_sel w) \<and>
    (if entry_of (cw_sel w) f = None then st \<noteq> SELECTOR_SUCCESS \<and> w1 = w
     else st = SELECTOR_SUCCESS \<and> w1 = (socks5_destroy w)\<lparr>cw_sel := cw_sel w1\<rparr> \<and>
       entry_of (cw_sel w1) = (entry_of (cw_sel w))(f := None))"
    using unregister_entry [OF assms(3) u(1)] assms(4) by (auto simp: own_def)
  show thesis
    by (rule that [of "cw_sel w1"]) (use e u(2,3) assms(4) in \<open>auto split: if_splits\<close>)
qed

lemma done_torn:
  assumes "socksv5_done k w = Inr w'" "base os p k w0 w"
  shows "torn p w0 w'"
proof -
  let ?c = "client_fd (cw_conn w)" and ?o = "origin_fd (cw_conn w)"
  have own: "owned p w" and fr: "foreign p (cw_sel w) = foreign p (cw_sel w0)"
    "resolution_jobs (cw_sel w) = resolution_jobs (cw_sel w0)" "threads_of w = threads_of w0"
    using assms(2) by (simp_all add: base_def)
  note inv = base_ownedD [OF assms(2)]
  have c: "?c \<noteq> -1" using inv(2,3) by (auto simp: own_def)
  obtain s where s: "sel_inv s" "resolution_jobs s = resolution_jobs (cw_sel w)" "entry_of s = (entry_of (cw_sel w))(?c := None)"
    "close_fds [?o] (emit (Ev_close ?c) ((socks5_destroy w)\<lparr>cw_sel := s\<rparr>)) = Inr w'"
    using close_fds_Inr [OF assms(1) [unfolded socksv5_done_def] c inv(1)] inv(2) by metis
  define w1 where "w1 = emit (Ev_close ?c) ((socks5_destroy w)\<lparr>cw_sel := s\<rparr>)"
  have f1: "foreign p s = foreign p (cw_sel w)" using foreign_upd [OF s(3)] inv(2) by simp
  have t1: "threads_of w1 = threads_of w"
    by (simp add: w1_def threads_of_def emit_def)
  show ?thesis
  proof (cases "?o = -1")
    case True
    then have "references (cw_conn w) = 1" using own inv(3) by (auto simp: owned_def Let_def own_def)
    then have "cw_life w1 \<noteq> Alive" by (simp add: w1_def socks5_destroy_life)
    moreover have "w' = w1" using s(4) True by (simp add: w1_def)
    moreover have "\<not> own p (entry_of s f)" for f
      using own True inv(3) by (auto simp: s(3) owned_def Let_def own_def)
    ultimately show ?thesis using s(1,2) f1 fr t1 by (simp add: torn_def w1_def)
  next
    case False
    have "own p (entry_of s ?o) \<or> entry_of s ?o = None"
      using own by (auto simp: s(3) owned_def Let_def)
    then obtain s' where s': "own p (entry_of s ?o)" "sel_inv s'" "resolution_jobs s' = resolution_jobs s"
      "entry_of s' = (entry_of s)(?o := None)" "w' = emit (Ev_close ?o) ((socks5_destroy w1)\<lparr>cw_sel := s'\<rparr>)"
      using close_fds_Inr [OF s(4) [folded w1_def] False] s(1) by (auto simp: w1_def)
    have o: "?o \<noteq> ?c" "own p (entry_of (cw_sel w) ?o)" using s'(1) by (auto simp: s(3) own_def split: if_splits)
    then have "references (cw_conn w) = 2" using own by (simp add: owned_def Let_def)
    then have "references (cw_conn w1) = 1" by (simp add: w1_def socks5_destroy_def)
    then have "cw_life w' \<noteq> Alive" by (simp add: s'(5) socks5_destroy_life)
    moreover have "\<not> own p (entry_of s' f)" for f
      using own by (auto simp: s'(4) s(3) owned_def Let_def own_def)
    moreover have "foreign p s' = foreign p s" using foreign_upd [OF s'(4)] s'(1) by simp
    ultimately show ?thesis using s(2) s'(2,3,5) f1 fr t1 by (simp add: torn_def threads_of_def emit_def)
  qed
qed

text \<open>An event either leaves the connection in order, at most with one thread more, or releases it.\<close>

lemma owned_out [simp]: "owned p (w\<lparr>cw_out := x\<rparr>) = owned p w"
  by (simp add: owned_def)

definition moved :: "nat \<Rightarrow> ckey \<Rightarrow> cworld \<Rightarrow> cworld \<Rightarrow> bool" where
  "moved p k w w' \<longleftrightarrow> conn_ok p w' \<and> foreign p (cw_sel w') = foreign p (cw_sel w) \<and>
     resolution_jobs (cw_sel w') = resolution_jobs (cw_sel w) \<and> client_fd (cw_conn w') = client_fd (cw_conn w) \<and>
     origin_fd (cw_conn w') \<in> insert (client_fd (cw_conn w)) (origins k w) \<and>
     (threads_of w' = threads_of w \<or>
      threads_of w' = Suc (threads_of w) \<and> stm_current (get_stm w') = Some REQUEST_RESOLV \<and>
      key_fd (fst k) = client_fd (cw_conn w') \<and>
      entry_of (cw_sel w') (client_fd (cw_conn w')) = Some (OP_NOOP, Some H_socks5, Some p))"

lemma event_post_moved:
  assumes "event_post p k w n w'" "get_stm w' = (get_stm w)\<lparr>stm_current := Some n\<rparr>" "n \<le> ERROR"
    "machine_ok ERROR HELLO_READ (get_stm w)"
  shows "moved p k w w'"
proof -
  have "\<exists>os. base os p k w (w'\<lparr>cw_out := cw_out w\<rparr>) \<and> os \<subseteq> insert (client_fd (cw_conn w)) (origins k w)"
    using assms(1) base_frame [of "w'\<lparr>cw_out := cw_out w\<rparr>" w'] unfolding event_post_def
    by (fastforce simp: base_def threads_of_def)
  then have "owned p w' \<and> cw_life w' = Alive \<and> foreign p (cw_sel w') = foreign p (cw_sel w) \<and>
      resolution_jobs (cw_sel w') = resolution_jobs (cw_sel w) \<and> client_fd (cw_conn w') = client_fd (cw_conn w) \<and>
      origin_fd (cw_conn w') \<in> insert (client_fd (cw_conn w)) (origins k w)"
    unfolding base_def by fastforce
  moreover have "threads_of w' = threads_of w \<or>
      threads_of w' = Suc (threads_of w) \<and> n = REQUEST_RESOLV \<and> key_fd (fst k) = client_fd (cw_conn w') \<and>
      entry_of (cw_sel w') (client_fd (cw_conn w')) = Some (OP_NOOP, Some H_socks5, Some p)"
    using assms(1) by (auto simp: event_post_def base_def)
  ultimately show ?thesis
    using assms by (auto simp: moved_def conn_ok_def machine_ok_def event_post_def)
qed

lemma event_torn_or_moved:
  assumes "conn_ok p w" "event_at p k w" "ev \<in> {socksv5_read, socksv5_write, socksv5_block}" "ev k w = Inr w'"
  shows "torn p w w' \<or> moved p k w w'"
proof -
  have "\<exists>ready \<in> {on_read_ready, on_write_ready, on_block_ready}. \<exists>n w1.
      stm_handler ready get_stm put_stm client_statbl k w = Inr (n, w1) \<and> socksv5_finish k (n, w1) = Inr w'"
    using assms(3,4)
    by (auto simp: socksv5_read_def socksv5_write_def socksv5_block_def stm_handler_read_def stm_handler_write_def
        stm_handler_block_def)
  then obtain ready n w1 where r: "ready \<in> {on_read_ready, on_write_ready, on_block_ready}"
    "stm_handler ready get_stm put_stm client_statbl k w = Inr (n, w1)" "socksv5_finish k (n, w1) = Inr w'" by blast
  note h = event_handled [OF assms(1,2) r(1,2)]
  show ?thesis
  proof (cases "n = ERROR \<or> n = DONE")
    case True
    then have "base (insert (client_fd (cw_conn w)) (origins k w)) p k w w1" using h by (auto simp: event_post_def)
    moreover have "socksv5_done k w1 = Inr w'" using r(3) True by (auto simp: socksv5_finish_def)
    ultimately show ?thesis using done_torn by blast
  next
    case False
    then have "w' = w1" using r(3) by (simp add: socksv5_finish_def)
    with h assms(1) show ?thesis using event_post_moved [of p k w n w1] by (simp add: conn_ok_def)
  qed
qed

end
