(* ===== verification/Server.thy ===== *)
theory Server
  imports Refcount Monitornio
begin

text \<open>
  The running server: every connection, the monitoring service, the resolver threads and the selector
  in one state, as \<open>src/server.c\<close> drives them. The handlers of the other theories run in the world of
  one connection; here the world is cut out of the state of the server by the pointer registered with
  the descriptor, and put back after the event.

  The heap of \<open>struct socks5\<close> and of \<open>struct connection\<close> are maps from pointers; a pointer is a number
  that is not given out twice, and following one that is no longer in the map is undefined: what
  happens then is the argument \<open>ub\<close> of the definitions. \<open>sv_inv\<close> shows that it never happens, so that
  the runs do not depend on \<open>ub\<close>. What the kernel and the allocator answer is an argument too, a
  function of the whole state (with a clock, so that answers may differ between equal states);
  \<open>kernel_ok\<close> says that a new descriptor is not one the server still holds.
\<close>

section \<open>Accepting a client\<close>

record accept_ret =
  ac_accept :: fd
  ac_addr :: "byte list"
  ac_getfd :: int
  ac_setfl :: "int \<Rightarrow> int"
  ac_malloc :: bool
  ac_alloc :: bool

text \<open>\<open>socksv5_passive_accept\<close>; \<open>ident\<close> stands for the pointer given to the selector. The result is the
  new connection, if there is one, with the selector, the globals and the descriptor closed on failure.\<close>

definition socksv5_passive_accept ::
  "accept_ret \<Rightarrow> nat \<Rightarrow> selector \<times> globals \<Rightarrow> (selector \<times> globals \<times> socks5 option \<times> out_event list) res" where
  "socksv5_passive_accept a ident = (\<lambda>(s, g).
     let client = ac_accept a
     in if client = -1 then Inr (s, g, None, [])
        else if selector_fd_set_nio (ac_getfd a) (ac_setfl a) = -1 then Inr (s, g, None, [Ev_close client])
        else rbind (socks5_new client_statbl (ac_malloc a) client g) (\<lambda>(state, g1).
          case state of
            None \<Rightarrow> Inr (s, g1, None, [Ev_close client])
          | Some c \<Rightarrow>
              if length (ac_addr a) > sizeof_sockaddr_storage then Inl Out_of_bounds
              else
                let c1 = c\<lparr>client_addr := overwrite (client_addr c) 0 (ac_addr a), client_addr_len := length (ac_addr a)\<rparr>
                in rbind (selector_register (ac_alloc a) s client (Some H_socks5) OP_READ (Some ident)) (\<lambda>(st, s1).
                     if SELECTOR_SUCCESS \<noteq> st
                     then Inr (s1, cw_glob (socks5_destroy \<lparr>cw_sel = s1, cw_glob = g1, cw_conn = c1, cw_life = Alive,
                                 cw_out = []\<rparr>), None, [Ev_close client])
                     else Inr (s1, g1, Some c1, []))))"

section \<open>State\<close>

text \<open>\<open>sv_threads\<close> are the resolver threads that run, with the connection and the descriptor they were
  given; \<open>sv_log\<close> records what is done outside a proxied connection.\<close>

record server =
  sv_glob :: globals
  sv_conns :: "nat \<Rightarrow> (socks5 \<times> out_event list) option"
  sv_admins :: registry
  sv_statics :: monitor_statics
  sv_mpool_len :: nat
  sv_mpool_size :: nat
  sv_mons :: "nat \<Rightarrow> connection option"
  sv_threads :: "(nat \<times> fd) list"
  sv_next :: nat
  sv_log :: "out_event list"
  sv_clock :: nat

type_synonym sstate = "selector \<times> server"

record kernel =
  kn_conn :: "nat selector_key \<Rightarrow> sstate \<Rightarrow> kernel_ret"
  kn_mon :: "nat selector_key \<Rightarrow> sstate \<Rightarrow> monitor_ret"
  kn_accept :: "nat selector_key \<Rightarrow> sstate \<Rightarrow> accept_ret"

type_synonym undefined_behaviour = "sstate \<Rightarrow> sstate res"

definition conn_world :: "selector \<Rightarrow> server \<Rightarrow> socks5 \<times> out_event list \<Rightarrow> cworld" where
  "conn_world s g x = \<lparr>cw_sel = s, cw_glob = sv_glob g, cw_conn = fst x, cw_life = Alive, cw_out = snd x\<rparr>"

definition put_world :: "nat \<Rightarrow> fd \<Rightarrow> nat \<Rightarrow> cworld \<Rightarrow> server \<Rightarrow> server" where
  "put_world p kfd old w g =
     g\<lparr>sv_glob := cw_glob w,
       sv_conns := (sv_conns g)(p := if cw_life w = Alive then Some (cw_conn w, cw_out w) else None),
       sv_threads := replicate (threads_of w - old) (p, kfd) @ sv_threads g\<rparr>"

definition mon_world :: "selector \<Rightarrow> server \<Rightarrow> connection \<Rightarrow> life \<Rightarrow> mworld" where
  "mon_world s g c l =
     \<lparr>mw_sel = s, mw_glob = sv_glob g, mw_admins = sv_admins g, mw_statics = sv_statics g, mw_pool_len = sv_mpool_len g,
      mw_pool_size = sv_mpool_size g, mw_conn = c, mw_life = l, mw_out = sv_log g\<rparr>"

definition put_mon :: "nat \<Rightarrow> mworld \<Rightarrow> server \<Rightarrow> server" where
  "put_mon m w g =
     g\<lparr>sv_glob := mw_glob w, sv_admins := mw_admins w, sv_statics := mw_statics w, sv_mpool_len := mw_pool_len w,
       sv_mpool_size := mw_pool_size w, sv_log := mw_out w,
       sv_mons := (sv_mons g)(m := if mw_life w = Alive then Some (mw_conn w) else None)\<rparr>"

definition tick :: "server \<Rightarrow> server" where
  "tick g = g\<lparr>sv_clock := Suc (sv_clock g)\<rparr>"

section \<open>The handlers of the selector\<close>

definition conn_callback ::
  "undefined_behaviour \<Rightarrow> kernel \<Rightarrow> (ckey \<Rightarrow> cworld \<Rightarrow> cworld res) \<Rightarrow> (handler_id, nat, server) callback" where
  "conn_callback ub kn ev key = (\<lambda>(s, g).
     case key_data key of
       None \<Rightarrow> Inl Null_deref
     | Some p \<Rightarrow>
         (case sv_conns g p of
            None \<Rightarrow> ub (s, g)
          | Some x \<Rightarrow>
              let w = conn_world s g x
              in rbind (ev (key, kn_conn kn key (s, g)) w) (\<lambda>w'.
                   Inr (cw_sel w', tick (put_world p (key_fd key) (threads_of w) w' g)))))"

definition mon_callback ::
  "undefined_behaviour \<Rightarrow> kernel \<Rightarrow> (mkey \<Rightarrow> mworld \<Rightarrow> mworld res) \<Rightarrow> (handler_id, nat, server) callback" where
  "mon_callback ub kn ev key = (\<lambda>(s, g).
     case key_data key of
       None \<Rightarrow> Inl Null_deref
     | Some m \<Rightarrow>
         (case sv_mons g m of
            None \<Rightarrow> ub (s, g)
          | Some c \<Rightarrow>
              rbind (ev (key, kn_mon kn key (s, g)) (mon_world s g c Alive)) (\<lambda>w'.
                Inr (mw_sel w', tick (put_mon m w' g)))))"

definition socks_accept :: "kernel \<Rightarrow> (handler_id, nat, server) callback" where
  "socks_accept kn key = (\<lambda>(s, g).
     let p = sv_next g
     in rbind (socksv5_passive_accept (kn_accept kn key (s, g)) p (s, sv_glob g)) (\<lambda>(s1, g1, c, out).
          Inr (s1, tick (g\<lparr>sv_glob := g1, sv_next := Suc p, sv_log := sv_log g @ out,
            sv_conns := (case c of None \<Rightarrow> sv_conns g | Some c1 \<Rightarrow> (sv_conns g)(p \<mapsto> (c1, [])))\<rparr>))))"

definition mon_accept :: "kernel \<Rightarrow> (handler_id, nat, server) callback" where
  "mon_accept kn key = (\<lambda>(s, g).
     let m = sv_next g
     in rbind (monitor_passive_accept (key, kn_mon kn key (s, g)) m (mon_world s g connection_zero Freed)) (\<lambda>w'.
          Inr (mw_sel w', tick ((put_mon m w' g)\<lparr>sv_next := Suc m\<rparr>))))"

definition all_handlers :: "undefined_behaviour \<Rightarrow> kernel \<Rightarrow> handler_id \<Rightarrow> (handler_id, nat, server) fd_handler" where
  "all_handlers ub kn h =
     (case h of
        H_socks5 \<Rightarrow> \<lparr>handle_read = Some (conn_callback ub kn socksv5_read), handle_write = Some (conn_callback ub kn socksv5_write),
          handle_block = Some (conn_callback ub kn socksv5_block),
          handle_close = Some (conn_callback ub kn (\<lambda>k w. Inr (socks5_destroy w)))\<rparr>
      | H_monitor \<Rightarrow> \<lparr>handle_read = Some (mon_callback ub kn monitor_read), handle_write = Some (mon_callback ub kn monitor_write),
          handle_block = None, handle_close = Some (mon_callback ub kn (\<lambda>k w. Inr (connection_destroy w)))\<rparr>
      | H_socks5_passive \<Rightarrow> \<lparr>handle_read = Some (socks_accept kn), handle_write = None, handle_block = None,
          handle_close = None\<rparr>
      | H_monitor_passive \<Rightarrow> \<lparr>handle_read = Some (mon_accept kn), handle_write = None, handle_block = None,
          handle_close = None\<rparr>)"

section \<open>Runs\<close>

text \<open>The main loop calls \<open>selector_select\<close>; between two calls a resolver thread may finish.\<close>

datatype action = Act_select pselect_result | Act_thread nat "addrinfo list option" bool

definition thread_ends ::
  "undefined_behaviour \<Rightarrow> nat \<Rightarrow> addrinfo list option \<Rightarrow> bool \<Rightarrow> sstate \<Rightarrow> sstate res" where
  "thread_ends ub n ais job_ok = (\<lambda>(s, g).
     if n < length (sv_threads g) then
       let (p, kfd) = sv_threads g ! n;
           g1 = g\<lparr>sv_threads := take n (sv_threads g) @ drop (Suc n) (sv_threads g)\<rparr>
       in case sv_conns g1 p of
            None \<Rightarrow> ub (s, g1)
          | Some x \<Rightarrow>
              let w = conn_world s g1 x
              in rbind (request_resolv_blocking ais job_ok kfd w) (\<lambda>w'.
                   Inr (cw_sel w', put_world p kfd (threads_of w) w' g1))
     else Inr (s, g))"

definition serve_step :: "undefined_behaviour \<Rightarrow> kernel \<Rightarrow> action \<Rightarrow> sstate \<Rightarrow> (selector_status \<times> sstate) res" where
  "serve_step ub kn a sg =
     (case a of
        Act_select r \<Rightarrow> selector_select (all_handlers ub kn) r sg
      | Act_thread n ais job_ok \<Rightarrow> rbind (thread_ends ub n ais job_ok sg) (\<lambda>sg1. Inr (SELECTOR_SUCCESS, sg1)))"

text \<open>The loop of \<open>main\<close>, left when \<open>selector_select\<close> fails; the list is what happens until a signal
  ends it.\<close>

fun serve :: "undefined_behaviour \<Rightarrow> kernel \<Rightarrow> action list \<Rightarrow> sstate \<Rightarrow> (selector_status \<times> sstate) res" where
  "serve ub kn [] sg = Inr (SELECTOR_SUCCESS, sg)"
| "serve ub kn (a # as) sg =
     rbind (serve_step ub kn a sg) (\<lambda>(ss, sg1).
       if ss \<noteq> SELECTOR_SUCCESS then Inr (ss, sg1) else serve ub kn as sg1)"

end
