(* ===== verification/Serving.thy ===== *)
theory Serving
  imports Server
begin

text \<open>
  The invariant \<open>sv_inv\<close> of the running server: registrations lead to objects that live, each connection owns
  exactly the descriptors it counts and has reached its state by the events of a connection, and each
  resolver thread has a connection that waits for it. Each handler of \<open>Server\<close> keeps it, and with it does not depend on
  what following a stale pointer would do.
\<close>

section \<open>The monitoring service\<close>

definition mkeeps :: "mworld \<Rightarrow> mworld \<Rightarrow> bool" where
  "mkeeps w w' \<longleftrightarrow> mw_sel w' = mw_sel w \<and> mw_life w' = mw_life w \<and> mc_client_fd (mw_conn w') = mc_client_fd (mw_conn w) \<and>
     is_auth_on (mw_glob w') = is_auth_on (mw_glob w)"

lemma process_finally_keeps: "process_finally st e n d w = Inr w' \<Longrightarrow> mkeeps w w'"
  by (auto simp: process_finally_def Let_def mkeeps_def split: if_splits)

lemma process_config_keeps: "process_config m w = Inr (st, e, w') \<Longrightarrow> mkeeps w w'"
  by (auto simp: process_config_def set_users_def set_admins_def socksv5_toggle_disector_def Let_def mkeeps_def split: if_splits)

lemma monitor_process_keeps: "monitor_process k w = Inr w' \<Longrightarrow> mkeeps w w'"
  by (auto simp: monitor_process_def Let_def mkeeps_def split: if_splits
      dest!: process_finally_keeps [unfolded mkeeps_def] process_config_keeps [unfolded mkeeps_def])

text \<open>An event of a monitoring connection changes the registration of its descriptor only.\<close>

definition mon_outcome :: "fd \<Rightarrow> nat option \<Rightarrow> mworld \<Rightarrow> mworld \<Rightarrow> bool" where
  "mon_outcome f d w w' \<longleftrightarrow> sel_inv (mw_sel w') \<and> resolution_jobs (mw_sel w') = resolution_jobs (mw_sel w) \<and>
     is_auth_on (mw_glob w') = is_auth_on (mw_glob w) \<and>
     (mw_life w' = Alive \<and> mc_client_fd (mw_conn w') = f \<and>
        (\<exists>i. entry_of (mw_sel w') = (entry_of (mw_sel w))(f \<mapsto> (i, Some H_monitor, d))) \<or>
      mw_life w' \<noteq> Alive \<and> entry_of (mw_sel w') = (entry_of (mw_sel w))(f := None))"

lemma mon_outcome_keeps:
  "mkeeps w w1 \<Longrightarrow> mon_outcome f d w1 w' \<Longrightarrow> mon_outcome f d w w'"
  by (simp add: mon_outcome_def mkeeps_def)

lemma connection_destroy_frame [simp]:
  "mw_sel (connection_destroy w) = mw_sel w" "mw_glob (connection_destroy w) = mw_glob w" "mw_life (connection_destroy w) \<noteq> Alive"
  by (simp_all add: connection_destroy_def)

lemma monitor_finish_outcome:
  assumes "monitor_finish k w = Inr w'" "sel_inv (mw_sel w)" "entry_of (mw_sel w) f = Some (i, Some H_monitor, d)"
    "mc_client_fd (mw_conn w) = f"
  shows "mon_outcome f d w w'"
proof -
  have f: "f \<noteq> -1" using entry_range [OF assms(2), of f] assms(3) by auto
  have i: "interest_of (mw_sel w) f = Some i" "handler_of (mw_sel w) f = Some H_monitor"
    using assms(3) by (auto simp: entry_of_def)
  obtain s where s: "selector_unregister_fd monitor_close_handlers f (mw_sel w, w) = Inr (SELECTOR_SUCCESS, s, connection_destroy w)"
    "sel_inv s" "interest_of s = (interest_of (mw_sel w))(f := None)" "data_of s = (data_of (mw_sel w))(f := None)"
    "handler_of s = (handler_of (mw_sel w))(f := None)" "resolution_jobs s = resolution_jobs (mw_sel w)"
    using selector_unregister_ok [where handlers = monitor_close_handlers and g = w and ?s1.0 = "mw_sel w" and
        ?g1.0 = "connection_destroy w", OF assms(2) i _ assms(2) i(1)]
    by (auto simp: monitor_close_handlers_def monitor_close_def)
  have "entry_of s = (entry_of (mw_sel w))(f := None)" by (intro ext) (simp add: entry_of_def s)
  then show ?thesis
    using assms(1,4) f s by (auto simp: monitor_finish_def mon_outcome_def memit_def)
qed

lemma mon_same_outcome:
  assumes "mkeeps w w'" "sel_inv (mw_sel w)" "mw_life w = Alive" "entry_of (mw_sel w) f = Some (i, Some H_monitor, d)"
    "mc_client_fd (mw_conn w) = f"
  shows "mon_outcome f d w w'"
proof -
  have "entry_of (mw_sel w') = (entry_of (mw_sel w))(f \<mapsto> (i, Some H_monitor, d))"
    using assms by (simp add: mkeeps_def fun_upd_idem)
  with assms show ?thesis by (auto simp: mon_outcome_def mkeeps_def)
qed

lemma mon_interest_outcome:
  assumes "selector_set_interest_key (mw_sel w) (fst k) j = Inr (st, s)" "sel_inv (mw_sel w)" "mw_life w = Alive"
    "entry_of (mw_sel w) f = Some (i, Some H_monitor, d)" "mc_client_fd (mw_conn w) = f" "key_fd (fst k) = f"
  shows "mon_outcome f d w (w\<lparr>mw_sel := s\<rparr>)"
proof -
  have "\<not> INVALID_FD f" using entry_range [OF assms(2), of f] assms(4) by (auto simp: INVALID_FD_def ITEMS_MAX_SIZE_def)
  then have "selector_set_interest (mw_sel w) f j = Inr (st, s)"
    using assms(1,6) by (simp add: selector_set_interest_key_def)
  with set_interest_entry [OF assms(2)] assms show ?thesis by (fastforce simp: mon_outcome_def)
qed

lemma monitor_event:
  assumes "ev \<in> {monitor_read, monitor_write}" "ev k w = Inr w'" "sel_inv (mw_sel w)" "mw_life w = Alive"
    "entry_of (mw_sel w) f = Some (i, Some H_monitor, d)" "mc_client_fd (mw_conn w) = f" "key_fd (fst k) = f"
  shows "mon_outcome f d w w'"
proof -
  have fin: "mkeeps w w1 \<longrightarrow> mon_outcome f d w w'" if "monitor_finish k w1 = Inr w'" for w1
    using monitor_finish_outcome [OF that] mon_outcome_keeps assms by (auto simp: mkeeps_def)
  have same: "mon_outcome f d w w1" if "mkeeps w w1" for w1 using mon_same_outcome [OF that] assms by blast
  have int: "mkeeps w w1 \<longrightarrow> mon_outcome f d w (w1\<lparr>mw_sel := s\<rparr>)"
    if "selector_set_interest_key (mw_sel w1) (fst k) j = Inr (st, s)" for w1 j st s
    using mon_interest_outcome [OF that] mon_outcome_keeps assms by (auto simp: mkeeps_def)
  show ?thesis
  proof (cases "ev = monitor_read")
    case False
    then have "monitor_write k w = Inr w'" using assms(1,2) by auto
    then show ?thesis
      by (auto simp: monitor_write_def Let_def memit_def mkeeps_def same split: if_splits dest!: fin)
  next
    case True
    then have "monitor_read k w = Inr w'" using assms(2) by simp
    then show ?thesis
      by (auto simp: monitor_read_def Let_def mkeeps_def same split: if_splits prod.splits dest!: fin int monitor_process_keeps)
  qed
qed

section \<open>The authentication switch\<close>

lemma handlers_auth:
  assumes "d \<in> set client_statbl" "ready \<in> {on_read_ready, on_write_ready, on_block_ready}" "ready d = Some f" "f k w = Inr (n, w')"
  shows "is_auth_on (cw_glob w') = is_auth_on (cw_glob w)"
  using assms
  by (auto simp: client_statbl_def no_hooks_def keeps_def keeps_but_name_def
      dest!: auth_read_frame keeps_dest)

lemma hooks_auth:
  assumes "d \<in> set client_statbl" "h \<in> {on_arrival d, on_departure d}" "run_hook h st k w = Inr w'" "is_auth_on (cw_glob w')"
  shows "is_auth_on (cw_glob w)"
  using assms
  by (auto simp: client_statbl_def no_hooks_def run_hook_def hello_read_init_def keeps_def Let_def split: if_splits
      dest!: hooks_keep(2-))

lemma event_auth_kept:
  assumes "ev \<in> {socksv5_read, socksv5_write, socksv5_block}" "machine_ok ERROR HELLO_READ (get_stm w)" "ev k w = Inr w'"
    "is_auth_on (cw_glob w')"
  shows "is_auth_on (cw_glob w)"
proof -
  have "\<exists>ready \<in> {on_read_ready, on_write_ready, on_block_ready}. \<exists>n w1.
      stm_handler ready get_stm put_stm client_statbl k w = Inr (n, w1) \<and> socksv5_finish k (n, w1) = Inr w'"
    using assms(1,3)
    by (auto simp: socksv5_read_def socksv5_write_def socksv5_block_def stm_handler_read_def stm_handler_write_def
        stm_handler_block_def)
  then obtain ready n w1 where r: "ready \<in> {on_read_ready, on_write_ready, on_block_ready}"
    and run: "stm_handler ready get_stm put_stm client_statbl k w = Inr (n, w1)" "socksv5_finish k (n, w1) = Inr w'" by blast
  let ?P = "\<lambda>w1. is_auth_on (cw_glob w1) \<longrightarrow> is_auth_on (cw_glob w)"
  have "?P w1"
  proof (rule s5.handler_rule [OF assms(2) run(1), where iv = "\<lambda>_. ?P" and post = "\<lambda>_ _. ?P" and fin = "\<lambda>_. ?P"])
    show "get_stm w2 = get_stm w1" if "d \<in> set client_statbl" "ready d = Some g" "g key w1 = Inr (n, w2)"
      for d g key w1 n w2 using r that s5.read_frame s5.write_frame s5.block_frame by blast
    show "?P w1" if "run_hook (on_arrival (client_statbl ! HELLO_READ)) HELLO_READ k
        (put_stm ((get_stm w)\<lparr>stm_current := Some HELLO_READ\<rparr>) w) = Inr w1" for w1
      using hooks_auth [OF s5.state_in_table [OF s5.init_le] _ that] by simp
    show "?P w2" if "i \<le> ERROR" "?P w1" "ready (client_statbl ! i) = Some f" "f k w1 = Inr (n, w2)" for i f w1 n w2
      using handlers_auth [OF s5.state_in_table [OF that(1)] r that(3,4)] that(2) by simp
    show "?P w4" if "i \<le> ERROR" "n \<le> ERROR" "?P w2" "run_hook (on_departure (client_statbl ! i)) i k w2 = Inr w3"
      "run_hook (on_arrival (client_statbl ! n)) n k (put_stm ((get_stm w3)\<lparr>stm_current := Some n\<rparr>) w3) = Inr w4"
      for i n w2 w3 w4
      using hooks_auth [OF s5.state_in_table [OF that(1)] _ that(4)] hooks_auth [OF s5.state_in_table [OF that(2)] _ that(5)]
        that(3) by simp
  qed simp_all
  then show ?thesis using assms(4) socksv5_finish_keeps [OF run(2)] by (simp add: keeps_def)
qed

section \<open>The invariant\<close>

text \<open>A connection whose name is being resolved: its client is not watched.\<close>

definition waiting :: "selector \<Rightarrow> server \<Rightarrow> nat \<Rightarrow> fd \<Rightarrow> bool" where
  "waiting s g p f \<longleftrightarrow> (\<exists>x. sv_conns g p = Some x \<and> client_fd (fst x) = f \<and>
     stm_current (so_stm (fst x)) = Some REQUEST_RESOLV \<and> entry_of s f = Some (OP_NOOP, Some H_socks5, Some p))"

definition conns_ok :: "sstate \<Rightarrow> bool" where
  "conns_ok = (\<lambda>(s, g).
     (\<forall>p x. sv_conns g p = Some x \<longrightarrow> p < sv_next g \<and> conn_ok p (conn_world s g x) \<and> reach (conn_world s g x)) \<and>
     (\<forall>f i d. entry_of s f = Some (i, Some H_socks5, d) \<longrightarrow> (\<exists>p. d = Some p \<and> sv_conns g p \<noteq> None)) \<and>
     (\<forall>p q x y. sv_conns g p = Some x \<longrightarrow> sv_conns g q = Some y \<longrightarrow> origin_fd (fst x) = origin_fd (fst y) \<longrightarrow>
        p = q \<or> origin_fd (fst x) = -1))"

definition mons_ok :: "sstate \<Rightarrow> bool" where
  "mons_ok = (\<lambda>(s, g).
     (\<forall>f i d. entry_of s f = Some (i, Some H_monitor, d) \<longrightarrow> (\<exists>m c. d = Some m \<and> sv_mons g m = Some c \<and> mc_client_fd c = f)) \<and>
     (\<forall>m c. sv_mons g m = Some c \<longrightarrow> m < sv_next g \<and> (\<exists>i. entry_of s (mc_client_fd c) = Some (i, Some H_monitor, Some m))))"

definition threads_ok :: "fd list \<Rightarrow> sstate \<Rightarrow> bool" where
  "threads_ok js = (\<lambda>(s, g).
     distinct (map fst (sv_threads g)) \<and> (\<forall>(p, f) \<in> set (sv_threads g). waiting s g p f \<and> f \<notin> set js) \<and>
     distinct js \<and> (\<forall>j \<in> set js. \<exists>p. waiting s g p j))"

definition sv_inv :: "fd list \<Rightarrow> sstate \<Rightarrow> bool" where
  "sv_inv js sg \<longleftrightarrow> sel_inv (fst sg) \<and> conns_ok sg \<and> mons_ok sg \<and> threads_ok js sg"

text \<open>The descriptors the server holds, and what the kernel promises about new ones: \<open>socket\<close> may
  return the descriptor that \<open>request_connect\<close> has just closed.\<close>

definition open_fds :: "sstate \<Rightarrow> fd set" where
  "open_fds = (\<lambda>(s, g). {f. f \<noteq> -1 \<and> (entry_of s f \<noteq> None \<or> (\<exists>p x. sv_conns g p = Some x \<and> origin_fd (fst x) = f))})"

definition kernel_ok :: "kernel \<Rightarrow> bool" where
  "kernel_ok kn \<longleftrightarrow> (\<forall>key sg.
     ac_accept (kn_accept kn key sg) \<notin> open_fds sg \<and> mr_accept (kn_mon kn key sg) \<notin> open_fds sg \<and>
     (kr_socket (kn_conn kn key sg) \<in> open_fds sg \<longrightarrow>
       (\<exists>p x. key_data key = Some p \<and> sv_conns (snd sg) p = Some x \<and>
          stm_current (so_stm (fst x)) = Some REQUEST_CONNECTING \<and> kr_socket (kn_conn kn key sg) = origin_fd (fst x))))"

lemma foreign_entry:
  assumes "foreign p s' = foreign p s"
  shows "entry_of s f \<noteq> None \<Longrightarrow> \<not> own p (entry_of s f) \<Longrightarrow> entry_of s' f = entry_of s f"
    "entry_of s' f \<noteq> None \<Longrightarrow> \<not> own p (entry_of s' f) \<Longrightarrow> entry_of s f = entry_of s' f"
  using fun_cong [OF assms, of f] by (auto simp: foreign_def own_def split: if_splits)

lemma own_other: "own p e \<Longrightarrow> own q e \<Longrightarrow> p = q"
  by (auto simp: own_def)

lemma foreign_other:
  assumes "foreign p s' = foreign p s" "q \<noteq> p"
  shows "own q (entry_of s' f) = own q (entry_of s f)" "own q (entry_of s f) \<Longrightarrow> entry_of s' f = entry_of s f"
proof -
  show "own q (entry_of s f) \<Longrightarrow> entry_of s' f = entry_of s f"
    using foreign_entry(1) [OF assms(1), of f] own_other [of q "entry_of s f" p] assms(2) by (auto simp: own_def)
  then show "own q (entry_of s' f) = own q (entry_of s f)"
    using foreign_entry(2) [OF assms(1), of f] own_other [of q "entry_of s' f" p] assms(2) by (auto simp: own_def)
qed

text \<open>A connection is not disturbed by what others do to their registrations.\<close>

lemma conn_ok_foreign:
  assumes "conn_ok q (conn_world s g x)" "foreign p s' = foreign p s" "q \<noteq> p" "sel_inv s'"
    "\<not> own p (entry_of s' (origin_fd (fst x)))"
  shows "conn_ok q (conn_world s' g' x)"
proof -
  note o = foreign_other [OF assms(2,3)]
  have none: "entry_of s (origin_fd (fst x)) = None \<Longrightarrow> entry_of s' (origin_fd (fst x)) = None"
    using foreign_entry(2) [OF assms(2), of "origin_fd (fst x)"] assms(5) by metis
  have own: "owned q (conn_world s g x)" using assms(1) by (simp add: conn_ok_def)
  then have "own q (entry_of s (client_fd (fst x)))" by (simp add: owned_def Let_def conn_world_def)
  then have same: "entry_of s' (client_fd (fst x)) = entry_of s (client_fd (fst x))" by (rule o(2))
  have "owned q (conn_world s' g' x)"
    using own o none assms(4) by (auto simp: owned_def Let_def conn_world_def)
  moreover have "quiet (conn_world s g x) \<Longrightarrow> quiet (conn_world s' g' x)"
    using none same by (auto simp: quiet_def conn_world_def)
  ultimately show ?thesis using assms(1) by (auto simp: conn_ok_def conn_world_def get_stm_def)
qed

lemma reach_other:
  assumes "reach (conn_world s g x)" "is_auth_on (sv_glob g') \<longrightarrow> is_auth_on (sv_glob g)"
  shows "reach (conn_world s' g' x)"
proof -
  have "reach ((conn_world s g x)\<lparr>cw_sel := s', cw_glob := sv_glob g'\<rparr>)"
    by (rule reach_env [OF assms(1)]) (use assms(2) in \<open>simp add: conn_world_def\<close>)
  then show ?thesis by (simp add: conn_world_def)
qed

lemma conn_world_tick [simp]: "conn_world s (tick g) x = conn_world s g x" "waiting s (tick g) p f = waiting s g p f"
  by (simp_all add: conn_world_def waiting_def tick_def)

lemma sv_inv_tick [simp]: "sv_inv js (s, tick g) = sv_inv js (s, g)"
  by (simp add: sv_inv_def conns_ok_def mons_ok_def threads_ok_def) (simp add: tick_def)

lemma conns_okD:
  assumes "conns_ok (s, g)"
  shows "sv_conns g p = Some x \<Longrightarrow> p < sv_next g \<and> conn_ok p (conn_world s g x) \<and> reach (conn_world s g x)"
    "entry_of s f = Some (i, Some H_socks5, d) \<Longrightarrow> \<exists>p. d = Some p \<and> sv_conns g p \<noteq> None"
    "sv_conns g p = Some x \<Longrightarrow> sv_conns g q = Some y \<Longrightarrow> origin_fd (fst x) = origin_fd (fst y) \<Longrightarrow> p = q \<or> origin_fd (fst x) = -1"
  using assms unfolding conns_ok_def prod.case by blast+

lemma origin_apart:
  assumes "conns_ok (s, g)" "sv_conns g p = Some x" "sv_conns g q = Some z" "q \<noteq> p"
  shows "origin_fd (fst z) = -1 \<or> origin_fd (fst z) \<noteq> client_fd (fst x) \<and> origin_fd (fst z) \<noteq> origin_fd (fst x)"
proof -
  have "own p (entry_of s (client_fd (fst x)))"
    using conns_okD(1) [OF assms(1,2)] by (simp add: conn_ok_def owned_def Let_def conn_world_def)
  moreover have "entry_of s (origin_fd (fst z)) = None \<or> own q (entry_of s (origin_fd (fst z)))"
    using conns_okD(1) [OF assms(1,3)] by (simp add: conn_ok_def owned_def Let_def conn_world_def)
  ultimately have "origin_fd (fst z) \<noteq> client_fd (fst x)" using assms(4) by (auto simp: own_def)
  with conns_okD(3) [OF assms(1,3,2)] assms(4) show ?thesis by blast
qed

text \<open>A step of connection \<open>p\<close>: it becomes \<open>y\<close>, or is released, and the registrations of the others stay.\<close>

lemma conns_step:
  assumes ok: "conns_ok (s, g)" and s': "sel_inv s'" "foreign p s' = foreign p s"
    and g': "sv_conns g' = (sv_conns g)(p := yo)" "sv_next g \<le> sv_next g'"
      "is_auth_on (sv_glob g') \<longrightarrow> is_auth_on (sv_glob g)"
    and y: "\<And>y. yo = Some y \<Longrightarrow> p < sv_next g' \<and> conn_ok p (conn_world s' g' y) \<and> reach (conn_world s' g' y)"
      "yo = None \<Longrightarrow> \<forall>f. \<not> own p (entry_of s' f)"
    and apart: "\<And>q y z. yo = Some y \<Longrightarrow> sv_conns g q = Some z \<Longrightarrow> q \<noteq> p \<Longrightarrow>
      origin_fd (fst z) = -1 \<or> origin_fd (fst z) \<noteq> client_fd (fst y) \<and> origin_fd (fst z) \<noteq> origin_fd (fst y)"
  shows "conns_ok (s', g')"
proof -
  have neg: "entry_of s' (-1) = None" using entry_range [OF s'(1), of "-1"] by fastforce
  have "q < sv_next g' \<and> conn_ok q (conn_world s' g' z) \<and> reach (conn_world s' g' z)"
    if z: "sv_conns g q = Some z" "q \<noteq> p" for q z
  proof -
    note c = conns_okD(1) [OF ok z(1)]
    have "\<not> own p (entry_of s' (origin_fd (fst z)))"
    proof (cases yo)
      case None
      then show ?thesis using y(2) by simp
    next
      case (Some y1)
      show ?thesis
      proof (cases "origin_fd (fst z) = -1")
        case True
        then show ?thesis using neg by (simp add: own_def)
      next
        case False
        with apart [OF Some z] y(1) [OF Some] show ?thesis
          by (auto simp: conn_ok_def owned_def Let_def conn_world_def)
      qed
    qed
    with c z(2) s' g' show ?thesis by (auto intro: conn_ok_foreign reach_other)
  qed
  moreover have "\<exists>q. d = Some q \<and> sv_conns g' q \<noteq> None" if "entry_of s' f = Some (i, Some H_socks5, d)" for f i d
  proof (cases "own p (entry_of s' f)")
    case True
    then show ?thesis using that y(2) g'(1) by (cases yo) (auto simp: own_def)
  next
    case False
    then have e: "entry_of s f = Some (i, Some H_socks5, d)" using foreign_entry(2) [OF s'(2), of f] that by auto
    with False that conns_okD(2) [OF ok e] g'(1) show ?thesis by (auto simp: own_def)
  qed
  moreover have "q = r \<or> origin_fd (fst z) = -1"
    if "sv_conns g' q = Some z" "sv_conns g' r = Some z'" "origin_fd (fst z) = origin_fd (fst z')" for q r z z'
    using that g'(1) apart [of z r z'] apart [of z' q z] conns_okD(3) [OF ok, of q z r z'] by (auto split: if_splits)
  ultimately show ?thesis
    using y(1) g'(1) unfolding conns_ok_def prod.case by (auto split: if_splits)
qed

lemma waiting_other:
  assumes "waiting s g q f" "q \<noteq> p" "foreign p s' = foreign p s" "sv_conns g' = (sv_conns g)(p := yo)"
  shows "waiting s' g' q f"
  using assms foreign_other(2) [OF assms(3,2), of f] by (auto simp: waiting_def own_def)

lemma mons_foreign:
  assumes "mons_ok (s, g)" "foreign p s' = foreign p s" "sv_mons g' = sv_mons g" "sv_next g \<le> sv_next g'"
  shows "mons_ok (s', g')"
proof -
  have eq: "entry_of s' f = Some (i, Some H_monitor, d) \<longleftrightarrow> entry_of s f = Some (i, Some H_monitor, d)" for f i d
    using foreign_entry [OF assms(2), of f] by (auto simp: own_def)
  show ?thesis using assms(1,3,4) unfolding mons_ok_def prod.case eq by fastforce
qed

lemma threads_step:
  assumes "threads_ok js (s, g)" "foreign p s' = foreign p s" "sv_conns g' = (sv_conns g)(p := yo)"
    "p \<notin> fst ` set (sv_threads g)" "\<And>f. waiting s g p f \<Longrightarrow> f \<notin> set js"
    "sv_threads g' = replicate n (p, kfd) @ sv_threads g" "n = 0 \<or> n = 1 \<and> waiting s' g' p kfd \<and> kfd \<notin> set js"
  shows "threads_ok js (s', g')"
proof -
  have other: "waiting s' g' q f" if "waiting s g q f" "q \<noteq> p" for q f
    using waiting_other [OF that assms(2,3)] .
  have "waiting s' g' q f" if "(q, f) \<in> set (sv_threads g)" for q f
    using assms(1,4) that by (auto simp: threads_ok_def image_iff intro!: other)
  moreover have "\<exists>q. waiting s' g' q j" if "j \<in> set js" for j
    using assms(1,5) that other unfolding threads_ok_def prod.case by blast
  ultimately show ?thesis
    using assms(1,4,6,7) unfolding threads_ok_def prod.case by (auto simp: image_iff)
qed

text \<open>An event of connection \<open>p\<close> keeps the invariant.\<close>

lemma conn_event_inv:
  assumes inv: "sv_inv js (s, g)" and k: "kernel_ok kn" and x: "sv_conns g p = Some x" and key: "key_data key = Some p"
    "own p (entry_of s (key_fd key))"
    and at: "stm_current (so_stm (fst x)) = Some REQUEST_CONNECTING \<Longrightarrow> key_fd key = client_fd (fst x) \<Longrightarrow>
      entry_of s (origin_fd (fst x)) = None"
    and free: "p \<notin> fst ` set (sv_threads g)" "client_fd (fst x) \<notin> set js"
    and ev: "ev \<in> {socksv5_read, socksv5_write, socksv5_block}"
    and run: "conn_callback ub kn ev key (s, g) = Inr (s', g')"
  shows "sv_inv js (s', g') \<and> resolution_jobs s' = resolution_jobs s \<and>
    (entry_of s' (key_fd key) = None \<or> own p (entry_of s' (key_fd key)))"
proof -
  let ?w = "conn_world s g x" and ?k = "(key, kn_conn kn key (s, g))" and ?sock = "kr_socket (kn_conn kn key (s, g))"
  obtain w' where w': "ev ?k ?w = Inr w'" "s' = cw_sel w'" "g' = tick (put_world p (key_fd key) (threads_of ?w) w' g)"
    using run key(1) x by (auto simp: conn_callback_def Let_def)
  let ?yo = "if cw_life w' = Alive then Some (cw_conn w', cw_out w') else None"
  have c: "conn_ok p ?w" "reach ?w" "p < sv_next g" using conns_okD(1) [OF _ x] inv by (auto simp: sv_inv_def)
  have reuse: "?sock \<in> open_fds (s, g) \<Longrightarrow>
      stm_current (so_stm (fst x)) = Some REQUEST_CONNECTING \<and> ?sock = origin_fd (fst x)"
    using k key(1) x unfolding kernel_ok_def by fastforce
  have "sock_fresh ?k ?w"
    using reuse entry_range [of s ?sock] inv
    by (auto simp: sock_fresh_def conn_world_def open_fds_def get_stm_def sv_inv_def)
  then have at': "event_at p ?k ?w"
    using key at by (auto simp: event_at_def conn_world_def get_stm_def)
  have auth: "is_auth_on (cw_glob w') \<longrightarrow> is_auth_on (sv_glob g)"
    using event_auth_kept [OF ev _ w'(1)] c(1) by (auto simp: conn_ok_def conn_world_def)
  have alive: "cw_life ?w = Alive" by (simp add: conn_world_def)
  have reach': "reach w'"
    using ev w'(1) reach_read [OF c(2) alive] reach_write [OF c(2) alive] reach_block [OF c(2) alive] by blast
  have g': "sv_glob g' = cw_glob w'" "sv_conns g' = (sv_conns g)(p := ?yo)" "sv_mons g' = sv_mons g" "sv_next g' = sv_next g"
    "sv_threads g' = replicate (threads_of w' - threads_of ?w) (p, key_fd key) @ sv_threads g"
    by (simp_all add: w'(3) put_world_def tick_def)
  note out = event_torn_or_moved [OF c(1) at' ev w'(1)]
  have fr: "foreign p s' = foreign p s" "sel_inv s'" "resolution_jobs s' = resolution_jobs s"
    using out by (auto simp: torn_def moved_def conn_ok_def owned_def Let_def w'(2) conn_world_def)
  have self: "conn_world s' g' (cw_conn w', cw_out w') = w'" if "cw_life w' = Alive"
    using that by (simp add: conn_world_def g'(1) w'(2))
  have own_c: "own p (entry_of s (client_fd (fst x)))" using c(1) by (simp add: conn_ok_def owned_def Let_def conn_world_def)
  have "conns_ok (s', g')"
  proof (rule conns_step [OF _ fr(2,1) g'(2)])
    show "conns_ok (s, g)" using inv by (simp add: sv_inv_def)
    show "sv_next g \<le> sv_next g'" "is_auth_on (sv_glob g') \<longrightarrow> is_auth_on (sv_glob g)" using auth by (simp_all add: g')
    show "p < sv_next g' \<and> conn_ok p (conn_world s' g' y) \<and> reach (conn_world s' g' y)" if "?yo = Some y" for y
      using that self reach' c(3) out by (auto simp: g'(4) torn_def moved_def split: if_splits)
    show "\<forall>f. \<not> own p (entry_of s' f)" if "?yo = None"
      using that out by (auto simp: torn_def moved_def conn_ok_def w'(2) split: if_splits)
    show "origin_fd (fst z) = -1 \<or> origin_fd (fst z) \<noteq> client_fd (fst y) \<and> origin_fd (fst z) \<noteq> origin_fd (fst y)"
      if y: "?yo = Some y" and z: "sv_conns g q = Some z" "q \<noteq> p" for q y z
    proof -
      have y': "client_fd (fst y) = client_fd (fst x)"
        "origin_fd (fst y) \<in> {client_fd (fst x), origin_fd (fst x), ?sock, -1}"
        using y out by (auto simp: torn_def moved_def origins_def conn_world_def split: if_splits)
      have 1: "origin_fd (fst z) = -1 \<or> origin_fd (fst z) \<noteq> client_fd (fst x) \<and> origin_fd (fst z) \<noteq> origin_fd (fst x)"
        by (rule origin_apart [of s, OF _ x z]) (use inv in \<open>simp add: sv_inv_def\<close>)
      have "origin_fd (fst z) = ?sock \<Longrightarrow> origin_fd (fst z) \<noteq> -1 \<Longrightarrow> ?sock \<in> open_fds (s, g)"
        using z(1) unfolding open_fds_def prod.case mem_Collect_eq by metis
      with reuse 1 have 2: "origin_fd (fst z) = ?sock \<Longrightarrow> origin_fd (fst z) = -1" by metis
      show ?thesis using y' 1 2 by auto
    qed
  qed
  moreover have "mons_ok (s', g')" using mons_foreign [OF _ fr(1) g'(3)] inv by (simp add: sv_inv_def g'(4))
  moreover have "threads_ok js (s', g')"
  proof (rule threads_step [OF _ fr(1) g'(2) free(1) _ g'(5)])
    show "threads_ok js (s, g)" using inv by (simp add: sv_inv_def)
    show "f \<notin> set js" if "waiting s g p f" for f using that free(2) x by (auto simp: waiting_def)
    show "threads_of w' - threads_of ?w = 0 \<or> threads_of w' - threads_of ?w = 1 \<and> waiting s' g' p (key_fd key) \<and> key_fd key \<notin> set js"
      using out free(2) by (auto simp: torn_def moved_def conn_ok_def waiting_def g'(2) w'(2) get_stm_def conn_world_def)
  qed
  moreover have "entry_of s' (key_fd key) = None \<or> own p (entry_of s' (key_fd key))"
    using foreign_entry(2) [OF fr(1), of "key_fd key"] key(2) by (metis own_def)
  ultimately show ?thesis using fr by (simp add: sv_inv_def)
qed

text \<open>A change of the registration of a descriptor that belongs to no proxied connection.\<close>

lemma conns_elsewhere:
  assumes ok: "conns_ok (s, g)" and s': "sel_inv s'" "entry_of s' = (entry_of s)(f := e)"
    and e: "\<And>i d. entry_of s f \<noteq> Some (i, Some H_socks5, d)" "\<And>i d. e \<noteq> Some (i, Some H_socks5, d)"
    and o: "\<And>q z. sv_conns g q = Some z \<Longrightarrow> origin_fd (fst z) \<noteq> f"
    and g': "sv_conns g' = sv_conns g" "sv_next g \<le> sv_next g'" "is_auth_on (sv_glob g') \<longrightarrow> is_auth_on (sv_glob g)"
  shows "conns_ok (s', g')" "waiting s g q j \<Longrightarrow> waiting s' g' q j"
proof -
  have own: "own q (entry_of s' h) = own q (entry_of s h)" for q h using e by (auto simp: s'(2) own_def)
  have "conn_ok q (conn_world s' g' z)" if z: "sv_conns g q = Some z" for q z
  proof -
    have c: "conn_ok q (conn_world s g z)" using conns_okD(1) [OF ok z] by simp
    then have "own q (entry_of s (client_fd (fst z)))" by (simp add: conn_ok_def owned_def Let_def conn_world_def)
    then have cl: "client_fd (fst z) \<noteq> f" using e(1) by (auto simp: own_def)
    have org: "entry_of s' (origin_fd (fst z)) = entry_of s (origin_fd (fst z))" using o [OF z] by (simp add: s'(2))
    have "owned q (conn_world s g z)" using c by (simp add: conn_ok_def)
    then have "owned q (conn_world s' g' z)"
      using own org s'(1) by (auto simp: owned_def Let_def conn_world_def)
    moreover have "quiet (conn_world s g z) \<Longrightarrow> quiet (conn_world s' g' z)"
      using org cl by (auto simp: quiet_def conn_world_def s'(2))
    ultimately show ?thesis using c by (auto simp: conn_ok_def conn_world_def get_stm_def)
  qed
  moreover have "reach (conn_world s' g' z)" if "sv_conns g q = Some z" for q z
    using conns_okD(1) [OF ok that] g'(3) reach_other by blast
  moreover have "\<exists>p. d = Some p \<and> sv_conns g p \<noteq> None" if "entry_of s' h = Some (i, Some H_socks5, d)" for h i d
    using that e(2) conns_okD(2) [OF ok, of h i d] by (auto simp: s'(2) split: if_splits)
  ultimately show "conns_ok (s', g')"
    using conns_okD(1,3) [OF ok] g'(1,2) unfolding conns_ok_def prod.case g'(1)
    by (intro conjI allI impI) (blast intro: order.strict_trans2)+
  show "waiting s g q j \<Longrightarrow> waiting s' g' q j"
    using e(1) g'(1) by (auto simp: waiting_def s'(2))
qed

lemma threads_elsewhere:
  assumes "threads_ok js (s, g)" "\<And>q j. waiting s g q j \<Longrightarrow> waiting s' g' q j" "sv_threads g' = sv_threads g"
  shows "threads_ok js (s', g')"
  using assms unfolding threads_ok_def prod.case by fastforce

lemma sv_mons_origin:
  assumes "sv_inv js (s, g)" "sv_conns g q = Some z" "entry_of s f = Some (i, Some H_monitor, d)"
  shows "origin_fd (fst z) \<noteq> f"
  using conns_okD(1) [of s g q z] assms
  by (auto simp: sv_inv_def conn_ok_def owned_def Let_def conn_world_def own_def)

lemma mons_okD:
  assumes "mons_ok (s, g)"
  shows "entry_of s f = Some (i, Some H_monitor, d) \<Longrightarrow> \<exists>m c. d = Some m \<and> sv_mons g m = Some c \<and> mc_client_fd c = f"
    "sv_mons g m = Some c \<Longrightarrow> m < sv_next g \<and> (\<exists>i. entry_of s (mc_client_fd c) = Some (i, Some H_monitor, Some m))"
  using assms unfolding mons_ok_def prod.case by blast+

lemma mons_step:
  assumes ok: "mons_ok (s, g)" and s': "entry_of s' = (entry_of s)(f := e)"
    and g': "sv_mons g' = (sv_mons g)(m := co)" "sv_next g \<le> sv_next g'"
    and old: "entry_of s f = None \<and> sv_mons g m = None \<or> (\<exists>i. entry_of s f = Some (i, Some H_monitor, Some m))"
    and new: "e = None \<and> co = None \<or>
      (\<exists>i c. e = Some (i, Some H_monitor, Some m) \<and> co = Some c \<and> mc_client_fd c = f \<and> m < sv_next g')"
  shows "mons_ok (s', g')"
proof -
  have 1: "\<exists>n c. d = Some n \<and> sv_mons g' n = Some c \<and> mc_client_fd c = h" if "entry_of s' h = Some (i, Some H_monitor, d)" for h i d
  proof (cases "h = f")
    case True
    with that new show ?thesis by (auto simp: s' g'(1))
  next
    case False
    with that obtain n c where n: "d = Some n" "sv_mons g n = Some c" "mc_client_fd c = h"
      using mons_okD(1) [OF ok, of h i d] by (auto simp: s')
    moreover have "n \<noteq> m" using old False n mons_okD(1) [OF ok, of f] by fastforce
    ultimately show ?thesis by (simp add: g'(1))
  qed
  have 2: "n < sv_next g' \<and> (\<exists>i. entry_of s' (mc_client_fd c) = Some (i, Some H_monitor, Some n))" if "sv_mons g' n = Some c" for n c
  proof (cases "n = m")
    case True
    with that new show ?thesis by (auto simp: s' g'(1))
  next
    case False
    with that have n: "sv_mons g n = Some c" by (simp add: g'(1))
    moreover have "mc_client_fd c \<noteq> f" using mons_okD(2) [OF ok n] old False by auto
    ultimately show ?thesis using mons_okD(2) [OF ok n] g'(2) by (auto simp: s')
  qed
  show ?thesis unfolding mons_ok_def prod.case using 1 2 by blast
qed

lemma mon_event_inv:
  assumes inv: "sv_inv js (s, g)" and e: "entry_of s f = Some (i, Some H_monitor, d)"
    and key: "key_fd key = f" "key_data key = d" and ev: "ev \<in> {monitor_read, monitor_write}"
    and run: "mon_callback ub kn ev key (s, g) = Inr (s', g')"
  shows "sv_inv js (s', g') \<and> resolution_jobs s' = resolution_jobs s \<and>
    (entry_of s' f = None \<or> (\<exists>i. entry_of s' f = Some (i, Some H_monitor, d)))"
proof -
  have ok: "conns_ok (s, g)" "mons_ok (s, g)" "threads_ok js (s, g)" "sel_inv s" using inv by (simp_all add: sv_inv_def)
  obtain m c where c: "d = Some m" "sv_mons g m = Some c" "mc_client_fd c = f" "m < sv_next g"
    using ok(2) e unfolding mons_ok_def prod.case by blast
  let ?w = "mon_world s g c Alive"
  obtain w' where w': "ev (key, kn_mon kn key (s, g)) ?w = Inr w'" "s' = mw_sel w'" "g' = tick (put_mon m w' g)"
    using run key(2) c by (auto simp: mon_callback_def)
  have out: "mon_outcome f d ?w w'"
    by (rule monitor_event [OF ev w'(1)]) (use ok(4) e c key in \<open>simp_all add: mon_world_def\<close>)
  then obtain e' where e': "entry_of s' = (entry_of s)(f := e')" "mw_life w' \<noteq> Alive \<and> e' = None \<or>
      mw_life w' = Alive \<and> mc_client_fd (mw_conn w') = f \<and> (\<exists>i. e' = Some (i, Some H_monitor, d))"
    by (auto simp: mon_outcome_def mon_world_def w'(2))
  have s': "sel_inv s'" "resolution_jobs s' = resolution_jobs s" "is_auth_on (mw_glob w') \<longrightarrow> is_auth_on (sv_glob g)"
    using out by (auto simp: mon_outcome_def mon_world_def w'(2))
  have g': "sv_conns g' = sv_conns g" "sv_next g' = sv_next g" "sv_threads g' = sv_threads g" "sv_glob g' = mw_glob w'"
    "sv_mons g' = (sv_mons g)(m := if mw_life w' = Alive then Some (mw_conn w') else None)"
    by (simp_all add: w'(3) put_mon_def tick_def)
  note els = conns_elsewhere [OF ok(1) s'(1) e'(1) _ _ sv_mons_origin [OF inv _ e] g'(1)]
  have "conns_ok (s', g')" by (rule els(1)) (use e e'(2) s'(3) g' in auto)
  moreover have "threads_ok js (s', g')"
    by (rule threads_elsewhere [OF ok(3) els(2) g'(3)]) (use e e'(2) s'(3) g' in auto)
  moreover have "mons_ok (s', g')"
    by (rule mons_step [OF ok(2) e'(1) g'(5)]) (use c e e'(2) in \<open>auto simp: g'(2)\<close>)
  ultimately show ?thesis using s' e' by (auto simp: sv_inv_def)
qed

section \<open>New connections\<close>

lemma socks5_new_fields:
  assumes "socks5_new client_statbl ok f g = Inr (co, g')"
  shows "is_auth_on g' = is_auth_on g" "co = Some c \<Longrightarrow> client_fd c = f \<and> origin_fd c = -1 \<and> references c = 1"
  using assms by (auto simp: socks5_new_def Let_def split: if_splits)

text \<open>What \<open>socksv5_passive_accept\<close> does to the selector, and the connection it makes.\<close>

definition fresh_at :: "nat \<Rightarrow> fd \<Rightarrow> selector \<Rightarrow> socks5 \<Rightarrow> selector \<Rightarrow> globals \<Rightarrow> bool" where
  "fresh_at p f s c s' g' \<longleftrightarrow> entry_of s f = None \<and> entry_of s' = (entry_of s)(f \<mapsto> (OP_READ, Some H_socks5, Some p)) \<and>
     client_fd c = f \<and> origin_fd c = -1 \<and> references c = 1 \<and>
     so_stm c = \<lparr>stm_initial = HELLO_READ, stm_max_state = ERROR, stm_current = None\<rparr> \<and>
     reach \<lparr>cw_sel = s', cw_glob = g', cw_conn = c, cw_life = Alive, cw_out = []\<rparr>"

lemma passive_accept_outcome:
  assumes "socksv5_passive_accept a p (s, g) = Inr (s', g', co, out)" "sel_inv s"
  shows "sel_inv s' \<and> resolution_jobs s' = resolution_jobs s \<and> is_auth_on g' = is_auth_on g \<and>
    (case co of None \<Rightarrow> entry_of s' = entry_of s | Some c \<Rightarrow> ac_accept a \<noteq> -1 \<and> fresh_at p (ac_accept a) s c s' g')"
proof -
  let ?f = "ac_accept a"
  have new: "?thesis" if n: "socks5_new client_statbl (ac_malloc a) ?f g = Inr (Some c, g1)"
    and reg: "selector_register (ac_alloc a) s ?f (Some H_socks5) OP_READ (Some p) = Inr (st, s1)"
    and f: "?f \<noteq> -1" and c1: "c1 = c\<lparr>client_addr := overwrite (client_addr c) 0 (ac_addr a), client_addr_len := length (ac_addr a)\<rparr>"
    and res: "(s', g', co) = (if SELECTOR_SUCCESS \<noteq> st
        then (s1, cw_glob (socks5_destroy \<lparr>cw_sel = s1, cw_glob = g1, cw_conn = c1, cw_life = Alive, cw_out = []\<rparr>), None)
        else (s1, g1, Some c1))" for c g1 st s1 c1
  proof (cases "SELECTOR_SUCCESS = st")
    case True
    have "reach \<lparr>cw_sel = s1, cw_glob = g1, cw_conn = c1, cw_life = Alive, cw_out = []\<rparr>"
      unfolding c1 using n by (rule reach_start)
    then show ?thesis
      using True res f register_entry [OF assms(2) reg] socks5_new_fields [OF n] socks5_new_conn [OF n] c1
      by (auto simp: fresh_at_def)
  next
    case False
    then show ?thesis
      using res register_entry [OF assms(2) reg] socks5_new_fields [OF n]
      by (auto simp: socks5_destroy_def socks5_destroy_now_def)
  qed
  show ?thesis
  proof (cases "?f = -1 \<or> selector_fd_set_nio (ac_getfd a) (ac_setfl a) = -1")
    case True
    with assms show ?thesis by (auto simp: socksv5_passive_accept_def Let_def split: if_splits)
  next
    case False
    then obtain no g1 where n: "socks5_new client_statbl (ac_malloc a) ?f g = Inr (no, g1)"
      using assms(1) by (auto simp: socksv5_passive_accept_def Let_def)
    show ?thesis
    proof (cases no)
      case None
      with n False assms socks5_new_fields [OF n] show ?thesis by (auto simp: socksv5_passive_accept_def Let_def)
    next
      case (Some c)
      with n False assms(1) obtain st s1 where "selector_register (ac_alloc a) s ?f (Some H_socks5) OP_READ (Some p) = Inr (st, s1)"
        by (auto simp: socksv5_passive_accept_def Let_def split: if_splits)
      from new [OF n [unfolded Some] this] False n Some this assms(1) show ?thesis
        by (auto simp: socksv5_passive_accept_def Let_def split: if_splits)
    qed
  qed
qed

lemma unused_pointer:
  assumes "sv_inv js (s, g)" "sv_next g \<le> p"
  shows "sv_conns g p = None" "\<not> own p (entry_of s f)" "sv_mons g p = None"
proof -
  have ok: "conns_ok (s, g)" "mons_ok (s, g)" using assms(1) by (simp_all add: sv_inv_def)
  show none: "sv_conns g p = None"
    using conns_okD(1) [OF ok(1), of p] assms(2) by (cases "sv_conns g p") auto
  show "\<not> own p (entry_of s f)"
    using none conns_okD(2) [OF ok(1), of f] by (auto simp: own_def)
  show "sv_mons g p = None" using mons_okD(2) [OF ok(2), of p] assms(2) by (cases "sv_mons g p") auto
qed

lemma open_origin: "sv_conns g q = Some z \<Longrightarrow> f \<notin> open_fds (s, g) \<Longrightarrow> f \<noteq> -1 \<Longrightarrow> origin_fd (fst z) \<noteq> f"
  unfolding open_fds_def prod.case mem_Collect_eq by metis

lemma fresh_conn_ok:
  assumes "fresh_at p f s c s' (sv_glob g')" "sel_inv s'" "\<And>h. \<not> own p (entry_of s h)"
  shows "conn_ok p (conn_world s' g' (c, []))"
proof -
  have neg: "entry_of s' (-1) = None" using entry_range [OF assms(2), of "-1"] by fastforce
  have "owned p (conn_world s' g' (c, []))"
    using assms neg unfolding owned_def Let_def by (auto simp: fresh_at_def conn_world_def own_def)
  then show ?thesis
    using assms(1) by (simp add: conn_ok_def fresh_at_def conn_world_def get_stm_def placed_def machine_ok_def)
qed

lemma socks_accept_inv:
  assumes inv: "sv_inv js (s, g)" and k: "kernel_ok kn" and run: "socks_accept kn key (s, g) = Inr (s', g')"
  shows "sv_inv js (s', g') \<and> resolution_jobs s' = resolution_jobs s \<and> (\<forall>f. entry_of s f \<noteq> None \<longrightarrow> entry_of s' f = entry_of s f)"
proof -
  have ok: "conns_ok (s, g)" "mons_ok (s, g)" "threads_ok js (s, g)" "sel_inv s" using inv by (simp_all add: sv_inv_def)
  let ?p = "sv_next g" and ?f = "ac_accept (kn_accept kn key (s, g))"
  obtain g1 co out where a: "socksv5_passive_accept (kn_accept kn key (s, g)) ?p (s, sv_glob g) = Inr (s', g1, co, out)"
    and g': "g' = tick (g\<lparr>sv_glob := g1, sv_next := Suc ?p, sv_log := sv_log g @ out,
            sv_conns := (case co of None \<Rightarrow> sv_conns g | Some c1 \<Rightarrow> (sv_conns g)(?p \<mapsto> (c1, [])))\<rparr>)"
    using run by (auto simp: socks_accept_def Let_def)
  note o = passive_accept_outcome [OF a ok(4)]
  have unused: "sv_conns g ?p = None" "\<not> own ?p (entry_of s f)" for f using unused_pointer [OF inv order_refl] by auto
  have f: "?f \<notin> open_fds (s, g)" using k by (simp add: kernel_ok_def)
  have gf: "sv_conns g' = (sv_conns g)(?p := map_option (\<lambda>c. (c, [])) co)" "sv_next g' = Suc ?p" "sv_mons g' = sv_mons g"
    "sv_threads g' = sv_threads g" "sv_glob g' = g1"
    using unused(1) by (auto simp: g' tick_def split: option.splits)
  have fr: "foreign ?p s' = foreign ?p s" and keep: "\<forall>f. entry_of s f \<noteq> None \<longrightarrow> entry_of s' f = entry_of s f"
  proof -
    show "\<forall>f. entry_of s f \<noteq> None \<longrightarrow> entry_of s' f = entry_of s f"
      using o by (auto simp: fresh_at_def split: option.splits)
    show "foreign ?p s' = foreign ?p s"
    proof (cases co)
      case None
      then show ?thesis using o by (intro ext) (simp add: foreign_def)
    next
      case (Some c)
      then have "entry_of s' = (entry_of s)(?f \<mapsto> (OP_READ, Some H_socks5, Some ?p))" "entry_of s ?f = None"
        using o by (simp_all add: fresh_at_def)
      then show ?thesis using foreign_upd [of s' s ?f] by (simp add: own_def)
    qed
  qed
  have "conns_ok (s', g')"
  proof (rule conns_step [OF ok(1) _ fr gf(1)])
    show "sel_inv s'" "sv_next g \<le> sv_next g'" "is_auth_on (sv_glob g') \<longrightarrow> is_auth_on (sv_glob g)"
      using o by (simp_all add: gf)
    show "?p < sv_next g' \<and> conn_ok ?p (conn_world s' g' y) \<and> reach (conn_world s' g' y)"
      if y: "map_option (\<lambda>c. (c, [])) co = Some y" for y
    proof -
      obtain c where c: "co = Some c" "y = (c, [])" using y by auto
      then have fa: "fresh_at ?p ?f s c s' (sv_glob g')" using o by (simp add: gf)
      then have "conn_ok ?p (conn_world s' g' y)" using fresh_conn_ok [OF fa] o unused(2) c(2) by blast
      with fa c(2) show ?thesis by (simp add: fresh_at_def conn_world_def gf)
    qed
    show "\<forall>f. \<not> own ?p (entry_of s' f)" if "map_option (\<lambda>c. (c, [] :: out_event list)) co = None"
      using that o unused(2) by auto
    show "origin_fd (fst z) = -1 \<or> origin_fd (fst z) \<noteq> client_fd (fst y) \<and> origin_fd (fst z) \<noteq> origin_fd (fst y)"
      if y: "map_option (\<lambda>c. (c, [])) co = Some y" and z: "sv_conns g q = Some z" for q y z
    proof -
      have "client_fd (fst y) = ?f" "origin_fd (fst y) = -1" "?f \<noteq> -1" using y o by (auto simp: fresh_at_def)
      then show ?thesis using open_origin [OF z f] by simp
    qed
  qed
  moreover have "mons_ok (s', g')" using mons_foreign [OF ok(2) fr gf(3)] by (simp add: gf)
  moreover have "threads_ok js (s', g')"
    by (rule threads_step [OF ok(3) fr gf(1), where n = 0])
      (use ok(3) unused(1) gf(4) in \<open>auto simp: threads_ok_def waiting_def\<close>)
  ultimately show ?thesis using o keep by (simp add: sv_inv_def)
qed

lemma mon_accept_outcome:
  assumes "monitor_passive_accept (key, r) m w = Inr w'" "sel_inv (mw_sel w)" "mw_life w \<noteq> Alive"
  shows "sel_inv (mw_sel w') \<and> resolution_jobs (mw_sel w') = resolution_jobs (mw_sel w) \<and>
    is_auth_on (mw_glob w') = is_auth_on (mw_glob w) \<and>
    (if mw_life w' = Alive then mr_accept r \<noteq> -1 \<and> mc_client_fd (mw_conn w') = mr_accept r \<and> entry_of (mw_sel w) (mr_accept r) = None \<and>
       entry_of (mw_sel w') = (entry_of (mw_sel w))(mr_accept r \<mapsto> (OP_READ, Some H_monitor, Some m))
     else entry_of (mw_sel w') = entry_of (mw_sel w))"
proof -
  obtain no w1 where n: "connection_new (mr_malloc r) (mr_accept r) w = (no, w1)" by force
  then have w1: "mw_sel w1 = mw_sel w" "mw_glob w1 = mw_glob w" "mw_life w1 = mw_life w"
    "\<And>c. no = Some c \<Longrightarrow> mc_client_fd c = mr_accept r"
    by (auto simp: connection_new_def Let_def split: if_splits)
  show ?thesis
  proof (cases no)
    case None
    with assms n w1 show ?thesis by (auto simp: monitor_passive_accept_def Let_def memit_def split: if_splits)
  next
    case (Some c)
    show ?thesis
    proof (cases "mr_accept r = -1 \<or> selector_fd_set_nio (mr_getfd r) (mr_setfl r) = -1")
      case True
      with assms show ?thesis by (auto simp: monitor_passive_accept_def Let_def memit_def split: if_splits)
    next
      case False
      then obtain st s1 where reg: "selector_register (mr_alloc r) (mw_sel w) (mr_accept r) (Some H_monitor) OP_READ (Some m) = Inr (st, s1)"
        using assms(1) n Some w1(1) by (auto simp: monitor_passive_accept_def Let_def)
      let ?w2 = "w1\<lparr>mw_sel := s1, mw_conn := c, mw_life := Alive\<rparr>"
      have "w' = (if SELECTOR_SUCCESS \<noteq> st then connection_destroy (memit (Ev_close (mr_accept r)) ?w2)
          else upd_mconn monitor_init ?w2)"
        using assms(1) n Some w1(1) False reg by (auto simp: monitor_passive_accept_def Let_def)
      with register_entry [OF assms(2) reg] w1 Some False show ?thesis
        by (cases "st = SELECTOR_SUCCESS") (simp_all add: memit_def monitor_init_def)
    qed
  qed
qed

lemma mon_accept_inv:
  assumes inv: "sv_inv js (s, g)" and k: "kernel_ok kn" and run: "mon_accept kn key (s, g) = Inr (s', g')"
  shows "sv_inv js (s', g') \<and> resolution_jobs s' = resolution_jobs s \<and> (\<forall>f. entry_of s f \<noteq> None \<longrightarrow> entry_of s' f = entry_of s f)"
proof -
  have ok: "conns_ok (s, g)" "mons_ok (s, g)" "threads_ok js (s, g)" "sel_inv s" using inv by (simp_all add: sv_inv_def)
  let ?m = "sv_next g" and ?r = "kn_mon kn key (s, g)"
  let ?f = "mr_accept ?r" and ?w = "mon_world s g connection_zero Freed"
  obtain w' where a: "monitor_passive_accept (key, ?r) ?m ?w = Inr w'" and s': "s' = mw_sel w'"
    and g': "g' = tick ((put_mon ?m w' g)\<lparr>sv_next := Suc ?m\<rparr>)"
    using run by (auto simp: mon_accept_def Let_def)
  have o: "sel_inv s' \<and> resolution_jobs s' = resolution_jobs s \<and> is_auth_on (mw_glob w') = is_auth_on (sv_glob g) \<and>
    (if mw_life w' = Alive then ?f \<noteq> -1 \<and> mc_client_fd (mw_conn w') = ?f \<and> entry_of s ?f = None \<and>
       entry_of s' = (entry_of s)(?f \<mapsto> (OP_READ, Some H_monitor, Some ?m)) else entry_of s' = entry_of s)"
    using mon_accept_outcome [OF a] ok(4) by (simp add: mon_world_def s' cong: if_cong)
  have unused: "sv_mons g ?m = None" using unused_pointer [OF inv order_refl] by simp
  have f: "?f \<notin> open_fds (s, g)" using k by (simp add: kernel_ok_def)
  have gf: "sv_conns g' = sv_conns g" "sv_next g' = Suc ?m" "sv_threads g' = sv_threads g" "sv_glob g' = mw_glob w'"
    "sv_mons g' = (sv_mons g)(?m := if mw_life w' = Alive then Some (mw_conn w') else None)"
    by (simp_all add: g' put_mon_def tick_def)
  define h where "h = (if mw_life w' = Alive then ?f else -1)"
  have neg: "entry_of s (-1) = None" using entry_range [OF ok(4), of "-1"] by fastforce
  have e: "entry_of s' = (entry_of s)(h := if mw_life w' = Alive then Some (OP_READ, Some H_monitor, Some ?m) else None)"
    "entry_of s h = None"
    using o neg by (auto simp: h_def fun_upd_idem)
  have hole: "mw_life w' = Alive \<Longrightarrow> sv_conns g q = Some z \<Longrightarrow> origin_fd (fst z) \<noteq> h" for q z
    using open_origin [of g q z ?f s] f o by (simp add: h_def)
  have conns: "conns_ok (s', g')" and wait: "\<And>q j. waiting s g q j \<Longrightarrow> waiting s' g' q j"
  proof -
    show "conns_ok (s', g')"
    proof (cases "mw_life w' = Alive")
      case True
      show ?thesis
        by (rule conns_elsewhere(1) [OF ok(1) _ e(1) _ _ hole [OF True] gf(1)]) (use o e(2) in \<open>auto simp: gf\<close>)
    next
      case False
      then have "entry_of s' = entry_of s" using o by simp
      then have fr: "foreign ?m s' = foreign ?m s" by (intro ext) (simp add: foreign_def)
      have none: "sv_conns g' = (sv_conns g)(?m := None)" "\<And>f. \<not> own ?m (entry_of s f)"
        using unused_pointer [OF inv order_refl] gf(1) by auto
      show ?thesis
        by (rule conns_step [OF ok(1) _ fr none(1)]) (use o none(2) \<open>entry_of s' = entry_of s\<close> in \<open>auto simp: gf\<close>)
    qed
    show "waiting s' g' q j" if "waiting s g q j" for q j
      using that e(2) by (auto simp: waiting_def gf(1) e(1))
  qed
  moreover have "threads_ok js (s', g')" using threads_elsewhere [OF ok(3) wait gf(3)] by simp
  moreover have "mons_ok (s', g')"
    by (rule mons_step [OF ok(2) e(1) gf(5)]) (use unused e(2) o in \<open>auto simp: gf(2) h_def\<close>)
  moreover have "\<forall>f. entry_of s f \<noteq> None \<longrightarrow> entry_of s' f = entry_of s f" using e by auto
  ultimately show ?thesis using o by (simp add: sv_inv_def)
qed

section \<open>The resolver threads\<close>

lemma entry_frame: "fds s' = fds s \<Longrightarrow> entry_of s' = entry_of s"
  using interest_of_frame [of s' s] data_of_frame [of s' s] handler_of_frame [of s' s]
  by (intro ext) (simp add: entry_of_def)

lemma sel_inv_frame:
  assumes "fds s' = fds s" "fd_size s' = fd_size s" "max_fd s' = max_fd s" "master_r s' = master_r s" "master_w s' = master_w s"
  shows "sel_inv s' = sel_inv s"
  using assms interest_of_frame [OF assms(1)] by (simp add: sel_inv_def wants_def)

lemma resolv_blocking_frame:
  assumes "request_resolv_blocking ais ok kfd w = Inr w'"
  shows "cw_sel w' = (cw_sel w)\<lparr>resolution_jobs := (if ok then [kfd] else []) @ resolution_jobs (cw_sel w)\<rparr> \<and>
     cw_glob w' = cw_glob w \<and> cw_life w' = cw_life w \<and> cw_out w' = cw_out w \<and> so_stm (cw_conn w') = so_stm (cw_conn w) \<and>
     client_fd (cw_conn w') = client_fd (cw_conn w) \<and> origin_fd (cw_conn w') = origin_fd (cw_conn w) \<and>
     references (cw_conn w') = references (cw_conn w)"
  using assms
  by (auto simp: request_resolv_blocking_def Let_def set_request_def selector_notify_block_def split: option.splits)

lemma drop_thread:
  assumes "n < length ts" "ts ! n = x"
  shows "set ts = insert x (set (take n ts @ drop (Suc n) ts))" "distinct (map fst ts) \<Longrightarrow>
    distinct (map fst (take n ts @ drop (Suc n) ts)) \<and> fst x \<notin> fst ` set (take n ts @ drop (Suc n) ts)"
proof -
  have "ts = take n ts @ x # drop (Suc n) ts" using assms id_take_nth_drop by blast
  then obtain as bs where ts: "ts = as @ x # bs" "as = take n ts" "bs = drop (Suc n) ts" by blast
  then show "set ts = insert x (set (take n ts @ drop (Suc n) ts))" by (metis Un_insert_right set_append list.simps(15))
  show "distinct (map fst (take n ts @ drop (Suc n) ts)) \<and> fst x \<notin> fst ` set (take n ts @ drop (Suc n) ts)"
    if "distinct (map fst ts)"
    using that unfolding ts(2) [symmetric] ts(3) [symmetric] by (subst (asm) ts(1)) auto
qed

lemma waiting_thread:
  assumes "threads_ok js (s, g)" "n < length (sv_threads g)" "sv_threads g ! n = (p, kfd)"
  shows "waiting s g p kfd" "kfd \<notin> set js" "sv_conns g p \<noteq> None"
proof -
  have "(p, kfd) \<in> set (sv_threads g)" using assms(2,3) nth_mem by metis
  then show "waiting s g p kfd" "kfd \<notin> set js" using assms(1) unfolding threads_ok_def prod.case by blast+
  then show "sv_conns g p \<noteq> None" by (auto simp: waiting_def)
qed

lemma thread_ends_ub:
  assumes "threads_ok js (s, g)"
  shows "thread_ends ub n ais ok (s, g) = thread_ends ub' n ais ok (s, g)"
  using waiting_thread(3) [OF assms, of n] by (auto simp: thread_ends_def Let_def split: prod.splits option.splits)

lemma thread_ends_inv:
  assumes inv: "sv_inv (resolution_jobs s) (s, g)" and run: "thread_ends ub n ais ok (s, g) = Inr (s', g')"
  shows "sv_inv (resolution_jobs s') (s', g')"
proof (cases "n < length (sv_threads g)")
  case False
  with inv run show ?thesis by (simp add: thread_ends_def)
next
  case True
  obtain p kfd where pk: "sv_threads g ! n = (p, kfd)" by force
  have ok: "conns_ok (s, g)" "mons_ok (s, g)" "threads_ok (resolution_jobs s) (s, g)" "sel_inv s"
    using inv by (simp_all add: sv_inv_def)
  note wt = waiting_thread [OF ok(3) True pk]
  obtain x where x: "sv_conns g p = Some x" "client_fd (fst x) = kfd" "stm_current (so_stm (fst x)) = Some REQUEST_RESOLV"
    "entry_of s kfd = Some (OP_NOOP, Some H_socks5, Some p)"
    using wt(1) by (auto simp: waiting_def)
  let ?ts = "take n (sv_threads g) @ drop (Suc n) (sv_threads g)" and ?w = "conn_world s g x"
  obtain w' where w': "request_resolv_blocking ais ok kfd ?w = Inr w'" "s' = cw_sel w'"
    "g' = put_world p kfd (threads_of ?w) w' (g\<lparr>sv_threads := ?ts\<rparr>)"
    using run True pk x(1) by (auto simp: thread_ends_def Let_def conn_world_def)
  note fr = resolv_blocking_frame [OF w'(1)]
  have s': "entry_of s' = entry_of s" "sel_inv s'" "resolution_jobs s' = (if ok then [kfd] else []) @ resolution_jobs s"
    using fr ok(4) sel_inv_frame [of s' s] entry_frame [of s' s] by (auto simp: w'(2) conn_world_def)
  have g': "sv_conns g' = (sv_conns g)(p \<mapsto> (cw_conn w', cw_out w'))" "sv_next g' = sv_next g" "sv_mons g' = sv_mons g"
    "sv_threads g' = ?ts" "sv_glob g' = sv_glob g"
    using fr by (simp_all add: w'(3) put_world_def threads_of_def conn_world_def)
  have self: "conn_world s' g' (cw_conn w', cw_out w') = w'"
    using fr by (simp add: conn_world_def g'(5) w'(2))
  have frn: "foreign q s' = foreign q s" for q by (intro ext) (simp add: foreign_def s'(1))
  have c: "conn_ok p ?w" "reach ?w" "p < sv_next g" using conns_okD(1) [OF ok(1) x(1)] by simp_all
  have "conn_ok p w'"
    using c(1) fr s' x(3) by (simp add: conn_ok_def owned_def Let_def quiet_def placed_def get_stm_def conn_world_def w'(2))
  have "conns_ok (s', g')"
  proof (rule conns_step [OF ok(1) s'(2) frn g'(1)])
    show "sv_next g \<le> sv_next g'" "is_auth_on (sv_glob g') \<longrightarrow> is_auth_on (sv_glob g)" by (simp_all add: g')
    show "p < sv_next g' \<and> conn_ok p (conn_world s' g' y) \<and> reach (conn_world s' g' y)"
      if "Some (cw_conn w', cw_out w') = Some y" for y
      using that \<open>conn_ok p w'\<close> reach_thread [OF c(2) w'(1)] c(3) self by (auto simp: g'(2))
    show "origin_fd (fst z) = -1 \<or> origin_fd (fst z) \<noteq> client_fd (fst y) \<and> origin_fd (fst z) \<noteq> origin_fd (fst y)"
      if "Some (cw_conn w', cw_out w') = Some y" "sv_conns g q = Some z" "q \<noteq> p" for q y z
      using that origin_apart [OF ok(1) x(1) that(2,3)] fr by (auto simp: conn_world_def)
  qed simp
  moreover have "mons_ok (s', g')" using mons_foreign [OF ok(2) frn g'(3)] by (simp add: g'(2))
  moreover have "threads_ok (resolution_jobs s') (s', g')"
  proof -
    have wait: "waiting s' g' q f" if "waiting s g q f" for q f
      using that fr x by (auto simp: waiting_def g'(1) s'(1) conn_world_def)
    have d: "distinct (map fst (sv_threads g))" "distinct (resolution_jobs s)"
      using ok(3) by (simp_all add: threads_ok_def)
    have "f \<noteq> kfd" if "(q, f) \<in> set ?ts" for q f
    proof -
      have "q \<noteq> p" using drop_thread(2) [OF True pk d(1)] that by force
      moreover have "waiting s g q f" using ok(3) that drop_thread(1) [OF True pk] unfolding threads_ok_def prod.case by blast
      ultimately show ?thesis using x(4) by (auto simp: waiting_def)
    qed
    moreover have "waiting s g q f \<and> f \<notin> set (resolution_jobs s)" if "(q, f) \<in> set ?ts" for q f
      using ok(3) that drop_thread(1) [OF True pk] unfolding threads_ok_def prod.case by blast
    moreover have "\<exists>q. waiting s' g' q j" if "j \<in> set (resolution_jobs s')" for j
      using that wait wt(1) ok(3) unfolding threads_ok_def prod.case s'(3) by (fastforce split: if_splits)
    moreover have "distinct (resolution_jobs s')" using d(2) wt(2) by (simp add: s'(3))
    moreover have "distinct (map fst ?ts)" using drop_thread(2) [OF True pk d(1)] by blast
    ultimately show ?thesis
      using wait unfolding threads_ok_def prod.case g'(4) s'(3) by (fastforce split: if_splits)
  qed
  ultimately show ?thesis using s' by (simp add: sv_inv_def)
qed

end
