(* ===== verification/Dispatch.thy ===== *)
theory Dispatch
  imports Serving
begin

text \<open>
  The loop of the server: \<open>handle_iteration\<close>, \<open>handle_block_notifications\<close> and \<open>selector_select\<close> keep the
  invariant of \<open>Serving\<close> whatever descriptors are ready and whenever the resolver threads finish, and
  what they do does not depend on what following a stale pointer would do.
\<close>

section \<open>Dispatching\<close>

lemma item_entry:
  assumes "sel_inv s" "sel_item s f = Inr it"
  shows "ITEM_USED it \<Longrightarrow> entry_of s f = Some (it_interest it, it_handler it, it_data it) \<and> it_fd it = f"
    "\<not> ITEM_USED it \<Longrightarrow> it_interest it = OP_NOOP"
proof -
  obtain xs where xs: "fds s = Some xs" "length xs = fd_size s" "\<forall>i < length xs. item_ok (int i) (xs ! i)"
    using assms(1) by (auto simp: sel_inv_def)
  then have "0 \<le> f" "f < int (length xs)" "it = xs ! nat f"
    using assms(2) by (auto simp: sel_item_def mem_get_def split: if_splits)
  with xs(3) have ok: "item_ok f it" by (metis int_nat_eq nat_less_iff)
  show "ITEM_USED it \<Longrightarrow> entry_of s f = Some (it_interest it, it_handler it, it_data it) \<and> it_fd it = f"
    using ok assms(2) by (simp add: entry_of_def interest_of_def handler_of_def data_of_def item_ok_def)
  show "\<not> ITEM_USED it \<Longrightarrow> it_interest it = OP_NOOP" using ok by (simp add: item_ok_def)
qed

lemma call_ub:
  assumes "sv_inv js (s, g)" "entry_of s f = Some (i, h, d)" "sel \<in> {handle_read, handle_write, handle_block}"
  shows "call_handler (all_handlers ub kn) sel m h \<lparr>key_fd = f, key_data = d\<rparr> (s, g) =
     call_handler (all_handlers ub' kn) sel m h \<lparr>key_fd = f, key_data = d\<rparr> (s, g)"
proof (cases h)
  case (Some h')
  have ok: "conns_ok (s, g)" "mons_ok (s, g)" using assms(1) by (simp_all add: sv_inv_def)
  show ?thesis
  proof (cases h')
    case H_socks5
    with Some assms(2) conns_okD(2) [OF ok(1), of f i d] obtain p x where "d = Some p" "sv_conns g p = Some x" by auto
    with Some H_socks5 assms(3) show ?thesis by (auto simp: call_handler_def all_handlers_def conn_callback_def)
  next
    case H_monitor
    with Some assms(2) mons_okD(1) [OF ok(2), of f i d] obtain p x where "d = Some p" "sv_mons g p = Some x" by auto
    with Some H_monitor assms(3) show ?thesis by (auto simp: call_handler_def all_handlers_def mon_callback_def)
  qed (use Some assms(3) in \<open>auto simp: call_handler_def all_handlers_def\<close>)
qed (simp add: call_handler_def)

lemma conn_idle_event:
  assumes inv: "sv_inv js (s, g)" and e: "entry_of s f = Some (i, Some H_socks5, Some p)" "i \<noteq> OP_NOOP"
    and x: "sv_conns g p = Some x"
  shows "p \<notin> fst ` set (sv_threads g)" "client_fd (fst x) \<notin> set js"
    "stm_current (so_stm (fst x)) = Some REQUEST_CONNECTING \<Longrightarrow> f = client_fd (fst x) \<Longrightarrow> entry_of s (origin_fd (fst x)) = None"
proof -
  have ok: "conns_ok (s, g)" "threads_ok js (s, g)" "sel_inv s" using inv by (simp_all add: sv_inv_def)
  have c: "conn_ok p (conn_world s g x)" using conns_okD(1) [OF ok(1) x] by simp
  then have own: "own p (entry_of s (client_fd (fst x)))" "f = client_fd (fst x) \<or> f = origin_fd (fst x)"
    using e(1) by (auto simp: conn_ok_def owned_def Let_def conn_world_def own_def)
  have neg: "f \<noteq> -1" using entry_range [OF ok(3), of f] e(1) by auto
  have not: "\<not> waiting s g p j" for j
  proof
    assume "waiting s g p j"
    then have w: "client_fd (fst x) = j" "stm_current (so_stm (fst x)) = Some REQUEST_RESOLV"
      "entry_of s j = Some (OP_NOOP, Some H_socks5, Some p)" using x by (auto simp: waiting_def)
    then have "origin_fd (fst x) = -1" using c by (simp add: conn_ok_def placed_def conn_world_def get_stm_def st_defs)
    with own(2) neg w e show False by auto
  qed
  then show "p \<notin> fst ` set (sv_threads g)" using ok(2) by (force simp: threads_ok_def)
  show "client_fd (fst x) \<notin> set js"
  proof
    assume "client_fd (fst x) \<in> set js"
    then obtain q where "waiting s g q (client_fd (fst x))" using ok(2) by (auto simp: threads_ok_def)
    moreover from this own(1) have "q = p" by (auto simp: waiting_def own_def)
    ultimately show False using not by blast
  qed
  show "entry_of s (origin_fd (fst x)) = None"
    if "stm_current (so_stm (fst x)) = Some REQUEST_CONNECTING" "f = client_fd (fst x)"
    using c that e by (auto simp: conn_ok_def quiet_def conn_world_def get_stm_def)
qed

lemma call_inv:
  assumes inv: "sv_inv js (s, g)" and k: "kernel_ok kn" and e: "entry_of s f = Some (i, h, d)" "i \<noteq> OP_NOOP"
    and sel: "sel \<in> {handle_read, handle_write}"
    and run: "call_handler (all_handlers ub kn) sel Assert_fail h \<lparr>key_fd = f, key_data = d\<rparr> (s, g) = Inr (s', g')"
  shows "sv_inv js (s', g') \<and> resolution_jobs s' = resolution_jobs s \<and>
     (entry_of s' f = None \<or> (\<exists>i'. entry_of s' f = Some (i', h, d)))"
proof -
  obtain h' where h: "h = Some h'" using run by (cases h) (auto simp: call_handler_def)
  let ?key = "\<lparr>key_fd = f, key_data = d\<rparr>"
  show ?thesis
  proof (cases h')
    case H_socks5
    then obtain p x where p: "d = Some p" "sv_conns g p = Some x"
      using conns_okD(2) [of s g f i d] inv e(1) h by (auto simp: sv_inv_def)
    have "\<exists>ev \<in> {socksv5_read, socksv5_write}. conn_callback ub kn ev ?key (s, g) = Inr (s', g')"
      using run sel h H_socks5 by (auto simp: call_handler_def all_handlers_def)
    then obtain ev where ev: "ev \<in> {socksv5_read, socksv5_write}" "conn_callback ub kn ev ?key (s, g) = Inr (s', g')" ..
    have e': "entry_of s f = Some (i, Some H_socks5, Some p)" using e(1) h H_socks5 p(1) by simp
    note idle = conn_idle_event [OF inv e' e(2) p(2)]
    have "sv_inv js (s', g') \<and> resolution_jobs s' = resolution_jobs s \<and> (entry_of s' (key_fd ?key) = None \<or> own p (entry_of s' (key_fd ?key)))"
      by (rule conn_event_inv [OF inv k p(2) _ _ _ idle(1,2) _ ev(2)]) (use p(1) e' idle(3) ev(1) in \<open>auto simp: own_def\<close>)
    then show ?thesis using h H_socks5 p(1) by (auto simp: own_def)
  next
    case H_monitor
    have "\<exists>ev \<in> {monitor_read, monitor_write}. mon_callback ub kn ev ?key (s, g) = Inr (s', g')"
      using run sel h H_monitor by (auto simp: call_handler_def all_handlers_def)
    then obtain ev where ev: "ev \<in> {monitor_read, monitor_write}" "mon_callback ub kn ev ?key (s, g) = Inr (s', g')" ..
    show ?thesis using mon_event_inv [OF inv _ _ _ ev, of f i d] e(1) h H_monitor by simp
  next
    case H_socks5_passive
    then have "socks_accept kn ?key (s, g) = Inr (s', g')"
      using run sel h by (auto simp: call_handler_def all_handlers_def)
    then show ?thesis using socks_accept_inv [OF inv k] e(1) by auto
  next
    case H_monitor_passive
    then have "mon_accept kn ?key (s, g) = Inr (s', g')"
      using run sel h by (auto simp: call_handler_def all_handlers_def)
    then show ?thesis using mon_accept_inv [OF inv k] e(1) by auto
  qed
qed

text \<open>A guarded call of the read or write handler of a registered item.\<close>

definition guarded_call ::
  "undefined_behaviour \<Rightarrow> kernel \<Rightarrow> bool \<Rightarrow> ((handler_id, nat, server) fd_handler \<Rightarrow> (handler_id, nat, server) callback option) \<Rightarrow>
   (handler_id, nat) item \<Rightarrow> nat selector_key \<Rightarrow> sstate \<Rightarrow> sstate res" where
  "guarded_call ub kn c sel it key sg = (if c then call_handler (all_handlers ub kn) sel Assert_fail (it_handler it) key sg else Inr sg)"

lemma guarded_call_ok:
  assumes inv: "sv_inv js (s, g)" and k: "kernel_ok kn" and sel: "sel \<in> {handle_read, handle_write}"
    and it: "entry_of s f = Some (it_interest it, it_handler it, it_data it)" and key: "key = \<lparr>key_fd = f, key_data = it_data it\<rparr>"
    and c: "c \<Longrightarrow> it_interest it \<noteq> OP_NOOP"
  shows "guarded_call ub kn c sel it key (s, g) = guarded_call ub' kn c sel it key (s, g)"
    "guarded_call ub kn c sel it key (s, g) = Inr (s', g') \<Longrightarrow> sv_inv js (s', g') \<and> resolution_jobs s' = resolution_jobs s \<and>
      (entry_of s' f = None \<or> (\<exists>i'. entry_of s' f = Some (i', it_handler it, it_data it)))"
proof -
  show "guarded_call ub kn c sel it key (s, g) = guarded_call ub' kn c sel it key (s, g)"
    using call_ub [OF inv it, of sel ub kn Assert_fail ub'] sel by (auto simp: guarded_call_def key)
  show "sv_inv js (s', g') \<and> resolution_jobs s' = resolution_jobs s \<and>
      (entry_of s' f = None \<or> (\<exists>i'. entry_of s' f = Some (i', it_handler it, it_data it)))"
    if "guarded_call ub kn c sel it key (s, g) = Inr (s', g')"
  proof (cases c)
    case True
    with that show ?thesis by (intro call_inv [OF inv k it c sel]) (simp_all add: guarded_call_def key)
  next
    case False
    with that inv it show ?thesis by (simp add: guarded_call_def)
  qed
qed

lemma handle_item_split:
  "handle_item (all_handlers ub kn) i (s, g) =
     rbind (sel_item s i) (\<lambda>it.
       if ITEM_USED it then
         let key = \<lparr>key_fd = it_fd it, key_data = it_data it\<rparr>
         in rbind (guarded_call ub kn (it_fd it \<in> slave_r s \<and> OP_READ AND it_interest it \<noteq> 0) handle_read it key (s, g)) (\<lambda>(s1, g1).
            rbind (sel_item s1 i) (\<lambda>it1.
              guarded_call ub kn (it_fd it1 \<in> slave_w s1 \<and> OP_WRITE AND it_interest it1 \<noteq> 0) handle_write it1 key (s1, g1)))
       else Inr (s, g))"
  unfolding handle_item_def guarded_call_def by simp

lemma handle_item_ok:
  assumes inv: "sv_inv js (s, g)" and k: "kernel_ok kn"
  shows "handle_item (all_handlers ub kn) f (s, g) = handle_item (all_handlers ub' kn) f (s, g)"
    "handle_item (all_handlers ub kn) f (s, g) = Inr (s', g') \<Longrightarrow> sv_inv js (s', g') \<and> resolution_jobs s' = resolution_jobs s"
proof -
  have "handle_item (all_handlers ub kn) f (s, g) = handle_item (all_handlers ub' kn) f (s, g) \<and>
    (\<forall>s' g'. handle_item (all_handlers ub kn) f (s, g) = Inr (s', g') \<longrightarrow> sv_inv js (s', g') \<and> resolution_jobs s' = resolution_jobs s)"
  proof (cases "\<exists>it. sel_item s f = Inr it \<and> ITEM_USED it")
    case False
    then show ?thesis using inv by (cases "sel_item s f") (auto simp: handle_item_split)
  next
    case True
    then obtain it where it: "sel_item s f = Inr it" "ITEM_USED it" by blast
    have sinv: "sel_inv s" using inv by (simp add: sv_inv_def)
    have e: "entry_of s f = Some (it_interest it, it_handler it, it_data it)" "it_fd it = f" using item_entry(1) [OF sinv it] by simp_all
    let ?key = "\<lparr>key_fd = f, key_data = it_data it\<rparr>"
    let ?r = "\<lambda>ub. guarded_call ub kn (f \<in> slave_r s \<and> OP_READ AND it_interest it \<noteq> 0) handle_read it ?key (s, g)"
    let ?w = "\<lambda>ub it1 s1 g1. guarded_call ub kn (it_fd it1 \<in> slave_w s1 \<and> OP_WRITE AND it_interest it1 \<noteq> 0) handle_write it1 ?key (s1, g1)"
    have run: "handle_item (all_handlers ub kn) f (s, g) = rbind (?r ub) (\<lambda>(s1, g1). rbind (sel_item s1 f) (\<lambda>it1. ?w ub it1 s1 g1))" for ub
      using it e(2) by (simp add: handle_item_split Let_def)
    note r = guarded_call_ok [OF inv k _ e(1) refl]
    have same: "?r ub = ?r ub'" by (rule r(1)) (auto simp: OP_NOOP_def)
    have after: "sv_inv js (s1, g1) \<and> resolution_jobs s1 = resolution_jobs s \<and>
        (entry_of s1 f = None \<or> (\<exists>i'. entry_of s1 f = Some (i', it_handler it, it_data it)))" if "?r ub = Inr (s1, g1)" for s1 g1
      by (rule r(2) [OF _ _ that]) (auto simp: OP_NOOP_def)
    have second: "?w ub it1 s1 g1 = ?w ub' it1 s1 g1 \<and>
        (?w ub it1 s1 g1 = Inr (s2, g2) \<longrightarrow> sv_inv js (s2, g2) \<and> resolution_jobs s2 = resolution_jobs s)"
      if "?r ub = Inr (s1, g1)" "sel_item s1 f = Inr it1" for s1 g1 it1 s2 g2
    proof (cases "ITEM_USED it1")
      case False
      have "sel_inv s1" using after [OF that(1)] by (simp add: sv_inv_def)
      then have "it_interest it1 = OP_NOOP" using item_entry(2) that(2) False by blast
      then show ?thesis using after [OF that(1)] by (auto simp: guarded_call_def OP_NOOP_def)
    next
      case True
      note a = after [OF that(1)]
      have e1: "entry_of s1 f = Some (it_interest it1, it_handler it1, it_data it1)"
        using item_entry(1) [OF _ that(2) True] a by (simp add: sv_inv_def)
      then have key: "?key = \<lparr>key_fd = f, key_data = it_data it1\<rparr>" using a by auto
      note g = guarded_call_ok [OF conjunct1 [OF a] k _ e1 key, where sel = handle_write]
      have "?w ub it1 s1 g1 = ?w ub' it1 s1 g1" by (rule g(1)) (auto simp: OP_NOOP_def)
      moreover have "sv_inv js (s2, g2) \<and> resolution_jobs s2 = resolution_jobs s1" if "?w ub it1 s1 g1 = Inr (s2, g2)"
      proof -
        have "sv_inv js (s2, g2) \<and> resolution_jobs s2 = resolution_jobs s1 \<and>
          (entry_of s2 f = None \<or> (\<exists>i'. entry_of s2 f = Some (i', it_handler it1, it_data it1)))"
          by (rule g(2) [OF _ _ that]) (auto simp: OP_NOOP_def)
        then show ?thesis by blast
      qed
      ultimately show ?thesis using a by auto
    qed
    show ?thesis
    proof (cases "?r ub")
      case (Inl err)
      then show ?thesis using same by (simp add: run)
    next
      case (Inr sg1)
      obtain s1 g1 where r1: "?r ub = Inr (s1, g1)" using Inr by (cases sg1) simp
      then have r2: "?r ub' = Inr (s1, g1)" using same by simp
      show ?thesis
      proof (cases "sel_item s1 f")
        case (Inl err)
        then show ?thesis by (simp add: run r1 r2)
      next
        case (Inr it1)
        have "?w ub it1 s1 g1 = ?w ub' it1 s1 g1"
          "\<And>s2 g2. ?w ub it1 s1 g1 = Inr (s2, g2) \<Longrightarrow> sv_inv js (s2, g2) \<and> resolution_jobs s2 = resolution_jobs s"
          using second [OF r1 Inr] by blast+
        then show ?thesis by (simp add: run r1 r2 Inr)
      qed
    qed
  qed
  then show "handle_item (all_handlers ub kn) f (s, g) = handle_item (all_handlers ub' kn) f (s, g)"
    "handle_item (all_handlers ub kn) f (s, g) = Inr (s', g') \<Longrightarrow> sv_inv js (s', g') \<and> resolution_jobs s' = resolution_jobs s"
    by blast+
qed

lemma handle_items_ok:
  assumes "sv_inv js (s, g)" "kernel_ok kn"
  shows "handle_items (all_handlers ub kn) fs (s, g) = handle_items (all_handlers ub' kn) fs (s, g) \<and>
    (\<forall>s' g'. handle_items (all_handlers ub kn) fs (s, g) = Inr (s', g') \<longrightarrow> sv_inv js (s', g') \<and> resolution_jobs s' = resolution_jobs s)"
  using assms(1)
proof (induction fs arbitrary: s g)
  case (Cons f fs)
  note h = handle_item_ok [OF Cons.prems assms(2)]
  show ?case
  proof (cases "handle_item (all_handlers ub kn) f (s, g)")
    case (Inl err)
    moreover have "handle_item (all_handlers ub' kn) f (s, g) = Inl err" using h(1) [of ub f ub'] Inl by simp
    ultimately show ?thesis by simp
  next
    case (Inr sg)
    obtain s1 g1 where sg: "sg = (s1, g1)" by force
    note i = h(2) [OF Inr [unfolded sg]]
    have "handle_item (all_handlers ub' kn) f (s, g) = Inr (s1, g1)" using h(1) [of ub f ub'] Inr sg by simp
    then show ?thesis using Inr sg Cons.IH [of s1 g1] i by auto
  qed
qed simp

lemma sv_inv_frame:
  assumes "sv_inv js (s, g)" "fds s' = fds s" "fd_size s' = fd_size s" "max_fd s' = max_fd s" "master_r s' = master_r s"
    "master_w s' = master_w s"
  shows "sv_inv js (s', g)"
proof -
  have e: "entry_of s' = entry_of s" "sel_inv s' = sel_inv s" using entry_frame sel_inv_frame assms by blast+
  have "conn_ok p (conn_world s' g x) = conn_ok p (conn_world s g x)" for p x
    by (simp add: conn_ok_def owned_def Let_def quiet_def conn_world_def get_stm_def e)
  moreover have "reach (conn_world s g x) \<Longrightarrow> reach (conn_world s' g x)" for x
    by (rule reach_other, assumption) (simp_all add: conn_world_def)
  ultimately have "conns_ok (s', g)" using assms(1) unfolding sv_inv_def conns_ok_def prod.case e by fastforce
  then show ?thesis
    using assms(1) by (simp add: sv_inv_def e mons_ok_def threads_ok_def waiting_def)
qed

lemma handle_job_ok:
  assumes inv: "sv_inv (j # js) (s, g)" and k: "kernel_ok kn"
  shows "handle_job (all_handlers ub kn) j (s, g) = handle_job (all_handlers ub' kn) j (s, g)"
    "handle_job (all_handlers ub kn) j (s, g) = Inr (s', g') \<Longrightarrow> sv_inv js (s', g')"
proof -
  have ok: "threads_ok (j # js) (s, g)" "sel_inv s" using inv by (simp_all add: sv_inv_def)
  then obtain p x where x: "sv_conns g p = Some x" "client_fd (fst x) = j" "stm_current (so_stm (fst x)) = Some REQUEST_RESOLV"
    and e: "entry_of s j = Some (OP_NOOP, Some H_socks5, Some p)"
    by (auto simp: threads_ok_def waiting_def)
  then obtain it where it: "sel_item s j = Inr it" by (auto simp: entry_of_def interest_of_def split: sum.splits)
  then have used: "ITEM_USED it" using e by (auto simp: entry_of_def interest_of_def split: if_splits)
  note ie = item_entry(1) [OF ok(2) it used]
  let ?key = "\<lparr>key_fd = j, key_data = Some p\<rparr>"
  have run: "handle_job (all_handlers ub kn) j (s, g) = conn_callback ub kn socksv5_block ?key (s, g)" for ub
  proof -
    have "it_handler it = Some H_socks5" "it_data it = Some p" "it_fd it = j" using ie e by simp_all
    then show ?thesis using it used by (simp add: handle_job_def call_handler_def all_handlers_def)
  qed
  show "handle_job (all_handlers ub kn) j (s, g) = handle_job (all_handlers ub' kn) j (s, g)"
    using x(1) by (simp add: run conn_callback_def)
  have inv': "sv_inv js (s, g)" using inv by (auto simp: sv_inv_def threads_ok_def)
  have free: "p \<notin> fst ` set (sv_threads g)" "j \<notin> set js"
  proof -
    show "j \<notin> set js" using ok(1) by (simp add: threads_ok_def)
    have "f = j" if "waiting s g p f" for f using that x(1,2) by (auto simp: waiting_def)
    then show "p \<notin> fst ` set (sv_threads g)" using ok(1) by (fastforce simp: threads_ok_def)
  qed
  show "sv_inv js (s', g')" if "handle_job (all_handlers ub kn) j (s, g) = Inr (s', g')"
  proof -
    have cb: "conn_callback ub kn socksv5_block ?key (s, g) = Inr (s', g')" using that by (simp add: run)
    have "sv_inv js (s', g') \<and> resolution_jobs s' = resolution_jobs s \<and>
        (entry_of s' (key_fd ?key) = None \<or> own p (entry_of s' (key_fd ?key)))"
      by (rule conn_event_inv [OF inv' k x(1) _ _ _ free(1) _ _ cb]) (use x e free(2) in \<open>simp_all add: own_def\<close>)
    then show ?thesis by blast
  qed
qed

lemma handle_jobs_ok:
  assumes "sv_inv js (s, g)" "kernel_ok kn"
  shows "handle_jobs (all_handlers ub kn) js (s, g) = handle_jobs (all_handlers ub' kn) js (s, g) \<and>
    (\<forall>s' g'. handle_jobs (all_handlers ub kn) js (s, g) = Inr (s', g') \<longrightarrow> sv_inv [] (s', g'))"
  using assms(1)
proof (induction js arbitrary: s g)
  case (Cons j js)
  note h = handle_job_ok [OF Cons.prems assms(2)]
  show ?case
  proof (cases "handle_job (all_handlers ub kn) j (s, g)")
    case (Inl err)
    moreover have "handle_job (all_handlers ub' kn) j (s, g) = Inl err" using h(1) [of ub ub'] Inl by simp
    ultimately show ?thesis by simp
  next
    case (Inr sg)
    obtain s1 g1 where sg: "sg = (s1, g1)" by force
    have "handle_job (all_handlers ub' kn) j (s, g) = Inr (s1, g1)" using h(1) [of ub ub'] Inr sg by simp
    then show ?thesis using h(2) [of ub s1 g1] Inr sg Cons.IH [of s1 g1] by auto
  qed
qed simp

section \<open>Runs\<close>

lemma sv_inv_slaves:
  assumes "sv_inv js (s, g)"
  shows "sv_inv js (s\<lparr>slave_r := r, slave_w := w, slave_t := t\<rparr>, g)" "sv_inv js (s\<lparr>slave_r := r, slave_w := w\<rparr>, g)"
    "sv_inv js (s\<lparr>resolution_jobs := l\<rparr>, g)"
  by (rule sv_inv_frame [OF assms]; simp)+

lemma handle_block_notifications_ok:
  assumes "sv_inv (resolution_jobs s) (s, g)" "kernel_ok kn"
  shows "handle_block_notifications (all_handlers ub kn) (s, g) = handle_block_notifications (all_handlers ub' kn) (s, g)"
    "handle_block_notifications (all_handlers ub kn) (s, g) = Inr (s', g') \<Longrightarrow> sv_inv (resolution_jobs s') (s', g')"
proof -
  note h = handle_jobs_ok [OF assms, of ub ub']
  show "handle_block_notifications (all_handlers ub kn) (s, g) = handle_block_notifications (all_handlers ub' kn) (s, g)"
    using conjunct1 [OF h] by (simp add: handle_block_notifications_def)
  show "sv_inv (resolution_jobs s') (s', g')" if "handle_block_notifications (all_handlers ub kn) (s, g) = Inr (s', g')"
    using that h sv_inv_slaves(3) by (auto simp: handle_block_notifications_def)
qed

lemma selector_select_ok:
  assumes inv: "sv_inv (resolution_jobs s) (s, g)" and k: "kernel_ok kn"
  shows "selector_select (all_handlers ub kn) r (s, g) = selector_select (all_handlers ub' kn) r (s, g)"
    "selector_select (all_handlers ub kn) r (s, g) = Inr (ss, s', g') \<Longrightarrow> sv_inv (resolution_jobs s') (s', g')"
proof -
  let ?s0 = "s\<lparr>slave_r := master_r s, slave_w := master_w s, slave_t := master_t s\<rparr>"
  let ?s1 = "\<lambda>rs ws. ?s0\<lparr>slave_r := slave_r ?s0 \<inter> rs, slave_w := slave_w ?s0 \<inter> ws\<rparr>"
  have i0: "sv_inv (resolution_jobs ?s0) (?s0, g)" using sv_inv_slaves(1) [OF inv] by simp
  have i1: "sv_inv (resolution_jobs (?s1 rs ws)) (?s1 rs ws, g)" for rs ws using sv_inv_slaves(2) [OF i0] by simp
  note b0 = handle_block_notifications_ok [OF i0 k]
  have it: "handle_iteration (all_handlers ub kn) (?s1 rs ws, g) = handle_iteration (all_handlers ub' kn) (?s1 rs ws, g)" for rs ws
    using handle_items_ok [OF i1 k, where ub = ub and ub' = ub'] unfolding handle_iteration_def by blast
  have after: "sv_inv (resolution_jobs s2) (s2, g2)" if "handle_iteration (all_handlers ub kn) (?s1 rs ws, g) = Inr (s2, g2)"
    for rs ws s2 g2
    using handle_items_ok [OF i1 k, where ub = ub and ub' = ub'] that unfolding handle_iteration_def by metis
  show "selector_select (all_handlers ub kn) r (s, g) = selector_select (all_handlers ub' kn) r (s, g)"
  proof (cases r)
    case (Sel_ready rs ws)
    have "rbind (handle_iteration (all_handlers ub kn) (?s1 rs ws, g)) (\<lambda>sg. rbind (handle_block_notifications (all_handlers ub kn) sg) f)
      = rbind (handle_iteration (all_handlers ub' kn) (?s1 rs ws, g)) (\<lambda>sg. rbind (handle_block_notifications (all_handlers ub' kn) sg) f)"
      for f :: "sstate \<Rightarrow> (selector_status \<times> sstate) res"
    proof (rule rbind_cong [OF it])
      fix sg assume "handle_iteration (all_handlers ub' kn) (?s1 rs ws, g) = Inr sg"
      then have "sv_inv (resolution_jobs (fst sg)) (fst sg, snd sg)" 
        using after [where rs = rs and ws = ws and ?s2.0 = "fst sg" and ?g2.0 = "snd sg"] it [where rs = rs and ws = ws] by simp
      from handle_block_notifications_ok(1) [OF this k, of ub ub']
      show "rbind (handle_block_notifications (all_handlers ub kn) sg) f = rbind (handle_block_notifications (all_handlers ub' kn) sg) f"
        by simp
    qed
    then show ?thesis unfolding selector_select_def Sel_ready prod.case Let_def pselect_result.case by blast
  next
    case Sel_interrupted
    then show ?thesis using b0(1) [of ub ub'] by (simp add: selector_select_def Let_def)
  qed (simp_all add: selector_select_def)
  show "sv_inv (resolution_jobs s') (s', g')" if run: "selector_select (all_handlers ub kn) r (s, g) = Inr (ss, s', g')"
  proof (cases r)
    case (Sel_ready rs ws)
    then obtain s2 g2 where "handle_iteration (all_handlers ub kn) (?s1 rs ws, g) = Inr (s2, g2)"
      "handle_block_notifications (all_handlers ub kn) (s2, g2) = Inr (s', g')"
      using run by (auto simp: selector_select_def Let_def)
    then show ?thesis using handle_block_notifications_ok(2) [OF after k] by blast
  next
    case Sel_interrupted
    then show ?thesis using run b0(2) by (auto simp: selector_select_def Let_def)
  qed (use run i0 in \<open>auto simp: selector_select_def\<close>)
qed

lemma serve_step_ok:
  assumes inv: "sv_inv (resolution_jobs s) (s, g)" and k: "kernel_ok kn"
  shows "serve_step ub kn a (s, g) = serve_step ub' kn a (s, g)"
    "serve_step ub kn a (s, g) = Inr (ss, s', g') \<Longrightarrow> sv_inv (resolution_jobs s') (s', g')"
proof -
  have t: "threads_ok (resolution_jobs s) (s, g)" using inv by (simp add: sv_inv_def)
  show "serve_step ub kn a (s, g) = serve_step ub' kn a (s, g)"
  proof (cases a)
    case (Act_select r)
    then show ?thesis using selector_select_ok(1) [OF assms, of ub r ub'] by (simp add: serve_step_def)
  next
    case (Act_thread n ais ok)
    then show ?thesis using thread_ends_ub [OF t, of ub n ais ok ub'] by (simp add: serve_step_def)
  qed
  show "sv_inv (resolution_jobs s') (s', g')" if "serve_step ub kn a (s, g) = Inr (ss, s', g')"
    using that selector_select_ok(2) [OF assms] thread_ends_inv [OF inv]
    by (auto simp: serve_step_def split: action.splits)
qed

lemma serve_ok:
  assumes "sv_inv (resolution_jobs s) (s, g)" and k: "kernel_ok kn"
  shows "serve ub kn as (s, g) = serve ub' kn as (s, g) \<and>
    (\<forall>ss s' g'. serve ub kn as (s, g) = Inr (ss, s', g') \<longrightarrow> sv_inv (resolution_jobs s') (s', g'))"
  using assms(1)
proof (induction as arbitrary: s g)
  case (Cons a as)
  note st = serve_step_ok [OF Cons.prems k]
  have "serve ub kn (a # as) (s, g) = serve ub' kn (a # as) (s, g)"
    unfolding serve.simps
  proof (rule rbind_cong [OF st(1)])
    fix y assume y: "serve_step ub' kn a (s, g) = Inr y"
    obtain ss s1 g1 where "y = (ss, s1, g1)" by (cases y) auto
    then show "(case y of (ss, sg1) \<Rightarrow> if ss \<noteq> SELECTOR_SUCCESS then Inr (ss, sg1) else serve ub kn as sg1) =
        (case y of (ss, sg1) \<Rightarrow> if ss \<noteq> SELECTOR_SUCCESS then Inr (ss, sg1) else serve ub' kn as sg1)"
      using Cons.IH [OF st(2) [of ub' a ss s1 g1]] y by simp
  qed
  moreover have "sv_inv (resolution_jobs s') (s', g')" if "serve ub kn (a # as) (s, g) = Inr (ss, s', g')" for ss s' g'
  proof -
    from that obtain s1 g1 st1 where 1: "serve_step ub kn a (s, g) = Inr (st1, s1, g1)"
      "(if st1 \<noteq> SELECTOR_SUCCESS then Inr (st1, s1, g1) else serve ub kn as (s1, g1)) = Inr (ss, s', g')" by auto
    show ?thesis
      using 1(2) conjunct2 [OF Cons.IH [OF st(2) [OF 1(1)]]] st(2) [OF 1(1)] by (cases "st1 = SELECTOR_SUCCESS") auto
  qed
  ultimately show ?case by blast
qed simp

end
