(* ===== verification/Shutdown.thy ===== *)
theory Shutdown
  imports Dispatch
begin

text \<open>
  \<open>selector_destroy\<close> on the running server: the close handlers give back every connection of the proxy
  and of the monitoring service exactly once, although a connection with two descriptors is visited
  twice and its invariant does not hold in between.
\<close>

text \<open>What is left of the invariant while the items are unregistered one after another: references are
  counted right, and registrations lead to objects that live.\<close>

definition closing :: "sstate \<Rightarrow> bool" where
  "closing = (\<lambda>(s, g). sel_inv s \<and> mons_ok (s, g) \<and>
     (\<forall>p x. sv_conns g p = Some x \<longrightarrow>
        references (fst x) = card {f. own p (entry_of s f)} \<and> references (fst x) \<noteq> 0) \<and>
     (\<forall>f i d. entry_of s f = Some (i, Some H_socks5, d) \<longrightarrow> (\<exists>p. d = Some p \<and> sv_conns g p \<noteq> None)))"

lemma entries_finite:
  assumes "sel_inv s"
  shows "finite {f. own p (entry_of s f)}"
proof (rule finite_subset)
  show "{f. own p (entry_of s f)} \<subseteq> {0..<1024}" using entry_range [OF assms] by (auto simp: own_def)
qed simp

lemma owned_card:
  assumes "owned p w"
  shows "references (cw_conn w) = card {f. own p (entry_of (cw_sel w) f)} \<and> references (cw_conn w) \<noteq> 0"
proof -
  let ?c = "cw_conn w" and ?e = "entry_of (cw_sel w)"
  have "{f. own p (?e f)} = (if own p (?e (origin_fd ?c)) \<and> origin_fd ?c \<noteq> client_fd ?c then {client_fd ?c, origin_fd ?c} else {client_fd ?c})"
    using assms by (auto simp: owned_def Let_def)
  then show ?thesis using assms by (auto simp: owned_def Let_def)
qed

lemma sv_inv_closing:
  assumes "sv_inv js (s, g)"
  shows "closing (s, g)"
proof -
  have ok: "conns_ok (s, g)" "mons_ok (s, g)" "sel_inv s" using assms by (simp_all add: sv_inv_def)
  have "references (fst x) = card {f. own p (entry_of s f)} \<and> references (fst x) \<noteq> 0" if "sv_conns g p = Some x" for p x
    using owned_card [of p "conn_world s g x"] conns_okD(1) [OF ok(1) that] by (simp add: conn_ok_def conn_world_def)
  then show ?thesis using ok conns_okD(2) [OF ok(1)] unfolding closing_def prod.case by blast
qed

text \<open>The close handler of an item, and what it leaves: the entry of the item still counts for the
  selector, the reference to it is gone.\<close>

definition closed_item :: "fd \<Rightarrow> selector \<Rightarrow> server \<Rightarrow> server" where
  "closed_item f s g =
     (case entry_of s f of
        Some (i, Some H_socks5, Some p) \<Rightarrow>
          (case sv_conns g p of
             Some x \<Rightarrow> tick (put_world p f (threads_of (conn_world s g x)) (socks5_destroy (conn_world s g x)) g)
           | None \<Rightarrow> g)
      | Some (i, Some H_monitor, Some m) \<Rightarrow>
          (case sv_mons g m of
             Some c \<Rightarrow> tick (put_mon m (connection_destroy (mon_world s g c Alive)) g)
           | None \<Rightarrow> g)
      | _ \<Rightarrow> g)"

lemma destroy_fields:
  "cw_sel (socks5_destroy w) = cw_sel w" "cw_out (socks5_destroy w) = cw_out w"
  "cw_life w = Alive \<Longrightarrow> cw_life (socks5_destroy w) = Alive \<longleftrightarrow> references (cw_conn w) \<noteq> 1"
  "references (cw_conn w) \<noteq> 1 \<Longrightarrow> references (cw_conn (socks5_destroy w)) = references (cw_conn w) - 1"
  by (simp_all add: socks5_destroy_def socks5_destroy_now_def)

lemma monitor_destroy_fields:
  "mw_sel (connection_destroy w) = mw_sel w" "mw_life (connection_destroy w) \<noteq> Alive"
  by (simp_all add: connection_destroy_def)

lemma entry_handler:
  assumes "sel_inv s" "entry_of s f = Some (i, h, d)"
  obtains h' where "h = Some h'" "interest_of s f = Some i" "handler_of s f = Some h'" "data_of s f = d"
  using assms interest_of_item [OF assms(1), of f i] by (auto simp: entry_of_def)

lemma close_handler:
  assumes "closing (s, g)" "entry_of s f = Some (i, Some h, d)"
  shows "(case handle_close (all_handlers ub kn h) of None \<Rightarrow> Inr (s, g)
     | Some cb \<Rightarrow> cb \<lparr>key_fd = f, key_data = d\<rparr> (s, g)) = Inr (s, closed_item f s g)"
proof (cases h)
  case H_socks5
  then obtain p x where p: "d = Some p" "sv_conns g p = Some x" using assms unfolding closing_def prod.case by blast
  have sel: "cw_sel (socks5_destroy (conn_world s g x)) = s" by (simp add: destroy_fields conn_world_def)
  have sel0: "cw_sel (conn_world s g x) = s" by (simp add: conn_world_def)
  show ?thesis using assms(2) H_socks5 p
    by (simp add: closed_item_def all_handlers_def conn_callback_def Let_def sel sel0)
next
  case H_monitor
  then obtain m c where m: "d = Some m" "sv_mons g m = Some c" using assms unfolding closing_def mons_ok_def prod.case by blast
  have "mw_sel (connection_destroy (mon_world s g c Alive)) = s" by (simp add: monitor_destroy_fields mon_world_def)
  then show ?thesis using assms(2) H_monitor m by (simp add: closed_item_def all_handlers_def mon_callback_def)
qed (use assms(2) in \<open>simp_all add: closed_item_def all_handlers_def\<close>)

lemma unregister_cong:
  fixes s :: "('h, 'd) fdselector"
  assumes "sel_inv s" "interest_of s f = Some i" "handler_of s f = Some h"
    "(case handle_close (H h) of None \<Rightarrow> Inr (s, g) | Some cb \<Rightarrow> cb \<lparr>key_fd = f, key_data = data_of s f\<rparr> (s, g)) =
     (case handle_close (H' h) of None \<Rightarrow> Inr (s, g) | Some cb \<Rightarrow> cb \<lparr>key_fd = f, key_data = data_of s f\<rparr> (s, g))"
  shows "selector_unregister_fd H f (s, g) = selector_unregister_fd H' f (s, g)"
proof -
  obtain it where it: "sel_item s f = Inr it" "ITEM_USED it" "it_fd it = f" "it_handler it = Some h" "it_data it = data_of s f"
    using interest_of_item [OF assms(1,2)] assms(3) by (metis option.inject)
  show ?thesis using assms(4) by (simp add: selector_unregister_fd_def it cong: option.case_cong)
qed

lemma unregister_closing:
  assumes c: "closing (s, g)" and e: "entry_of s f = Some (i, h, d)"
  shows "\<exists>s'. (\<forall>ub. selector_unregister_fd (all_handlers ub kn) f (s, g) = Inr (SELECTOR_SUCCESS, s', closed_item f s g)) \<and>
    sel_inv s' \<and> entry_of s' = (entry_of s)(f := None) \<and> fd_size s' = fd_size s"
proof -
  have inv: "sel_inv s" using c by (simp add: closing_def)
  obtain h' where h: "h = Some h'" "interest_of s f = Some i" "handler_of s f = Some h'" "data_of s f = d"
    by (rule entry_handler [OF inv e])
  have cb: "(case handle_close (all_handlers ub kn h') of None \<Rightarrow> Inr (s, g)
     | Some cb \<Rightarrow> cb \<lparr>key_fd = f, key_data = data_of s f\<rparr> (s, g)) = Inr (s, closed_item f s g)" for ub
    unfolding h(4) using close_handler [OF c, of f i h' d ub kn] e h(1) by simp
  from selector_unregister_ok [where handlers = "all_handlers Inr kn", OF inv h(2,3) cb inv h(2)] obtain s' where
    s': "selector_unregister_fd (all_handlers Inr kn) f (s, g) = Inr (SELECTOR_SUCCESS, s', closed_item f s g)" "sel_inv s'"
      "interest_of s' = (interest_of s)(f := None)" "data_of s' = (data_of s)(f := None)"
      "handler_of s' = (handler_of s)(f := None)" "fd_size s' = fd_size s" by blast
  have "entry_of s' = (entry_of s)(f := None)" using s'(3-5) by (intro ext) (simp add: entry_of_def)
  moreover have "selector_unregister_fd (all_handlers ub kn) f (s, g) = selector_unregister_fd (all_handlers Inr kn) f (s, g)" for ub
    by (rule unregister_cong [OF inv h(2,3)]) (simp only: cb)
  ultimately show ?thesis using s' by metis
qed

lemma closed_conn:
  assumes c: "closing (s, g)" and e: "entry_of s f = Some (i, Some H_socks5, d)"
  obtains p x yo where "d = Some p" "sv_conns g p = Some x" "sv_conns (closed_item f s g) = (sv_conns g)(p := yo)"
    "sv_mons (closed_item f s g) = sv_mons g" "sv_next (closed_item f s g) = sv_next g"
    "yo = None \<longleftrightarrow> references (fst x) = 1" "\<And>y. yo = Some y \<Longrightarrow> references (fst y) = references (fst x) - 1"
proof -
  obtain p x where p: "d = Some p" "sv_conns g p = Some x" using assms unfolding closing_def prod.case by blast
  let ?w = "conn_world s g x"
  let ?yo = "if cw_life (socks5_destroy ?w) = Alive then Some (cw_conn (socks5_destroy ?w), cw_out (socks5_destroy ?w)) else None"
  have it: "closed_item f s g = tick (put_world p f (threads_of ?w) (socks5_destroy ?w) g)"
    using e p by (simp add: closed_item_def)
  have w: "cw_life ?w = Alive" "cw_conn ?w = fst x" by (simp_all add: conn_world_def)
  show ?thesis
  proof (rule that [OF p, of ?yo])
    show "sv_conns (closed_item f s g) = (sv_conns g)(p := ?yo)" "sv_mons (closed_item f s g) = sv_mons g"
      "sv_next (closed_item f s g) = sv_next g" by (simp_all add: it tick_def put_world_def)
    show "(?yo = None) = (references (fst x) = 1)" using destroy_fields(3) [OF w(1)] w(2) by simp
    show "references (fst y) = references (fst x) - 1" if "?yo = Some y" for y
      using that destroy_fields(3) [OF w(1)] destroy_fields(4) [of ?w] w(2) by (auto split: if_splits)
  qed
qed

lemma closingD:
  assumes "closing (s, g)"
  shows "sel_inv s" "mons_ok (s, g)"
    "sv_conns g p = Some x \<Longrightarrow> references (fst x) = card {f. own p (entry_of s f)} \<and> references (fst x) \<noteq> 0"
    "entry_of s f = Some (i, Some H_socks5, d) \<Longrightarrow> \<exists>p. d = Some p \<and> sv_conns g p \<noteq> None"
  using assms unfolding closing_def prod.case by blast+

lemma mons_drop:
  assumes "mons_ok (s, g)" "entry_of s f = Some (i, h, d)" "h \<noteq> Some H_monitor" "entry_of s' = (entry_of s)(f := None)"
    "sv_mons g' = sv_mons g" "sv_next g' = sv_next g"
  shows "mons_ok (s', g')"
proof -
  have "entry_of s' f' = Some (j, Some H_monitor, d') \<longleftrightarrow> entry_of s f' = Some (j, Some H_monitor, d')" for f' j d'
    using assms(2,3) by (auto simp: assms(4))
  then show ?thesis using assms(1,5,6) unfolding mons_ok_def prod.case by simp
qed

lemma closed_conn_closing:
  assumes c: "closing (s, g)" and e: "entry_of s f = Some (i, Some H_socks5, d)"
    and s': "sel_inv s'" "entry_of s' = (entry_of s)(f := None)"
  shows "closing (s', closed_item f s g)"
proof -
  obtain p x yo where p: "d = Some p" "sv_conns g p = Some x" "sv_conns (closed_item f s g) = (sv_conns g)(p := yo)"
    "sv_mons (closed_item f s g) = sv_mons g" "sv_next (closed_item f s g) = sv_next g"
    "yo = None \<longleftrightarrow> references (fst x) = 1" "\<And>y. yo = Some y \<Longrightarrow> references (fst y) = references (fst x) - 1"
    by (rule closed_conn [OF c e]) blast
  have ownp: "own p (entry_of s f)" using e p(1) by (simp add: own_def)
  have "{f'. own p (entry_of s' f')} = {f'. own p (entry_of s f')} - {f}" by (auto simp: s'(2) own_def)
  then have card: "card {f'. own p (entry_of s' f')} = references (fst x) - 1"
    using closingD(3) [OF c p(2)] ownp by (simp add: card_Diff_singleton)
  have "mons_ok (s', closed_item f s g)"
    using mons_drop [OF closingD(2) [OF c] e _ s'(2) p(4,5)] by simp
  moreover have "references (fst y) = card {f'. own q (entry_of s' f')} \<and> references (fst y) \<noteq> 0"
    if "sv_conns (closed_item f s g) q = Some y" for q y
  proof (cases "q = p")
    case True
    with that p(3) have y: "yo = Some y" by simp
    then have "references (fst x) \<noteq> 1" using p(6) by auto
    then show ?thesis using True card p(7) [OF y] closingD(3) [OF c p(2)] by simp
  next
    case False
    then have "{f'. own q (entry_of s' f')} = {f'. own q (entry_of s f')}"
      using own_other [OF ownp, of q] by (auto simp: s'(2) own_def)
    then show ?thesis using closingD(3) [OF c, of q y] that False p(3) by simp
  qed
  moreover have "\<exists>q. d' = Some q \<and> sv_conns (closed_item f s g) q \<noteq> None"
    if e': "entry_of s' f' = Some (j, Some H_socks5, d')" for f' j d'
  proof -
    have "entry_of s f' = Some (j, Some H_socks5, d')" using e' s'(2) by (auto split: if_splits)
    then obtain q where q: "d' = Some q" "sv_conns g q \<noteq> None" using closingD(4) [OF c] by blast
    have "card {f'. own p (entry_of s' f')} \<noteq> 0" if "q = p"
      using e' q(1) that entries_finite [OF s'(1), of p] by (auto simp: own_def)
    then show ?thesis using q p(3,6) card by auto
  qed
  ultimately show ?thesis using s'(1) unfolding closing_def prod.case by blast
qed

lemma closed_mon_closing:
  assumes c: "closing (s, g)" and e: "entry_of s f = Some (i, Some H_monitor, d)"
    and s': "sel_inv s'" "entry_of s' = (entry_of s)(f := None)"
  shows "closing (s', closed_item f s g)"
proof -
  obtain m c' where m: "d = Some m" "sv_mons g m = Some c'" "mc_client_fd c' = f"
    using mons_okD(1) [OF closingD(2) [OF c] e] by blast
  have it: "closed_item f s g = tick (put_mon m (connection_destroy (mon_world s g c' Alive)) g)"
    using e m by (simp add: closed_item_def)
  have g': "sv_conns (closed_item f s g) = sv_conns g" "sv_mons (closed_item f s g) = (sv_mons g)(m := None)"
    "sv_next (closed_item f s g) = sv_next g" by (simp_all add: it tick_def put_mon_def monitor_destroy_fields)
  have own: "own p (entry_of s' f') = own p (entry_of s f')" for p f' using e by (auto simp: s'(2) own_def)
  have "\<exists>m' c1. d' = Some m' \<and> sv_mons (closed_item f s g) m' = Some c1 \<and> mc_client_fd c1 = f'"
    if "entry_of s' f' = Some (j, Some H_monitor, d')" for f' j d'
  proof -
    have f': "f' \<noteq> f" "entry_of s f' = Some (j, Some H_monitor, d')" using that s'(2) by (auto split: if_splits)
    obtain m' c1 where m': "d' = Some m'" "sv_mons g m' = Some c1" "mc_client_fd c1 = f'"
      using mons_okD(1) [OF closingD(2) [OF c] f'(2)] by blast
    then have "m' \<noteq> m" using f'(1) m by auto
    then show ?thesis using m' g'(2) by auto
  qed
  moreover have "m' < sv_next g \<and> (\<exists>i. entry_of s' (mc_client_fd c1) = Some (i, Some H_monitor, Some m'))"
    if "sv_mons (closed_item f s g) m' = Some c1" for m' c1
  proof -
    have "m' \<noteq> m" "sv_mons g m' = Some c1" using that g'(2) by (auto split: if_splits)
    then have "m' < sv_next g \<and> (\<exists>i. entry_of s (mc_client_fd c1) = Some (i, Some H_monitor, Some m'))"
      using closingD(2) [OF c] unfolding mons_ok_def prod.case by blast
    moreover from this have "mc_client_fd c1 \<noteq> f" using e m(1) \<open>m' \<noteq> m\<close> by auto
    ultimately show ?thesis using s'(2) by simp
  qed
  ultimately have "mons_ok (s', closed_item f s g)" unfolding mons_ok_def prod.case g'(3) by blast
  moreover have "\<exists>q. d' = Some q \<and> sv_conns g q \<noteq> None" if "entry_of s' f' = Some (j, Some H_socks5, d')" for f' j d'
    using that s'(2) closingD(4) [OF c, of f' j d'] by (auto split: if_splits)
  ultimately show ?thesis using s'(1) closingD(3) [OF c] unfolding closing_def prod.case g'(1) own by blast
qed

lemma closed_item_closing:
  assumes c: "closing (s, g)" and e: "entry_of s f = Some (i, h, d)"
    and s': "sel_inv s'" "entry_of s' = (entry_of s)(f := None)"
  shows "closing (s', closed_item f s g)"
proof -
  obtain h' where h: "h = Some h'" by (rule entry_handler [OF closingD(1) [OF c] e])
  show ?thesis
  proof (cases "h' = H_socks5 \<or> h' = H_monitor")
    case True
    then show ?thesis using closed_conn_closing [OF c _ s'] closed_mon_closing [OF c _ s'] e h by auto
  next
    case False
    then have own: "own p (entry_of s' f') = own p (entry_of s f')" for p f' using e h by (auto simp: s'(2) own_def)
    have "closed_item f s g = g" using False e h by (cases h') (simp_all add: closed_item_def)
    moreover have "mons_ok (s', g)" using mons_drop [OF closingD(2) [OF c] e _ s'(2)] False h by simp
    moreover have "\<exists>q. d' = Some q \<and> sv_conns g q \<noteq> None" if "entry_of s' f' = Some (j, Some H_socks5, d')" for f' j d'
      using that s'(2) closingD(4) [OF c, of f' j d'] by (auto split: if_splits)
    ultimately show ?thesis using s'(1) closingD(3) [OF c] unfolding closing_def prod.case own by metis
  qed
qed

text \<open>The loop of \<open>selector_destroy\<close> visits the items that may still be registered.\<close>

lemma destroy_items_closing:
  assumes "closing (s, g)" "set is \<subseteq> {..<fd_size s}"
  shows "\<exists>s' g'. (\<forall>ub. destroy_items (all_handlers ub kn) is (s, g) = Inr (s', g')) \<and> closing (s', g') \<and>
    (\<forall>f. entry_of s' f \<noteq> None \<longrightarrow> entry_of s f \<noteq> None \<and> f \<notin> int ` set is)"
  using assms
proof (induction "is" arbitrary: s g)
  case (Cons n ns)
  obtain it where it: "sel_item s (int n) = Inr it"
    using sel_inv_item [OF closingD(1) [OF Cons.prems(1)], of "int n"] Cons.prems(2) by auto
  show ?case
  proof (cases "ITEM_USED it")
    case False
    then have "entry_of s (int n) = None" using it by (simp add: entry_of_def interest_of_def)
    with Cons.IH [OF Cons.prems(1)] Cons.prems(2) False it show ?thesis by fastforce
  next
    case True
    then obtain i h d where e: "entry_of s (int n) = Some (i, h, d)" using it by (simp add: entry_of_def interest_of_def)
    obtain s1 where s1: "\<And>ub. selector_unregister_fd (all_handlers ub kn) (int n) (s, g) = Inr (SELECTOR_SUCCESS, s1, closed_item (int n) s g)"
      "sel_inv s1" "entry_of s1 = (entry_of s)(int n := None)" "fd_size s1 = fd_size s"
      using unregister_closing [OF Cons.prems(1) e, of kn] by blast
    have "closing (s1, closed_item (int n) s g)" by (rule closed_item_closing [OF Cons.prems(1) e s1(2,3)])
    from Cons.IH [OF this] Cons.prems(2) s1(4) obtain s' g' where
      "\<forall>ub. destroy_items (all_handlers ub kn) ns (s1, closed_item (int n) s g) = Inr (s', g')" "closing (s', g')"
      "\<forall>f. entry_of s' f \<noteq> None \<longrightarrow> entry_of s1 f \<noteq> None \<and> f \<notin> int ` set ns" by auto
    note d = this
    have "entry_of s f \<noteq> None \<and> f \<notin> int ` set (n # ns)" if "entry_of s' f \<noteq> None" for f
    proof -
      have "entry_of s1 f \<noteq> None" "f \<notin> int ` set ns" using d(3) that by blast+
      then show ?thesis using s1(3) by (cases "f = int n") simp_all
    qed
    moreover have "destroy_items (all_handlers ub kn) (n # ns) (s, g) = Inr (s', g')" for ub
      using it True s1(1) d(1) by simp
    ultimately show ?thesis using d(2) by blast
  qed
qed auto

lemma selector_destroy_all:
  assumes "sv_inv js (s, g)"
  shows "\<exists>g'. (\<forall>ub. selector_destroy (all_handlers ub kn) (Some s) g = Inr g') \<and> sv_conns g' = Map.empty \<and> sv_mons g' = Map.empty"
proof -
  have c: "closing (s, g)" by (rule sv_inv_closing [OF assms])
  obtain xs where xs: "fds s = Some xs" using closingD(1) [OF c] by (auto simp: sel_inv_def)
  have "set [0..<fd_size s] \<subseteq> {..<fd_size s}" by auto
  from destroy_items_closing [OF c this, of kn] obtain s' g' where
    d: "\<forall>ub. destroy_items (all_handlers ub kn) [0..<fd_size s] (s, g) = Inr (s', g')" "closing (s', g')"
      "\<forall>f. entry_of s' f \<noteq> None \<longrightarrow> entry_of s f \<noteq> None \<and> f \<notin> int ` set [0..<fd_size s]" by blast
  have none: "entry_of s' f = None" for f
  proof (rule ccontr)
    assume "entry_of s' f \<noteq> None"
    with d(3) have "interest_of s f \<noteq> None" "f \<notin> int ` {0..<fd_size s}" by (auto simp: entry_None)
    then show False using interest_of_range [OF closingD(1) [OF c], of f] by (auto simp: image_iff) (metis atLeastLessThan_iff int_nat_eq le0 nat_less_iff)
  qed
  have "sv_conns g' p = None" for p using closingD(3) [OF d(2), of p] none by (cases "sv_conns g' p") (auto simp: own_def)
  moreover have "sv_mons g' m = None" for m
    using mons_okD(2) [OF closingD(2) [OF d(2)], of m] none by (cases "sv_mons g' m") auto
  moreover have "selector_destroy (all_handlers ub kn) (Some s) g = Inr g'" for ub
    using d(1) xs by (simp add: selector_destroy_def)
  ultimately show ?thesis by blast
qed

end
