(* ===== verification/Startup.thy ===== *)
theory Startup
  imports Shutdown Cli
begin

text \<open>
  \<open>main\<close> of \<open>src/server.c\<close>: the listening sockets, the selector, the first administrator, the users of
  the command line, the loop and the way out.

  What \<open>getopt\<close>, \<open>inet_pton\<close>, the socket and signal calls, \<open>getenv\<close> and the allocator answer is the
  record \<open>main_env\<close>, with the events of the run (\<open>me_acts\<close>). A \<open>goto finally\<close> is the left side of a
  sum. The local \<open>ret\<close> has no value before its declaration is reached, and reading it then is a fault.
  The results of \<open>setsockopt\<close> are ignored by the code and left out, with the messages.
\<close>

section \<open>Listening sockets\<close>

datatype listener = Server_v4 | Monitor_v4 | Server_v6 | Monitor_v6

record listen_ret =
  ls_socket :: fd
  ls_bind :: "fd \<Rightarrow> byte list \<Rightarrow> int"
  ls_listen :: "fd \<Rightarrow> int"
  ls_getfd :: int
  ls_setfl :: "int \<Rightarrow> int"
  ls_alloc :: bool

definition create_socket :: "listen_ret \<Rightarrow> fd" where
  "create_socket r = (let s = ls_socket r in if s < 0 then -1 else s)"

definition bind_socket :: "listen_ret \<Rightarrow> fd \<Rightarrow> byte list \<Rightarrow> int" where
  "bind_socket r server address =
     (if ls_bind r server address < 0 then -1
      else if ls_listen r server < 0 then -1
      else 0)"

definition bind_ipv4_socket :: "listen_ret \<Rightarrow> byte list \<Rightarrow> u16 \<Rightarrow> fd" where
  "bind_ipv4_socket r bind_address dport =
     (let server = create_socket r;
          addr = replicate sizeof_sockaddr_in 0;
          addr1 = overwrite addr 0 AF_INET_bytes;
          addr2 = overwrite addr1 4 bind_address;
          addr3 = overwrite addr2 2 (be16 dport)
      in if bind_socket r server addr3 = -1 then -1 else server)"

definition bind_ipv6_socket :: "listen_ret \<Rightarrow> byte list \<Rightarrow> u16 \<Rightarrow> fd" where
  "bind_ipv6_socket r bind_address dport =
     (let server = create_socket r;
          addr = replicate sizeof_sockaddr_in6 0;
          addr1 = overwrite addr 0 AF_INET6_bytes;
          addr2 = overwrite addr1 8 bind_address;
          addr3 = overwrite addr2 2 (be16 dport)
      in if bind_socket r server addr3 = -1 then -1 else server)"

section \<open>Environment and locals\<close>

record main_env =
  me_opts :: "getopt_result list"
  me_rest :: "byte list list"
  me_pton4 :: "byte list \<Rightarrow> byte list option"
  me_pton6 :: "byte list \<Rightarrow> byte list option"
  me_listen :: "listener \<Rightarrow> listen_ret"
  me_sigprocmask :: int
  me_sigaction :: int
  me_malloc :: bool
  me_calloc :: bool
  me_token :: "byte list option"
  me_kernel :: kernel
  me_acts :: "action list"

text \<open>The locals of \<open>main\<close> with the state of the other files; \<open>ml_err_msg\<close> is only tested for NULL.\<close>

record main_locals =
  ml_server_v4 :: fd
  ml_monitor_v4 :: fd
  ml_server_v6 :: fd
  ml_monitor_v6 :: fd
  ml_err_msg :: "string option"
  ml_ss :: selector_status
  ml_selector :: "selector option"
  ml_ret :: "int option"
  ml_server :: server

type_synonym main_part = "main_locals \<Rightarrow> (main_locals + main_locals) prog"

text \<open>One part of \<open>main\<close> after another, unless the first jumps to \<open>finally\<close>.\<close>

definition main_then :: "main_part \<Rightarrow> main_part \<Rightarrow> main_part" where
  "main_then p q l =
     pbind (p l) (\<lambda>r. case r of Inl l' \<Rightarrow> Inr (Inl l') | Inr l' \<Rightarrow> q l')"

definition goto_finally :: "string \<Rightarrow> main_part" where
  "goto_finally msg l = Inr (Inl (l\<lparr>ml_err_msg := Some msg\<rparr>))"

definition IS_FD_USED :: "fd \<Rightarrow> bool" where
  "IS_FD_USED f \<longleftrightarrow> -1 \<noteq> f"

text \<open>The static variables of \<open>socks5nio.c\<close>, \<open>monitornio.c\<close> and \<open>monitor.c\<close> when the program starts.\<close>

definition globals_init :: globals where
  "globals_init =
     \<lparr>historic_connections = 0, current_connections = 0, bytes_transferred = 0, is_auth_on = True,
      is_disector_on = True, g_users = users_init, pool_len = 0, pool_size = 0\<rparr>"

definition server_init :: server where
  "server_init =
     \<lparr>sv_glob = globals_init, sv_conns = Map.empty, sv_admins = admins_init, sv_statics = monitor_statics_init,
      sv_mpool_len = 0, sv_mpool_size = 0, sv_mons = Map.empty, sv_threads = [], sv_next = 0, sv_log = [], sv_clock = 0\<rparr>"

definition main_locals_init :: main_locals where
  "main_locals_init =
     \<lparr>ml_server_v4 = -1, ml_monitor_v4 = -1, ml_server_v6 = -1, ml_monitor_v6 = -1, ml_err_msg = None,
      ml_ss = SELECTOR_SUCCESS, ml_selector = None, ml_ret = None, ml_server = server_init\<rparr>"

section \<open>The parts of main\<close>

definition open_server_v4 :: "main_env \<Rightarrow> socks5args \<Rightarrow> main_part" where
  "open_server_v4 e args l =
     (case me_pton4 e (socks_addr args) of
        None \<Rightarrow> Inr (Inr l)
      | Some a \<Rightarrow>
          let l1 = l\<lparr>ml_server_v4 := bind_ipv4_socket (me_listen e Server_v4) a (socks_port args)\<rparr>
          in if ml_server_v4 l1 < 0 then goto_finally ''unable to create IPv4 socks socket'' l1 else Inr (Inr l1))"

definition open_monitor_v4 :: "main_env \<Rightarrow> socks5args \<Rightarrow> main_part" where
  "open_monitor_v4 e args l =
     (case me_pton4 e (mng_addr args) of
        None \<Rightarrow> Inr (Inr l)
      | Some a \<Rightarrow>
          let l1 = l\<lparr>ml_monitor_v4 := bind_ipv4_socket (me_listen e Monitor_v4) a (mng_port args)\<rparr>
          in if ml_monitor_v4 l1 < 0 then goto_finally ''unable to create IPv4 monitor socket'' l1 else Inr (Inr l1))"

definition open_server_v6 :: "main_env \<Rightarrow> socks5args \<Rightarrow> main_part" where
  "open_server_v6 e args l =
     (let ipv6_addr_text = (if is_default_socks_addr args then bytes_of ''::0'' else socks_addr args)
      in if \<not> IS_FD_USED (ml_server_v4 l) \<or> is_default_socks_addr args then
           case me_pton6 e ipv6_addr_text of
             None \<Rightarrow> Inr (Inr l)
           | Some a \<Rightarrow>
               let l1 = l\<lparr>ml_server_v6 := bind_ipv6_socket (me_listen e Server_v6) a (socks_port args)\<rparr>
               in if ml_server_v6 l1 < 0 then goto_finally ''unable to create IPv6 socket'' l1 else Inr (Inr l1)
         else Inr (Inr l))"

definition open_monitor_v6 :: "main_env \<Rightarrow> socks5args \<Rightarrow> main_part" where
  "open_monitor_v6 e args l =
     (let ipv6_addr_text = (if is_default_mng_addr args then bytes_of ''::1'' else mng_addr args)
      in if \<not> IS_FD_USED (ml_monitor_v4 l) \<or> is_default_mng_addr args then
           case me_pton6 e ipv6_addr_text of
             None \<Rightarrow> Inr (Inr l)
           | Some a \<Rightarrow>
               let l1 = l\<lparr>ml_monitor_v6 := bind_ipv6_socket (me_listen e Monitor_v6) a (mng_port args)\<rparr>
               in if ml_monitor_v6 l1 < 0 then goto_finally ''unable to create IPv6 socket'' l1 else Inr (Inr l1)
         else Inr (Inr l))"

text \<open>Without an address the program leaves with \<open>err_msg\<close> still NULL.\<close>

definition check_listeners :: main_part where
  "check_listeners l =
     (if \<not> IS_FD_USED (ml_server_v4 l) \<and> \<not> IS_FD_USED (ml_server_v6 l) then Inr (Inl l)
      else if \<not> IS_FD_USED (ml_monitor_v4 l) \<and> \<not> IS_FD_USED (ml_monitor_v6 l) then Inr (Inl l)
      else Inr (Inr l))"

definition set_nio :: "listen_ret \<Rightarrow> fd \<Rightarrow> string \<Rightarrow> main_part" where
  "set_nio r f msg l =
     (if IS_FD_USED f \<and> selector_fd_set_nio (ls_getfd r) (ls_setfl r) = -1 then goto_finally msg l else Inr (Inr l))"

definition set_listeners_nio :: "main_env \<Rightarrow> main_part" where
  "set_listeners_nio e = (\<lambda>l.
     main_then (set_nio (me_listen e Server_v4) (ml_server_v4 l) ''getting socks server ipv4 socket flags'')
    (main_then (set_nio (me_listen e Server_v6) (ml_server_v6 l) ''getting socks server ipv6 socket flags'')
    (main_then (set_nio (me_listen e Monitor_v4) (ml_monitor_v4 l) ''getting monitor server ipv4 socket flags'')
               (set_nio (me_listen e Monitor_v6) (ml_monitor_v6 l) ''getting monitor server ipv6 socket flags''))) l)"

definition SIGALRM :: int where "SIGALRM = 14"

definition make_selector :: "main_env \<Rightarrow> main_part" where
  "make_selector e l =
     (let (st, conf) = selector_init \<lparr>conf_signal = SIGALRM, conf_timeout = (10, 0)\<rparr> (me_sigprocmask e) (me_sigaction e)
      in if SELECTOR_SUCCESS \<noteq> st then goto_finally ''initializing selector'' l
         else pbind (lift_res (selector_new conf (me_malloc e) (me_calloc e) 1024)) (\<lambda>so.
           let l1 = l\<lparr>ml_selector := so\<rparr>
           in if so = None then goto_finally ''unable to create selector'' l1 else Inr (Inr l1)))"

definition register_listener :: "listen_ret \<Rightarrow> fd \<Rightarrow> handler_id \<Rightarrow> string \<Rightarrow> main_part" where
  "register_listener r f h msg l =
     (if IS_FD_USED f then
        case ml_selector l of
          None \<Rightarrow> Inr (Inl (l\<lparr>ml_ss := SELECTOR_IARGS, ml_err_msg := Some msg\<rparr>))
        | Some s \<Rightarrow>
            pbind (lift_res (selector_register (ls_alloc r) s f (Some h) OP_READ None)) (\<lambda>(st, s1).
              let l1 = l\<lparr>ml_ss := st, ml_selector := Some s1\<rparr>
              in if st \<noteq> SELECTOR_SUCCESS then goto_finally msg l1 else Inr (Inr l1))
      else Inr (Inr l))"

definition register_listeners :: "main_env \<Rightarrow> main_part" where
  "register_listeners e = (\<lambda>l.
     main_then (register_listener (me_listen e Server_v4) (ml_server_v4 l) H_socks5_passive ''registering IPv4 socks fd'')
    (main_then (register_listener (me_listen e Server_v6) (ml_server_v6 l) H_socks5_passive ''registering IPv6 socks fd'')
    (main_then (register_listener (me_listen e Monitor_v4) (ml_monitor_v4 l) H_monitor_passive ''registering IPv4 monitor fd'')
               (register_listener (me_listen e Monitor_v6) (ml_monitor_v6 l) H_monitor_passive ''registering IPv6 monitor fd''))) l)"

text \<open>The administrator of the environment; the result of \<open>monitor_register_admin\<close> is not looked at.\<close>

definition register_root :: "main_env \<Rightarrow> main_part" where
  "register_root e l =
     (case me_token e of
        None \<Rightarrow> Inl (Exit 1)
      | Some token \<Rightarrow>
          pbind (lift_res (monitor_register_admin (bytes_of ''root'') token (sv_admins (ml_server l)))) (\<lambda>(_, r).
            Inr (Inr (l\<lparr>ml_server := (ml_server l)\<lparr>sv_admins := r\<rparr>\<rparr>))))"

fun register_users :: "users_arg list \<Rightarrow> registry \<Rightarrow> registry prog" where
  "register_users [] r = Inr r"
| "register_users (u # us) r =
     (case ua_name u of
        None \<Rightarrow> Inr r
      | Some name \<Rightarrow>
          (case ua_pass u of
             None \<Rightarrow> Inl (Fault Null_deref)
           | Some pass \<Rightarrow> pbind (lift_res (socksv5_register_user name pass r)) (\<lambda>(_, r1). register_users us r1)))"

definition configure :: "socks5args \<Rightarrow> main_part" where
  "configure args l =
     (let g = sv_glob (ml_server l)
      in pbind (register_users (take MAX_USERS (arg_users args)) (g_users g)) (\<lambda>r.
         let g1 = g\<lparr>g_users := r\<rparr>;
             g2 = (if \<not> disectors_enabled args then socksv5_toggle_disector False g1 else g1)
         in Inr (Inr (l\<lparr>ml_server := (ml_server l)\<lparr>sv_glob := g2\<rparr>\<rparr>))))"

text \<open>The loop, and the declaration of \<open>ret\<close> behind it.\<close>

definition main_loop :: "undefined_behaviour \<Rightarrow> main_env \<Rightarrow> main_part" where
  "main_loop ub e l =
     (case ml_selector l of
        None \<Rightarrow> Inl (Fault Null_deref)
      | Some s \<Rightarrow>
          pbind (lift_res (serve ub (me_kernel e) (me_acts e) (s, ml_server l))) (\<lambda>(st, s1, g1).
            let l1 = l\<lparr>ml_ss := st, ml_selector := Some s1, ml_server := g1, ml_err_msg := None\<rparr>
            in if st \<noteq> SELECTOR_SUCCESS then goto_finally ''serving'' l1
               else Inr (Inr (l1\<lparr>ml_err_msg := Some ''closing'', ml_ret := Some 0\<rparr>))))"

definition startup :: "main_env \<Rightarrow> socks5args \<Rightarrow> main_part" where
  "startup e args =
     main_then (open_server_v4 e args)
    (main_then (open_monitor_v4 e args)
    (main_then (open_server_v6 e args)
    (main_then (open_monitor_v6 e args)
    (main_then check_listeners
    (main_then (set_listeners_nio e)
    (main_then (make_selector e)
    (main_then (register_listeners e)
    (main_then (register_root e)
               (configure args)))))))))"

text \<open>What \<open>finally\<close> leaves: the exit status, the state of the server and the descriptors it closed.\<close>

definition main_finally :: "undefined_behaviour \<Rightarrow> main_env \<Rightarrow> main_locals \<Rightarrow> (int \<times> server \<times> fd list) prog" where
  "main_finally ub e l =
     (let ret = (if ml_ss l \<noteq> SELECTOR_SUCCESS then Some 2 else if ml_err_msg l \<noteq> None then Some 1 else ml_ret l)
      in pbind (lift_res (selector_destroy (all_handlers ub (me_kernel e)) (ml_selector l) (ml_server l))) (\<lambda>g.
         let g1 = g\<lparr>sv_glob := socksv5_pool_destroy (sv_glob g)\<rparr>;
             g2 = g1\<lparr>sv_mpool_len := mw_pool_len (connection_pool_destroy (mon_world selector_zero g1 connection_zero Freed))\<rparr>;
             closed = filter (\<lambda>f. f \<ge> 0) [ml_server_v4 l, ml_server_v6 l, ml_monitor_v4 l, ml_monitor_v6 l]
         in case ret of None \<Rightarrow> Inl (Fault Uninit_read) | Some r \<Rightarrow> Inr (r, g2, closed)))"

definition server_main :: "undefined_behaviour \<Rightarrow> main_env \<Rightarrow> (int \<times> server \<times> fd list) prog" where
  "server_main ub e =
     pbind (parse_args (me_opts e) (me_rest e)) (\<lambda>args.
     pbind (main_then (startup e args) (main_loop ub e) main_locals_init) (\<lambda>r.
       case r of Inl l \<Rightarrow> main_finally ub e l | Inr l \<Rightarrow> main_finally ub e l))"

section \<open>No connection before the loop\<close>

definition listening :: "selector \<Rightarrow> bool" where
  "listening s \<longleftrightarrow> sel_inv s \<and> resolution_jobs s = [] \<and>
     (\<forall>f. entry_of s f \<in> {None, Some (OP_READ, Some H_socks5_passive, None), Some (OP_READ, Some H_monitor_passive, None)})"

lemma listening_entry:
  "listening s \<Longrightarrow> entry_of s f \<in> {None, Some (OP_READ, Some H_socks5_passive, None), Some (OP_READ, Some H_monitor_passive, None)}"
  by (simp add: listening_def)

definition booting :: "main_locals \<Rightarrow> bool" where
  "booting l \<longleftrightarrow> sv_conns (ml_server l) = Map.empty \<and> sv_mons (ml_server l) = Map.empty \<and> sv_threads (ml_server l) = [] \<and>
     ml_ret l = None \<and>
     (\<forall>s. ml_selector l = Some s \<longrightarrow> listening s)"

text \<open>A part of \<open>main\<close> that keeps a property of the locals, whether it jumps or not.\<close>

definition part_keeps :: "(main_locals \<Rightarrow> bool) \<Rightarrow> main_part \<Rightarrow> bool" where
  "part_keeps P p \<longleftrightarrow> (\<forall>l r. P l \<longrightarrow> p l = Inr r \<longrightarrow> (case r of Inl l' \<Rightarrow> P l' | Inr l' \<Rightarrow> P l'))"

lemma part_keepsI: "(\<And>l l'. P l \<Longrightarrow> p l = Inr (Inl l') \<or> p l = Inr (Inr l') \<Longrightarrow> P l') \<Longrightarrow> part_keeps P p"
  unfolding part_keeps_def by (auto split: sum.splits)

lemma part_keepsD: "part_keeps P p \<Longrightarrow> P l \<Longrightarrow> p l = Inr (Inl l') \<or> p l = Inr (Inr l') \<Longrightarrow> P l'"
  unfolding part_keeps_def by fastforce

lemma part_keeps_at: "(\<And>l. part_keeps P (p l)) \<Longrightarrow> part_keeps P (\<lambda>l. p l l)"
  unfolding part_keeps_def by blast

lemma main_then_cases:
  assumes "main_then p q l = Inr r"
  obtains l' where "p l = Inr (Inl l')" "r = Inl l'" | l' where "p l = Inr (Inr l')" "q l' = Inr r"
  using assms by (auto simp: main_then_def split: sum.splits)

lemma main_then_keeps:
  assumes "part_keeps P p" "part_keeps P q"
  shows "part_keeps P (main_then p q)"
proof (rule part_keepsI)
  fix l l' assume "P l" "main_then p q l = Inr (Inl l') \<or> main_then p q l = Inr (Inr l')"
  then obtain r where r: "main_then p q l = Inr r" "r = Inl l' \<or> r = Inr l'" by blast
  from r(1) show "P l'"
  proof (cases rule: main_then_cases)
    case (1 l1)
    then show ?thesis using part_keepsD [OF assms(1) \<open>P l\<close>, of l1] r(2) by auto
  next
    case (2 l1)
    then have "P l1" using part_keepsD [OF assms(1) \<open>P l\<close>] by blast
    then show ?thesis using part_keepsD [OF assms(2)] 2(2) r(2) by blast
  qed
qed

lemma lift_res_Inr [simp]: "lift_res m = Inr x \<longleftrightarrow> m = Inr x" "lift_res m = Inl (Fault e) \<longleftrightarrow> m = Inl e"
  by (cases m; simp)+

lemma register_listener_run:
  assumes "IS_FD_USED f" "ml_selector l = Some s" "sel_inv s"
    and run: "register_listener r f h msg l = Inr (Inl l') \<or> register_listener r f h msg l = Inr (Inr l')"
  obtains st s1 m where "l' = l\<lparr>ml_ss := st, ml_selector := Some s1, ml_err_msg := m\<rparr>" "sel_inv s1"
    "resolution_jobs s1 = resolution_jobs s"
    "if st = SELECTOR_SUCCESS then entry_of s f = None \<and> entry_of s1 = (entry_of s)(f \<mapsto> (OP_READ, Some h, None)) \<and> m = ml_err_msg l
     else entry_of s1 = entry_of s \<and> m = Some msg"
    "register_listener r f h msg l = (if st = SELECTOR_SUCCESS then Inr (Inr l') else Inr (Inl l'))"
proof -
  obtain st s1 where st: "selector_register (ls_alloc r) s f (Some h) OP_READ None = Inr (st, s1)"
    using run assms(1,2) by (auto simp: register_listener_def)
  have "l' = l\<lparr>ml_ss := st, ml_selector := Some s1, ml_err_msg := if st = SELECTOR_SUCCESS then ml_err_msg l else Some msg\<rparr>"
    "register_listener r f h msg l = (if st = SELECTOR_SUCCESS then Inr (Inr l') else Inr (Inl l'))"
    using run st assms(1,2) by (auto simp: register_listener_def goto_finally_def Let_def split: if_splits)
  with register_entry [OF assms(3) st] show ?thesis
    by (intro that [of "if st = SELECTOR_SUCCESS then ml_err_msg l else Some msg" s1 st]) (auto split: if_splits)
qed

lemma register_listener_booting:
  assumes "h \<in> {H_socks5_passive, H_monitor_passive}"
  shows "part_keeps booting (register_listener r f h msg)"
proof (rule part_keepsI)
  fix l l' assume b: "booting l" and run: "register_listener r f h msg l = Inr (Inl l') \<or> register_listener r f h msg l = Inr (Inr l')"
  show "booting l'"
  proof (cases "IS_FD_USED f \<and> ml_selector l \<noteq> None")
    case False
    then show ?thesis using b run by (auto simp: register_listener_def booting_def split: if_splits)
  next
    case True
    then obtain s where s: "ml_selector l = Some s" by blast
    from b s have inv: "sel_inv s" "resolution_jobs s = []" by (simp_all add: booting_def listening_def)
    have e: "entry_of s f \<in> {None, Some (OP_READ, Some H_socks5_passive, None), Some (OP_READ, Some H_monitor_passive, None)}" for f
      using b s by (simp add: booting_def listening_def)
    obtain st s1 m where r: "l' = l\<lparr>ml_ss := st, ml_selector := Some s1, ml_err_msg := m\<rparr>" "sel_inv s1"
      "resolution_jobs s1 = resolution_jobs s"
      "if st = SELECTOR_SUCCESS then entry_of s f = None \<and> entry_of s1 = (entry_of s)(f \<mapsto> (OP_READ, Some h, None)) \<and> m = ml_err_msg l
       else entry_of s1 = entry_of s \<and> m = Some msg"
      using register_listener_run [OF _ s inv(1) run] True by metis
    have "entry_of s1 f' \<in> {None, Some (OP_READ, Some H_socks5_passive, None), Some (OP_READ, Some H_monitor_passive, None)}" for f'
      using r(4) e [of f'] assms by (auto split: if_splits)
    then show ?thesis using b r(1-3) inv(2) by (simp add: booting_def listening_def)
  qed
qed

lemma startup_booting: "part_keeps booting (startup e args)"
proof -
  have "part_keeps booting (open_server_v4 e args)" "part_keeps booting (open_monitor_v4 e args)"
    "part_keeps booting (open_server_v6 e args)" "part_keeps booting (open_monitor_v6 e args)" "part_keeps booting check_listeners"
    by (rule part_keepsI; auto simp: open_server_v4_def open_monitor_v4_def open_server_v6_def open_monitor_v6_def check_listeners_def
      goto_finally_def booting_def Let_def split: if_splits option.splits)+
  moreover have nio: "part_keeps booting (set_nio r f msg)" for r f msg
    by (rule part_keepsI) (auto simp: set_nio_def goto_finally_def booting_def split: if_splits)
  have "part_keeps booting (set_listeners_nio e)"
    unfolding set_listeners_nio_def by (rule part_keeps_at) (intro main_then_keeps nio)
  moreover have "part_keeps booting (make_selector e)"
  proof (rule part_keepsI)
    fix l l' assume b: "booting l" and run: "make_selector e l = Inr (Inl l') \<or> make_selector e l = Inr (Inr l')"
    have "listening s" if "selector_new conf m c 1024 = Inr (Some s)" for conf m c and s :: selector
    proof -
      obtain s' :: selector where s': "selector_new conf True True 1024 = Inr (Some s')" "sel_inv s'" "interest_of s' = Map.empty"
        "resolution_jobs s' = []" using selector_new_ok [of 1024 conf] by auto
      have "m \<and> c" using that by (auto simp: selector_new_def ensure_capacity_def selector_zero_def Let_def split: if_splits)
      then show ?thesis using that s' by (simp add: listening_def entry_of_def)
    qed
    then show "booting l'"
      using b run by (auto simp: make_selector_def goto_finally_def booting_def Let_def split: if_splits prod.splits)
  qed
  moreover have "part_keeps booting (register_listeners e)"
    unfolding register_listeners_def by (rule part_keeps_at) (intro main_then_keeps register_listener_booting; simp)
  moreover have "part_keeps booting (register_root e)"
    by (rule part_keepsI) (auto simp: register_root_def booting_def split: option.splits)
  moreover have "part_keeps booting (configure args)"
    by (rule part_keepsI) (auto simp: configure_def booting_def Let_def split: if_splits)
  ultimately show ?thesis unfolding startup_def by (intro main_then_keeps)
qed

lemma main_locals_init_booting: "booting main_locals_init"
  by (simp add: booting_def main_locals_init_def server_init_def)

lemma listening_inv:
  assumes "listening s" "sv_conns g = Map.empty" "sv_mons g = Map.empty" "sv_threads g = []"
  shows "sv_inv (resolution_jobs s) (s, g)"
proof -
  have "entry_of s f \<noteq> Some (i, Some H_socks5, d)" "entry_of s f \<noteq> Some (i, Some H_monitor, d)" for f i d
    using listening_entry [OF assms(1), of f] by auto
  then show ?thesis using assms by (simp add: sv_inv_def listening_def conns_ok_def mons_ok_def threads_ok_def)
qed

lemma booting_inv: "booting l \<Longrightarrow> ml_selector l = Some s \<Longrightarrow> sv_inv (resolution_jobs s) (s, ml_server l)"
  by (rule listening_inv) (simp_all add: booting_def)

section \<open>The whole program\<close>

text \<open>What \<open>finally\<close> finds: either no selector, or one with its invariant.\<close>

definition closable :: "main_locals \<Rightarrow> bool" where
  "closable l \<longleftrightarrow>
     (case ml_selector l of
        None \<Rightarrow> sv_conns (ml_server l) = Map.empty \<and> sv_mons (ml_server l) = Map.empty
      | Some s \<Rightarrow> sv_inv (resolution_jobs s) (s, ml_server l))"

lemma booting_closable: "booting l \<Longrightarrow> closable l"
  using booting_inv [of l] by (auto simp: closable_def booting_def split: option.splits)

lemma main_finally_ok:
  assumes "closable l"
  shows "main_finally ub e l = main_finally ub' e l"
    "main_finally ub e l = Inr (r, g, fs) \<Longrightarrow> sv_conns g = Map.empty \<and> sv_mons g = Map.empty"
proof -
  obtain g' where "\<And>ub. selector_destroy (all_handlers ub (me_kernel e)) (ml_selector l) (ml_server l) = Inr g'"
    "sv_conns g' = Map.empty" "sv_mons g' = Map.empty"
  proof (cases "ml_selector l")
    case None
    then show ?thesis using that [of "ml_server l"] assms by (simp add: closable_def selector_destroy_def)
  next
    case (Some s)
    then show ?thesis
      using selector_destroy_all [of "resolution_jobs s" s "ml_server l" "me_kernel e"] assms that by (auto simp: closable_def)
  qed
  then show "main_finally ub e l = main_finally ub' e l"
    "main_finally ub e l = Inr (r, g, fs) \<Longrightarrow> sv_conns g = Map.empty \<and> sv_mons g = Map.empty"
    by (auto simp: main_finally_def Let_def split: option.splits if_splits)
qed

lemma main_loop_ok:
  assumes "booting l" "kernel_ok (me_kernel e)"
  shows "main_loop ub e l = main_loop ub' e l" "main_loop ub e l = Inr (Inl l') \<or> main_loop ub e l = Inr (Inr l') \<Longrightarrow> closable l'"
proof -
  have serve: "serve ub (me_kernel e) (me_acts e) (s, ml_server l) = serve ub' (me_kernel e) (me_acts e) (s, ml_server l)"
    "serve ub (me_kernel e) (me_acts e) (s, ml_server l) = Inr (st, s1, g1) \<Longrightarrow> sv_inv (resolution_jobs s1) (s1, g1)"
    if "ml_selector l = Some s" for s st s1 g1
    using serve_ok [OF booting_inv [OF assms(1) that] assms(2), of ub "me_acts e" ub'] by blast+
  show "main_loop ub e l = main_loop ub' e l" using serve(1) by (auto simp: main_loop_def split: option.splits)
  show "closable l'" if run: "main_loop ub e l = Inr (Inl l') \<or> main_loop ub e l = Inr (Inr l')"
  proof -
    obtain s where s: "ml_selector l = Some s" using run by (auto simp: main_loop_def split: option.splits)
    then obtain st s1 g1 where 1: "serve ub (me_kernel e) (me_acts e) (s, ml_server l) = Inr (st, s1, g1)"
      using run by (auto simp: main_loop_def)
    then have "ml_selector l' = Some s1" "ml_server l' = g1"
      using run s by (auto simp: main_loop_def goto_finally_def Let_def split: if_splits)
    then show ?thesis using serve(2) [OF s 1] by (simp add: closable_def)
  qed
qed

lemma server_main_cases:
  assumes "server_main ub e = Inr y"
  obtains args l where "parse_args (me_opts e) (me_rest e) = Inr args" "main_finally ub e l = Inr y"
    "main_then (startup e args) (main_loop ub e) main_locals_init \<in> {Inr (Inl l), Inr (Inr l)}"
  using assms by (auto simp: server_main_def split: sum.splits)

lemma main_body_closable:
  assumes "kernel_ok (me_kernel e)" "main_then (startup e args) (main_loop ub e) main_locals_init \<in> {Inr (Inl l), Inr (Inr l)}"
  shows "closable l"
proof -
  obtain r where r: "main_then (startup e args) (main_loop ub e) main_locals_init = Inr r" "r = Inl l \<or> r = Inr l" using assms(2) by auto
  note b = part_keepsD [OF startup_booting main_locals_init_booting]
  from r(1) show ?thesis
  proof (cases rule: main_then_cases)
    case (1 l1)
    then show ?thesis using r(2) b [of e args l1] booting_closable by auto
  next
    case (2 l1)
    then show ?thesis using r(2) b [of e args l1] main_loop_ok(2) [OF _ assms(1)] by blast
  qed
qed

lemma main_body_ub:
  assumes "kernel_ok (me_kernel e)"
  shows "main_then (startup e args) (main_loop ub e) main_locals_init = main_then (startup e args) (main_loop ub' e) main_locals_init"
proof (cases "startup e args main_locals_init")
  case (Inr r)
  then show ?thesis
    using part_keepsD [OF startup_booting main_locals_init_booting, of e args] main_loop_ok(1) [OF _ assms, of _ ub ub']
    by (cases r) (auto simp: main_then_def)
qed (simp add: main_then_def)

text \<open>A server started with one account, whose kernel gives every client the descriptor 5 if it is free.\<close>

definition demo_kernel :: kernel where
  "demo_kernel =
     \<lparr>kn_conn = (\<lambda>key sg. (snd (demo_key 0 Recv_eof Send_err))\<lparr>kr_socket := if 6 \<in> open_fds sg then -1 else 6\<rparr>),
      kn_mon = (\<lambda>key sg. \<lparr>mr_accept = -1, mr_getfd = 0, mr_setfl = (\<lambda>_. 0), mr_malloc = True, mr_alloc = True,
        mr_recv = Recv_eof, mr_send = Send_err\<rparr>),
      kn_accept = (\<lambda>key sg. \<lparr>ac_accept = if 5 \<in> open_fds sg then -1 else 5, ac_addr = replicate 16 0, ac_getfd = 0,
        ac_setfl = (\<lambda>_. 0), ac_malloc = True, ac_alloc = True\<rparr>)\<rparr>"

definition demo_env :: "action list \<Rightarrow> main_env" where
  "demo_env acts =
     \<lparr>me_opts = [(CHR ''u'', [97, colon, 98])], me_rest = [], me_pton4 = (\<lambda>_. Some [127, 0, 0, 1]), me_pton6 = (\<lambda>_. None),
      me_listen = (\<lambda>i. \<lparr>ls_socket = (if i = Server_v4 then 3 else 4), ls_bind = (\<lambda>_ _. 0), ls_listen = (\<lambda>_. 0), ls_getfd = 0,
        ls_setfl = (\<lambda>_. 0), ls_alloc = True\<rparr>),
      me_sigprocmask = 0, me_sigaction = 0, me_malloc = True, me_calloc = True, me_token = Some (replicate 16 65),
      me_kernel = demo_kernel, me_acts = acts\<rparr>"

definition demo_args :: socks5args where
  "demo_args = socks5args_init\<lparr>arg_users := (arg_users socks5args_init)[0 := \<lparr>ua_name = Some [97], ua_pass = Some [98]\<rparr>]\<rparr>"

lemma demo_kernel_ok: "kernel_ok demo_kernel"
proof -
  have "-1 \<notin> open_fds sg" for sg by (auto simp: open_fds_def)
  then show ?thesis by (simp add: kernel_ok_def demo_kernel_def)
qed

lemma demo_parse: "parse_args (me_opts (demo_env acts)) (me_rest (demo_env acts)) = Inr demo_args"
  by (simp add: demo_env_def parse_args_def server_option_def user_arg_def demo_args_def socks5args_init_def MAX_USERS_def)

lemma demo_startup:
  obtains l s where "startup (demo_env acts) demo_args main_locals_init = Inr (Inr l)" "ml_selector l = Some s" "listening s"
    "ml_ss l = SELECTOR_SUCCESS" "ml_server_v4 l = 3" "ml_monitor_v4 l = 4" "ml_server_v6 l = -1" "ml_monitor_v6 l = -1"
    "booting l"
    "1024 < fd_size s" "pool_len (sv_glob (ml_server l)) = 0" "sv_next (ml_server l) = 0"
    "entry_of s 3 = Some (OP_READ, Some H_socks5_passive, None)" "entry_of s 5 = None"
proof -
  let ?e = "demo_env acts"
  let ?l = "main_locals_init\<lparr>ml_server_v4 := 3, ml_monitor_v4 := 4\<rparr>"
  obtain s0 :: selector where s0: "selector_new \<lparr>conf_signal = SIGALRM, conf_timeout = (10, 0)\<rparr> True True 1024 = Inr (Some s0)"
    "sel_inv s0" "interest_of s0 = Map.empty" "1024 < fd_size s0"
    using selector_new_ok [of 1024 "\<lparr>conf_signal = SIGALRM, conf_timeout = (10, 0)\<rparr>"] by auto
  obtain s1 where s1: "selector_register True s0 3 (Some H_socks5_passive) OP_READ None = Inr (SELECTOR_SUCCESS, s1)" "sel_inv s1"
    "interest_of s1 = (interest_of s0)(3 \<mapsto> OP_READ)" "data_of s1 3 = None" "handler_of s1 3 = Some H_socks5_passive" "fd_size s1 = fd_size s0"
    using selector_register_ok [OF s0(2), of 3 True H_socks5_passive OP_READ None] s0(3,4) by auto
  obtain s2 where s2: "selector_register True s1 4 (Some H_monitor_passive) OP_READ None = Inr (SELECTOR_SUCCESS, s2)" "fd_size s2 = fd_size s0"
    "entry_of s2 3 = Some (OP_READ, Some H_socks5_passive, None)" "entry_of s2 5 = None"
    using selector_register_ok [OF s1(2), of 4 True H_monitor_passive OP_READ None] s1(3-6) s0(3,4) by (auto simp: entry_of_def)
  obtain ra where ra: "monitor_register_admin (bytes_of ''root'') (replicate 16 65) admins_init = Inr (0, ra)"
    using first_admin [of "replicate 16 65" "bytes_of ''root''"] by (auto simp: c_string_def bytes_of_def)
  obtain ru where ru: "socksv5_register_user [97] [98] users_init = Inr (0, ru)"
    using users.add_new [OF users_init_inv, of "[97]" "[98]"] by (auto simp: c_string_def users_init_entries MAX_USERS_def)
  define l where "l = ?l\<lparr>ml_selector := Some s2, ml_server := server_init\<lparr>sv_admins := ra, sv_glob := globals_init\<lparr>g_users := ru\<rparr>\<rparr>\<rparr>"
  have parts: "open_server_v4 ?e demo_args main_locals_init = Inr (Inr (main_locals_init\<lparr>ml_server_v4 := 3\<rparr>))"
    "open_monitor_v4 ?e demo_args (main_locals_init\<lparr>ml_server_v4 := 3\<rparr>) = Inr (Inr ?l)"
    "open_server_v6 ?e demo_args ?l = Inr (Inr ?l)" "open_monitor_v6 ?e demo_args ?l = Inr (Inr ?l)"
    "check_listeners ?l = Inr (Inr ?l)" "set_listeners_nio ?e ?l = Inr (Inr ?l)"
    "make_selector ?e ?l = Inr (Inr (?l\<lparr>ml_selector := Some s0\<rparr>))"
    using s0(1)
    by (simp_all add: open_server_v4_def open_monitor_v4_def open_server_v6_def open_monitor_v6_def demo_env_def bind_ipv4_socket_def
        create_socket_def bind_socket_def check_listeners_def IS_FD_USED_def set_listeners_nio_def set_nio_def main_then_def
        selector_fd_set_nio_def main_locals_init_def make_selector_def selector_init_def)
  have reg: "register_listeners ?e (?l\<lparr>ml_selector := Some s0\<rparr>) = Inr (Inr (?l\<lparr>ml_selector := Some s2\<rparr>))"
    using s1(1) s2(1) by (simp add: register_listeners_def register_listener_def main_then_def IS_FD_USED_def main_locals_init_def demo_env_def)
  have acc: "register_root ?e (?l\<lparr>ml_selector := Some s2\<rparr>) = Inr (Inr (?l\<lparr>ml_selector := Some s2, ml_server := server_init\<lparr>sv_admins := ra\<rparr>\<rparr>))"
    "configure demo_args (?l\<lparr>ml_selector := Some s2, ml_server := server_init\<lparr>sv_admins := ra\<rparr>\<rparr>) = Inr (Inr l)"
    using ra ru by (simp_all add: register_root_def configure_def demo_env_def main_locals_init_def server_init_def globals_init_def demo_args_def
        socks5args_init_def MAX_USERS_def l_def numeral_eq_Suc)
  have "startup ?e demo_args main_locals_init = Inr (Inr l)"
    by (simp add: startup_def main_then_def parts reg acc)
  moreover have "booting l" using part_keepsD [OF startup_booting main_locals_init_booting] calculation by blast
  ultimately show thesis by (intro that [of l s2]) (use s0(4) s2(2-4) in \<open>simp_all add: l_def booting_def main_locals_init_def globals_init_def server_init_def\<close>)
qed

lemma demo_main: "\<exists>g. server_main ub (demo_env []) = Inr (1, g, [3, 4])"
proof -
  obtain l s where l: "startup (demo_env []) demo_args main_locals_init = Inr (Inr l)" "ml_selector l = Some s" "listening s"
    "ml_ss l = SELECTOR_SUCCESS" "ml_server_v4 l = 3" "ml_monitor_v4 l = 4" "ml_server_v6 l = -1" "ml_monitor_v6 l = -1" "booting l"
    by (rule demo_startup)
  let ?l = "l\<lparr>ml_err_msg := Some ''closing'', ml_ret := Some 0\<rparr>"
  have loop: "main_loop ub (demo_env []) l = Inr (Inr ?l)"
    using l(2,4) by (cases l) (simp add: main_loop_def demo_env_def)
  obtain g where "selector_destroy (all_handlers ub demo_kernel) (Some s) (ml_server l) = Inr g"
    using selector_destroy_all [OF booting_inv [OF l(9,2)], of demo_kernel] by blast
  then show ?thesis
    unfolding server_main_def demo_parse by (simp add: main_then_def l loop main_finally_def) (simp add: demo_env_def Let_def)
qed



end
