(* ===== verification/Ready.thy ===== *)
theory Ready
  imports Startup
begin

text \<open>
  What \<open>main\<close> has set up when it enters the loop, and what it returns.
\<close>

section \<open>The listening sockets\<close>

text \<open>The socket \<open>f\<close> was created, bound to the address \<open>d\<close> and port \<open>p\<close>, and listens.\<close>

definition listens :: "listen_ret \<Rightarrow> socks_dest \<Rightarrow> u16 \<Rightarrow> fd \<Rightarrow> bool" where
  "listens r d p f \<longleftrightarrow> f = ls_socket r \<and> 0 \<le> f \<and> 0 \<le> ls_bind r f (sockaddr_of d (be16 p)) \<and> 0 \<le> ls_listen r f"

lemma create_socket_fd: "0 \<le> create_socket r \<Longrightarrow> create_socket r = ls_socket r"
  by (simp add: create_socket_def Let_def split: if_splits)

lemma ipv4_address:
  assumes "length a = 4"
  shows "overwrite (overwrite (overwrite (replicate sizeof_sockaddr_in 0) 0 AF_INET_bytes) 4 a) 2 (be16 p) = sockaddr_of (Dest_ipv4 a) (be16 p)"
  using assms by (simp add: overwrite_def sizeof_sockaddr_in_def AF_INET_bytes_def be16_def numeral_eq_Suc)

lemma ipv6_address:
  assumes "length a = 16"
  shows "overwrite (overwrite (overwrite (replicate sizeof_sockaddr_in6 0) 0 AF_INET6_bytes) 8 a) 2 (be16 p) = sockaddr_of (Dest_ipv6 a) (be16 p)"
  using assms by (simp add: overwrite_def sizeof_sockaddr_in6_def AF_INET6_bytes_def be16_def numeral_eq_Suc)

lemma bind_listens:
  "length a = 4 \<Longrightarrow> \<not> bind_ipv4_socket r a p < 0 \<Longrightarrow> listens r (Dest_ipv4 a) p (bind_ipv4_socket r a p)"
  "length a = 16 \<Longrightarrow> \<not> bind_ipv6_socket r a p < 0 \<Longrightarrow> listens r (Dest_ipv6 a) p (bind_ipv6_socket r a p)"
  using create_socket_fd [of r]
  by (auto simp: bind_ipv4_socket_def bind_ipv6_socket_def ipv4_address ipv6_address bind_socket_def listens_def Let_def not_less
      split: if_splits)

lemma main_then_Inr: "main_then p q l = Inr (Inr l') \<longleftrightarrow> (\<exists>l1. p l = Inr (Inr l1) \<and> q l1 = Inr (Inr l'))"
  by (auto simp: main_then_def split: sum.splits)

text \<open>The outcome of the parts that open the sockets; \<open>pton\<close> is the length of what \<open>inet_pton\<close> stores.\<close>

definition pton_ok :: "main_env \<Rightarrow> bool" where
  "pton_ok e \<longleftrightarrow> (\<forall>t a. me_pton4 e t = Some a \<longrightarrow> length a = 4) \<and> (\<forall>t a. me_pton6 e t = Some a \<longrightarrow> length a = 16)"

fun listener_ok :: "main_env \<Rightarrow> socks5args \<Rightarrow> listener \<Rightarrow> fd \<Rightarrow> bool" where
  "listener_ok e args Server_v4 f \<longleftrightarrow> f = -1 \<or>
     (\<exists>a. me_pton4 e (socks_addr args) = Some a \<and> listens (me_listen e Server_v4) (Dest_ipv4 a) (socks_port args) f)"
| "listener_ok e args Monitor_v4 f \<longleftrightarrow> f = -1 \<or>
     (\<exists>a. me_pton4 e (mng_addr args) = Some a \<and> listens (me_listen e Monitor_v4) (Dest_ipv4 a) (mng_port args) f)"
| "listener_ok e args Server_v6 f \<longleftrightarrow> f = -1 \<or>
     (\<exists>a. me_pton6 e (if is_default_socks_addr args then bytes_of ''::0'' else socks_addr args) = Some a \<and>
        listens (me_listen e Server_v6) (Dest_ipv6 a) (socks_port args) f)"
| "listener_ok e args Monitor_v6 f \<longleftrightarrow> f = -1 \<or>
     (\<exists>a. me_pton6 e (if is_default_mng_addr args then bytes_of ''::1'' else mng_addr args) = Some a \<and>
        listens (me_listen e Monitor_v6) (Dest_ipv6 a) (mng_port args) f)"

definition opened :: "main_env \<Rightarrow> socks5args \<Rightarrow> main_locals \<Rightarrow> bool" where
  "opened e args l \<longleftrightarrow> listener_ok e args Server_v4 (ml_server_v4 l) \<and> listener_ok e args Monitor_v4 (ml_monitor_v4 l) \<and>
     listener_ok e args Server_v6 (ml_server_v6 l) \<and> listener_ok e args Monitor_v6 (ml_monitor_v6 l) \<and> ml_server l = server_init"

lemma open_run:
  assumes "pton_ok e" "opened e args l"
  shows "open_server_v4 e args l = Inr (Inr l') \<Longrightarrow> opened e args l'" "open_monitor_v4 e args l = Inr (Inr l') \<Longrightarrow> opened e args l'"
    "open_server_v6 e args l = Inr (Inr l') \<Longrightarrow> opened e args l'" "open_monitor_v6 e args l = Inr (Inr l') \<Longrightarrow> opened e args l'"
proof -
  have four: "length a = 4" if "me_pton4 e t = Some a" for t a using assms(1) that by (simp add: pton_ok_def)
  have sixteen: "length a = 16" if "me_pton6 e t = Some a" for t a using assms(1) that by (simp add: pton_ok_def)
  note parts = open_server_v4_def open_monitor_v4_def open_server_v6_def open_monitor_v6_def goto_finally_def
  note ok = bind_listens(1) [OF four] bind_listens(2) [OF sixteen]
  show "open_server_v4 e args l = Inr (Inr l') \<Longrightarrow> opened e args l'" "open_monitor_v4 e args l = Inr (Inr l') \<Longrightarrow> opened e args l'"
    "open_server_v6 e args l = Inr (Inr l') \<Longrightarrow> opened e args l'" "open_monitor_v6 e args l = Inr (Inr l') \<Longrightarrow> opened e args l'"
    using assms(2) ok
    by (auto simp: parts opened_def Let_def simp del: listener_ok.simps split: option.splits if_splits) auto
qed

lemma set_listeners_nio_run: "set_listeners_nio e l = Inr (Inr l') \<Longrightarrow> l' = l"
  by (auto simp: set_listeners_nio_def main_then_Inr set_nio_def goto_finally_def split: if_splits)

lemma make_selector_run:
  assumes "make_selector e l = Inr (Inr l')"
  obtains s where "l' = l\<lparr>ml_selector := Some s\<rparr>" "sel_inv s" "entry_of s = Map.empty" "resolution_jobs s = []"
proof -
  obtain s :: selector where s: "selector_new \<lparr>conf_signal = SIGALRM, conf_timeout = (10, 0)\<rparr> (me_malloc e) (me_calloc e) 1024 = Inr (Some s)"
    "l' = l\<lparr>ml_selector := Some s\<rparr>"
    using assms by (auto simp: make_selector_def selector_init_def goto_finally_def Let_def split: if_splits prod.splits)
  have "me_malloc e \<and> me_calloc e"
    using s(1) by (auto simp: selector_new_def ensure_capacity_def selector_zero_def Let_def split: if_splits)
  moreover obtain s' :: selector where "selector_new \<lparr>conf_signal = SIGALRM, conf_timeout = (10, 0)\<rparr> True True 1024 = Inr (Some s')"
    "sel_inv s'" "interest_of s' = Map.empty" "resolution_jobs s' = []"
    using selector_new_ok [of 1024 "\<lparr>conf_signal = SIGALRM, conf_timeout = (10, 0)\<rparr>"] by auto
  ultimately have "sel_inv s" "interest_of s = Map.empty" "resolution_jobs s = []" using s(1) by simp_all
  with that [of s] s(2) show thesis by (simp add: entry_of_def fun_eq_iff)
qed

text \<open>The entries of the selector after a listener is registered.\<close>

definition add_listener :: "fd \<Rightarrow> handler_id \<Rightarrow> (fd \<Rightarrow> entry option) \<Rightarrow> fd \<Rightarrow> entry option" where
  "add_listener f h m = (if IS_FD_USED f then m(f \<mapsto> (OP_READ, Some h, None)) else m)"

lemma add_listener_apply:
  "add_listener f h m f' = (if f' = f \<and> f' \<noteq> -1 then Some (OP_READ, Some h, None) else m f')"
  by (simp add: add_listener_def IS_FD_USED_def)

lemma listeners_entry:
  assumes "distinct (filter IS_FD_USED [a, b, c, d])"
  shows "add_listener d h2 (add_listener c h2 (add_listener b h1 (add_listener a h1 Map.empty))) f = Some (i, h, x) \<longleftrightarrow>
    f \<noteq> -1 \<and> i = OP_READ \<and> x = None \<and> (f \<in> {a, b} \<and> h = Some h1 \<or> f \<in> {c, d} \<and> h = Some h2)"
proof -
  have apart: "\<not> (f \<in> {a, b} \<and> f \<in> {c, d})" if "f \<noteq> -1"
    using assms that by (auto simp: IS_FD_USED_def split: if_splits)
  show ?thesis
  proof (cases "f = -1 \<or> f \<notin> {a, b, c, d}")
    case False
    then show ?thesis using apart by (cases "f \<in> {c, d}") (auto simp: add_listener_apply)
  qed (auto simp: add_listener_apply)
qed

lemma register_listener_adds:
  assumes "register_listener r f h msg l = Inr (Inr l')" "ml_selector l = Some s" "sel_inv s"
  obtains s' where "ml_selector l' = Some s'" "sel_inv s'" "entry_of s' = add_listener f h (entry_of s)"
    "IS_FD_USED f \<longrightarrow> entry_of s f = None" "resolution_jobs s' = resolution_jobs s"
    "ml_server_v4 l' = ml_server_v4 l" "ml_monitor_v4 l' = ml_monitor_v4 l" "ml_server_v6 l' = ml_server_v6 l"
    "ml_monitor_v6 l' = ml_monitor_v6 l" "ml_server l' = ml_server l"
proof (cases "IS_FD_USED f")
  case False
  then show ?thesis using assms that [of s] by (auto simp: register_listener_def add_listener_def)
next
  case True
  obtain st s1 m where r: "l' = l\<lparr>ml_ss := st, ml_selector := Some s1, ml_err_msg := m\<rparr>" "sel_inv s1"
    "resolution_jobs s1 = resolution_jobs s"
    "if st = SELECTOR_SUCCESS then entry_of s f = None \<and> entry_of s1 = (entry_of s)(f \<mapsto> (OP_READ, Some h, None)) \<and> m = ml_err_msg l
     else entry_of s1 = entry_of s \<and> m = Some msg"
    "register_listener r f h msg l = (if st = SELECTOR_SUCCESS then Inr (Inr l') else Inr (Inl l'))"
    by (rule register_listener_run [OF True assms(2,3) disjI2 [OF assms(1)]])
  then have "st = SELECTOR_SUCCESS" using assms(1) by (auto split: if_splits)
  with r True that [of s1] show ?thesis by (simp add: add_listener_def)
qed

lemma register_listeners_run:
  assumes "register_listeners e l = Inr (Inr l')" "ml_selector l = Some s" "sel_inv s" "entry_of s = Map.empty"
  obtains s' where "ml_selector l' = Some s'"
    "entry_of s' = add_listener (ml_monitor_v6 l) H_monitor_passive (add_listener (ml_monitor_v4 l) H_monitor_passive
       (add_listener (ml_server_v6 l) H_socks5_passive (add_listener (ml_server_v4 l) H_socks5_passive Map.empty)))"
    "distinct (filter IS_FD_USED [ml_server_v4 l, ml_server_v6 l, ml_monitor_v4 l, ml_monitor_v6 l])"
    "ml_server_v4 l' = ml_server_v4 l" "ml_monitor_v4 l' = ml_monitor_v4 l" "ml_server_v6 l' = ml_server_v6 l"
    "ml_monitor_v6 l' = ml_monitor_v6 l" "ml_server l' = ml_server l"
proof -
  obtain l1 l2 l3 where
    r: "register_listener (me_listen e Server_v4) (ml_server_v4 l) H_socks5_passive ''registering IPv4 socks fd'' l = Inr (Inr l1)"
      "register_listener (me_listen e Server_v6) (ml_server_v6 l) H_socks5_passive ''registering IPv6 socks fd'' l1 = Inr (Inr l2)"
      "register_listener (me_listen e Monitor_v4) (ml_monitor_v4 l) H_monitor_passive ''registering IPv4 monitor fd'' l2 = Inr (Inr l3)"
      "register_listener (me_listen e Monitor_v6) (ml_monitor_v6 l) H_monitor_passive ''registering IPv6 monitor fd'' l3 = Inr (Inr l')"
    using assms(1) by (auto simp: register_listeners_def main_then_Inr)
  obtain s1 where 1: "ml_selector l1 = Some s1" "sel_inv s1" "entry_of s1 = add_listener (ml_server_v4 l) H_socks5_passive (entry_of s)"
    "ml_server_v4 l1 = ml_server_v4 l" "ml_monitor_v4 l1 = ml_monitor_v4 l" "ml_server_v6 l1 = ml_server_v6 l"
    "ml_monitor_v6 l1 = ml_monitor_v6 l" "ml_server l1 = ml_server l"
    by (rule register_listener_adds [OF r(1) assms(2,3)])
  obtain s2 where 2: "ml_selector l2 = Some s2" "sel_inv s2" "entry_of s2 = add_listener (ml_server_v6 l) H_socks5_passive (entry_of s1)"
    "IS_FD_USED (ml_server_v6 l) \<longrightarrow> entry_of s1 (ml_server_v6 l) = None"
    "ml_server_v4 l2 = ml_server_v4 l1" "ml_monitor_v4 l2 = ml_monitor_v4 l1" "ml_server_v6 l2 = ml_server_v6 l1"
    "ml_monitor_v6 l2 = ml_monitor_v6 l1" "ml_server l2 = ml_server l1"
    by (rule register_listener_adds [OF r(2) 1(1,2)])
  obtain s3 where 3: "ml_selector l3 = Some s3" "sel_inv s3" "entry_of s3 = add_listener (ml_monitor_v4 l) H_monitor_passive (entry_of s2)"
    "IS_FD_USED (ml_monitor_v4 l) \<longrightarrow> entry_of s2 (ml_monitor_v4 l) = None"
    "ml_server_v4 l3 = ml_server_v4 l2" "ml_monitor_v4 l3 = ml_monitor_v4 l2" "ml_server_v6 l3 = ml_server_v6 l2"
    "ml_monitor_v6 l3 = ml_monitor_v6 l2" "ml_server l3 = ml_server l2"
    by (rule register_listener_adds [OF r(3) 2(1,2)])
  obtain s4 where 4: "ml_selector l' = Some s4" "sel_inv s4" "entry_of s4 = add_listener (ml_monitor_v6 l) H_monitor_passive (entry_of s3)"
    "IS_FD_USED (ml_monitor_v6 l) \<longrightarrow> entry_of s3 (ml_monitor_v6 l) = None"
    "ml_server_v4 l' = ml_server_v4 l3" "ml_monitor_v4 l' = ml_monitor_v4 l3" "ml_server_v6 l' = ml_server_v6 l3"
    "ml_monitor_v6 l' = ml_monitor_v6 l3" "ml_server l' = ml_server l3"
    by (rule register_listener_adds [OF r(4) 3(1,2)])
  note e = 4(3) [unfolded 3(3) 2(3) 1(3) assms(4)]
  have "distinct (filter IS_FD_USED [ml_server_v4 l, ml_server_v6 l, ml_monitor_v4 l, ml_monitor_v6 l])"
    using 2(4) 3(4) 4(4) unfolding 3(3) 2(3) 1(3) assms(4) by (auto simp: add_listener_def split: if_splits)
  with e 4 3 2 1 show thesis by (intro that) simp_all
qed

section \<open>Accounts\<close>

text \<open>The accounts of the command line, up to the first unused entry.\<close>

definition cli_accounts :: "socks5args \<Rightarrow> (byte list \<times> byte list) list" where
  "cli_accounts args =
     map (\<lambda>u. (the (ua_name u), the (ua_pass u))) (takeWhile (\<lambda>u. ua_name u \<noteq> None) (take MAX_USERS (arg_users args)))"

lemma register_users_refines:
  assumes "register_users us r = Inr r'" "users_inv r"
    and "\<forall>u \<in> set (takeWhile (\<lambda>u. ua_name u \<noteq> None) us). c_string 0xff (the (ua_name u)) \<and> c_string 0xff (the (ua_pass u))"
  shows "users_inv r' \<and> user_entries r' = snd (reg_spec_run MAX_USERS (\<lambda>_. False)
     (map (\<lambda>u. Reg_add (the (ua_name u)) (the (ua_pass u))) (takeWhile (\<lambda>u. ua_name u \<noteq> None) us)) (user_entries r))"
  using assms
proof (induction us arbitrary: r)
  case (Cons u us)
  show ?case
  proof (cases "ua_name u")
    case None
    then show ?thesis using Cons.prems by simp
  next
    case (Some n)
    then obtain p where p: "ua_pass u = Some p" using Cons.prems(1) by (auto split: option.splits)
    have "valid_user_op (Reg_add n p)" using Cons.prems(3) Some p by simp
    from users.step_refines [OF Cons.prems(2) this] obtain r1 where
      r1: "socksv5_register_user n p r = Inr (fst (reg_spec MAX_USERS (\<lambda>_. False) (Reg_add n p) (user_entries r)), r1)" "users_inv r1"
        "user_entries r1 = snd (reg_spec MAX_USERS (\<lambda>_. False) (Reg_add n p) (user_entries r))" by auto
    have "register_users us r1 = Inr r'" using Cons.prems(1) Some p r1(1) by simp
    from Cons.IH [OF this r1(2)] Cons.prems(3) r1(3) Some p show ?thesis by (simp add: Let_def split: prod.splits)
  qed
qed simp

lemma root_registered:
  assumes "register_root e l = Inr (Inr l')" "me_token e = Some token" "0 \<notin> set token" "sv_admins (ml_server l) = admins_init"
  shows "\<exists>r. l' = l\<lparr>ml_server := (ml_server l)\<lparr>sv_admins := r\<rparr>\<rparr> \<and>
     admin_entries r = (if length token = 16 then [(default_admin_uname, token)] else [])"
proof (cases "length token = 16")
  case True
  then obtain r where "monitor_register_admin (bytes_of ''root'') token admins_init = Inr (0, r)"
    "admin_entries r = [(default_admin_uname, token)]"
    using first_admin [OF assms(3), of "bytes_of ''root''"] by (auto simp: c_string_def bytes_of_def)
  then show ?thesis using assms(1,2,4) True by (intro exI [of _ r]) (simp add: register_root_def)
next
  case False
  then have "monitor_register_admin (bytes_of ''root'') token admins_init = Inr (-1, admins_init)"
    by (simp add: monitor_register_admin_def admins_init_def MAX_ADMINS_def)
  then show ?thesis
    using assms(1,2,4) False
    by (intro exI [of _ admins_init]) (simp add: register_root_def admin_entries_def reg_entries_def admins_init_def)
qed

lemma configured:
  assumes "configure args l = Inr (Inr l')" "sv_glob (ml_server l) = globals_init"
    and "\<forall>(n, p) \<in> set (cli_accounts args). c_string 0xff n \<and> c_string 0xff p"
  shows "\<exists>g. l' = l\<lparr>ml_server := (ml_server l)\<lparr>sv_glob := g\<rparr>\<rparr> \<and> is_auth_on g \<and> is_disector_on g = disectors_enabled args \<and>
     user_entries (g_users g) = snd (reg_spec_run MAX_USERS (\<lambda>_. False) (map (\<lambda>(n, p). Reg_add n p) (cli_accounts args)) [])"
proof -
  let ?us = "take MAX_USERS (arg_users args)"
  obtain r where r: "register_users ?us users_init = Inr r"
    "l' = l\<lparr>ml_server := (ml_server l)\<lparr>sv_glob := (if disectors_enabled args then globals_init\<lparr>g_users := r\<rparr>
       else socksv5_toggle_disector False (globals_init\<lparr>g_users := r\<rparr>))\<rparr>\<rparr>"
    using assms(1,2) by (auto simp: configure_def Let_def globals_init_def)
  have "\<forall>u \<in> set (takeWhile (\<lambda>u. ua_name u \<noteq> None) ?us). c_string 0xff (the (ua_name u)) \<and> c_string 0xff (the (ua_pass u))"
    using assms(3) by (auto simp: cli_accounts_def)
  from register_users_refines [OF r(1) users_init_inv this]
  have "user_entries r = snd (reg_spec_run MAX_USERS (\<lambda>_. False) (map (\<lambda>(n, p). Reg_add n p) (cli_accounts args)) [])"
    by (simp add: users_init_entries cli_accounts_def comp_def)
  then show ?thesis using r(2) by (cases "disectors_enabled args") (auto simp: globals_init_def socksv5_toggle_disector_def)
qed

text \<open>C14. When \<open>main\<close> reaches its loop, each socket that was opened is bound to the address and port of the
  command line (or to the IPv6 default beside the IPv4 one) and listens; exactly those are registered, for
  reading, the proxy's with \<open>socksv5_passive_accept\<close> and the service's with \<open>monitor_passive_accept\<close>; there is
  at least one of each; authentication is on, the table of users holds the accounts of the command line,
  the first one for a name that is repeated; and \<open>root\<close> is an administrator if the token of the environment has
  16 bytes, otherwise there is no administrator.\<close>

theorem startup_ready:
  assumes "startup e args main_locals_init = Inr (Inr l)" "pton_ok e" "me_token e = Some token" "0 \<notin> set token"
    and "\<forall>(n, p) \<in> set (cli_accounts args). c_string 0xff n \<and> c_string 0xff p"
  shows "\<exists>s. ml_selector l = Some s \<and>
     (\<forall>f i h d. entry_of s f = Some (i, h, d) \<longleftrightarrow> f \<noteq> -1 \<and> i = OP_READ \<and> d = None \<and>
        (f \<in> {ml_server_v4 l, ml_server_v6 l} \<and> h = Some H_socks5_passive \<or>
         f \<in> {ml_monitor_v4 l, ml_monitor_v6 l} \<and> h = Some H_monitor_passive)) \<and>
     opened e args (l\<lparr>ml_server := server_init\<rparr>) \<and>
     (ml_server_v4 l \<noteq> -1 \<or> ml_server_v6 l \<noteq> -1) \<and> (ml_monitor_v4 l \<noteq> -1 \<or> ml_monitor_v6 l \<noteq> -1) \<and>
     is_auth_on (sv_glob (ml_server l)) \<and> is_disector_on (sv_glob (ml_server l)) = disectors_enabled args \<and>
     user_entries (g_users (sv_glob (ml_server l))) =
       snd (reg_spec_run MAX_USERS (\<lambda>_. False) (map (\<lambda>(n, p). Reg_add n p) (cli_accounts args)) []) \<and>
     admin_entries (sv_admins (ml_server l)) = (if length token = 16 then [(default_admin_uname, token)] else [])"
proof -
  have init: "opened e args main_locals_init" by (simp add: opened_def main_locals_init_def)
  obtain l1 l2 l3 l4 l5 l6 l7 l8 l9 where r: "open_server_v4 e args main_locals_init = Inr (Inr l1)" "open_monitor_v4 e args l1 = Inr (Inr l2)"
    "open_server_v6 e args l2 = Inr (Inr l3)" "open_monitor_v6 e args l3 = Inr (Inr l4)" "check_listeners l4 = Inr (Inr l5)"
    "set_listeners_nio e l5 = Inr (Inr l6)" "make_selector e l6 = Inr (Inr l7)" "register_listeners e l7 = Inr (Inr l8)"
    "register_root e l8 = Inr (Inr l9)" "configure args l9 = Inr (Inr l)"
    using assms(1) by (auto simp: startup_def main_then_Inr)
  have o4: "opened e args l4" using open_run [OF assms(2)] r(1-4) init by blast
  have chk: "l5 = l4" "ml_server_v4 l4 \<noteq> -1 \<or> ml_server_v6 l4 \<noteq> -1" "ml_monitor_v4 l4 \<noteq> -1 \<or> ml_monitor_v6 l4 \<noteq> -1"
    using r(5) by (auto simp: check_listeners_def IS_FD_USED_def split: if_splits)
  obtain s where s: "l7 = l6\<lparr>ml_selector := Some s\<rparr>" "sel_inv s" "entry_of s = Map.empty" by (rule make_selector_run [OF r(7)])
  have l6: "l6 = l4" using set_listeners_nio_run [OF r(6)] chk(1) by simp
  have sel7: "ml_selector l7 = Some s" by (simp add: s(1))
  obtain s' where s': "ml_selector l8 = Some s'"
    "entry_of s' = add_listener (ml_monitor_v6 l7) H_monitor_passive (add_listener (ml_monitor_v4 l7) H_monitor_passive
       (add_listener (ml_server_v6 l7) H_socks5_passive (add_listener (ml_server_v4 l7) H_socks5_passive Map.empty)))"
    "distinct (filter IS_FD_USED [ml_server_v4 l7, ml_server_v6 l7, ml_monitor_v4 l7, ml_monitor_v6 l7])"
    "ml_server_v4 l8 = ml_server_v4 l7" "ml_monitor_v4 l8 = ml_monitor_v4 l7" "ml_server_v6 l8 = ml_server_v6 l7"
    "ml_monitor_v6 l8 = ml_monitor_v6 l7" "ml_server l8 = ml_server l7"
    by (rule register_listeners_run [OF r(8) sel7 s(2,3)])
  have l8: "ml_server l8 = server_init" using s'(8) s(1) l6 o4 by (simp add: opened_def)
  obtain ra where ra: "l9 = l8\<lparr>ml_server := (ml_server l8)\<lparr>sv_admins := ra\<rparr>\<rparr>"
    "admin_entries ra = (if length token = 16 then [(default_admin_uname, token)] else [])"
    using root_registered [OF r(9) assms(3,4)] l8 by (auto simp: server_init_def)
  have "sv_glob (ml_server l9) = globals_init" by (simp add: ra(1) l8 server_init_def)
  from configured [OF r(10) this assms(5)] obtain g where g: "l = l9\<lparr>ml_server := (ml_server l9)\<lparr>sv_glob := g\<rparr>\<rparr>" "is_auth_on g"
    "is_disector_on g = disectors_enabled args"
    "user_entries (g_users g) = snd (reg_spec_run MAX_USERS (\<lambda>_. False) (map (\<lambda>(n, p). Reg_add n p) (cli_accounts args)) [])" by blast
  have fds: "ml_server_v4 l = ml_server_v4 l4" "ml_server_v6 l = ml_server_v6 l4" "ml_monitor_v4 l = ml_monitor_v4 l4"
    "ml_monitor_v6 l = ml_monitor_v6 l4" "ml_selector l = Some s'"
    using s' s(1) l6 by (simp_all add: g(1) ra(1))
  have "entry_of s' f = Some (i, h, d) \<longleftrightarrow> f \<noteq> -1 \<and> i = OP_READ \<and> d = None \<and>
        (f \<in> {ml_server_v4 l, ml_server_v6 l} \<and> h = Some H_socks5_passive \<or>
         f \<in> {ml_monitor_v4 l, ml_monitor_v6 l} \<and> h = Some H_monitor_passive)" for f i h d
    using listeners_entry [OF s'(3)] s(1) l6 unfolding fds s'(2) by simp
  moreover have "opened e args (l\<lparr>ml_server := server_init\<rparr>)" using o4 fds by (simp add: opened_def)
  ultimately show ?thesis using fds chk(2,3) g(2-4) ra(2) by (intro exI [of _ s']) (simp add: g(1) ra(1))
qed

lemma demo_accounts: "cli_accounts demo_args = [([97], [98])]"
  by (simp add: cli_accounts_def demo_args_def socks5args_init_def MAX_USERS_def numeral_eq_Suc)

theorem startup_ready_witness:
  "\<exists>l s. startup (demo_env []) demo_args main_locals_init = Inr (Inr l) \<and> ml_selector l = Some s \<and>
     entry_of s 3 = Some (OP_READ, Some H_socks5_passive, None) \<and> entry_of s 4 = Some (OP_READ, Some H_monitor_passive, None) \<and>
     user_entries (g_users (sv_glob (ml_server l))) = [([97], [98])] \<and>
     admin_entries (sv_admins (ml_server l)) = [(default_admin_uname, replicate 16 65)]"
proof -
  obtain l where l: "startup (demo_env []) demo_args main_locals_init = Inr (Inr l)" "ml_server_v4 l = 3" "ml_monitor_v4 l = 4"
    by (rule demo_startup)
  have "pton_ok (demo_env [])" "me_token (demo_env []) = Some (replicate 16 65)" by (simp_all add: pton_ok_def demo_env_def)
  from startup_ready [OF l(1) this] obtain s where s: "ml_selector l = Some s"
    "\<And>f i h d. entry_of s f = Some (i, h, d) \<longleftrightarrow> f \<noteq> -1 \<and> i = OP_READ \<and> d = None \<and>
        (f \<in> {3, ml_server_v6 l} \<and> h = Some H_socks5_passive \<or> f \<in> {4, ml_monitor_v6 l} \<and> h = Some H_monitor_passive)"
    "user_entries (g_users (sv_glob (ml_server l))) = [([97], [98])]"
    "admin_entries (sv_admins (ml_server l)) = [(default_admin_uname, replicate 16 65)]"
    by (auto simp: demo_accounts c_string_def MAX_USERS_def l(2,3))
  have "entry_of s 3 = Some (OP_READ, Some H_socks5_passive, None)" "entry_of s 4 = Some (OP_READ, Some H_monitor_passive, None)"
    using s(2) [of 3] s(2) [of 4] by auto
  with l(1) s(1,3,4) show ?thesis by blast
qed

section \<open>Exit status\<close>

lemma finally_status:
  assumes "main_finally ub e l = Inr (r, g, fs)" "ml_ret l = None \<or> ml_err_msg l \<noteq> None"
  shows "r \<in> {1, 2}"
  using assms by (auto simp: main_finally_def Let_def split: if_splits option.splits)

lemma main_loop_status:
  assumes "main_loop ub e l = Inr (Inl l') \<or> main_loop ub e l = Inr (Inr l')"
  shows "ml_err_msg l' \<noteq> None"
  using assms by (auto simp: main_loop_def goto_finally_def Let_def split: option.splits if_splits)

lemma closing_status:
  assumes "main_loop ub e l = Inr (Inr l')" "main_finally ub e l' = Inr (r, g, fs)"
  shows "r = 1"
proof -
  have "ml_ss l' = SELECTOR_SUCCESS" "ml_err_msg l' \<noteq> None"
    using assms(1) by (auto simp: main_loop_def goto_finally_def Let_def split: option.splits if_splits)
  with assms(2) show ?thesis by (auto simp: main_finally_def Let_def)
qed

lemma exit_values:
  assumes "server_main ub e = Inr (r, g, fs)"
  shows "r \<in> {1, 2}"
proof -
  from assms obtain args l where l: "main_finally ub e l = Inr (r, g, fs)"
    "main_then (startup e args) (main_loop ub e) main_locals_init \<in> {Inr (Inl l), Inr (Inr l)}" by (rule server_main_cases)
  then obtain r' where r': "main_then (startup e args) (main_loop ub e) main_locals_init = Inr r'" "r' = Inl l \<or> r' = Inr l" by auto
  from r'(1) have "ml_ret l = None \<or> ml_err_msg l \<noteq> None"
  proof (cases rule: main_then_cases)
    case (1 l1)
    then have "booting l1" using part_keepsD [OF startup_booting main_locals_init_booting] by blast
    then show ?thesis using 1 r'(2) by (auto simp: booting_def)
  next
    case (2 l1)
    then show ?thesis using r'(2) main_loop_status by blast
  qed
  with l(1) show ?thesis by (rule finally_status)
qed

lemma startup_unparsable:
  assumes "\<not> is_default_socks_addr args" "me_pton4 e (socks_addr args) = None" "me_pton6 e (socks_addr args) = None"
    and "\<forall>a. 0 \<le> bind_ipv4_socket (me_listen e Monitor_v4) a (mng_port args) \<and> 0 \<le> bind_ipv6_socket (me_listen e Monitor_v6) a (mng_port args)"
  shows "\<exists>l. startup e args main_locals_init = Inr (Inl l) \<and> ml_selector l = None \<and> ml_err_msg l = None \<and> ml_ss l = SELECTOR_SUCCESS \<and> ml_ret l = None"
  using assms
  by (auto simp: startup_def main_then_def open_server_v4_def open_monitor_v4_def open_server_v6_def open_monitor_v6_def check_listeners_def
      goto_finally_def IS_FD_USED_def main_locals_init_def Let_def not_less [symmetric] split: option.splits)

text \<open>C39. \<open>main\<close> never reports success: it returns 1 or 2, and 1 when a signal ends the loop in good order, as
  \<open>err_msg\<close> is \<open>"closing"\<close> then. When the address of the proxy cannot be parsed it reads \<open>ret\<close> before any value
  was stored there.\<close>

theorem main_exit_status:
  shows "(\<forall>r g fs. server_main ub e = Inr (r, g, fs) \<longrightarrow> r \<in> {1, 2}) \<and>
    (\<forall>args l l' r g fs. parse_args (me_opts e) (me_rest e) = Inr args \<longrightarrow> startup e args main_locals_init = Inr (Inr l) \<longrightarrow>
       main_loop ub e l = Inr (Inr l') \<longrightarrow> server_main ub e = Inr (r, g, fs) \<longrightarrow> r = 1) \<and>
    (\<forall>args. parse_args (me_opts e) (me_rest e) = Inr args \<longrightarrow> \<not> is_default_socks_addr args \<longrightarrow>
       me_pton4 e (socks_addr args) = None \<longrightarrow> me_pton6 e (socks_addr args) = None \<longrightarrow>
       (\<forall>a. 0 \<le> bind_ipv4_socket (me_listen e Monitor_v4) a (mng_port args) \<and> 0 \<le> bind_ipv6_socket (me_listen e Monitor_v6) a (mng_port args)) \<longrightarrow>
       server_main ub e = Inl (Fault Uninit_read))"
proof (intro conjI allI impI)
  fix args
  assume "parse_args (me_opts e) (me_rest e) = Inr args" "\<not> is_default_socks_addr args" "me_pton4 e (socks_addr args) = None"
    "me_pton6 e (socks_addr args) = None"
    "\<forall>a. 0 \<le> bind_ipv4_socket (me_listen e Monitor_v4) a (mng_port args) \<and> 0 \<le> bind_ipv6_socket (me_listen e Monitor_v6) a (mng_port args)"
  then show "server_main ub e = Inl (Fault Uninit_read)"
    using startup_unparsable [of args e] by (auto simp: server_main_def main_then_def main_finally_def selector_destroy_def Let_def)
next
  show "r = 1" if "parse_args (me_opts e) (me_rest e) = Inr args" "startup e args main_locals_init = Inr (Inr l)"
      "main_loop ub e l = Inr (Inr l')" "server_main ub e = Inr (r, g, fs)" for args l l' r g fs
    using closing_status that by (simp add: server_main_def main_then_def)
qed (rule exit_values)

theorem main_exit_status_witness:
  "\<exists>g e. server_main Inr (demo_env []) = Inr (1, g, [3, 4]) \<and> (1 :: int) \<in> {1, 2} \<and> me_opts e = [(CHR ''l'', [120])] \<and>
     server_main Inr e = Inl (Fault Uninit_read)"
proof -
  let ?e = "(demo_env [])\<lparr>me_opts := [(CHR ''l'', [120])], me_pton4 := (\<lambda>t. if t = [120] then None else Some [127, 0, 0, 1])\<rparr>"
  let ?args = "socks5args_init\<lparr>socks_addr := [120], is_default_socks_addr := False\<rparr>"
  obtain g where g: "server_main Inr (demo_env []) = Inr (1, g, [3, 4])" using demo_main by blast
  have "parse_args (me_opts ?e) (me_rest ?e) = Inr ?args"
    by (simp add: demo_env_def parse_args_def server_option_def)
  moreover have "0 \<le> bind_ipv4_socket (me_listen ?e Monitor_v4) a p \<and> 0 \<le> bind_ipv6_socket (me_listen ?e Monitor_v6) a p" for a p
    by (simp add: demo_env_def bind_ipv4_socket_def bind_ipv6_socket_def create_socket_def bind_socket_def)
  moreover have "me_pton4 ?e (socks_addr ?args) = None" "me_pton6 ?e (socks_addr ?args) = None" by (simp_all add: demo_env_def)
  ultimately have "server_main Inr ?e = Inl (Fault Uninit_read)" using main_exit_status [of Inr ?e] by auto
  then show ?thesis using g main_exit_status [of Inr "demo_env []"] by (intro exI [of _ g] exI [of _ ?e]) simp
qed

end
