(* ===== verification/Running.thy ===== *)
theory Running
  imports Ready
begin

text \<open>
  The server from its start to any point of its loop: what holds of every connection of the heap. The
  example at the end runs the loop of a started server over the arrival of a client.
\<close>

lemma started_inv:
  assumes "startup e args main_locals_init = Inr (Inr l)" "ml_selector l = Some s"
  shows "sv_inv (resolution_jobs s) (s, ml_server l)"
  using part_keepsD [OF startup_booting main_locals_init_booting] assms booting_inv by blast

text \<open>What the invariant says about two connections, and about one.\<close>

lemma conns_apart:
  assumes "conns_ok (s, g)" "sv_conns g p = Some x" "sv_conns g q = Some y" "p \<noteq> q"
  shows "client_fd (fst x) \<noteq> client_fd (fst y)" "origin_fd (fst x) \<noteq> -1 \<Longrightarrow> origin_fd (fst x) \<notin> {client_fd (fst y), origin_fd (fst y)}"
proof -
  have "own p (entry_of s (client_fd (fst x)))" "own q (entry_of s (client_fd (fst y)))"
    using conns_okD(1) [OF assms(1,2)] conns_okD(1) [OF assms(1,3)] by (simp_all add: conn_ok_def owned_def Let_def conn_world_def)
  then show "client_fd (fst x) \<noteq> client_fd (fst y)" using assms(4) own_other by metis
  show "origin_fd (fst x) \<noteq> -1 \<Longrightarrow> origin_fd (fst x) \<notin> {client_fd (fst y), origin_fd (fst y)}"
    using origin_apart [OF assms(1,3,2)] assms(4) by auto
qed

lemma conn_registered:
  assumes "conns_ok (s, g)" "entry_of s f = Some (i, Some H_socks5, d)"
  shows "\<exists>p x. d = Some p \<and> sv_conns g p = Some x \<and> f \<in> {client_fd (fst x), origin_fd (fst x)}"
proof -
  obtain p x where p: "d = Some p" "sv_conns g p = Some x" using conns_okD(2) [OF assms] by auto
  have "own p (entry_of s f)" using assms(2) p(1) by (simp add: own_def)
  moreover have "owned p (conn_world s g x)" using conns_okD(1) [OF assms(1) p(2)] by (simp add: conn_ok_def)
  ultimately have "f \<in> {client_fd (fst x), origin_fd (fst x)}" by (simp add: owned_def Let_def conn_world_def)
  with p show ?thesis by blast
qed

lemma conn_sound:
  assumes "conns_ok (s, g)" "sv_conns g p = Some x"
  shows "references (fst x) = card {f. own p (entry_of s f)}" "own p (entry_of s (client_fd (fst x)))"
    "is_auth_on (sv_glob g) \<Longrightarrow> stm_current (so_stm (fst x)) = Some st \<Longrightarrow> past_auth st \<Longrightarrow> client_uname (fst x) \<noteq> None"
proof -
  note c = conns_okD(1) [OF assms]
  show "references (fst x) = card {f. own p (entry_of s f)}" "own p (entry_of s (client_fd (fst x)))"
    using c owned_card [of p "conn_world s g x"] by (simp_all add: conn_ok_def owned_def Let_def conn_world_def)
  show "client_uname (fst x) \<noteq> None" if "is_auth_on (sv_glob g)" "stm_current (so_stm (fst x)) = Some st" "past_auth st"
    using c gate.reach_at [of "conn_world s g x" st] that by (auto simp: gate_at_def conn_world_def get_stm_def)
qed

text \<open>C6. At every point of the loop of a started server, whatever the clients, the resolver threads and
  the kernel did so far: a registration of the proxy's handler leads to a connection that is in use and one of
  whose two descriptors it is; the reference count of each connection is the number of its registrations, of
  which its client is one; no two connections share a descriptor; as long as authentication is required, a
  connection past the authentication states belongs to an identified user; and each resolver thread works for
  a connection that waits for it.\<close>

theorem server_connections_sound:
  assumes "startup e args main_locals_init = Inr (Inr l)" "ml_selector l = Some s" "kernel_ok (me_kernel e)"
    and "serve ub (me_kernel e) acts (s, ml_server l) = Inr (st, s', g')"
  shows "(\<forall>f i d. entry_of s' f = Some (i, Some H_socks5, d) \<longrightarrow>
       (\<exists>p x. d = Some p \<and> sv_conns g' p = Some x \<and> f \<in> {client_fd (fst x), origin_fd (fst x)})) \<and>
    (\<forall>p x. sv_conns g' p = Some x \<longrightarrow>
       references (fst x) = card {f. own p (entry_of s' f)} \<and> own p (entry_of s' (client_fd (fst x))) \<and>
       (\<forall>q y. sv_conns g' q = Some y \<longrightarrow> p \<noteq> q \<longrightarrow> client_fd (fst x) \<noteq> client_fd (fst y) \<and>
          (origin_fd (fst x) \<noteq> -1 \<longrightarrow> origin_fd (fst x) \<notin> {client_fd (fst y), origin_fd (fst y)})) \<and>
       (\<forall>n. is_auth_on (sv_glob g') \<longrightarrow> stm_current (so_stm (fst x)) = Some n \<longrightarrow> past_auth n \<longrightarrow> client_uname (fst x) \<noteq> None)) \<and>
    (\<forall>p f. (p, f) \<in> set (sv_threads g') \<longrightarrow>
       (\<exists>x. sv_conns g' p = Some x \<and> client_fd (fst x) = f \<and> stm_current (so_stm (fst x)) = Some REQUEST_RESOLV))"
proof -
  have "sv_inv (resolution_jobs s') (s', g')"
    using serve_ok [OF started_inv [OF assms(1,2)] assms(3), of ub acts ub] assms(4) by blast
  then have c: "conns_ok (s', g')" and t: "threads_ok (resolution_jobs s') (s', g')" by (simp_all add: sv_inv_def)
  have "\<exists>x. sv_conns g' p = Some x \<and> client_fd (fst x) = f \<and> stm_current (so_stm (fst x)) = Some REQUEST_RESOLV"
    if "(p, f) \<in> set (sv_threads g')" for p f
    using t that by (fastforce simp: threads_ok_def waiting_def)
  then show ?thesis using conn_registered [OF c] conn_sound [OF c] conns_apart [OF c] by blast
qed

section \<open>A client arrives\<close>

lemma handle_items_append:
  "handle_items H (xs @ ys) sg = rbind (handle_items H xs sg) (handle_items H ys)"
  by (induction xs arbitrary: sg) (auto simp: rbind_assoc intro: rbind_cong)

lemma handle_items_idle:
  fixes s :: selector
  assumes "sel_inv s" "\<forall>f \<in> set fs. 0 \<le> f \<and> f < int (fd_size s) \<and> f \<notin> slave_r s \<and> f \<notin> slave_w s"
  shows "handle_items H fs (s, g) = Inr (s, g)"
  using assms(2)
proof (induction fs)
  case (Cons f fs)
  obtain it where it: "sel_item s f = Inr it" "item_ok f it"
    using sel_inv_item [OF assms(1), of f] Cons.prems by auto
  then have "handle_item H f (s, g) = Inr (s, g)"
    using Cons.prems by (auto simp: handle_item_def item_ok_def Let_def split: if_splits)
  then show ?case using Cons by simp
qed simp

lemma accept_client:
  assumes "sel_inv s" "entry_of s f = None" "0 \<le> f" "f < 1024" "f < int (fd_size s)" "pool_len (sv_glob g) = 0"
    and "kn_accept kn key (s, g) = \<lparr>ac_accept = f, ac_addr = a, ac_getfd = 0, ac_setfl = (\<lambda>_. 0), ac_malloc = True, ac_alloc = True\<rparr>"
      "length a \<le> sizeof_sockaddr_storage"
  obtains s' g' x where "socks_accept kn key (s, g) = Inr (s', g')" "sel_inv s'" "fd_size s' = fd_size s"
    "slave_r s' = slave_r s" "slave_w s' = slave_w s" "resolution_jobs s' = resolution_jobs s"
    "sv_conns g' = (sv_conns g)(sv_next g \<mapsto> x)" "client_fd (fst x) = f"
proof -
  obtain c where c: "socks5_new client_statbl True f (sv_glob g) = Inr (Some c, sv_glob g)" "client_fd c = f"
    by (rule socks5_new_ok [OF assms(6)])
  obtain s' where s': "selector_register True s f (Some H_socks5) OP_READ (Some (sv_next g)) = Inr (SELECTOR_SUCCESS, s')" "sel_inv s'"
    "fd_size s' = fd_size s" "resolution_jobs s' = resolution_jobs s" "slave_r s' = slave_r s" "slave_w s' = slave_w s"
    using selector_register_ok [OF assms(1) _ assms(3-5), of True H_socks5 OP_READ "Some (sv_next g)"] assms(2) by (auto simp: entry_None)
  have "socksv5_passive_accept (kn_accept kn key (s, g)) (sv_next g) (s, sv_glob g) =
      Inr (s', sv_glob g, Some (c\<lparr>client_addr := overwrite (client_addr c) 0 a, client_addr_len := length a\<rparr>), [])"
    using assms(3,7,8) c(1) s'(1) by (simp add: socksv5_passive_accept_def Let_def selector_fd_set_nio_def)
  then have "\<exists>g'. socks_accept kn key (s, g) = Inr (s', g') \<and>
      sv_conns g' = (sv_conns g)(sv_next g \<mapsto> (c\<lparr>client_addr := overwrite (client_addr c) 0 a, client_addr_len := length a\<rparr>, []))"
    by (simp add: socks_accept_def Let_def tick_def)
  then show thesis using that s' c(2) by fastforce
qed

lemma item_accepts:
  assumes "sel_inv s" "entry_of s f = Some (OP_READ, Some H_socks5_passive, None)" "f \<in> slave_r s" "f \<notin> slave_w s"
    and "socks_accept kn \<lparr>key_fd = f, key_data = None\<rparr> (s, g) = Inr (s', g')" "sel_inv s'" "slave_w s' = slave_w s" "fd_size s' = fd_size s"
  shows "handle_item (all_handlers ub kn) f (s, g) = Inr (s', g')"
proof -
  obtain it where it: "sel_item s f = Inr it" "ITEM_USED it" "it_fd it = f" "it_interest it = OP_READ" "it_handler it = Some H_socks5_passive"
    "it_data it = None"
    using interest_of_item [OF assms(1), of f OP_READ] assms(2) by (auto simp: entry_of_def)
  have "0 \<le> f" "f < int (fd_size s')" using interest_of_range [OF assms(1), of f OP_READ] assms(2,8) by (auto simp: entry_of_def)
  then obtain it1 where it1: "sel_item s' f = Inr it1" "item_ok f it1" by (rule sel_inv_item [OF assms(6)])
  then have "\<not> (it_fd it1 \<in> slave_w s' \<and> OP_WRITE AND it_interest it1 \<noteq> 0)"
    using assms(4,7) by (auto simp: item_ok_def OP_NOOP_def split: if_splits)
  then show ?thesis
    using it it1(1) assms(3,5) by (auto simp: handle_item_def Let_def call_handler_def all_handlers_def OP_READ_def)
qed

text \<open>The listener is the only descriptor found ready: one turn of the loop accepts the client.\<close>

lemma select_accepts:
  assumes s: "listening s" "entry_of s 3 = Some (OP_READ, Some H_socks5_passive, None)" "entry_of s 5 = None" "1024 < fd_size s"
    and g: "pool_len (sv_glob g) = 0" "sv_conns g = Map.empty"
  obtains s' g' x where "selector_select (all_handlers ub demo_kernel) (Sel_ready {3} {}) (s, g) = Inr (SELECTOR_SUCCESS, s', g')"
    "sv_conns g' = [sv_next g \<mapsto> x]" "client_fd (fst x) = 5"
proof -
  have inv: "sel_inv s" "resolution_jobs s = []" using s(1) by (simp_all add: listening_def)
  define s1 where "s1 = s\<lparr>slave_t := master_t s, slave_r := {3}, slave_w := {}\<rparr>"
  have s1: "sel_inv s1" "entry_of s1 = entry_of s" "fd_size s1 = fd_size s" "slave_r s1 = {3}" "slave_w s1 = {}" "resolution_jobs s1 = []"
    using sel_inv_frame [of s1 s] entry_frame [of s1 s] inv by (simp_all add: s1_def)
  have m: "3 \<in> master_r s" "3 \<le> max_fd s" "max_fd s < int (fd_size s)" "max_fd s1 = max_fd s"
    using inv(1) s(2) by (auto simp: sel_inv_def wants_def entry_of_def s1_def OP_READ_def)
  let ?key = "\<lparr>key_fd = 3, key_data = None\<rparr>"
  have "5 \<notin> open_fds (s1, g)" using s(3) s1(2) g(2) by (simp add: open_fds_def)
  then have acc: "kn_accept demo_kernel ?key (s1, g) =
      \<lparr>ac_accept = 5, ac_addr = replicate 16 0, ac_getfd = 0, ac_setfl = (\<lambda>_. 0), ac_malloc = True, ac_alloc = True\<rparr>"
    by (simp add: demo_kernel_def)
  obtain s2 g2 x where 2: "socks_accept demo_kernel ?key (s1, g) = Inr (s2, g2)" "sel_inv s2" "fd_size s2 = fd_size s1"
    "slave_r s2 = slave_r s1" "slave_w s2 = slave_w s1" "resolution_jobs s2 = resolution_jobs s1"
    "sv_conns g2 = (sv_conns g)(sv_next g \<mapsto> x)" "client_fd (fst x) = 5"
    by (rule accept_client [OF s1(1) _ _ _ _ g(1) acc]) (use s(3,4) s1(2,3) in \<open>simp_all add: sizeof_sockaddr_storage_def\<close>)
  have item: "handle_item (all_handlers ub demo_kernel) 3 (s1, g) = Inr (s2, g2)"
    by (rule item_accepts [OF s1(1) _ _ _ 2(1,2,5,3)]) (simp_all add: s1(2,4,5) s(2))
  have split: "[0..max_fd s] = [0..2] @ 3 # [4..max_fd s]"
    using m(2) upto_split2 [of 0 2 "max_fd s"] upto_rec1 [of 3 "max_fd s"] by simp
  have "handle_iteration (all_handlers ub demo_kernel) (s1, g) = Inr (s2, g2)"
  proof -
    have "handle_items (all_handlers ub demo_kernel) [0..2] (s1, g) = Inr (s1, g)"
      using handle_items_idle [OF s1(1), of "[0..2]"] s(4) s1(3-5) by simp
    moreover have "handle_items (all_handlers ub demo_kernel) [4..max_fd s] (s2, g2) = Inr (s2, g2)"
      by (rule handle_items_idle [OF 2(2)]) (use 2(3-5) s1(3-5) m(3) in auto)
    ultimately show ?thesis using item by (simp add: handle_iteration_def m(4) split handle_items_append)
  qed
  then have "selector_select (all_handlers ub demo_kernel) (Sel_ready {3} {}) (s, g) = Inr (SELECTOR_SUCCESS, s2\<lparr>resolution_jobs := []\<rparr>, g2)"
    using m(1) 2(6) s1(6) by (simp add: selector_select_def Let_def handle_block_notifications_def s1_def)
  then show thesis by (rule that) (use 2(7,8) g(2) in simp_all)
qed

theorem server_connections_sound_witness:
  "\<exists>l s st s' g' x. startup (demo_env []) demo_args main_locals_init = Inr (Inr l) \<and> ml_selector l = Some s \<and>
     serve Inr demo_kernel [Act_select (Sel_ready {3} {})] (s, ml_server l) = Inr (st, s', g') \<and>
     sv_conns g' 0 = Some x \<and> client_fd (fst x) = 5 \<and> references (fst x) = card {f. own 0 (entry_of s' f)}"
proof -
  obtain l s where l: "startup (demo_env []) demo_args main_locals_init = Inr (Inr l)" "ml_selector l = Some s" "listening s"
    "ml_server_v4 l = 3" "ml_monitor_v4 l = 4" "ml_server_v6 l = -1" "ml_monitor_v6 l = -1" "booting l" "1024 < fd_size s"
    "pool_len (sv_glob (ml_server l)) = 0" "sv_next (ml_server l) = 0"
    "entry_of s 3 = Some (OP_READ, Some H_socks5_passive, None)" "entry_of s 5 = None"
    by (rule demo_startup)
  obtain s' g' x where r: "selector_select (all_handlers Inr demo_kernel) (Sel_ready {3} {}) (s, ml_server l) = Inr (SELECTOR_SUCCESS, s', g')"
    "sv_conns g' = [0 \<mapsto> x]" "client_fd (fst x) = 5"
    by (rule select_accepts [OF l(3,12,13,9,10), of Inr]) (use l(8,11) in \<open>simp_all add: booting_def\<close>)
  then have run: "serve Inr (me_kernel (demo_env [])) [Act_select (Sel_ready {3} {})] (s, ml_server l) = Inr (SELECTOR_SUCCESS, s', g')"
    by (simp add: serve_step_def demo_env_def)
  have "kernel_ok (me_kernel (demo_env []))" using demo_kernel_ok by (simp add: demo_env_def)
  moreover have "sv_conns g' 0 = Some x" by (simp add: r(2))
  ultimately have "references (fst x) = card {f. own 0 (entry_of s' f)}" using server_connections_sound [OF l(1,2) _ run] by blast
  moreover have "serve Inr demo_kernel [Act_select (Sel_ready {3} {})] (s, ml_server l) = Inr (SELECTOR_SUCCESS, s', g')"
    using run by (simp add: demo_env_def del: serve.simps)
  moreover have "sv_conns g' 0 = Some x" by (simp add: r(2))
  ultimately show ?thesis using l(1,2) r(3) by blast
qed

end
