(* ===== verification/Failover.thy ===== *)
theory Failover
  imports Dial
begin

text \<open>
  The failover path of \<open>request_connecting\<close> when the attempt at the next address fails at once, as it
  does for an IPv6 address on a host without a route: the state \<open>request_connect\<close> returns is dropped.
\<close>

text \<open>The kernel gives the socket \<open>h\<close> and refuses the connection at once.\<close>

definition dial_fails :: "ckey \<Rightarrow> fd \<Rightarrow> int \<Rightarrow> bool" where
  "dial_fails k h e \<longleftrightarrow> kr_socket (snd k) = h \<and> h \<noteq> -1 \<and>
     selector_fd_set_nio (kr_getfd (snd k)) (kr_setfl (snd k)) \<noteq> -1 \<and>
     kr_connect (snd k) = Connect_errno e \<and> e \<noteq> EINPROGRESS"

text \<open>The reply with the error waits for the client, but the machine is still in REQUEST_CONNECTING.\<close>

definition misplaced :: "fd \<Rightarrow> byte list \<Rightarrow> cworld \<Rightarrow> bool" where
  "misplaced f reply w \<longleftrightarrow> get_stm w = machine_at REQUEST_CONNECTING \<and> conn_idle f OP_WRITE [] reply w \<and>
     so_orig (cw_conn w) = O_conn \<and> asked socks_req_addrtype_domain w \<and> origin_fd (cw_conn w) = -1 \<and>
     references (cw_conn w) = 1 \<and> cw_life w = Alive \<and> 10 \<le> buffer_space (write_buffer (cw_conn w))"

lemma marshall_onto:
  assumes "buf_ok b" "10 \<le> buffer_space b"
  obtains b' where "request_marshall b st = Inr (10, b')" "buf_ok b'" "buffer_bytes b' = buffer_bytes b @ reply_bytes_of st"
    "buffer_space b' = buffer_space b - 10"
proof -
  let ?xs = "[0x05, socks_status_byte st, 0, 1, 0, 0, 0, 0, 0, 0]"
  have "request_marshall b st = rbind (buffer_put b ?xs) (\<lambda>b'. Inr (10, b'))"
    using assms
    by (simp add: request_marshall_def buffer_write_ptr_eq buffer_put_def rbind_assoc addrtype_defs buf_ok_def)
  then obtain b' where b': "request_marshall b st = Inr (10, b')" "buffer_bytes b' = buffer_bytes b @ reply_bytes_of st"
    "buffer_space b' = buffer_space b - 10"
    using buffer_put_ok [of b ?xs] assms by (auto simp: buf_ok_def reply_bytes_of_def)
  show thesis by (rule that [OF b'(1) marshall_buf_ok(3) [OF b'(1) assms(1)] b'(2,3)])
qed

text \<open>\<open>request_error_write\<close> puts the reply where the client will fetch it.\<close>

lemma error_written:
  assumes w: "conn_idle f i [] [] w" "so_client (cw_conn w) = C_request d" "rs_wb d = Write_buffer"
  obtains b s where "request_error_write k st w = Inr (REQUEST_WRITE,
      (upd_conn (\<lambda>c. c\<lparr>so_client := C_request (d\<lparr>rs_status := st\<rparr>), write_buffer := b\<rparr>) w)\<lparr>cw_sel := s\<rparr>)"
    "sel_inv s" "interest_of s = (interest_of (cw_sel w))(f \<mapsto> OP_WRITE)" "handler_of s = handler_of (cw_sel w)"
    "buf_ok b" "buffer_bytes b = reply_bytes_of st" "10 \<le> buffer_space b"
proof -
  have wb: "buf_ok (write_buffer (cw_conn w))" "buffer_bytes (write_buffer (cw_conn w)) = []"
    using w(1) by (simp_all add: conn_idle_def bufs_ok_def)
  note room = buf_ok_space [OF wb]
  obtain b where b: "request_marshall (write_buffer (cw_conn w)) st = Inr (10, b)" "buf_ok b"
    "buffer_bytes b = buffer_bytes (write_buffer (cw_conn w)) @ reply_bytes_of st"
    "buffer_space b = buffer_space (write_buffer (cw_conn w)) - 10"
    by (rule marshall_onto [OF wb(1)]) (simp_all add: room RAW_BUFFER_SIZE_def)
  define w1 where "w1 = upd_conn (\<lambda>c. c\<lparr>so_client := C_request (d\<lparr>rs_status := st\<rparr>), write_buffer := b\<rparr>) w"
  obtain s where s: "set_interest f OP_WRITE w1 = Inr (SELECTOR_SUCCESS, w1\<lparr>cw_sel := s\<rparr>)" "sel_inv s"
    "interest_of s = (interest_of (cw_sel w1))(f \<mapsto> OP_WRITE)" "handler_of s = handler_of (cw_sel w1)"
    by (rule set_interest_ok [of w1 f i OP_WRITE]) (use w(1) in \<open>simp_all add: w1_def conn_idle_def\<close>)
  have "request_error_write k st w = Inr (REQUEST_WRITE, w1\<lparr>cw_sel := s\<rparr>)"
    using w b(1) s(1) by (simp add: request_error_write_def get_request_def set_request_def conn_idle_def w1_def)
  then show thesis
    by (rule that [of s b, folded w1_def]) (use s b wb(2) room in \<open>simp_all add: w1_def RAW_BUFFER_SIZE_def\<close>)
qed

lemma event_dial_refused:
  assumes w: "awaiting f g (a # b # ais) w"
    and k: "key_fd (fst k) = g" "kr_sockopt (snd k) = Some e" "e \<noteq> 0" "dial_fails k h e'"
  obtains w' where "socksv5_write k w = Inr w'" "misplaced f (reply_bytes_of (errno_to_socks e')) w'"
    "cw_out w' = cw_out w @ [Ev_close g, Ev_close h]" "fds_of w' = fds_of w - {g}"
proof -
  have st: "get_stm w = machine_at REQUEST_CONNECTING" "dialing f g w" "so_orig (cw_conn w) = O_conn"
    "asked socks_req_addrtype_domain w" "dialed (a # b # ais) w" using w by (simp_all add: awaiting_def)
  obtain d where d: "so_client (cw_conn w) = C_request d" "rs_wb d = Write_buffer"
    "r_dest_addr_type (rp_request (rs_parser d)) = socks_req_addrtype_domain"
    using st(4) by (auto simp: asked_def)
  define w1 where "w1 = upd_conn (\<lambda>c. c\<lparr>origin_resolution_current := Some (b # ais), origin_domain := ai_family b,
    origin_addr_len := length (ai_addr b), origin_addr := overwrite (origin_addr c) 0 (ai_addr b)\<rparr>) w"
  have sel: "sel_inv (cw_sel w1)" "interest_of (cw_sel w1) g = Some OP_WRITE" "handler_of (cw_sel w1) g = Some H_socks5"
    "origin_fd (cw_conn w1) = g" "references (cw_conn w1) = 2" "f \<noteq> g" "conn_idle f OP_NOOP [] [] w1" "cw_life w1 = Alive"
    using st(2) by (simp_all add: w1_def dialing_def conn_idle_def)
  obtain s where s: "unregister_fd g w1 = Inr (SELECTOR_SUCCESS, (socks5_destroy w1)\<lparr>cw_sel := s\<rparr>)" "sel_inv s"
    "interest_of s = (interest_of (cw_sel w1))(g := None)" "handler_of s = (handler_of (cw_sel w1))(g := None)"
    by (rule unregister_ok [OF sel(1-3)])
  have destroy: "socks5_destroy w1 = upd_conn (\<lambda>c. c\<lparr>references := 1\<rparr>) w1" using sel(5) by (simp add: socks5_destroy_def)
  define w2 where "w2 = upd_conn (\<lambda>c. c\<lparr>origin_fd := -1\<rparr>) (emit (Ev_close h) (upd_conn (\<lambda>c. c\<lparr>origin_fd := h\<rparr>)
    (emit (Ev_close g) ((upd_conn (\<lambda>c. c\<lparr>references := 1\<rparr>) w1)\<lparr>cw_sel := s\<rparr>))))"
  have w2: "conn_idle f OP_NOOP [] [] w2" "so_client (cw_conn w2) = C_request d"
    using sel(6,7) s d(1) by (simp_all add: w2_def conn_idle_def w1_def)
  have conn: "request_connect k w1 = request_error_write k (errno_to_socks e') w2"
  proof -
    have "so_client (cw_conn w1) = C_request d" "stm_current (so_stm (cw_conn w1)) = Some REQUEST_CONNECTING"
      using d(1) st(1) by (simp_all add: w1_def get_stm_def)
    then show ?thesis
      using k(4) s(1) sel(4) destroy
      by (simp add: request_connect_def request_connect_finally_def dial_fails_def get_request_def Let_def w2_def)
  qed
  obtain b' s' where e: "request_error_write k (errno_to_socks e') w2 = Inr (REQUEST_WRITE,
      (upd_conn (\<lambda>c. c\<lparr>so_client := C_request (d\<lparr>rs_status := errno_to_socks e'\<rparr>), write_buffer := b'\<rparr>) w2)\<lparr>cw_sel := s'\<rparr>)"
    "sel_inv s'" "interest_of s' = (interest_of (cw_sel w2))(f \<mapsto> OP_WRITE)" "handler_of s' = handler_of (cw_sel w2)"
    "buf_ok b'" "buffer_bytes b' = reply_bytes_of (errno_to_socks e')" "10 \<le> buffer_space b'"
    by (rule error_written [OF w2 d(2)])
  define w' where "w' = (upd_conn (\<lambda>c. c\<lparr>so_client := C_request (d\<lparr>rs_status := errno_to_socks e'\<rparr>), write_buffer := b'\<rparr>) w2)\<lparr>cw_sel := s'\<rparr>"
  have h: "request_connecting k w = Inr (REQUEST_CONNECTING, w')"
    using d st(3,5) conn e(1) k(2,3)
    by (simp add: request_connecting_def get_conn_def get_request_def dialed_def next_address_def use_address_def w1_def w'_def)
  have run: "stm_handler on_write_ready get_stm put_stm client_statbl k w = Inr (REQUEST_CONNECTING, w')"
    by (rule stm_stay [OF st(1), where f = request_connecting])
      (use h keeps_stm [OF request_connecting_keeps [OF h]] in \<open>simp_all add: no_hooks_def\<close>)
  have "misplaced f (reply_bytes_of (errno_to_socks e')) w'"
    using w2(1) st(1,3) d e sel(8)
    by (simp add: misplaced_def conn_idle_def bufs_ok_def asked_def get_stm_def w'_def) (simp add: w2_def w1_def)
  moreover have "fds_of w' = fds_of w - {g}"
  proof -
    have "interest_of (cw_sel w') = (interest_of (cw_sel w))(g := None, f \<mapsto> OP_WRITE)" using e(3) s(3) by (simp add: w'_def w2_def w1_def)
    moreover have "f \<in> fds_of w" using st(2) by (auto simp: dialing_def conn_idle_def)
    ultimately show ?thesis using sel(6) by (auto simp: dom_fun_upd)
  qed
  ultimately show thesis
    by (intro that [of w']) (use run in \<open>simp_all add: socksv5_write_def stm_handler_write_def w'_def w2_def w1_def emit_def\<close>)
qed

text \<open>The next event is the client ready for the reply: \<open>request_connecting\<close> asks the error of that socket,
  takes it for the origin server and stops watching it.\<close>

definition stranded :: "fd \<Rightarrow> byte list \<Rightarrow> cworld \<Rightarrow> bool" where
  "stranded f replies w \<longleftrightarrow> get_stm w = machine_at REQUEST_WRITE \<and> conn_idle f OP_NOOP [] replies w \<and>
     origin_fd (cw_conn w) = f \<and> references (cw_conn w) = 1 \<and> cw_life w = Alive"

lemma event_misplaced:
  assumes w: "misplaced f reply w" and k: "key_fd (fst k) = f" "kr_sockopt (snd k) = Some 0"
  obtains w' where "socksv5_write k w = Inr w'" "stranded f (reply @ reply_bytes_of status_succeeded) w'"
    "cw_out w' = cw_out w" "fds_of w' = fds_of w"
proof -
  have st: "get_stm w = machine_at REQUEST_CONNECTING" "conn_idle f OP_WRITE [] reply w" "so_orig (cw_conn w) = O_conn"
    "asked socks_req_addrtype_domain w" "references (cw_conn w) = 1" "cw_life w = Alive" "10 \<le> buffer_space (write_buffer (cw_conn w))"
    using w by (simp_all add: misplaced_def)
  obtain d where d: "so_client (cw_conn w) = C_request d" "rs_wb d = Write_buffer"
    "r_dest_addr_type (rp_request (rs_parser d)) = socks_req_addrtype_domain"
    using st(4) by (auto simp: asked_def)
  have wb: "buf_ok (write_buffer (cw_conn w))" "buffer_bytes (write_buffer (cw_conn w)) = reply"
    using st(2) by (simp_all add: conn_idle_def bufs_ok_def)
  obtain b where b: "request_marshall (write_buffer (cw_conn w)) status_succeeded = Inr (10, b)" "buf_ok b"
    "buffer_bytes b = buffer_bytes (write_buffer (cw_conn w)) @ reply_bytes_of status_succeeded"
    by (rule marshall_onto [OF wb(1) st(7)])
  define w1 where "w1 = upd_conn (\<lambda>c. c\<lparr>so_client := C_request (d\<lparr>rs_status := status_succeeded\<rparr>), origin_fd := f,
    origin_resolution := None, origin_resolution_current := None, write_buffer := b\<rparr>) w"
  obtain s where s: "set_interest f OP_WRITE w1 = Inr (SELECTOR_SUCCESS, w1\<lparr>cw_sel := s\<rparr>)" "sel_inv s"
    "interest_of s = (interest_of (cw_sel w1))(f \<mapsto> OP_WRITE)" "handler_of s = handler_of (cw_sel w1)"
    by (rule set_interest_ok [of w1 f OP_WRITE OP_WRITE]) (use st(2) in \<open>simp_all add: w1_def conn_idle_def\<close>)
  define w2 where "w2 = w1\<lparr>cw_sel := s\<rparr>"
  obtain s' where s': "set_interest_key k OP_NOOP w2 = Inr (SELECTOR_SUCCESS, w2\<lparr>cw_sel := s'\<rparr>)" "sel_inv s'"
    "interest_of s' = (interest_of s)(f \<mapsto> OP_NOOP)" "handler_of s' = handler_of s"
    by (rule set_interest_key_ok [of w2 k OP_WRITE OP_NOOP]) (use k s in \<open>simp_all add: w2_def\<close>)
  define w3 where "w3 = w2\<lparr>cw_sel := s'\<rparr>"
  have h: "request_connecting k w = Inr (REQUEST_WRITE, w3)"
    using d st(2,3) k b(1) s(1) s'(1)
    by (simp add: request_connecting_def request_connecting_reply_def get_conn_def get_request_def set_request_def conn_idle_def
        Let_def w1_def w2_def w3_def)
  have run: "stm_handler on_write_ready get_stm put_stm client_statbl k w = Inr (REQUEST_WRITE, put_stm (machine_at REQUEST_WRITE) w3) \<and>
      get_stm (put_stm (machine_at REQUEST_WRITE) w3) = machine_at REQUEST_WRITE"
    by (rule stm_step [OF st(1), where f = request_connecting and ?w2.0 = w3 and ?w3.0 = w3])
      (use h keeps_stm [OF request_connecting_keeps [OF h]] in \<open>simp_all add: no_hooks_def run_hook_def\<close>)
  have "conn_idle f OP_NOOP [] (reply @ reply_bytes_of status_succeeded) w3"
    using st(2) s s' b(2,3) wb(2) by (simp add: conn_idle_def bufs_ok_def w3_def w2_def w1_def)
  then have "stranded f (reply @ reply_bytes_of status_succeeded) (put_stm (machine_at REQUEST_WRITE) w3)"
    using run st(5,6) by (simp add: stranded_def) (simp add: w3_def w2_def w1_def)
  moreover have "fds_of (put_stm (machine_at REQUEST_WRITE) w3) = fds_of w"
    using s(3) s'(3) st(2) by (auto simp: w3_def w2_def w1_def conn_idle_def)
  ultimately show thesis
    by (intro that [of "put_stm (machine_at REQUEST_WRITE) w3"])
      (use run in \<open>simp_all add: socksv5_write_def stm_handler_write_def w3_def w2_def w1_def\<close>)
qed

text \<open>C40. A name with several addresses whose next one fails at once: \<open>request_connecting\<close> drops the state that
  \<open>request_connect\<close> returns, so the error reply is queued in REQUEST_CONNECTING; when the client becomes
  writable its own socket is asked for the outcome, a reply of success is queued behind the error, the
  client is recorded as its own origin server and is watched for nothing any more. Nothing has been sent
  and no event can reach the connection again, which stays allocated.\<close>

theorem failover_strands:
  assumes "awaiting f g (a # b # ais) w" "key_fd (fst k1) = g" "kr_sockopt (snd k1) = Some e" "e \<noteq> 0" "dial_fails k1 h e'"
    and "key_fd (fst k2) = f" "kr_sockopt (snd k2) = Some 0"
  shows "\<exists>w'. run_events [On_write k1, On_write k2] w = Inr w' \<and> cw_life w' = Alive \<and>
     stm_current (get_stm w') = Some REQUEST_WRITE \<and> origin_fd (cw_conn w') = f \<and>
     buffer_bytes (write_buffer (cw_conn w')) = reply_bytes_of (errno_to_socks e') @ reply_bytes_of status_succeeded \<and>
     cw_out w' = cw_out w @ [Ev_close g, Ev_close h] \<and> fds_of w' = fds_of w - {g} \<and>
     f \<notin> master_r (cw_sel w') \<and> f \<notin> master_w (cw_sel w')"
proof -
  obtain w1 where w1: "socksv5_write k1 w = Inr w1" "misplaced f (reply_bytes_of (errno_to_socks e')) w1"
    "cw_out w1 = cw_out w @ [Ev_close g, Ev_close h]" "fds_of w1 = fds_of w - {g}"
    by (rule event_dial_refused [OF assms(1-5)])
  obtain w2 where w2: "socksv5_write k2 w1 = Inr w2" "stranded f (reply_bytes_of (errno_to_socks e') @ reply_bytes_of status_succeeded) w2"
    "cw_out w2 = cw_out w1" "fds_of w2 = fds_of w1"
    by (rule event_misplaced [OF w1(2) assms(6,7)])
  have "f \<notin> master_r (cw_sel w2) \<and> f \<notin> master_w (cw_sel w2)"
    using w2(2) by (auto simp: stranded_def conn_idle_def sel_inv_def wants_def)
  with w1 w2 show ?thesis by (intro exI [of _ w2]) (simp add: stranded_def conn_idle_def)
qed

theorem failover_strands_witness:
  "\<exists>w w'. reach w \<and> run_events [On_write (fst (failing_key 4 ECONNREFUSED), (snd (failing_key 4 ECONNREFUSED))\<lparr>kr_connect := Connect_errno ENETUNREACH\<rparr>),
       On_write (demo_key 3 Recv_err Send_err)] w = Inr w' \<and> cw_life w' = Alive \<and> fds_of w' = {3} \<and>
     3 \<notin> master_r (cw_sel w') \<and> 3 \<notin> master_w (cw_sel w')"
proof -
  let ?a = "\<lparr>ai_family = 2, ai_addr = replicate 16 1\<rparr>" and ?b = "\<lparr>ai_family = 10, ai_addr = replicate 28 2\<rparr>"
  let ?k = "(fst (failing_key 4 ECONNREFUSED), (snd (failing_key 4 ECONNREFUSED))\<lparr>kr_connect := Connect_errno ENETUNREACH\<rparr>)"
  let ?k1 = "demo_key 3 (Recv_data (request_message socks_req_cmd_connect 0 (Dest_fqdn [97]) [0, 80])) Send_err"
  obtain w where w: "reach w" "before_request 3 w" "fds_of w = {3}" by (rule demo_before_request)
  have keys: "dial_begins (demo_key 3 Recv_err Send_err) 4 {3}" "dial_fails ?k 4 ENETUNREACH"
    by (simp_all add: failing_key_def demo_key_def dial_begins_def dial_fails_def selector_fd_set_nio_def ENETUNREACH_def EINPROGRESS_def)
  obtain v1 where v1: "socksv5_read ?k1 w = Inr v1" "resolving 3 v1" "fds_of v1 = fds_of w"
    by (rule event_request_name [OF w(2), where k = ?k1 and name = "[97]" and port = "[0, 80]" and rsv = 0])
      (simp_all add: demo_key_def)
  obtain v2 where v2: "request_resolv_blocking (Some [?a, ?b]) True 3 v1 = Inr v2" "resolving 3 v2"
    "origin_resolution (cw_conn v2) = Some [?a, ?b]" "fds_of v2 = fds_of v1"
    by (rule thread_resolved [OF v1(2)])
  have k: "dial_begins (demo_key 3 Recv_err Send_err) 4 (fds_of v2)" using keys(1) v2(4) v1(3) w(3) by simp
  obtain v3 where v3: "socksv5_block (demo_key 3 Recv_err Send_err) v2 = Inr v3" "awaiting 3 4 [?a, ?b] v3"
    "fds_of v3 = insert 4 (fds_of v2)"
    by (rule event_resolved [OF v2(2,3) k]) (simp add: awaiting_def)
  have "reach v3"
    using reach_block [OF reach_thread [OF reach_read [OF w(1) _ v1(1)] v2(1)] _ v3(1)] w(2) v2(2)
    by (simp add: before_request_def resolving_def)
  have "kr_sockopt (snd ?k) = Some ECONNREFUSED" "key_fd (fst ?k) = 4" "ECONNREFUSED \<noteq> 0"
    by (simp_all add: failing_key_def ECONNREFUSED_def)
  from failover_strands [OF v3(2) this(2,1,3) keys(2) _ demo_sockopt, where f1 = 3 and r1 = Recv_err and s1 = Send_err]
  obtain w' where "run_events [On_write ?k, On_write (demo_key 3 Recv_err Send_err)] v3 = Inr w'" "cw_life w' = Alive"
    "fds_of w' = fds_of v3 - {4}" "3 \<notin> master_r (cw_sel w') \<and> 3 \<notin> master_w (cw_sel w')" by auto
  moreover have "fds_of v3 - {4} = {3}" using v3(3) v2(4) v1(3) w(3) by auto
  ultimately show ?thesis using \<open>reach v3\<close> by (intro exI [of _ v3] exI [of _ w']) simp
qed

end
