(* ===== verification/Netlog.thy ===== *)
theory Netlog
  imports Dial Cli
begin

text \<open>
  The access log: \<open>src/server/netutils.c\<close> and the functions at the end of \<open>src/server/socks5nio.c\<close> that print
  one line for each request and for each pair of credentials the disector found.

  What is printed is a list of bytes. Arrays are lists, and a library function that would leave its
  array faults. The texts that \<open>inet_ntop\<close>, \<open>strftime\<close> and \<open>localtime\<close> make are arguments of the model;
  \<open>inet_ntop\<close> fails when its text and the terminator do not fit (\<open>ENOSPC\<close>). A name of a user is read where
  \<open>client_uname\<close> points to, in the table of users.
\<close>

section \<open>Library functions on an array\<close>

definition store_at :: "byte list \<Rightarrow> nat \<Rightarrow> byte list \<Rightarrow> byte list res" where
  "store_at mem off xs = (if off + length xs \<le> length mem then Inr (overwrite mem off xs) else Inl Out_of_bounds)"

definition c_strncpy :: "byte list \<Rightarrow> byte list \<Rightarrow> nat \<Rightarrow> byte list res" where
  "c_strncpy mem src n = store_at mem 0 (strncpy_bytes n src)"

definition c_strlen :: "byte list \<Rightarrow> nat res" where
  "c_strlen mem = rbind (read_cstr mem) (\<lambda>s. Inr (length s))"

definition c_strncat :: "byte list \<Rightarrow> byte list \<Rightarrow> nat \<Rightarrow> byte list res" where
  "c_strncat mem src n = rbind (c_strlen mem) (\<lambda>len. store_at mem len (take n src @ [0]))"

text \<open>\<open>snprintf (mem + off, size, "%d", v)\<close>.\<close>

definition c_snprintf_d :: "byte list \<Rightarrow> nat \<Rightarrow> nat \<Rightarrow> nat \<Rightarrow> byte list res" where
  "c_snprintf_d mem off sz v = (if sz = 0 then Inr mem else store_at mem off (take (sz - 1) (decimal v) @ [0]))"

type_synonym ntop = "byte list \<Rightarrow> byte list \<Rightarrow> byte list option"

definition c_inet_ntop :: "ntop \<Rightarrow> byte list \<Rightarrow> byte list \<Rightarrow> byte list \<Rightarrow> nat \<Rightarrow> (bool \<times> byte list) res" where
  "c_inet_ntop ntop family a mem sz =
     (case ntop family a of
        None \<Rightarrow> Inr (False, mem)
      | Some t \<Rightarrow>
          if length t + 1 > sz then Inr (False, mem)
          else rbind (store_at mem 0 (t @ [0])) (\<lambda>mem1. Inr (True, mem1)))"

section \<open>netutils.c\<close>

definition sa_family :: "byte list \<Rightarrow> byte list" where
  "sa_family addr = take 2 addr"

definition sin_port :: "byte list \<Rightarrow> u16" where
  "sin_port addr = be16_dec (drop 2 addr)"

definition sockaddr_to_human :: "ntop \<Rightarrow> byte list \<Rightarrow> nat \<Rightarrow> byte list option \<Rightarrow> byte list res" where
  "sockaddr_to_human ntop buff buffsize addr =
     (case addr of
        None \<Rightarrow> c_strncpy buff (bytes_of ''null'') buffsize
      | Some sa \<Rightarrow>
          let handled = (sa_family sa = AF_INET_bytes \<or> sa_family sa = AF_INET6_bytes);
              p = (if sa_family sa = AF_INET_bytes then take 4 (drop 4 sa) else take 16 (drop 8 sa))
          in rbind (if handled then
                      rbind (c_inet_ntop ntop (sa_family sa) p buff buffsize) (\<lambda>(ok, b1).
                        if \<not> ok then
                          rbind (c_strncpy b1 (bytes_of ''unknown ip'') buffsize) (\<lambda>b2.
                            mem_set b2 (int buffsize - 1) 0)
                        else Inr b1)
                    else c_strncpy buff (bytes_of ''unknown'') buffsize) (\<lambda>b3.
             rbind (c_strncat b3 [0x09] buffsize) (\<lambda>b4.
             rbind (mem_set b4 (int buffsize - 1) 0) (\<lambda>b5.
             rbind (c_strlen b5) (\<lambda>len.
             rbind (if handled then c_snprintf_d b5 len (buffsize - len) (unat (sin_port sa)) else Inr b5) (\<lambda>b6.
               mem_set b6 (int buffsize - 1) 0))))))"

text \<open>The answers of \<open>send\<close> are a list; None is a call that has not returned. The result is \<open>ret\<close>, with the
  bytes sent and the buffer left; \<open>err\<close> is \<open>errno\<close>.\<close>

fun sock_blocking_write :: "int \<Rightarrow> send_result list \<Rightarrow> buffer \<Rightarrow> (int \<times> byte list \<times> buffer) option res" where
  "sock_blocking_write err [] b = Inr None"
| "sock_blocking_write err (r # rs) b =
     rbind (buffer_send b r) (\<lambda>(nwritten, out).
       if nwritten > 0 then
         rbind (buffer_read_adv b nwritten) (\<lambda>b1.
           if buffer_can_read b1
           then rbind (sock_blocking_write err rs b1) (\<lambda>res.
                  Inr (map_option (\<lambda>(ret, more, b2). (ret, out @ more, b2)) res))
           else Inr (Some (0, out, b1)))
       else Inr (Some (err, [], b)))"

text \<open>The inner loop of \<open>sock_blocking_copy\<close> on the bytes \<open>xs\<close> left in its array: the answers not used yet, what
  was sent, and whether it failed.\<close>

fun copy_out :: "send_result list \<Rightarrow> byte list \<Rightarrow> (send_result list \<times> byte list \<times> bool) option" where
  "copy_out [] xs = None"
| "copy_out (Send_err # rs) xs = Some (rs, [], False)"
| "copy_out (Send_ok n # rs) xs =
     (if n = 0 then Some (rs, [], False)
      else if length xs \<le> n then Some (rs, xs, True)
      else map_option (\<lambda>(rs', more, ok). (rs', take n xs @ more, ok)) (copy_out rs (drop n xs)))"

fun sock_blocking_copy :: "int \<Rightarrow> recv_result list \<Rightarrow> send_result list \<Rightarrow> (int \<times> byte list) option" where
  "sock_blocking_copy err [] rs = None"
| "sock_blocking_copy err (r # rr) rs =
     (let xs = recv_bytes 4096 r
      in if xs = [] then Some (0, [])
         else case copy_out rs xs of
           None \<Rightarrow> None
         | Some (rs1, out, ok) \<Rightarrow>
             if ok then map_option (\<lambda>(ret, more). (ret, out @ more)) (sock_blocking_copy err rr rs1)
             else Some (err, out))"

section \<open>The lines of the log\<close>

text \<open>\<open>ld_local\<close>: \<open>time\<close> and \<open>localtime\<close> succeeded; \<open>ld_text\<close> is the date \<open>strftime\<close> makes, which it stores if it fits
  with its terminator in 50 bytes; \<open>ld_zone\<close> is the string at \<open>__tm_zone\<close>. The result is the text printed and the array.\<close>

record log_date =
  ld_local :: bool
  ld_text :: "byte list"
  ld_zone :: "byte list"

definition log_current_local_date :: "log_date \<Rightarrow> byte list \<Rightarrow> (byte list \<times> byte list) res" where
  "log_current_local_date dt buf =
     (if ld_local dt then
        if ld_text dt \<noteq> [] \<and> length (ld_text dt) < 50 then
          rbind (store_at buf 0 (ld_text dt @ [0])) (\<lambda>buf1.
          rbind (read_cstr buf1) (\<lambda>t. Inr (t @ ld_zone dt, buf1)))
        else Inr (bytes_of ''<date error>'', buf)
      else Inr (bytes_of ''<date error>'', buf))"

definition log_destination :: "ntop \<Rightarrow> byte list \<Rightarrow> byte list \<Rightarrow> byte \<Rightarrow> byte list \<Rightarrow> (byte list \<times> byte list) res" where
  "log_destination ntop buf originaddr addr_type addr =
     (if addr_type = socks_req_addrtype_domain then
        rbind (read_cstr addr) (\<lambda>fqdn.
          Inr (fqdn @ [0x09] @ decimal (unat (sin_port originaddr)), buf))
      else
        rbind (sockaddr_to_human ntop buf 50 (Some originaddr)) (\<lambda>buf1.
        rbind (read_cstr buf1) (\<lambda>t. Inr (t, buf1))))"

text \<open>The field of the user: the string at \<open>uname\<close> in the table, or a constant without authentication.\<close>

definition log_user :: "globals \<Rightarrow> nat option \<Rightarrow> byte list res" where
  "log_user g uname =
     (if is_auth_on g then
        case uname of
          None \<Rightarrow> Inl Null_deref
        | Some i \<Rightarrow> read_cstr (drop (sizeof_user * i) (rg_mem (g_users g)))
      else Inr (bytes_of ''<anonymous>''))"

text \<open>\<open>buf\<close> is the array of 50 bytes on the stack, which holds anything at first.\<close>

definition log_request ::
  "ntop \<Rightarrow> log_date \<Rightarrow> byte list \<Rightarrow> globals \<Rightarrow> socks_response_status \<Rightarrow> nat option \<Rightarrow> request \<Rightarrow> byte list \<Rightarrow> byte list \<Rightarrow> byte list res" where
  "log_request ntop dt buf g status uname request clientaddr originaddr =
     rbind (log_current_local_date dt buf) (\<lambda>(date, buf1).
     rbind (log_user g uname) (\<lambda>user.
     rbind (sockaddr_to_human ntop buf1 50 (Some clientaddr)) (\<lambda>buf2.
     rbind (read_cstr buf2) (\<lambda>client.
     rbind (log_destination ntop buf2 originaddr (r_dest_addr_type request) (r_dest_addr request)) (\<lambda>(dest, _).
       Inr (date @ [0x09] @ user @ [0x09] @ bytes_of ''A'' @ [0x09] @ client @ [0x09] @ dest @ [0x09] @
            decimal (unat (socks_status_byte status)) @ [0x0a]))))))"

definition log_credentials ::
  "ntop \<Rightarrow> log_date \<Rightarrow> byte list \<Rightarrow> globals \<Rightarrow> byte list \<Rightarrow> byte list \<Rightarrow> nat option \<Rightarrow> byte \<Rightarrow> byte list \<Rightarrow> byte list \<Rightarrow> byte list res" where
  "log_credentials ntop dt buf g user pass uname addr_type addr originaddr =
     rbind (log_current_local_date dt buf) (\<lambda>(date, buf1).
     rbind (log_user g uname) (\<lambda>name.
     rbind (log_destination ntop buf1 originaddr addr_type addr) (\<lambda>(dest, _).
     rbind (read_cstr user) (\<lambda>u.
     rbind (read_cstr pass) (\<lambda>p.
       Inr (date @ [0x09] @ name @ [0x09] @ bytes_of ''P'' @ [0x09] @ bytes_of ''POP3'' @ [0x09] @ dest @ [0x09] @
            u @ [0x09] @ p @ [0x0a]))))))"

section \<open>Lemmas\<close>

text \<open>An array that holds the string \<open>u\<close>.\<close>

definition holds_str :: "nat \<Rightarrow> byte list \<Rightarrow> byte list \<Rightarrow> bool" where
  "holds_str n u b \<longleftrightarrow> length b = n \<and> 0 \<notin> set u \<and> (\<exists>r. b = u @ 0 # r)"

lemma holds_str_read: "holds_str n u b \<Longrightarrow> read_cstr b = Inr u"
  by (auto simp: holds_str_def read_cstr_def cstr_def takeWhile_tail)

lemma holds_str_length: "holds_str n u b \<Longrightarrow> length u < n"
  by (auto simp: holds_str_def)

lemma holds_str_end:
  assumes "holds_str n u b"
  obtains b' where "mem_set b (int n - 1) 0 = Inr b'" "holds_str n u b'"
proof -
  obtain r where b: "b = u @ 0 # r" "length b = n" "0 \<notin> set u" using assms by (auto simp: holds_str_def)
  have n: "nat (int n - 1) = length u + length r" using b by auto
  have "b[nat (int n - 1) := 0] = u @ (0 # r)[length r := 0]" unfolding n b(1) by (simp add: list_update_append)
  also have "\<dots> = u @ 0 # (if r = [] then [] else r[length r - 1 := 0])" by (cases r) simp_all
  finally show thesis using that b by (auto simp: mem_set_def holds_str_def)
qed

lemma store_str:
  assumes "holds_str n u b" "0 \<notin> set xs" "length u + length xs < n"
  obtains b' where "store_at b (length u) (xs @ [0]) = Inr b'" "holds_str n (u @ xs) b'"
proof -
  obtain r where b: "b = u @ 0 # r" "length b = n" "0 \<notin> set u" using assms(1) by (auto simp: holds_str_def)
  have "overwrite b (length u) (xs @ [0]) = (u @ xs) @ 0 # drop (length xs) r" by (simp add: overwrite_def b(1))
  then show thesis using that assms b by (auto simp: store_at_def holds_str_def)
qed

lemma store_first:
  assumes "length b = n" "0 \<notin> set xs" "length xs < n"
  obtains b' where "store_at b 0 (xs @ [0]) = Inr b'" "holds_str n xs b'"
proof -
  have "overwrite b 0 (xs @ [0]) = xs @ 0 # drop (length xs + 1) b" by (simp add: overwrite_def)
  then show thesis using that assms by (auto simp: store_at_def holds_str_def)
qed

lemma strncpy_str:
  assumes "length b = n" "0 \<notin> set xs" "length xs < n"
  obtains b' where "c_strncpy b xs n = Inr b'" "holds_str n xs b'"
proof -
  have "strncpy_bytes n xs = xs @ 0 # replicate (n - length xs - 1) 0"
    using assms(3) by (cases "n - length xs") (simp_all add: strncpy_bytes_def)
  moreover have "overwrite b 0 (strncpy_bytes n xs) = strncpy_bytes n xs"
    using assms by (simp add: overwrite_def strncpy_bytes_def)
  ultimately show thesis using that assms by (auto simp: c_strncpy_def store_at_def holds_str_def)
qed

lemma decimal_no_nul: "0 \<notin> set (decimal n)"
proof -
  have "\<not> is_digit 0" by (simp add: is_digit_def)
  then show ?thesis using decimal_digits [of n] by (auto simp: list_all_iff)
qed

text \<open>What \<open>sockaddr_to_human\<close> describes an address with, before it is cut to the array.\<close>

definition human_text :: "ntop \<Rightarrow> nat \<Rightarrow> byte list \<Rightarrow> byte list" where
  "human_text ntop n sa =
     (let t = (\<lambda>a. case ntop (sa_family sa) a of Some t \<Rightarrow> if length t < n then t else bytes_of ''unknown ip'' | None \<Rightarrow> bytes_of ''unknown ip'')
      in if sa_family sa = AF_INET_bytes then t (take 4 (drop 4 sa)) @ [0x09] @ decimal (unat (sin_port sa))
         else if sa_family sa = AF_INET6_bytes then t (take 16 (drop 8 sa)) @ [0x09] @ decimal (unat (sin_port sa))
         else bytes_of ''unknown'' @ [0x09])"

text \<open>The end of \<open>sockaddr_to_human\<close>, once the array holds the address \<open>t\<close>.\<close>

lemma human_tail:
  assumes "holds_str n t b3" "length t + 2 \<le> n"
  obtains b where "rbind (c_strncat b3 [0x09] n) (\<lambda>b4. rbind (mem_set b4 (int n - 1) 0) (\<lambda>b5. rbind (c_strlen b5) (\<lambda>len.
      rbind (if h then c_snprintf_d b5 len (n - len) v else Inr b5) (\<lambda>b6. mem_set b6 (int n - 1) 0)))) = Inr b"
    "holds_str n (take (n - 1) (t @ [0x09] @ (if h then decimal v else []))) b"
proof -
  obtain b4 where b4: "store_at b3 (length t) ([0x09] @ [0]) = Inr b4" "holds_str n (t @ [0x09]) b4"
    by (rule store_str [OF assms(1), of "[0x09]"]) (use assms(2) in simp_all)
  have cat: "c_strncat b3 [0x09] n = Inr b4"
    using b4(1) holds_str_read [OF assms(1)] assms(2) by (cases n) (simp_all add: c_strncat_def c_strlen_def)
  obtain b5 where b5: "mem_set b4 (int n - 1) 0 = Inr b5" "holds_str n (t @ [0x09]) b5" by (rule holds_str_end [OF b4(2)])
  have len: "c_strlen b5 = Inr (length t + 1)" using holds_str_read [OF b5(2)] by (simp add: c_strlen_def)
  let ?d = "if h then take (n - length t - 2) (decimal v) else []"
  obtain b6 where b6: "(if h then c_snprintf_d b5 (length t + 1) (n - (length t + 1)) v else Inr b5) = Inr b6" "holds_str n ((t @ [0x09]) @ ?d) b6"
  proof (cases h)
    case True
    have "0 \<notin> set ?d" using decimal_no_nul [of v] by (auto dest: in_set_takeD)
    then obtain b6 where "store_at b5 (length (t @ [0x09])) (?d @ [0]) = Inr b6" "holds_str n ((t @ [0x09]) @ ?d) b6"
      by (rule store_str [OF b5(2)]) (use assms(2) in auto)
    then show ?thesis using that [of b6] True assms(2) by (simp add: c_snprintf_d_def)
  qed (use that b5(2) in simp)
  obtain b where b: "mem_set b6 (int n - 1) 0 = Inr b" "holds_str n ((t @ [0x09]) @ ?d) b" by (rule holds_str_end [OF b6(2)])
  have eq: "(t @ [0x09]) @ ?d = take (n - 1) (t @ [0x09] @ (if h then decimal v else []))"
  proof -
    obtain m where "n = length t + 2 + m" using assms(2) le_Suc_ex by blast
    then show ?thesis by simp
  qed
  show thesis
  proof (rule that [of b])
    show "holds_str n (take (n - 1) (t @ [0x09] @ (if h then decimal v else []))) b" using b(2) unfolding eq .
  qed (simp only: cat b5(1) len rbind_simps b6(1) b(1))
qed

lemma unknown_text:
  "0 \<notin> set (bytes_of ''unknown ip'')" "length (bytes_of ''unknown ip'') = 10"
  "0 \<notin> set (bytes_of ''unknown'')" "length (bytes_of ''unknown'') = 7"
  by (simp_all add: bytes_of_def)

lemma human_address:
  assumes "length buff = n" "12 \<le> n" "\<And>t. ntop fam p = Some t \<Longrightarrow> 0 \<notin> set t \<and> length t + 2 \<le> n"
  obtains b3 where "rbind (c_inet_ntop ntop fam p buff n) (\<lambda>(ok, b1). if \<not> ok then
      rbind (c_strncpy b1 (bytes_of ''unknown ip'') n) (\<lambda>b2. mem_set b2 (int n - 1) 0) else Inr b1) = Inr b3"
    "holds_str n (case ntop fam p of Some t \<Rightarrow> if length t < n then t else bytes_of ''unknown ip'' | None \<Rightarrow> bytes_of ''unknown ip'') b3"
proof (cases "ntop fam p")
  case None
  obtain b1 where b1: "c_strncpy buff (bytes_of ''unknown ip'') n = Inr b1" "holds_str n (bytes_of ''unknown ip'') b1"
    by (rule strncpy_str [OF assms(1), of "bytes_of ''unknown ip''"]) (use assms(2) in \<open>simp_all add: unknown_text\<close>)
  obtain b2 where "mem_set b1 (int n - 1) 0 = Inr b2" "holds_str n (bytes_of ''unknown ip'') b2" by (rule holds_str_end [OF b1(2)])
  then show ?thesis using that [of b2] None b1(1) by (simp add: c_inet_ntop_def)
next
  case (Some t)
  then have t: "0 \<notin> set t" "length t < n" using assms(3) by auto
  obtain b1 where "store_at buff 0 (t @ [0]) = Inr b1" "holds_str n t b1" by (rule store_first [OF assms(1) t])
  then show ?thesis using that [of b1] Some t(2) by (simp add: c_inet_ntop_def)
qed

lemma sockaddr_to_human_ok:
  assumes "length buff = n" "12 \<le> n" "\<And>fam a t. ntop fam a = Some t \<Longrightarrow> 0 \<notin> set t \<and> length t + 2 \<le> n"
  obtains b where "sockaddr_to_human ntop buff n (Some sa) = Inr b" "holds_str n (take (n - 1) (human_text ntop n sa)) b"
proof -
  let ?h = "sa_family sa = AF_INET_bytes \<or> sa_family sa = AF_INET6_bytes"
  let ?p = "if sa_family sa = AF_INET_bytes then take 4 (drop 4 sa) else take 16 (drop 8 sa)"
  let ?t = "case ntop (sa_family sa) ?p of Some t \<Rightarrow> if length t < n then t else bytes_of ''unknown ip'' | None \<Rightarrow> bytes_of ''unknown ip''"
  let ?first = "if ?h then rbind (c_inet_ntop ntop (sa_family sa) ?p buff n) (\<lambda>(ok, b1). if \<not> ok then
      rbind (c_strncpy b1 (bytes_of ''unknown ip'') n) (\<lambda>b2. mem_set b2 (int n - 1) 0) else Inr b1)
    else c_strncpy buff (bytes_of ''unknown'') n"
  obtain b3 where b3: "?first = Inr b3" "holds_str n (if ?h then ?t else bytes_of ''unknown'') b3"
  proof (cases ?h)
    case True
    obtain b1 where "rbind (c_inet_ntop ntop (sa_family sa) ?p buff n) (\<lambda>(ok, b1). if \<not> ok then
        rbind (c_strncpy b1 (bytes_of ''unknown ip'') n) (\<lambda>b2. mem_set b2 (int n - 1) 0) else Inr b1) = Inr b1" "holds_str n ?t b1"
      by (rule human_address [OF assms(1,2,3)])
    then show ?thesis using that [of b1] True by (simp only: if_True)
  next
    case False
    obtain b1 where "c_strncpy buff (bytes_of ''unknown'') n = Inr b1" "holds_str n (bytes_of ''unknown'') b1"
      by (rule strncpy_str [OF assms(1), of "bytes_of ''unknown''"]) (use assms(2) in \<open>simp_all add: unknown_text\<close>)
    then show ?thesis using that [of b1] False by simp
  qed
  have "length (if ?h then ?t else bytes_of ''unknown'') + 2 \<le> n"
    using assms(2,3) unknown_text by (auto split: option.splits)
  from human_tail [OF b3(2) this, of ?h "unat (sin_port sa)"] obtain b where b:
    "rbind (c_strncat b3 [0x09] n) (\<lambda>b4. rbind (mem_set b4 (int n - 1) 0) (\<lambda>b5. rbind (c_strlen b5) (\<lambda>len.
      rbind (if ?h then c_snprintf_d b5 len (n - len) (unat (sin_port sa)) else Inr b5) (\<lambda>b6. mem_set b6 (int n - 1) 0)))) = Inr b"
    "holds_str n (take (n - 1) ((if ?h then ?t else bytes_of ''unknown'') @ [0x09] @ (if ?h then decimal (unat (sin_port sa)) else []))) b" by blast
  show thesis
  proof (rule that [of b])
    show "sockaddr_to_human ntop buff n (Some sa) = Inr b"
      unfolding sockaddr_to_human_def option.case Let_def b3(1) rbind_simps b(1) ..
    have "(if ?h then ?t else bytes_of ''unknown'') @ [0x09] @ (if ?h then decimal (unat (sin_port sa)) else []) = human_text ntop n sa"
      by (auto simp: human_text_def Let_def AF_INET_bytes_def AF_INET6_bytes_def)
    then show "holds_str n (take (n - 1) (human_text ntop n sa)) b" using b(2) by simp
  qed
qed

text \<open>The two writing loops send a prefix of what they were given, and all of it when they report success.\<close>

lemma sock_blocking_write_sends:
  assumes "wf_buffer b" "sock_blocking_write err rs b = Inr (Some (ret, out, b'))" "err \<noteq> 0"
  shows "buffer_bytes b = out @ buffer_bytes b' \<and> (ret = 0 \<longrightarrow> buffer_bytes b' = [])"
  using assms(1,2)
proof (induction rs arbitrary: b out)
  case (Cons r rs)
  obtain n xs b1 where s: "buffer_send b r = Inr (n, xs)" "buffer_read_adv b n = Inr b1" "wf_buffer b1"
    "buffer_bytes b = xs @ buffer_bytes b1"
    by (rule buffer_send_ok [OF Cons.prems(1), of r])
  show ?case
  proof (cases "n > 0 \<and> buffer_can_read b1")
    case True
    then obtain more where "sock_blocking_write err rs b1 = Inr (Some (ret, more, b'))" "out = xs @ more"
      using Cons.prems(2) s by auto
    with Cons.IH [OF s(3)] s(4) show ?thesis by simp
  next
    case False
    then show ?thesis using Cons.prems(2) s buffer_can_read_iff [OF s(3)] assms(3) by (auto split: if_splits)
  qed
qed simp

lemma copy_out_sends: "copy_out rs xs = Some (rs', out, ok) \<Longrightarrow> (\<exists>ys. xs = out @ ys) \<and> (ok \<longrightarrow> out = xs)"
proof (induction rs xs arbitrary: out rule: copy_out.induct)
  case (3 n rs xs)
  show ?case
  proof (cases "n = 0 \<or> length xs \<le> n")
    case False
    then obtain more where m: "copy_out rs (drop n xs) = Some (rs', more, ok)" "out = take n xs @ more" using "3.prems" by auto
    with "3.IH" [of more] False obtain ys where "drop n xs = more @ ys" "ok \<longrightarrow> more = drop n xs" by auto
    then show ?thesis using m(2) by (metis append.assoc append_take_drop_id)
  qed (use "3.prems" in \<open>auto split: if_splits\<close>)
qed simp_all

section \<open>A line of the log\<close>

text \<open>What \<open>inet_ntop\<close> promises: a string of at most \<open>INET6_ADDRSTRLEN - 1\<close> bytes.\<close>

definition ntop_ok :: "ntop \<Rightarrow> bool" where
  "ntop_ok ntop \<longleftrightarrow> (\<forall>fam a t. ntop fam a = Some t \<longrightarrow> 0 \<notin> set t \<and> length t \<le> 45)"

definition dest_text :: "ntop \<Rightarrow> byte list \<Rightarrow> socks_dest \<Rightarrow> byte list" where
  "dest_text ntop originaddr d =
     (case d of Dest_fqdn name \<Rightarrow> name @ [0x09] @ decimal (unat (sin_port originaddr))
      | _ \<Rightarrow> take 49 (human_text ntop 50 originaddr))"

text \<open>The first field: the date and its zone, if there is a date that fits.\<close>

definition date_text :: "log_date \<Rightarrow> byte list" where
  "date_text dt = (if ld_local dt \<and> ld_text dt \<noteq> [] \<and> length (ld_text dt) < 50 then ld_text dt @ ld_zone dt else bytes_of ''<date error>'')"

lemma log_date_ok:
  assumes "length buf = 50" "0 \<notin> set (ld_text dt)"
  obtains b where "log_current_local_date dt buf = Inr (date_text dt, b)" "length b = 50"
proof (cases "ld_local dt \<and> ld_text dt \<noteq> [] \<and> length (ld_text dt) < 50")
  case True
  obtain b where "store_at buf 0 (ld_text dt @ [0]) = Inr b" "holds_str 50 (ld_text dt) b"
    by (rule store_first [OF assms]) (use True in simp)
  then show ?thesis using that [of b] True
    by (simp add: log_current_local_date_def date_text_def holds_str_read) (simp add: holds_str_def)
qed (use that [of buf] assms(1) in \<open>auto simp: log_current_local_date_def date_text_def\<close>)

lemma human_50:
  assumes "ntop_ok ntop" "length buf = 50"
  obtains b where "sockaddr_to_human ntop buf 50 (Some sa) = Inr b" "length b = 50" "read_cstr b = Inr (take 49 (human_text ntop 50 sa))"
proof -
  obtain b where b: "sockaddr_to_human ntop buf 50 (Some sa) = Inr b" "holds_str 50 (take (50 - 1) (human_text ntop 50 sa)) b"
    by (rule sockaddr_to_human_ok [OF assms(2), of ntop sa]) (use assms(1) in \<open>fastforce simp: ntop_ok_def\<close>)+
  show thesis by (rule that [OF b(1)]) (use holds_str_read [OF b(2)] b(2) in \<open>simp_all add: holds_str_def\<close>)
qed

lemma log_destination_ok:
  assumes "ntop_ok ntop" "length buf = 50" "valid_dest d" "\<And>name. d = Dest_fqdn name \<Longrightarrow> 0 \<notin> set name"
  obtains b where "log_destination ntop buf originaddr (dest_atyp d) (dest_memory d) = Inr (dest_text ntop originaddr d, b)"
proof -
  obtain b where b: "sockaddr_to_human ntop buf 50 (Some originaddr) = Inr b" "read_cstr b = Inr (take 49 (human_text ntop 50 originaddr))"
    by (rule human_50 [OF assms(1,2)])
  have numeric: "log_destination ntop buf originaddr ty (dest_memory d) = Inr (take 49 (human_text ntop 50 originaddr), b)"
    if "ty \<noteq> socks_req_addrtype_domain" for ty using that b by (simp add: log_destination_def)
  show thesis
  proof (cases d)
    case (Dest_fqdn n)
    then have n: "length n \<le> 255" "0 \<notin> set n" using assms(3,4) by auto
    then have "dest_memory d = n @ 0 # replicate (255 - length n) 0" using Dest_fqdn by (simp add: Suc_diff_le flip: replicate_Suc)
    then have "read_cstr (dest_memory d) = Inr n" using n(2) by (auto simp: read_cstr_def cstr_def takeWhile_tail)
    then show ?thesis using that Dest_fqdn by (simp add: log_destination_def dest_text_def)
  qed (use numeric that in \<open>auto simp: addrtype_defs dest_text_def\<close>)
qed

lemma log_user_ok:
  assumes "users_inv (g_users g)" "i < length (user_entries (g_users g))"
  shows "log_user g (Some i) = Inr (if is_auth_on g then fst (user_entries (g_users g) ! i) else bytes_of ''<anonymous>'')"
proof -
  have "i < rg_count (g_users g)" using assms(2) by (simp add: user_entries_def reg_entries_def)
  then have "read_cstr (drop (sizeof_user * i) (rg_mem (g_users g))) = Inr (fst (user_entries (g_users g) ! i))"
    using name_in_memory [of "0xff" MAX_USERS "g_users g" i] reg_inv_record(2) [of "0xff" MAX_USERS "g_users g" i] assms(1)
    by (auto simp: read_cstr_def c_string_def users_inv_def user_entries_def sizeof_user_def)
  then show ?thesis by (simp add: log_user_def)
qed

text \<open>The line for credentials the disector found, which stand as C strings \<open>u\<close> and \<open>pw\<close> in its memory.\<close>

lemma credentials_log_line:
  assumes "ntop_ok ntop" "0 \<notin> set (ld_text dt)" "length buf = 50" "users_inv (g_users g)" "i < length (user_entries (g_users g))"
    and "valid_dest d" "\<And>name. d = Dest_fqdn name \<Longrightarrow> 0 \<notin> set name" "holds_str m u user" "holds_str m' pw pass"
  shows "log_credentials ntop dt buf g user pass (Some i) (dest_atyp d) (dest_memory d) originaddr =
    Inr (date_text dt @ [0x09] @
         (if is_auth_on g then fst (user_entries (g_users g) ! i) else bytes_of ''<anonymous>'') @ [0x09] @ bytes_of ''P'' @ [0x09] @
         bytes_of ''POP3'' @ [0x09] @ dest_text ntop originaddr d @ [0x09] @ u @ [0x09] @ pw @ [0x0a])"
proof -
  obtain b0 where b0: "log_current_local_date dt buf = Inr (date_text dt, b0)" "length b0 = 50"
    by (rule log_date_ok [OF assms(3,2)])
  obtain b where "log_destination ntop b0 originaddr (dest_atyp d) (dest_memory d) = Inr (dest_text ntop originaddr d, b)"
    by (rule log_destination_ok [OF assms(1) b0(2) assms(6,7)])
  then show ?thesis using b0(1)
    by (simp add: log_credentials_def log_user_ok [OF assms(4,5)] holds_str_read [OF assms(8)] holds_str_read [OF assms(9)])
qed



end
