(* ===== verification/Logger.thy ===== *)
theory Logger
  imports Cli
begin

text \<open>
  The debug logger, \<open>src/utils/logger.c\<close>; no other file calls it. The formatted text of a message is an
  argument, what goes to \<open>stderr\<close> a list of bytes. An \<open>enum\<close> is an integer in C, so levels are \<open>int\<close>.
\<close>

definition DEBUG :: int where "DEBUG = 0"

definition INFO :: int where "INFO = 1"

definition LOG_ERROR :: int where "LOG_ERROR = 2"

definition FATAL :: int where "FATAL = 3"

lemmas level_defs = DEBUG_def INFO_def LOG_ERROR_def FATAL_def

record logger =
  current_level :: int
  error_flag :: bool

definition logger_init :: logger where
  "logger_init = \<lparr>current_level = DEBUG, error_flag = False\<rparr>"

definition setLogLevel :: "int \<Rightarrow> logger \<Rightarrow> logger" where
  "setLogLevel newLevel lg = (if newLevel \<ge> DEBUG \<and> newLevel \<le> FATAL then lg\<lparr>current_level := newLevel\<rparr> else lg)"

definition levelDescription :: "int \<Rightarrow> byte list" where
  "levelDescription level =
     (let description = [''DEBUG'', ''INFO'', ''ERROR'', ''FATAL'']
      in if level < DEBUG \<or> level > FATAL then [] else bytes_of (description ! nat level))"

text \<open>What is printed, and the logger or the end of the process.\<close>

definition log_msg :: "int \<Rightarrow> byte list \<Rightarrow> logger \<Rightarrow> byte list \<times> logger prog" where
  "log_msg level msg lg =
     ((if level \<ge> current_level lg then levelDescription level @ bytes_of '': '' @ msg @ [0x0a] else []),
      (if level = FATAL then Inl (Exit 1)
       else Inr (if level = LOG_ERROR then lg\<lparr>error_flag := True\<rparr> else lg)))"

text \<open>A run of calls, until one ends the process.\<close>

fun log_msgs :: "(int \<times> byte list) list \<Rightarrow> logger \<Rightarrow> byte list \<times> logger prog" where
  "log_msgs [] lg = ([], Inr lg)"
| "log_msgs ((level, msg) # ms) lg =
     (case log_msg level msg lg of
        (out, Inl e) \<Rightarrow> (out, Inl e)
      | (out, Inr lg1) \<Rightarrow> (case log_msgs ms lg1 of (rest, r) \<Rightarrow> (out @ rest, r)))"

definition logger_ok :: "logger \<Rightarrow> bool" where
  "logger_ok lg \<longleftrightarrow> DEBUG \<le> current_level lg \<and> current_level lg \<le> FATAL"

lemma logger_init_ok: "logger_ok logger_init"
  by (simp add: logger_ok_def logger_init_def level_defs)

lemma setLogLevel_ok: "logger_ok lg \<Longrightarrow> logger_ok (setLogLevel newLevel lg)"
  by (simp add: logger_ok_def setLogLevel_def)

text \<open>The table of names is read inside its bounds only.\<close>

lemma levelDescription_known:
  assumes "DEBUG \<le> level" "level \<le> FATAL"
  shows "levelDescription level \<noteq> []" "nat level < 4"
proof -
  show n: "nat level < 4" using assms by (simp add: level_defs)
  consider "nat level = 0" | "nat level = 1" | "nat level = 2" | "nat level = 3" using n by linarith
  then show "levelDescription level \<noteq> []"
    by cases (use assms in \<open>simp_all add: levelDescription_def bytes_of_def\<close>)
qed

text \<open>A fatal message is never filtered out, and it is the last one.\<close>

lemma log_msg_fatal:
  "logger_ok lg \<Longrightarrow> log_msg FATAL msg lg = (bytes_of ''FATAL: '' @ msg @ [0x0a], Inl (Exit 1))"
  by (simp add: log_msg_def logger_ok_def levelDescription_def level_defs bytes_of_def)

text \<open>A run without a fatal message keeps the level, raises \<open>error_flag\<close> exactly for an error, also one that was
  filtered out, and prints the messages from the current level on.\<close>

lemma log_msgs_run:
  assumes "FATAL \<notin> fst ` set ms"
  shows "log_msgs ms lg =
    (concat (map (\<lambda>(level, msg). levelDescription level @ bytes_of '': '' @ msg @ [0x0a]) (filter (\<lambda>m. current_level lg \<le> fst m) ms)),
     Inr (lg\<lparr>error_flag := error_flag lg \<or> LOG_ERROR \<in> fst ` set ms\<rparr>))"
  using assms by (induction ms arbitrary: lg) (auto simp: log_msg_def)

end
