(* ===== verification/Spec2Isabelle.thy ===== *)
theory Spec2Isabelle
  imports Forward Monitornio Client Running Failover Netlog Logger
begin

text \<open>
  A SOCKSv5 proxy with a monitoring service, and the client of that service: a verification of the C
  program under \<open>src/src\<close>. File names below are relative to that directory.

  \<^bold>\<open>The program.\<close> One thread runs everything. \<open>server.c\<close> opens the listening sockets, registers them with
  the selector (\<open>server/selector.c\<close>) and calls \<open>selector_select\<close> until a signal arrives. The selector calls the
  handler registered for a ready descriptor with the data registered with it. For a proxied
  connection that is a \<open>struct socks5\<close> of \<open>server/socks5nio.c\<close>, whose handlers run the state machine of
  \<open>server/stm.c\<close> over \<open>client_statbl\<close>: HELLO, AUTH, REQUEST, COPY. The states read and write the sockets through the
  buffers of \<open>server/buffer.c\<close> and feed the parsers \<open>server/hello.c\<close>, \<open>auth.c\<close> and \<open>request.c\<close>; COPY shows the relayed
  bytes to the POP3 sniffer \<open>disector.c\<close>. A name is resolved by a thread of its own, which reports through
  \<open>selector_notify_block\<close>. For a monitoring connection the data is a \<open>struct connection\<close> of \<open>server/monitornio.c\<close>,
  which parses one request with \<open>server/monitor.c\<close>, reads or changes the tables of users and administrators
  and the statistics, answers and closes.

  \<^bold>\<open>How it is modelled.\<close> Functions of C are functions of the same name on explicit state. A failed assertion, a call of
  \<open>abort\<close>, an access outside an object, of NULL, of the wrong member of a union or of an uninitialised
  variable is a value of \<open>c_error\<close> (theory \<open>Prelude\<close>), so that a theorem that gives a result \<open>Inr\<close> also says
  that none of these happens. Integers have their width. Arrays and unions whose bytes matter are byte lists;
  pointers between parts of one struct are names of these parts. What the kernel, the C library, the resolver and
  the allocator answer are arguments (records such as \<open>kernel_ret\<close>, \<open>monitor_ret\<close>, \<open>accept_ret\<close>, \<open>listen_ret\<close>,
  \<open>main_env\<close>), arbitrary unless a hypothesis says otherwise.

  \<^bold>\<open>Components.\<close>
  \<^item> \<open>Buffer\<close>: \<open>server/buffer.c\<close>. It refines a bounded queue of bytes (locale \<open>byte_queue\<close>); no sequence of operations
    loses or reorders bytes.
  \<^item> \<open>Consume\<close>, \<open>Hello\<close>, \<open>Auth\<close>, \<open>Request\<close>: the three parsers of the handshake and the loop they share. The locales
    \<open>byte_parser\<close> and \<open>total_parser\<close> give independence of segmentation; each parser recognises exactly the messages of its
    RFC, and the inputs that make it leave its memory are characterised.
  \<^item> \<open>Disector\<close>: \<open>server/disector.c\<close>, what it captures and its one memory error.
  \<^item> \<open>Stm\<close>: \<open>server/stm.c\<close>; the locale \<open>stm_host\<close> is its contract with the host of the machine.
  \<^item> \<open>Selector\<close>: \<open>server/selector.c\<close>; it refines a map from descriptors to interest, handler and data (locale
    \<open>fd_registry\<close>), and one iteration calls exactly the handlers of ready and wanted events.
  \<^item> \<open>Registry\<close>: the tables of users (\<open>socks5nio.c\<close>) and administrators (\<open>monitornio.c\<close>) as bytes; both refine a bounded
    list without repeated names (locale \<open>name_registry\<close>).
  \<^item> \<open>Connection\<close>, \<open>Handshake\<close>, \<open>Connect\<close>, \<open>Copy\<close>, \<open>Socks5\<close>: \<open>socks5nio.c\<close> from the struct and its pool over every hook of every
    state to the handlers of the selector.
  \<^item> \<open>Reachable\<close>, \<open>Layout\<close>, \<open>Unions\<close>: the worlds a connection can reach while the rest of the program does what it likes
    with the selector and the globals; the locale \<open>conn_invariant\<close> lifts a property of the hooks to all of them. Its
    interpretations are the authentication gate and the layout of the two unions.
  \<^item> \<open>Session\<close>, \<open>Dial\<close>, \<open>Failover\<close>, \<open>Relay\<close>, \<open>Forward\<close>: the functional behaviour of a connection whose peers keep to the
    protocol, event by event, and the byte streams through COPY over any sequence of events.
  \<^item> \<open>Refcount\<close>, \<open>Server\<close>, \<open>Serving\<close>, \<open>Dispatch\<close>, \<open>Shutdown\<close>: all connections over one selector and one heap. \<open>references\<close>
    counts the registrations of a connection; the handlers, the loop and \<open>selector_destroy\<close> keep that, so that no
    handler ever gets a pointer to a released object.
  \<^item> \<open>Startup\<close>, \<open>Ready\<close>, \<open>Running\<close>: \<open>server.c\<close> from the command line to its exit status, what it has set up when the loop
    begins, and the invariant of the heap at every point of the loop.
  \<^item> \<open>Netlog\<close>: the access log at the end of \<open>socks5nio.c\<close> and \<open>server/netutils.c\<close>; \<open>Logger\<close>: \<open>utils/logger.c\<close>.
  \<^item> \<open>Monitor\<close>, \<open>Monitornio\<close>: the parser and the service of the monitoring protocol, which refines a specification on
    accounts, switch and statistics.
  \<^item> \<open>Cli\<close>, \<open>Client\<close>: \<open>server/args.c\<close>; the client (\<open>client.c\<close>, \<open>client/\<close>), with the round trips of requests and replies between
    client and server.

  This theory holds the properties that span components: segmentation, the authentication gate, the
  unions, the handshakes, the requests, the relay.

  \<^bold>\<open>Undefined behaviour and hypotheses.\<close> Following a pointer to a released connection is the argument \<open>ub\<close> of the server;
  that runs do not depend on it is the statement that it does not happen. \<open>kernel_ok\<close>: a new descriptor is not one
  that is in use. \<open>pton_ok\<close> and \<open>ntop_ok\<close>: the lengths of what \<open>inet_pton\<close> and \<open>inet_ntop\<close> store. Each theorem with a hypothesis is
  followed by an instance in which it holds.

  \<^bold>\<open>Loops.\<close> Every function is total. Loops over data are recursive on it; a loop that the environment drives
  (\<open>serve\<close>, the loops over \<open>recv\<close> and \<open>send\<close>, \<open>getopt\<close>) recurses on the list of its answers, of any length, so there is no fuel
  that a result could depend on. The one loop of the program that may not end by itself, the printing of a list in the
  client, returns None then, and the theorem says exactly when.

  \<^bold>\<open>Not modelled.\<close> The mutex of the selector's job list and the signal that wakes \<open>pselect\<close>: a resolver thread is one
  step between two calls of \<open>selector_select\<close>. Threads that are still running during \<open>finally\<close> of \<open>main\<close>. The results of
  \<open>setsockopt\<close>, which the code ignores, messages on \<open>stderr\<close> and the help texts, and whether writing to \<open>stdout\<close> succeeds.
\<close>

section \<open>Parsers behind a non-blocking socket\<close>



section \<open>Connections\<close>

text \<open>C2. The authentication gate: as long as the server requires authentication, a connection that
  has reached the request, connecting, reply or copy state belongs to a user the authentication
  identified, whatever the client sent and however the kernel, the resolver and the other connections
  behaved.\<close>

theorem auth_gate:
  assumes "reach w" "is_auth_on (cw_glob w)" "stm_current (get_stm w) = Some st" "past_auth st"
  shows "client_uname (cw_conn w) \<noteq> None"
  using gate.reach_at [OF assms(1,3)] assms(2,4) by (simp add: gate_at_def)

theorem auth_gate_witness:
  "\<exists>w. reach w \<and> is_auth_on (cw_glob w) \<and> stm_current (get_stm w) = Some REQUEST_READ \<and>
     client_uname (cw_conn w) \<noteq> None"
proof -
  obtain w where w: "reach w" "is_auth_on (cw_glob w)" "stm_current (get_stm w) = Some REQUEST_READ"
    by (rule demo_session) simp
  from auth_gate [OF w] w show ?thesis by auto
qed

text \<open>C10. The handlers respect the unions of \<open>struct socks5\<close>: in no reachable state does an event
  read or write a member of \<open>client\<close> or \<open>orig\<close> other than the one last written, whatever the
  sockets, the allocator and the resolver answer.\<close>

theorem union_safety:
  assumes "reach w"
  shows "socksv5_read k w \<noteq> Inl Bad_union \<and> socksv5_write k w \<noteq> Inl Bad_union \<and>
    socksv5_block k w \<noteq> Inl Bad_union"
proof -
  have "union_ok (rbind (stm_handler ready get_stm put_stm client_statbl k w) (socksv5_finish k))"
    if "ready \<in> {on_read_ready, on_write_ready, on_block_ready}" for ready
    by (rule union_ok_rbind [OF handler_union_ok [OF assms that]])
      (auto simp: socksv5_finish_def socksv5_done_def simp del: close_fds.simps split: prod.split)
  then show ?thesis
    by (simp add: socksv5_read_def socksv5_write_def socksv5_block_def stm_handler_read_def
        stm_handler_write_def stm_handler_block_def union_ok_def)
qed

theorem union_safety_witness:
  "\<exists>w. reach w \<and> stm_current (get_stm w) = Some REQUEST_READ \<and>
     socksv5_read (demo_key 3 Recv_eof Send_err) w \<noteq> Inl Bad_union"
proof -
  obtain w where w: "reach w" "stm_current (get_stm w) = Some REQUEST_READ" by (rule demo_session) simp
  from union_safety [OF w(1), of "demo_key 3 Recv_eof Send_err"] w show ?thesis by blast
qed

text \<open>C7. Registered credentials open the gate: a client that offers the username/password method and
  then sends a registered name and password is answered \<open>05 02\<close> and \<open>01 00\<close>, four events take the
  fresh connection to REQUEST_READ, and it carries the position of that account.\<close>

theorem handshake_accepts:
  assumes "fresh_conn f w" "is_auth_on (cw_glob w)" "users_inv (g_users (cw_glob w))"
    and "(u, pw) \<in> set (user_entries (g_users (cw_glob w)))" "u \<noteq> []" "pw \<noteq> []"
    and "0 \<notin> set u" "length u \<le> 255" "0 \<notin> set pw" "length pw \<le> 255"
    and "SOCKS_HELLO_USERNAME_PASSWORD \<in> set ms" "length ms < 256"
    and "key_fd (fst k1) = f" "kr_recv (snd k1) = Recv_data (hello_message ms)"
    and "key_fd (fst k2) = f" "kr_send (snd k2) = Send_ok n2" "2 \<le> n2"
    and "key_fd (fst k3) = f" "kr_recv (snd k3) = Recv_data (auth_message u pw)"
    and "key_fd (fst k4) = f" "kr_send (snd k4) = Send_ok n4" "2 \<le> n4"
  shows "\<exists>w1 w2 w3 w4 i. socksv5_read k1 w = Inr w1 \<and> socksv5_write k2 w1 = Inr w2 \<and>
     socksv5_read k3 w2 = Inr w3 \<and> socksv5_write k4 w3 = Inr w4 \<and>
     stm_current (get_stm w4) = Some REQUEST_READ \<and> client_uname (cw_conn w4) = Some i \<and>
     user_entries (g_users (cw_glob w)) ! i = (u, pw) \<and>
     cw_out w4 = cw_out w @ [Ev_recv f (hello_message ms), Ev_send f [0x05, 0x02],
       Ev_recv f (auth_message u pw), Ev_send f [0x01, 0x00]]"
proof -
  let ?r = "g_users (cw_glob w)"
  obtain i where i: "authenticate ?r (strncpy_bytes 0xff u) (strncpy_bytes 0xff pw) = Some i"
    "user_entries ?r ! i = (u, pw)"
    using authenticate_verdict(2) [OF assms(3,7-10,4)] by blast
  have users: "rg_count ?r \<noteq> 0" using assms(4) by (auto simp: user_entries_def reg_entries_def)
  obtain w1 w2 w3 d where 3: "socksv5_read k1 w = Inr w1" "socksv5_write k2 w1 = Inr w2" "socksv5_read k3 w2 = Inr w3"
    "get_stm w3 = machine_at AUTH_WRITE" "conn_idle f OP_WRITE [] [0x01, 0x00] w3"
    "so_client (cw_conn w3) = C_auth d" "as_wb d = Write_buffer" "as_status d = auth_status_succeeded"
    "client_uname (cw_conn w3) = Some i"
    "cw_out w3 = cw_out w @ [Ev_recv f (hello_message ms), Ev_send f [0x05, 0x02], Ev_recv f (auth_message u pw)]"
    by (rule handshake_verdict [OF assms(1,2) users assms(13,14,12,11,15-19,5,8,6,10)])
      (simp add: i(1) SOCKS_HELLO_USERNAME_PASSWORD_def)
  obtain w4 where "socksv5_write k4 w3 = Inr w4" "get_stm w4 = machine_at REQUEST_READ"
    "cw_out w4 = cw_out w3 @ [Ev_send f [0x01, 0x00]]" "client_uname (cw_conn w4) = client_uname (cw_conn w3)"
    by (rule event_auth_accepted [OF 3(4-8) assms(20,21)]) (use assms(22) in simp_all)
  with 3 i(2) show ?thesis by fastforce
qed

theorem handshake_accepts_witness:
  "\<exists>w w1 w2 w3 w4. fresh_conn 3 w \<and>
     socksv5_read (demo_key 3 (Recv_data (hello_message [0x00, 0x02])) Send_err) w = Inr w1 \<and>
     socksv5_write (demo_key 3 Recv_err (Send_ok 2)) w1 = Inr w2 \<and>
     socksv5_read (demo_key 3 (Recv_data (auth_message [97] [98])) Send_err) w2 = Inr w3 \<and>
     socksv5_write (demo_key 3 Recv_err (Send_ok 9)) w3 = Inr w4 \<and>
     stm_current (get_stm w4) = Some REQUEST_READ"
proof -
  obtain w where w: "fresh_conn 3 w" "is_auth_on (cw_glob w)" "users_inv (g_users (cw_glob w))"
    "user_entries (g_users (cw_glob w)) = [([97], [98])]"
    by (rule demo_conn)
  from handshake_accepts [OF w(1-3), where u = "[97]" and pw = "[98]" and ms = "[0x00, 0x02]" and ?n2.0 = 2 and
      ?n4.0 = 9 and ?k1.0 = "demo_key 3 (Recv_data (hello_message [0x00, 0x02])) Send_err" and
      ?k2.0 = "demo_key 3 Recv_err (Send_ok 2)" and ?k3.0 = "demo_key 3 (Recv_data (auth_message [97] [98])) Send_err" and
      ?k4.0 = "demo_key 3 Recv_err (Send_ok 9)"] w
  show ?thesis by (auto simp: SOCKS_HELLO_USERNAME_PASSWORD_def)
qed

text \<open>C17. Any other credentials close the connection: the client is answered \<open>01\<close> and a failure
  status, its descriptor leaves the selector and is closed, and the struct is released.\<close>

theorem handshake_rejects:
  assumes "fresh_conn f w" "is_auth_on (cw_glob w)" "users_inv (g_users (cw_glob w))"
    and "rg_count (g_users (cw_glob w)) \<noteq> 0"
    and "(u, pw) \<notin> set (user_entries (g_users (cw_glob w)))" "u \<noteq> []" "pw \<noteq> []"
    and "0 \<notin> set u" "length u \<le> 255" "0 \<notin> set pw" "length pw \<le> 255"
    and "SOCKS_HELLO_USERNAME_PASSWORD \<in> set ms" "length ms < 256"
    and "key_fd (fst k1) = f" "kr_recv (snd k1) = Recv_data (hello_message ms)"
    and "key_fd (fst k2) = f" "kr_send (snd k2) = Send_ok n2" "2 \<le> n2"
    and "key_fd (fst k3) = f" "kr_recv (snd k3) = Recv_data (auth_message u pw)"
    and "key_fd (fst k4) = f" "kr_send (snd k4) = Send_ok n4" "2 \<le> n4"
  shows "\<exists>w1 w2 w3 w4. socksv5_read k1 w = Inr w1 \<and> socksv5_write k2 w1 = Inr w2 \<and>
     socksv5_read k3 w2 = Inr w3 \<and> socksv5_write k4 w3 = Inr w4 \<and>
     interest_of (cw_sel w4) f = None \<and> cw_life w4 \<noteq> Alive \<and>
     cw_out w4 = cw_out w @ [Ev_recv f (hello_message ms), Ev_send f [0x05, 0x02],
       Ev_recv f (auth_message u pw), Ev_send f [0x01, 0x01], Ev_close f]"
proof -
  have no: "authenticate (g_users (cw_glob w)) (strncpy_bytes 0xff u) (strncpy_bytes 0xff pw) = None"
    by (rule authenticate_verdict(1) [OF assms(3,8-11,5)])
  obtain w1 w2 w3 d where 3: "socksv5_read k1 w = Inr w1" "socksv5_write k2 w1 = Inr w2" "socksv5_read k3 w2 = Inr w3"
    "get_stm w3 = machine_at AUTH_WRITE" "conn_idle f OP_WRITE [] [0x01, auth_status_byte auth_status_failure] w3"
    "so_client (cw_conn w3) = C_auth d" "as_wb d = Write_buffer" "as_status d \<noteq> auth_status_succeeded" "same_res w w3"
    "cw_out w3 = cw_out w @ [Ev_recv f (hello_message ms), Ev_send f [0x05, 0x02], Ev_recv f (auth_message u pw)]"
    by (rule handshake_verdict [OF assms(1,2,4,14,15,13,12,16-20,6,9,7,11)])
      (simp add: no SOCKS_HELLO_USERNAME_PASSWORD_def)
  have res: "origin_fd (cw_conn w3) = -1" "references (cw_conn w3) = 1"
    using assms(1) 3(9) by (simp_all add: fresh_conn_def same_res_def)
  obtain w4 where "socksv5_write k4 w3 = Inr w4"
    "cw_out w4 = cw_out w3 @ [Ev_send f [0x01, auth_status_byte auth_status_failure], Ev_close f]"
    "cw_life w4 \<noteq> Alive" "interest_of (cw_sel w4) f = None"
    by (rule event_auth_rejected [OF 3(4-8) assms(21,22) _ res]) (use assms(23) in simp_all)
  with 3(1-3,10) show ?thesis by fastforce
qed

theorem handshake_rejects_witness:
  "\<exists>w w1 w2 w3 w4. fresh_conn 3 w \<and>
     socksv5_read (demo_key 3 (Recv_data (hello_message [0x02])) Send_err) w = Inr w1 \<and>
     socksv5_write (demo_key 3 Recv_err (Send_ok 2)) w1 = Inr w2 \<and>
     socksv5_read (demo_key 3 (Recv_data (auth_message [97] [99])) Send_err) w2 = Inr w3 \<and>
     socksv5_write (demo_key 3 Recv_err (Send_ok 2)) w3 = Inr w4 \<and>
     interest_of (cw_sel w4) 3 = None \<and> cw_life w4 \<noteq> Alive"
proof -
  obtain w where w: "fresh_conn 3 w" "is_auth_on (cw_glob w)" "users_inv (g_users (cw_glob w))"
    "rg_count (g_users (cw_glob w)) \<noteq> 0" "user_entries (g_users (cw_glob w)) = [([97], [98])]"
    by (rule demo_conn)
  from handshake_rejects [OF w(1-4), where u = "[97]" and pw = "[99]" and ms = "[0x02]" and ?n2.0 = 2 and
      ?n4.0 = 2 and ?k1.0 = "demo_key 3 (Recv_data (hello_message [0x02])) Send_err" and
      ?k2.0 = "demo_key 3 Recv_err (Send_ok 2)" and ?k3.0 = "demo_key 3 (Recv_data (auth_message [97] [99])) Send_err" and
      ?k4.0 = "demo_key 3 Recv_err (Send_ok 2)"] w
  show ?thesis by (auto simp: SOCKS_HELLO_USERNAME_PASSWORD_def)
qed

section \<open>Requests\<close>

text \<open>C3. A request for a numeric address becomes a relayed connection: the proxy connects to exactly the
  family, port and address of the request, and when the kernel reports the connection established it
  answers status 0, logs the access with the user, counts the connection and relays in both
  directions.\<close>

theorem request_connects:
  assumes "before_request f w" "valid_dest d" "numeric_dest d" "length dport = 2"
    and "key_fd (fst k1) = f" "kr_recv (snd k1) = Recv_data (request_message socks_req_cmd_connect rsv d dport)"
    and "dial_begins k1 h (fds_of w)"
    and "key_fd (fst k2) = h" "kr_sockopt (snd k2) = Some 0"
    and "key_fd (fst k3) = f" "kr_send (snd k3) = Send_ok n" "10 \<le> n"
  shows "\<exists>w1 w2 w3. socksv5_read k1 w = Inr w1 \<and> socksv5_write k2 w1 = Inr w2 \<and> socksv5_write k3 w2 = Inr w3 \<and>
     take (origin_addr_len (cw_conn w1)) (origin_addr (cw_conn w1)) = sockaddr_of d dport \<and> relaying f h w3 \<and>
     cw_out w3 = cw_out w @ [Ev_recv f (request_message socks_req_cmd_connect rsv d dport),
       Ev_send f (reply_bytes_of status_succeeded), Ev_log_request status_succeeded (client_uname (cw_conn w))] \<and>
     cw_glob w3 = (cw_glob w)\<lparr>historic_connections := historic_connections (cw_glob w) + 1,
       current_connections := current_connections (cw_glob w) + 1\<rparr>"
proof -
  obtain w1 where w1: "socksv5_read k1 w = Inr w1" "get_stm w1 = machine_at REQUEST_CONNECTING" "dialing f h w1"
    "so_orig (cw_conn w1) = O_conn" "asked (dest_atyp d) w1"
    "take (origin_addr_len (cw_conn w1)) (origin_addr (cw_conn w1)) = sockaddr_of d dport"
    "client_uname (cw_conn w1) = client_uname (cw_conn w)" "cw_glob w1 = cw_glob w"
    "cw_out w1 = cw_out w @ [Ev_recv f (request_message socks_req_cmd_connect rsv d dport)]"
    by (rule event_request_numeric [OF assms(1,5-7,2-4)])
  obtain w2 where w2: "socksv5_write k2 w1 = Inr w2" "get_stm w2 = machine_at REQUEST_WRITE"
    "replying f h status_succeeded w2" "client_uname (cw_conn w2) = client_uname (cw_conn w1)"
    "cw_glob w2 = cw_glob w1" "cw_out w2 = cw_out w1"
    by (rule event_connected [OF w1(2-5) assms(8,9)])
  obtain w3 where "socksv5_write k3 w2 = Inr w3" "relaying f h w3"
    "cw_out w3 = cw_out w2 @ [Ev_send f (reply_bytes_of status_succeeded),
       Ev_log_request status_succeeded (client_uname (cw_conn w2))]"
    "cw_glob w3 = (cw_glob w2)\<lparr>historic_connections := historic_connections (cw_glob w2) + 1,
       current_connections := current_connections (cw_glob w2) + 1\<rparr>"
    by (rule event_reply_succeeded [OF w2(2,3) assms(10-12)])
  with w1 w2 show ?thesis by auto
qed

theorem request_connects_witness:
  "\<exists>w w1 w2 w3. reach w \<and>
     socksv5_read (demo_key 3 (Recv_data (request_message socks_req_cmd_connect 0 (Dest_ipv4 [127, 0, 0, 1]) [0, 80])) Send_err) w = Inr w1 \<and>
     socksv5_write (demo_key 4 Recv_err Send_err) w1 = Inr w2 \<and>
     socksv5_write (demo_key 3 Recv_err (Send_ok 10)) w2 = Inr w3 \<and> relaying 3 4 w3 \<and>
     take (origin_addr_len (cw_conn w1)) (origin_addr (cw_conn w1)) = [2, 0, 0, 80, 127, 0, 0, 1] @ replicate 8 0"
proof -
  obtain w where w: "reach w" "before_request 3 w" "fds_of w = {3}" by (rule demo_before_request)
  from request_connects [OF w(2), where d = "Dest_ipv4 [127, 0, 0, 1]" and dport = "[0, 80]" and rsv = 0 and h = 4 and n = 10
      and ?k1.0 = "demo_key 3 (Recv_data (request_message socks_req_cmd_connect 0 (Dest_ipv4 [127, 0, 0, 1]) [0, 80])) Send_err"
      and ?k2.0 = "demo_key 4 Recv_err Send_err" and ?k3.0 = "demo_key 3 Recv_err (Send_ok 10)"] w(1,3)
  show ?thesis by (auto simp: demo_dial demo_sockopt AF_INET_bytes_def)
qed

text \<open>C18. A request whose connection fails is answered with the reason: the status is the one RFC 1928 gives
  for the \<open>errno\<close> the kernel reports, and after the reply both sockets are unregistered and closed and
  the struct is released.\<close>

theorem request_refused:
  assumes "before_request f w" "valid_dest d" "numeric_dest d" "length dport = 2"
    and "key_fd (fst k1) = f" "kr_recv (snd k1) = Recv_data (request_message socks_req_cmd_connect rsv d dport)"
    and "dial_begins k1 h (fds_of w)"
    and "key_fd (fst k2) = h" "kr_sockopt (snd k2) = Some e" "e \<noteq> 0" "errno_to_socks e \<noteq> status_succeeded"
    and "key_fd (fst k3) = f" "kr_send (snd k3) = Send_ok n" "10 \<le> n"
  shows "\<exists>w1 w2 w3. socksv5_read k1 w = Inr w1 \<and> socksv5_write k2 w1 = Inr w2 \<and> socksv5_write k3 w2 = Inr w3 \<and>
     cw_out w3 = cw_out w @ [Ev_recv f (request_message socks_req_cmd_connect rsv d dport),
       Ev_send f (reply_bytes_of (errno_to_socks e)), Ev_log_request (errno_to_socks e) (client_uname (cw_conn w)),
       Ev_close f, Ev_close h] \<and>
     interest_of (cw_sel w3) f = None \<and> interest_of (cw_sel w3) h = None \<and> cw_life w3 \<noteq> Alive"
proof -
  let ?st = "errno_to_socks e"
  obtain w1 where w1: "socksv5_read k1 w = Inr w1" "get_stm w1 = machine_at REQUEST_CONNECTING" "dialing f h w1"
    "so_orig (cw_conn w1) = O_conn" "asked (dest_atyp d) w1" "client_uname (cw_conn w1) = client_uname (cw_conn w)"
    "cw_out w1 = cw_out w @ [Ev_recv f (request_message socks_req_cmd_connect rsv d dport)]"
    by (rule event_request_numeric [OF assms(1,5-7,2-4)])
  obtain w2 where w2: "socksv5_write k2 w1 = Inr w2" "get_stm w2 = machine_at REQUEST_WRITE" "replying f h ?st w2"
    "client_uname (cw_conn w2) = client_uname (cw_conn w1)" "cw_out w2 = cw_out w1"
    by (rule event_outcome [OF w1(2-5) disjI1 [OF numeric_last [OF w1(5) assms(3)]] assms(8)])
      (simp add: assms(9,10) outcome_status_def)
  obtain w3 where "socksv5_write k3 w2 = Inr w3" "cw_life w3 \<noteq> Alive"
    "cw_out w3 = cw_out w2 @ [Ev_send f (reply_bytes_of ?st), Ev_log_request ?st (client_uname (cw_conn w2)), Ev_close f, Ev_close h]"
    "interest_of (cw_sel w3) f = None" "interest_of (cw_sel w3) h = None"
    by (rule event_reply_failed [OF w2(2,3) assms(11-14)])
  with w1 w2 show ?thesis by auto
qed

theorem request_refused_witness:
  "\<exists>w w1 w2 w3. reach w \<and>
     socksv5_read (demo_key 3 (Recv_data (request_message socks_req_cmd_connect 0 (Dest_ipv4 [127, 0, 0, 1]) [0, 80])) Send_err) w = Inr w1 \<and>
     socksv5_write (failing_key 4 ECONNREFUSED) w1 = Inr w2 \<and>
     socksv5_write (demo_key 3 Recv_err (Send_ok 10)) w2 = Inr w3 \<and> cw_life w3 \<noteq> Alive"
proof -
  obtain w where w: "reach w" "before_request 3 w" "fds_of w = {3}" by (rule demo_before_request)
  from request_refused [OF w(2), where d = "Dest_ipv4 [127, 0, 0, 1]" and dport = "[0, 80]" and rsv = 0 and h = 4 and n = 10
      and ?k1.0 = "demo_key 3 (Recv_data (request_message socks_req_cmd_connect 0 (Dest_ipv4 [127, 0, 0, 1]) [0, 80])) Send_err"
      and ?k2.0 = "failing_key 4 ECONNREFUSED" and ?k3.0 = "demo_key 3 Recv_err (Send_ok 10)" and e = ECONNREFUSED] w(1,3)
  show ?thesis by (auto simp: demo_dial failing_key_def errno_to_socks_def ECONNREFUSED_def)
qed

text \<open>C9. A name is resolved off the event loop and its addresses are tried in the order the resolver gave
  them: when every address before \<open>a\<close> is refused and \<open>a\<close> accepts, the connection relays to \<open>a\<close>, the
  socket of every failed attempt has been closed, and the client has seen a single reply, status 0.\<close>

theorem name_failover:
  assumes "before_request f w" "valid_dest (Dest_fqdn name)" "length dport = 2"
    and "key_fd (fst k1) = f" "kr_malloc (snd k1)" "kr_pthread (snd k1) \<noteq> -1"
      "kr_recv (snd k1) = Recv_data (request_message socks_req_cmd_connect rsv (Dest_fqdn name) dport)"
    and "dial_begins k2 g (fds_of w)" "length pre = length ts" "attempts g ts (insert g (fds_of w))"
    and "key_fd (fst k3) = last (g # map snd ts)" "kr_sockopt (snd k3) = Some 0"
    and "key_fd (fst k4) = f" "kr_send (snd k4) = Send_ok n" "10 \<le> n"
  shows "\<exists>w1 w2. run_events (On_read k1 # Resolver (Some (pre @ a # post)) ok f # On_block k2 #
         map (\<lambda>t. On_write (fst t)) ts) w = Inr w1 \<and>
     take (origin_addr_len (cw_conn w1)) (origin_addr (cw_conn w1)) = ai_addr a \<and>
     run_events [On_write k3, On_write k4] w1 = Inr w2 \<and> relaying f (last (g # map snd ts)) w2 \<and>
     cw_out w2 = cw_out w @ [Ev_recv f (request_message socks_req_cmd_connect rsv (Dest_fqdn name) dport), Ev_thread] @
       map Ev_close (butlast (g # map snd ts)) @
       [Ev_send f (reply_bytes_of status_succeeded), Ev_log_request status_succeeded (client_uname (cw_conn w))]"
proof -
  obtain v1 where v1: "socksv5_read k1 w = Inr v1" "resolving f v1" "client_uname (cw_conn v1) = client_uname (cw_conn w)"
    "cw_out v1 = cw_out w @ [Ev_recv f (request_message socks_req_cmd_connect rsv (Dest_fqdn name) dport), Ev_thread]"
    "fds_of v1 = fds_of w"
    by (rule event_request_name [OF assms(1,4,7,5,6,2,3)])
  obtain b ais where ais: "pre @ a # post = b # ais" by (cases pre) auto
  obtain v2 where v2: "request_resolv_blocking (Some (b # ais)) ok f v1 = Inr v2" "resolving f v2"
    "origin_resolution (cw_conn v2) = Some (b # ais)" "client_uname (cw_conn v2) = client_uname (cw_conn v1)"
    "cw_out v2 = cw_out v1" "fds_of v2 = fds_of v1"
    by (rule thread_resolved [OF v1(2)])
  obtain v3 where v3: "socksv5_block k2 v2 = Inr v3" "awaiting f g (b # ais) v3"
    "client_uname (cw_conn v3) = client_uname (cw_conn v2)" "cw_out v3 = cw_out v2" "fds_of v3 = insert g (fds_of v2)"
    by (rule event_resolved [OF v2(2,3), where k = k2 and h = g]) (use assms(8) v1(5) v2(6) in \<open>simp_all add: awaiting_def\<close>)
  have "awaiting f g (pre @ a # post) v3" "attempts g ts (fds_of v3)"
    using v3(2,5) v2(6) v1(5) ais assms(10) by simp_all
  from failover [OF this(1) assms(9) this(2)] obtain w1 where w1: "run_events (map (\<lambda>t. On_write (fst t)) ts) v3 = Inr w1"
    "awaiting f (last (g # map snd ts)) (a # post) w1" "client_uname (cw_conn w1) = client_uname (cw_conn v3)"
    "cw_out w1 = cw_out v3 @ map Ev_close (butlast (g # map snd ts))" by blast
  obtain v4 where v4: "socksv5_write k3 w1 = Inr v4" "get_stm v4 = machine_at REQUEST_WRITE"
    "replying f (last (g # map snd ts)) status_succeeded v4" "client_uname (cw_conn v4) = client_uname (cw_conn w1)"
    "cw_out v4 = cw_out w1"
    by (rule event_awaited [OF w1(2) assms(11,12)])
  obtain w2 where w2: "socksv5_write k4 v4 = Inr w2" "relaying f (last (g # map snd ts)) w2"
    "cw_out w2 = cw_out v4 @ [Ev_send f (reply_bytes_of status_succeeded),
       Ev_log_request status_succeeded (client_uname (cw_conn v4))]"
    by (rule event_reply_succeeded [OF v4(2,3) assms(13-15)])
  have "run_events (On_read k1 # Resolver (Some (pre @ a # post)) ok f # On_block k2 # map (\<lambda>t. On_write (fst t)) ts) w = Inr w1"
    using v1(1) v2(1) v3(1) w1(1) ais by simp
  moreover have "take (origin_addr_len (cw_conn w1)) (origin_addr (cw_conn w1)) = ai_addr a"
    using w1(2) by (simp add: awaiting_def dialed_def)
  ultimately show ?thesis using w2 v4 v3(3,4) v2(4,5) v1(3,4) w1(3,4) by (intro exI [of _ w1] exI [of _ w2]) simp
qed

theorem name_failover_witness:
  "\<exists>w w1 w2. reach w \<and>
     run_events [On_read (demo_key 3 (Recv_data (request_message socks_req_cmd_connect 0 (Dest_fqdn [97]) [0, 80])) Send_err),
       Resolver (Some [\<lparr>ai_family = 2, ai_addr = replicate 16 1\<rparr>, \<lparr>ai_family = 2, ai_addr = replicate 16 2\<rparr>]) True 3,
       On_block (demo_key 3 Recv_err Send_err), On_write (failing_key 4 ECONNREFUSED)] w = Inr w1 \<and>
     run_events [On_write (demo_key 4 Recv_err Send_err), On_write (demo_key 3 Recv_err (Send_ok 10))] w1 = Inr w2 \<and>
     take (origin_addr_len (cw_conn w1)) (origin_addr (cw_conn w1)) = replicate 16 2 \<and> relaying 3 4 w2"
proof -
  obtain w where w: "reach w" "before_request 3 w" "fds_of w = {3}" by (rule demo_before_request)
  have keys: "attempts 4 [(failing_key 4 ECONNREFUSED, 4)] {4, 3}" "valid_dest (Dest_fqdn [97])"
    "dial_begins (demo_key 3 Recv_err Send_err) 4 (fds_of w)"
    "kr_malloc (snd (demo_key f r s)) \<and> kr_pthread (snd (demo_key f r s)) \<noteq> -1" for f r s
    using w(3) by (simp_all add: failing_key_def demo_key_def dial_begins_def selector_fd_set_nio_def ECONNREFUSED_def)
  from name_failover [OF w(2) keys(2) _ _ _ _ _ keys(3), where dport = "[0, 80]" and rsv = 0 and n = 10
      and pre = "[\<lparr>ai_family = 2, ai_addr = replicate 16 1\<rparr>]" and a = "\<lparr>ai_family = 2, ai_addr = replicate 16 2\<rparr>"
      and post = "[]" and ok = True and ts = "[(failing_key 4 ECONNREFUSED, 4)]"
      and ?k1.0 = "demo_key 3 (Recv_data (request_message socks_req_cmd_connect 0 (Dest_fqdn [97]) [0, 80])) Send_err"
      and ?k3.0 = "demo_key 4 Recv_err Send_err" and ?k4.0 = "demo_key 3 Recv_err (Send_ok 10)"] w(1,3) keys(1,4)
  show ?thesis by (auto simp: demo_sockopt simp del: attempts.simps run_events.simps)
qed

section \<open>Relaying\<close>

text \<open>C1. The proxy relays faithfully: over any sequence of events of a connection in COPY, in each
  direction the bytes handed to one socket followed by the bytes still buffered are the bytes that were
  buffered at the start followed by the bytes taken from the other socket, in order, with none lost,
  repeated or changed, whatever the sockets, the disector and the other connections do.\<close>

theorem relay_faithful:
  assumes "reach w" "stm_current (get_stm w) = Some COPY" "client_fd (cw_conn w) \<noteq> origin_fd (cw_conn w)"
    and "copying w w'"
  shows "\<exists>ext. cw_out w' = cw_out w @ ext \<and>
     buffer_bytes (read_buffer (cw_conn w)) @ received (client_fd (cw_conn w)) ext =
       sent (origin_fd (cw_conn w)) ext @ buffer_bytes (read_buffer (cw_conn w')) \<and>
     buffer_bytes (write_buffer (cw_conn w)) @ received (origin_fd (cw_conn w)) ext =
       sent (client_fd (cw_conn w)) ext @ buffer_bytes (write_buffer (cw_conn w'))"
  using copying_relayed [OF assms(4) shape.reach_holds [OF assms(1)] assms(3)] by (auto simp: relayed_def)

theorem relay_faithful_witness:
  "\<exists>w w' ext. reach w \<and> copying w w' \<and> cw_out w' = cw_out w @ ext \<and> received 3 ext = [71, 69] \<and>
     buffer_bytes (read_buffer (cw_conn w)) @ received 3 ext = sent 4 ext @ buffer_bytes (read_buffer (cw_conn w'))"
proof -
  obtain w where w: "reach w" "relaying 3 4 w" by (rule demo_relaying)
  let ?k = "demo_key 3 (Recv_data [71, 69]) Send_err"
  have copy: "stm_current (get_stm w) = Some COPY" "client_fd (cw_conn w) = 3" "origin_fd (cw_conn w) = 4"
    "buffer_space (read_buffer (cw_conn w)) = RAW_BUFFER_SIZE"
    using w(2) by (auto simp: relaying_def conn_idle_def bufs_ok_def intro: buf_ok_space)
  obtain w' where w': "socksv5_read ?k w = Inr w'" "cw_out w' = cw_out w @ [Ev_recv 3 [71, 69]]"
    by (rule event_copy_read [OF relaying_pumping [OF w(2)], where sd = Client_side and k = ?k and xs = "[71, 69]"])
      (use copy in \<open>simp_all add: RAW_BUFFER_SIZE_def\<close>)
  have "copying w w'" by (rule copying_event [OF copying_start copy(1), where k = ?k]) (simp add: w'(1))
  from relay_faithful [OF w(1) copy(1) _ this] obtain ext where "cw_out w' = cw_out w @ ext"
    "buffer_bytes (read_buffer (cw_conn w)) @ received 3 ext = sent 4 ext @ buffer_bytes (read_buffer (cw_conn w'))"
    using copy(2,3) by auto
  with w(1) w'(2) \<open>copying w w'\<close> show ?thesis by (intro exI [of _ w] exI [of _ w'] exI [of _ ext]) auto
qed



text \<open>C38. A peer that finishes while the other is slow loses the end of its stream: the handler shuts the
  other socket down for writing and stops watching it for writing although the buffer still holds bytes
  for it.\<close>

theorem half_close_strands:
  assumes "pumping w" "held sd w \<noteq> []" "key_fd (fst k) = fd_at sd w" "kr_recv (snd k) = Recv_eof"
  shows "\<exists>w' i. socksv5_read k w = Inr w' \<and> held sd w' = held sd w \<and>
     cw_out w' = cw_out w @ [Ev_shutdown (fd_at sd w) SHUT_RD, Ev_shutdown (fd_at (other_side sd) w) SHUT_WR] \<and>
     stm_current (get_stm w') = Some COPY \<and> interest_of (cw_sel w') (fd_at (other_side sd) w) = Some i \<and> i AND OP_WRITE = 0"
proof -
  obtain w' where w': "socksv5_read k w = Inr w'" "half_closed sd w'" "held sd w' = held sd w" "same_fds w w'"
    "cw_out w' = cw_out w @ [Ev_shutdown (fd_at sd w) SHUT_RD, Ev_shutdown (fd_at (other_side sd) w) SHUT_WR]"
    by (rule event_copy_eof [OF assms(1,3)]) (use assms(4) in simp_all)
  have "stm_current (get_stm w') = Some COPY" "\<exists>i. interest_of (cw_sel w') (fd_at (other_side sd) w') = Some i \<and> i AND OP_WRITE = 0"
    using w'(2) by (auto simp: half_closed_def)
  with w' same_fds_at [OF w'(4)] show ?thesis by auto
qed

theorem half_close_strands_witness:
  "\<exists>w w'. reach w \<and> buffer_bytes (read_buffer (cw_conn w)) = [71, 69] \<and>
     socksv5_read (demo_key 3 Recv_eof Send_err) w = Inr w' \<and> buffer_bytes (read_buffer (cw_conn w')) = [71, 69] \<and>
     Ev_shutdown 4 SHUT_WR \<in> set (cw_out w')"
proof -
  obtain w0 where w0: "reach w0" "relaying 3 4 w0" by (rule demo_relaying)
  have fds: "fd_at Client_side w0 = 3" "fd_at Origin_side w0 = 4" "held Client_side w0 = []" "cw_life w0 = Alive"
    "buffer_space (read_buffer (cw_conn w0)) = RAW_BUFFER_SIZE"
    using w0(2) by (auto simp: relaying_def conn_idle_def bufs_ok_def intro: buf_ok_space)
  obtain w where w: "socksv5_read (demo_key 3 (Recv_data [71, 69]) Send_err) w0 = Inr w" "pumping w"
    "held Client_side w = [71, 69]" "same_fds w0 w"
    by (rule event_copy_read [OF relaying_pumping [OF w0(2)], where sd = Client_side and xs = "[71, 69]" and
          k = "demo_key 3 (Recv_data [71, 69]) Send_err"]) (use fds in \<open>simp_all add: RAW_BUFFER_SIZE_def\<close>)
  have "reach w" using w0(1) fds(4) w(1) by (rule reach_read)
  moreover have "client_fd (cw_conn w) = 3" "origin_fd (cw_conn w) = 4" using w(4) fds(1,2) by (simp_all add: same_fds_def)
  with half_close_strands [OF w(2), of Client_side "demo_key 3 Recv_eof Send_err"] w(3)
  obtain w' where "socksv5_read (demo_key 3 Recv_eof Send_err) w = Inr w'" "held Client_side w' = [71, 69]"
    "Ev_shutdown 4 SHUT_WR \<in> set (cw_out w')"
    by auto
  ultimately show ?thesis using w(3) by auto
qed

end
